(* ===== verification/Prelude.thy ===== *)
theory Prelude
  imports Main "HOL-Library.Word"
begin

text \<open>
  The vocabulary every component shares: the C integer types, the ways a C function can
  stop without returning (\<open>fault\<close>), the sequencing of statements that may stop
  (\<open>bindE\<close>), array reads and writes with their bounds, and the collections of facts
  the component proofs are built from.
\<close>

declare One_nat_def [simp del]

type_synonym u8 = "8 word"
type_synonym u16 = "16 word"
type_synonym u32 = "32 word"
type_synonym u64 = "64 word"

text \<open>
  A C function of the program either returns (\<open>Inr\<close>) or stops (\<open>Inl\<close>): by
  calling \<open>exit\<close>, by dereferencing a null pointer, by reading or writing an array
  out of its bounds, by a shift whose count is not below the width (undefined in C), by the use
  of a local variable that was not set, or not
  at all: \<open>Diverge\<close> is the result of a loop whose fuel runs out.
\<close>

datatype fault = Exit int | NullDeref | OutOfBounds | ShiftCount | Uninit | Diverge

type_synonym 'a c = "fault + 'a"

fun bindE :: "'a c \<Rightarrow> ('a \<Rightarrow> 'b c) \<Rightarrow> 'b c" where
  "bindE (Inl e) f = Inl e"
| "bindE (Inr x) f = f x"

text \<open>
  \<open>yields m Q\<close>: whatever \<open>m\<close> returns satisfies \<open>Q\<close> (nothing is said of a fault). The rules
  of the collection \<open>yields_intros\<close> split a statement sequence into its parts.
\<close>

definition yields :: "'a c \<Rightarrow> ('a \<Rightarrow> bool) \<Rightarrow> bool" where
  "yields m Q \<longleftrightarrow> (\<forall>x. m = Inr x \<longrightarrow> Q x)"

named_theorems yields_intros \<open>rules for what a computation yields\<close>

lemma yieldsD: "yields m Q \<Longrightarrow> m = Inr x \<Longrightarrow> Q x"
  by (simp add: yields_def)

lemma yields_simps [simp]: "yields (Inr x) Q \<longleftrightarrow> Q x" "yields (Inl e) Q"
  by (simp_all add: yields_def)

lemma yields_bind [yields_intros]: "yields m (\<lambda>x. yields (f x) Q) \<Longrightarrow> yields (bindE m f) Q"
  by (cases m) (simp_all add: yields_def)

lemma bind_yields: "(\<And>x. yields (f x) Q) \<Longrightarrow> yields (bindE m f) Q"
  by (cases m) auto

lemma yields_mono: "yields m P \<Longrightarrow> (\<And>x. P x \<Longrightarrow> Q x) \<Longrightarrow> yields m Q"
  by (simp add: yields_def)

lemma yields_conj: "yields m P \<Longrightarrow> yields m Q \<Longrightarrow> yields m (\<lambda>x. P x \<and> Q x)"
  by (simp add: yields_def)

lemma bindE_Inr_iff: "bindE m f = Inr y \<longleftrightarrow> (\<exists>x. m = Inr x \<and> f x = Inr y)"
  by (cases m) auto

lemma bindE_Inl_iff: "bindE m f = Inl e \<longleftrightarrow> m = Inl e \<or> (\<exists>x. m = Inr x \<and> f x = Inl e)"
  by (cases m) auto

lemma bindE_assoc: "bindE (bindE m f) g = bindE m (\<lambda>x. bindE (f x) g)"
  by (cases m) auto

lemma bindE_cong [fundef_cong]:
  "m = m' \<Longrightarrow> (\<And>x. m' = Inr x \<Longrightarrow> f x = f' x) \<Longrightarrow> bindE m f = bindE m' f'"
  by (cases m') auto

text \<open>
  \<open>safe m Q\<close>: \<open>m\<close> comes to an end, and what it returns satisfies \<open>Q\<close>. A fault other than
  \<open>Diverge\<close> is an end too.
\<close>

definition safe :: "'a c \<Rightarrow> ('a \<Rightarrow> bool) \<Rightarrow> bool" where
  "safe m Q \<longleftrightarrow> m \<noteq> Inl Diverge \<and> yields m Q"

lemma safe_simps [simp]: "safe (Inr x) Q \<longleftrightarrow> Q x" "safe (Inl e) Q \<longleftrightarrow> e \<noteq> Diverge"
  by (simp_all add: safe_def)

lemma safe_bind: "safe m (\<lambda>x. safe (f x) Q) \<Longrightarrow> safe (bindE m f) Q"
  by (cases m) simp_all

lemma safe_mono: "safe m P \<Longrightarrow> (\<And>x. P x \<Longrightarrow> Q x) \<Longrightarrow> safe m Q"
  by (auto simp: safe_def elim: yields_mono)

lemma safe_step: "safe m P \<Longrightarrow> (\<And>x. P x \<Longrightarrow> safe (f x) Q) \<Longrightarrow> safe (bindE m f) Q"
  by (rule safe_bind, erule safe_mono)

text \<open>Array accesses by an unsigned and by a signed index.\<close>

definition at :: "'a list \<Rightarrow> nat \<Rightarrow> 'a c" where
  "at xs n = (if n < length xs then Inr (xs ! n) else Inl OutOfBounds)"

definition put_at :: "'a list \<Rightarrow> nat \<Rightarrow> 'a \<Rightarrow> 'a list c" where
  "put_at xs n x = (if n < length xs then Inr (xs[n := x]) else Inl OutOfBounds)"

definition at_int :: "'a list \<Rightarrow> int \<Rightarrow> 'a c" where
  "at_int xs i = (if 0 \<le> i \<and> i < int (length xs) then Inr (xs ! nat i) else Inl OutOfBounds)"

lemma at_simps [simp]:
  "n < length xs \<Longrightarrow> at xs n = Inr (xs ! n)"
  "\<not> n < length xs \<Longrightarrow> at xs n = Inl OutOfBounds"
  by (simp_all add: at_def)

lemma at_Inr_iff: "at xs n = Inr x \<longleftrightarrow> n < length xs \<and> x = xs ! n"
  by (auto simp: at_def)

lemma safe_at [simp]: "safe (at xs n) Q \<longleftrightarrow> (n < length xs \<longrightarrow> Q (xs ! n))"
  by (simp add: at_def)

lemma safe_put_at [simp]: "safe (put_at xs n x) Q \<longleftrightarrow> (n < length xs \<longrightarrow> Q (xs[n := x]))"
  by (simp add: put_at_def)

lemma safe_at_int [simp]: "safe (at_int xs i) Q \<longleftrightarrow> (0 \<le> i \<and> i < int (length xs) \<longrightarrow> Q (xs ! nat i))"
  by (auto simp: at_int_def)

lemma put_at_simps [simp]:
  "n < length xs \<Longrightarrow> put_at xs n x = Inr (xs[n := x])"
  "\<not> n < length xs \<Longrightarrow> put_at xs n x = Inl OutOfBounds"
  by (simp_all add: put_at_def)

lemma put_at_Inr_iff: "put_at xs n x = Inr ys \<longleftrightarrow> n < length xs \<and> ys = xs[n := x]"
  by (auto simp: put_at_def)

lemma at_int_Inr_iff:
  "at_int xs i = Inr x \<longleftrightarrow> 0 \<le> i \<and> i < int (length xs) \<and> x = xs ! nat i"
  by (auto simp: at_int_def)

end
