(* ===== verification/GlobalStruct.thy ===== *)
theory GlobalStruct
  imports Prelude
begin

text \<open>
  The data of \<open>include/global_struct.h\<close> and \<open>include/opcodes.h\<close>: the RTL opcodes, the
  operands and instructions, the memory records of the executor, the nodes, paths and
  loops of the analyser and the labels. A C \<open>int\<close> is an \<open>int\<close>, an unsigned integer
  is a word of its width, and an array with its size field is a list. Fields that no
  code under \<open>libbeauty/src\<close> of the modelled components reads or writes (the
  \<open>value_signed\<close> family of \<open>memory_s\<close>, the \<open>extension\<close> pointer, the type inference
  and phi tables) are left out.
\<close>

section \<open>Opcodes\<close>

datatype opcode =
    OP_NONE | OP_MOV | OP_ADD | OP_ADC | OP_SUB | OP_SBB | OP_OR | OP_XOR | OP_AND | OP_NOT
  | OP_TEST | OP_NEG | OP_CMP | OP_MUL | OP_IMUL | OP_DIV | OP_IDIV | OP_JMP | OP_CALL | OP_IF
  | OP_ROL | OP_ROR | OP_RCL | OP_RCR | OP_SHL | OP_SHR | OP_SAL | OP_SAR | OP_IN | OP_OUT
  | OP_RET | OP_SEX | OP_JMPT | OP_CALLT | OP_PHI | OP_ICMP | OP_BC | OP_LOAD | OP_STORE
  | OP_LEA | OP_CMOV | OP_DEC | OP_INC | OP_POP | OP_PUSH | OP_LEAVE | OP_NOP | OP_GEP1
  | OP_CALLM | OP_SETCC | OP_JMPM | OP_MOVS | OP_IMULD | OP_MULD | OP_TRUNC | OP_ZEXT

text \<open>The numbers the \<open>#define\<close>s give the opcodes: \<open>0x00\<close> to \<open>0x37\<close>, in this order.\<close>

definition all_opcodes :: "opcode list" where
  "all_opcodes =
   [OP_NONE, OP_MOV, OP_ADD, OP_ADC, OP_SUB, OP_SBB, OP_OR, OP_XOR, OP_AND, OP_NOT,
    OP_TEST, OP_NEG, OP_CMP, OP_MUL, OP_IMUL, OP_DIV, OP_IDIV, OP_JMP, OP_CALL, OP_IF,
    OP_ROL, OP_ROR, OP_RCL, OP_RCR, OP_SHL, OP_SHR, OP_SAL, OP_SAR, OP_IN, OP_OUT,
    OP_RET, OP_SEX, OP_JMPT, OP_CALLT, OP_PHI, OP_ICMP, OP_BC, OP_LOAD, OP_STORE,
    OP_LEA, OP_CMOV, OP_DEC, OP_INC, OP_POP, OP_PUSH, OP_LEAVE, OP_NOP, OP_GEP1,
    OP_CALLM, OP_SETCC, OP_JMPM, OP_MOVS, OP_IMULD, OP_MULD, OP_TRUNC, OP_ZEXT]"

section \<open>Operands and instructions\<close>

text \<open>
  \<open>store\<close> takes the values of the enum \<open>STORE_DIRECT\<close>, \<open>STORE_REG\<close> and the third one
  the comment of \<open>operand_s\<close> documents (an immediate pointer).
\<close>

datatype store_kind = STORE_DIRECT | STORE_REG | STORE_PTR

datatype indirect_kind = IND_DIRECT | IND_MEM | IND_STACK | IND_IO

record operand_s =
  store :: store_kind
  relocated :: int
  relocated_area :: int
  relocated_index :: int
  indirect :: indirect_kind
  indirect_size :: int
  index :: u64
  op_value :: u64
  value_size :: int

record instruction_s =
  opcode :: opcode
  flags :: int
  predicate :: int
  srcA :: operand_s
  srcB :: operand_s
  dstA :: operand_s

section \<open>The executor's memory\<close>

record memory_s =
  start_address :: u64
  mem_length :: int
  init_value_type :: int
  init_value :: u64
  offset_value :: u64
  indirect_init_value :: u64
  indirect_offset_value :: u64
  value_type :: int
  ref_memory :: u32
  ref_log :: u32
  value_scope :: int
  value_id :: u64
  mem_valid :: u64

text \<open>A zeroed record, as \<open>calloc\<close> leaves it.\<close>

definition zero_memory :: memory_s where
  "zero_memory =
     \<lparr>start_address = 0, mem_length = 0, init_value_type = 0, init_value = 0,
      offset_value = 0, indirect_init_value = 0, indirect_offset_value = 0, value_type = 0,
      ref_memory = 0, ref_log = 0, value_scope = 0, value_id = 0, mem_valid = 0\<rparr>"

record process_state_s =
  memory_text :: "memory_s list"
  memory_stack :: "memory_s list"
  memory_reg :: "memory_s list"
  memory_data :: "memory_s list"
  memory_used :: "int list"

record inst_log_entry_s =
  instruction :: instruction_s
  prev :: "int list"
  next_inst :: "int list"
  value1 :: memory_s
  value2 :: memory_s
  value3 :: memory_s
  node_start :: int
  node_member :: int
  node_end :: int

record entry_point_s =
  used :: int
  esp_init_value :: u64
  esp_offset_value :: u64
  ebp_init_value :: u64
  ebp_offset_value :: u64
  eip_init_value :: u64
  eip_offset_value :: u64
  previous_instuction :: u64

section \<open>The analyser's graph\<close>

record loop_s =
  head :: int
  nest :: int
  loop_multi_exit :: int
  loop_list :: "int list"

record path_s =
  path_used :: int
  path_prev :: int
  path_prev_index :: int
  path_size :: int
  path_type :: int
  path_loop_head :: int
  path :: "int list"

record node_mid_start_s =
  mid_path_prev :: int
  mid_path_prev_index :: int
  mid_node :: int

record node_link_s =
  link_node :: int
  is_normal :: int
  is_loop_edge :: int
  is_loop_exit :: int
  is_loop_entry :: int

record control_flow_node_s =
  node_valid :: int
  entry_point_of :: int
  inst_start :: int
  inst_end :: int
  prev_node :: "int list"
  prev_link_index :: "int list"
  link_next :: "node_link_s list"
  dominator :: int
  node_type :: int
  loop_head :: int
  if_tail :: int
  node_path :: "int list"
  looped_path :: "int list"
  member_of_loop :: "int list"
  depth :: int
  multi_exit :: int

record label_redirect_s =
  redirect :: u64

record label_s =
  scope :: u64
  label_type :: u64
  label_value :: u64
  size_bits :: u64
  lab_pointer :: u64
  tip_size :: int

record external_entry_point_s =
  eep_valid :: int
  eep_type :: int
  eep_value :: u64
  eep_name :: string
  reg_params_size :: int
  param_reg_label :: "int list"
  params :: "int list"
  locals :: "int list"
  eep_nodes :: "control_flow_node_s list"
  eep_paths :: "path_s list"
  eep_loops :: "loop_s list"
  label_redirect :: "label_redirect_s list"
  labels :: "label_s list"

record self_s =
  data_size :: u64
  data :: "u8 list"
  inst_log_entry :: "inst_log_entry_s list"
  external_entry_points :: "external_entry_point_s list"
  entry_point :: "entry_point_s list"

section \<open>Constants\<close>

definition REG_IP :: u64 where "REG_IP = 0x48"
definition EXTERNAL_ENTRY_POINTS_MAX :: nat where "EXTERNAL_ENTRY_POINTS_MAX = 1000"
definition PATH_TYPE_UNKNOWN :: int where "PATH_TYPE_UNKNOWN = 0"
definition PATH_TYPE_LOOP :: int where "PATH_TYPE_LOOP = 1"
definition NODE_TYPE_UNKNOWN :: int where "NODE_TYPE_UNKNOWN = 0"
definition NODE_TYPE_LOOP :: int where "NODE_TYPE_LOOP = 1"
definition NODE_TYPE_IF_THEN_ELSE :: int where "NODE_TYPE_IF_THEN_ELSE = 2"
definition NODE_TYPE_IF_THEN_GOTO :: int where "NODE_TYPE_IF_THEN_GOTO = 3"
definition NODE_TYPE_NORMAL :: int where "NODE_TYPE_NORMAL = 4"
definition NODE_TYPE_LOOP_THEN_ELSE :: int where "NODE_TYPE_LOOP_THEN_ELSE = 5"
definition NODE_TYPE_JMPT :: int where "NODE_TYPE_JMPT = 6"

lemmas node_type_defs = NODE_TYPE_UNKNOWN_def NODE_TYPE_LOOP_def NODE_TYPE_IF_THEN_ELSE_def
  NODE_TYPE_IF_THEN_GOTO_def NODE_TYPE_NORMAL_def NODE_TYPE_LOOP_THEN_ELSE_def
  NODE_TYPE_JMPT_def

text \<open>The absolute value a record stands for: \<open>init_value + offset_value\<close>.\<close>

definition abs_value :: "memory_s \<Rightarrow> u64" where
  "abs_value m = init_value m + offset_value m"

end
