(* ===== verification/Store.thy ===== *)
theory Store
  imports GlobalStruct
begin

text \<open>
  The memory tables of \<open>src/execute/exe.c\<close>: an array of \<open>memory_s\<close> records whose used
  part is the prefix of records with \<open>valid == 1\<close>. A pointer into a table is the index
  of its record.
\<close>

section \<open>The operations\<close>

text \<open>\<open>(size_bits + 7) >> 3\<close>: bits to bytes, rounded up.\<close>

definition bytes_of_bits :: "int \<Rightarrow> int" where
  "bytes_of_bits bits = (bits + 7) div 8"

text \<open>The loop of \<open>read_data\<close>, from byte \<open>n - 1\<close> down to byte \<open>0\<close>.\<close>

fun read_data_loop :: "self_s \<Rightarrow> u64 \<Rightarrow> nat \<Rightarrow> u64 \<Rightarrow> u64 c" where
  "read_data_loop self offset 0 tmp = Inr tmp"
| "read_data_loop self offset (Suc n) tmp =
     bindE (at (data self) (unat (of_nat n + offset))) (\<lambda>byte.
       read_data_loop self offset n (or (push_bit 8 tmp) (ucast byte)))"

definition read_data :: "self_s \<Rightarrow> u64 \<Rightarrow> int \<Rightarrow> u64 c" where
  "read_data self offset bits =
     (let n_bytes = bytes_of_bits bits;
          limit = offset + word_of_int n_bytes - 1
      in if limit \<le> data_size self then read_data_loop self offset (nat n_bytes) 0
         else Inr 0)"

text \<open>
  The loop of \<open>search_store\<close> and \<open>add_new_store\<close>: the records are scanned until one with
  \<open>valid\<close> other than 1. \<open>Inl n\<close> is the first free record, \<open>Inr n\<close> the record found.
\<close>

fun scan_table :: "memory_s list \<Rightarrow> nat \<Rightarrow> u64 \<Rightarrow> (nat + nat) c" where
  "scan_table [] n start = Inl OutOfBounds"
| "scan_table (m # ms) n start =
     (if mem_valid m = 1 then
        (if start = start_address m then Inr (Inr n) else scan_table ms (Suc n) start)
      else Inr (Inl n))"

definition search_store :: "memory_s list \<Rightarrow> u64 \<Rightarrow> int \<Rightarrow> nat option c" where
  "search_store memory ix bits =
     bindE (scan_table memory 0 ix) (\<lambda>r.
       case r of Inr n \<Rightarrow> Inr (Some n) | Inl _ \<Rightarrow> Inr None)"

definition new_record :: "memory_s \<Rightarrow> u64 \<Rightarrow> int \<Rightarrow> memory_s" where
  "new_record m ix len = m\<lparr>start_address := ix, mem_length := len, init_value_type := 0,
     init_value := 0, offset_value := 0, value_type := 0, ref_memory := 0, ref_log := 0,
     value_scope := 0, value_id := 1, mem_valid := 1\<rparr>"

definition add_new_store :: "memory_s list \<Rightarrow> u64 \<Rightarrow> int \<Rightarrow> (memory_s list \<times> nat option) c" where
  "add_new_store memory ix bits =
     bindE (scan_table memory 0 ix) (\<lambda>r.
       case r of
         Inr n \<Rightarrow> Inr (memory, None)
       | Inl n \<Rightarrow> Inr (memory[n := new_record (memory ! n) ix (bytes_of_bits bits)], Some n))"

text \<open>\<open>print_store\<close> prints nothing the model keeps, but reads up to the first free record.\<close>

fun print_store :: "memory_s list \<Rightarrow> unit c" where
  "print_store [] = Inl OutOfBounds"
| "print_store (m # ms) = (if mem_valid m = 1 then print_store ms else Inr ())"

section \<open>Well-formed tables and their abstraction\<close>

definition entries :: "memory_s list \<Rightarrow> memory_s list" where
  "entries mem = takeWhile (\<lambda>m. mem_valid m = 1) mem"

definition free_slots :: "memory_s list \<Rightarrow> nat" where
  "free_slots mem = length mem - length (entries mem)"

text \<open>
  A table is well formed when its addresses are distinct, when no record behind the used
  prefix is valid, and when at least one free record ends the scans.
\<close>

definition wf_table :: "memory_s list \<Rightarrow> bool" where
  "wf_table mem \<longleftrightarrow> distinct (map start_address (entries mem)) \<and> 0 < free_slots mem \<and>
     (\<forall>m \<in> set (drop (length (entries mem)) mem). mem_valid m \<noteq> 1)"

text \<open>The abstract view: a finite map from addresses to records.\<close>

definition table_map :: "memory_s list \<Rightarrow> u64 \<Rightarrow> memory_s option" where
  "table_map mem = map_of (map (\<lambda>m. (start_address m, m)) (entries mem))"

lemma table_split:
  "mem = entries mem @ drop (length (entries mem)) mem"
  unfolding entries_def by (metis takeWhile_eq_take append_take_drop_id)

lemma entries_valid: "m \<in> set (entries mem) \<Longrightarrow> mem_valid m = 1"
  unfolding entries_def by (auto dest: set_takeWhileD)

lemma length_entries_le: "length (entries mem) \<le> length mem"
  unfolding entries_def by (rule length_takeWhile_le)

lemma nth_entries: "n < length (entries mem) \<Longrightarrow> entries mem ! n = mem ! n"
  unfolding entries_def by (rule takeWhile_nth)

lemma wf_table_length: "wf_table mem \<Longrightarrow> length (entries mem) < length mem"
  by (simp add: wf_table_def free_slots_def)

lemma wf_tableI:
  assumes "mem = es @ m # fs" "\<forall>x \<in> set es. mem_valid x = 1"
    "\<forall>x \<in> set (m # fs). mem_valid x \<noteq> 1" "distinct (map start_address es)"
  shows "wf_table mem" and "entries mem = es" and "free_slots mem = Suc (length fs)"
proof -
  have "takeWhile (\<lambda>m. mem_valid m = 1) mem = es"
    using assms(1-3) by (simp add: takeWhile_tail)
  then show e: "entries mem = es" by (simp add: entries_def)
  from e assms(1) show f: "free_slots mem = Suc (length fs)" by (simp add: free_slots_def)
  show "wf_table mem" using e f assms by (simp add: wf_table_def)
qed

lemma wf_tableE:
  assumes "wf_table mem"
  obtains es m fs where "mem = es @ m # fs" "entries mem = es"
    "\<forall>x \<in> set es. mem_valid x = 1" "\<forall>x \<in> set (m # fs). mem_valid x \<noteq> 1"
    "distinct (map start_address es)"
proof -
  let ?fs = "drop (length (entries mem)) mem"
  have "?fs \<noteq> []" using wf_table_length [OF assms] by simp
  then obtain m fs where fs: "?fs = m # fs" by (cases ?fs) auto
  have "mem = entries mem @ m # fs" using table_split [of mem] fs by simp
  moreover have "\<forall>x \<in> set (m # fs). mem_valid x \<noteq> 1" "distinct (map start_address (entries mem))"
    using assms fs by (auto simp: wf_table_def)
  ultimately show thesis using that entries_valid by blast
qed

section \<open>Functional behaviour of the scans\<close>

lemma map_eq_by_Some: "(\<And>a y. f a = Some y \<longleftrightarrow> g a = Some y) \<Longrightarrow> f = g"
  by (rule ext) (metis option.exhaust)

lemma scan_table_found:
  assumes "\<forall>x \<in> set es. mem_valid x = 1" "n < length es" "start_address (es ! n) = a"
    "distinct (map start_address es)"
  shows "scan_table (es @ fs) k a = Inr (Inr (k + n))"
  using assms
proof (induction es arbitrary: k n)
  case Nil
  then show ?case by simp
next
  case (Cons e es)
  show ?case
  proof (cases n)
    case 0
    with Cons.prems show ?thesis by simp
  next
    case (Suc n')
    from Cons.prems Suc have "es ! n' \<in> set es" by simp
    then have "start_address e \<noteq> a"
      using Cons.prems Suc by (metis distinct.simps(2) imageI list.set_map list.simps(9)
          nth_Cons_Suc)
    with Cons Suc show ?thesis by simp
  qed
qed

lemma scan_table_free:
  assumes "\<forall>x \<in> set es. mem_valid x = 1" "a \<notin> start_address ` set es" "mem_valid m \<noteq> 1"
  shows "scan_table (es @ m # fs) k a = Inr (Inl (k + length es))"
  using assms by (induction es arbitrary: k) auto

lemma table_map_Some_set:
  assumes "wf_table mem"
  shows "table_map mem a = Some m \<longleftrightarrow> m \<in> set (entries mem) \<and> start_address m = a"
proof -
  have d: "distinct (map fst (map (\<lambda>m. (start_address m, m)) (entries mem)))"
    using assms by (simp add: wf_table_def comp_def)
  show ?thesis unfolding table_map_def using map_of_eq_Some_iff [OF d] by auto
qed

lemma table_map_Some_iff:
  assumes "wf_table mem"
  shows "table_map mem a = Some m \<longleftrightarrow>
    (\<exists>n < length (entries mem). mem ! n = m \<and> start_address m = a)"
proof -
  have "table_map mem a = Some m \<longleftrightarrow> m \<in> set (entries mem) \<and> start_address m = a"
    by (rule table_map_Some_set [OF assms])
  also have "\<dots> \<longleftrightarrow> (\<exists>n < length (entries mem). mem ! n = m \<and> start_address m = a)"
    by (auto simp: in_set_conv_nth nth_entries)
  finally show ?thesis .
qed

lemma table_map_None_iff:
  "table_map mem a = None \<longleftrightarrow> a \<notin> start_address ` set (entries mem)"
  unfolding table_map_def by (force simp: map_of_eq_None_iff)

lemma scan_Some:
  assumes "wf_table mem" "n < length (entries mem)" "start_address (mem ! n) = a"
  shows "scan_table mem 0 a = Inr (Inr n)"
proof -
  obtain es m fs where es: "mem = es @ m # fs" "entries mem = es"
    "\<forall>x \<in> set es. mem_valid x = 1" "distinct (map start_address es)"
    using wf_tableE [OF assms(1)] by metis
  have "start_address (es ! n) = a" using assms es by (simp add: nth_append)
  with es assms(2) have "scan_table mem 0 a = Inr (Inr (0 + n))"
    by (simp only: es(1)) (rule scan_table_found, auto)
  then show ?thesis by simp
qed

lemma search_store_Some:
  assumes "wf_table mem" "n < length (entries mem)" "start_address (mem ! n) = a"
  shows "search_store mem a s = Inr (Some n)"
  using scan_Some [OF assms] by (simp add: search_store_def)

lemma scan_None:
  assumes "wf_table mem" "table_map mem a = None"
  shows "scan_table mem 0 a = Inr (Inl (length (entries mem)))"
proof -
  obtain es m fs where es: "mem = es @ m # fs" "entries mem = es"
    "\<forall>x \<in> set es. mem_valid x = 1" "\<forall>x \<in> set (m # fs). mem_valid x \<noteq> 1"
    using wf_tableE [OF assms(1)] by metis
  have "scan_table (es @ m # fs) 0 a = Inr (Inl (0 + length es))"
    by (rule scan_table_free) (use es assms(2) in \<open>auto simp: table_map_None_iff\<close>)
  with es show ?thesis by simp
qed

lemma search_store_None:
  assumes "wf_table mem" "table_map mem a = None"
  shows "search_store mem a s = Inr None"
  using scan_None [OF assms] by (simp add: search_store_def)

lemma search_store_total:
  assumes "wf_table mem"
  shows "(table_map mem a = None \<and> search_store mem a s = Inr None) \<or>
    (\<exists>n < length (entries mem). search_store mem a s = Inr (Some n) \<and>
       table_map mem a = Some (mem ! n) \<and> start_address (mem ! n) = a)"
proof (cases "table_map mem a")
  case None
  with search_store_None [OF assms] show ?thesis by blast
next
  case (Some m)
  then obtain n where "n < length (entries mem)" "mem ! n = m" "start_address m = a"
    using table_map_Some_iff [OF assms] by blast
  with Some search_store_Some [OF assms] show ?thesis by blast
qed

lemma search_store_live:
  assumes "wf_table mem" "search_store mem a s = Inr (Some n)"
  shows "n < length (entries mem)" "start_address (mem ! n) = a"
    "table_map mem a = Some (mem ! n)"
  using search_store_total [OF assms(1), of a s] assms(2) by auto

section \<open>Adding and changing records\<close>

lemma new_record_simps [simp]:
  "start_address (new_record m a len) = a" "mem_valid (new_record m a len) = 1"
  by (simp_all add: new_record_def)

lemma add_new_store_new:
  assumes "wf_table mem" "table_map mem a = None"
  shows "add_new_store mem a s =
    Inr (mem[length (entries mem) := new_record (mem ! length (entries mem)) a (bytes_of_bits s)],
         Some (length (entries mem)))"
  using scan_None [OF assms] by (simp add: add_new_store_def)

lemma add_new_store_old:
  assumes "wf_table mem" "table_map mem a = Some m"
  shows "add_new_store mem a s = Inr (mem, None)"
proof -
  from assms(2) obtain n where n: "n < length (entries mem)" "start_address (mem ! n) = a"
    unfolding table_map_Some_iff [OF assms(1)] by auto
  show ?thesis using scan_Some [OF assms(1) n] by (simp add: add_new_store_def)
qed

lemma add_record:
  assumes "wf_table mem" "table_map mem (start_address x) = None" "mem_valid x = 1"
    and "2 \<le> free_slots mem"
  defines "mem' \<equiv> mem[length (entries mem) := x]"
  shows "wf_table mem'" and "entries mem' = entries mem @ [x]"
    and "free_slots mem' = free_slots mem - 1"
    and "table_map mem' = (table_map mem)(start_address x \<mapsto> x)"
proof -
  obtain es m fs where es: "mem = es @ m # fs" "entries mem = es"
    "\<forall>x \<in> set es. mem_valid x = 1" "\<forall>x \<in> set (m # fs). mem_valid x \<noteq> 1"
    "distinct (map start_address es)"
    using wf_tableE [OF assms(1)] by metis
  from es(1,2) assms(4) have "fs \<noteq> []" by (auto simp: free_slots_def)
  then obtain m' fs' where fs: "fs = m' # fs'" by (cases fs) auto
  have split: "mem' = (es @ [x]) @ m' # fs'" using es fs by (simp add: mem'_def)
  have new: "start_address x \<notin> start_address ` set es"
    using assms(2) es(2) by (simp add: table_map_None_iff)
  have wf: "wf_table mem' \<and> entries mem' = es @ [x] \<and> free_slots mem' = Suc (length fs')"
    using wf_tableI [OF split] es fs assms(3) new by auto
  then show "wf_table mem'" and e: "entries mem' = entries mem @ [x]" by (simp_all only: es(2))
  have "free_slots mem = Suc (Suc (length fs'))"
    unfolding free_slots_def es(2) using es(1) fs by simp
  with wf show "free_slots mem' = free_slots mem - 1" by simp
  from wf have w: "wf_table mem'" by simp
  have new': "y \<in> set es \<Longrightarrow> start_address y \<noteq> start_address x" for y
    using new by (metis imageI)
  show "table_map mem' = (table_map mem)(start_address x \<mapsto> x)"
    by (rule map_eq_by_Some)
      (use new' es(2) in \<open>auto simp: table_map_Some_set [OF w] table_map_Some_set [OF assms(1)] e\<close>)
qed

lemma change_record:
  assumes "wf_table mem" "n < length (entries mem)"
    and "start_address x = start_address (mem ! n)" "mem_valid x = 1"
  shows "wf_table (mem[n := x])" and "entries (mem[n := x]) = (entries mem)[n := x]"
    and "free_slots (mem[n := x]) = free_slots mem"
    and "table_map (mem[n := x]) = (table_map mem)(start_address x \<mapsto> x)"
proof -
  obtain es m fs where es: "mem = es @ m # fs" "entries mem = es"
    "\<forall>x \<in> set es. mem_valid x = 1" "\<forall>x \<in> set (m # fs). mem_valid x \<noteq> 1"
    "distinct (map start_address es)"
    using wf_tableE [OF assms(1)] by metis
  have n: "n < length es" "es ! n = mem ! n" using assms(2) es by (auto simp: nth_append)
  have addrs: "map start_address (es[n := x]) = map start_address es"
    using n assms(3) by (metis list_update_id map_update nth_map)
  have split: "mem[n := x] = es[n := x] @ m # fs"
    using n es(1) by (simp add: list_update_append)
  have "\<forall>y \<in> set (es[n := x]). mem_valid y = 1"
    using es(3) assms(4) set_update_subset_insert by fastforce
  with wf_tableI [OF split] es(4,5) addrs
  have wf: "wf_table (mem[n := x]) \<and> entries (mem[n := x]) = es[n := x] \<and>
    free_slots (mem[n := x]) = Suc (length fs)" by simp
  then show w: "wf_table (mem[n := x])" and e: "entries (mem[n := x]) = (entries mem)[n := x]"
    by (simp_all only: es(2))
  show "free_slots (mem[n := x]) = free_slots mem" using wf es by (simp add: free_slots_def)
  have "distinct es" using es(5) by (simp add: distinct_map)
  then have set: "set (es[n := x]) = insert x (set es - {es ! n})"
    by (rule set_update_distinct) (rule n)
  have inj: "y \<in> set es \<Longrightarrow> start_address y = start_address (es ! n) \<Longrightarrow> y = es ! n" for y
    using es(5) n(1) by (metis distinct_map inj_onD nth_mem)
  show "table_map (mem[n := x]) = (table_map mem)(start_address x \<mapsto> x)"
    by (rule map_eq_by_Some)
      (use inj n assms(3) in \<open>auto simp: table_map_Some_set [OF w] table_map_Some_set [OF assms(1)]
         e es(2) set\<close>)
qed

section \<open>Records stay where they are\<close>

text \<open>
  A later state of a table: it has the same size, and every record in use is still in use, at
  its index and with its address.
\<close>

definition grows :: "memory_s list \<Rightarrow> memory_s list \<Rightarrow> bool" where
  "grows t t' \<longleftrightarrow> length t' = length t \<and> length (entries t) \<le> length (entries t') \<and>
     (\<forall>n < length (entries t). start_address (t' ! n) = start_address (t ! n))"

lemma grows_refl [simp]: "grows t t"
  by (simp add: grows_def)

lemma grows_trans [trans]: "grows r s \<Longrightarrow> grows s t \<Longrightarrow> grows r t"
  by (simp add: grows_def)

lemma grows_change:
  assumes "wf_table t" "n < length (entries t)" "start_address m = start_address (t ! n)" "mem_valid m = 1"
  shows "grows t (t[n := m])"
  using assms(2,3) length_entries_le [of t] by (auto simp: grows_def change_record(2) [OF assms] nth_list_update)

lemma grows_add:
  assumes "wf_table t" "table_map t (start_address x) = None" "mem_valid x = 1" "2 \<le> free_slots t"
  shows "grows t (t[length (entries t) := x])"
  using add_record(2) [OF assms] by (simp add: grows_def)

section \<open>Find or add\<close>

text \<open>
  \<open>exe.c\<close> asks for a record in the same way at every use: search, add a new record when
  there is none, set some of the new record up, and go on with the pointer.
\<close>

definition find_or_add ::
  "memory_s list \<Rightarrow> u64 \<Rightarrow> int \<Rightarrow> (memory_s list \<Rightarrow> nat option \<Rightarrow> memory_s list c) \<Rightarrow>
     (memory_s list \<times> nat option) c" where
  "find_or_add mem ix bits init =
     bindE (search_store mem ix bits) (\<lambda>v.
       case v of
         Some n \<Rightarrow> Inr (mem, Some n)
       | None \<Rightarrow>
           bindE (add_new_store mem ix bits) (\<lambda>(mem', v').
             bindE (init mem' v') (\<lambda>mem''. Inr (mem'', v'))))"

text \<open>Setting up through the pointer without a null check, with one, or not at all.\<close>

definition set_fields ::
  "(memory_s \<Rightarrow> memory_s) \<Rightarrow> memory_s list \<Rightarrow> nat option \<Rightarrow> memory_s list c" where
  "set_fields f mem v =
     (case v of None \<Rightarrow> Inl NullDeref | Some n \<Rightarrow> Inr (mem[n := f (mem ! n)]))"

definition set_fields_checked ::
  "(memory_s \<Rightarrow> memory_s) \<Rightarrow> memory_s list \<Rightarrow> nat option \<Rightarrow> memory_s list c" where
  "set_fields_checked f mem v =
     (case v of None \<Rightarrow> Inr mem | Some n \<Rightarrow> Inr (mem[n := f (mem ! n)]))"

section \<open>The interface of a memory table\<close>

text \<open>
  What the executor relies on: a search finds exactly the mapped addresses, adding extends
  the map at a new address and is refused at a mapped one, and writing a record through a
  pointer replaces the record at its address.
\<close>

locale memory_table =
  fixes lookup :: "'t \<Rightarrow> u64 \<Rightarrow> int \<Rightarrow> nat option c"
    and insert :: "'t \<Rightarrow> u64 \<Rightarrow> int \<Rightarrow> ('t \<times> nat option) c"
    and cell :: "'t \<Rightarrow> nat \<Rightarrow> memory_s"
    and set_cell :: "'t \<Rightarrow> nat \<Rightarrow> memory_s \<Rightarrow> 't"
    and live :: "'t \<Rightarrow> nat \<Rightarrow> bool"
    and view :: "'t \<Rightarrow> u64 \<Rightarrow> memory_s option"
    and room :: "'t \<Rightarrow> nat"
    and invar :: "'t \<Rightarrow> bool"
  assumes lookup_miss: "invar t \<Longrightarrow> view t a = None \<Longrightarrow> lookup t a s = Inr None"
    and lookup_hit: "invar t \<Longrightarrow> view t a = Some m \<Longrightarrow>
      \<exists>n. lookup t a s = Inr (Some n) \<and> live t n \<and> cell t n = m"
    and view_live: "invar t \<Longrightarrow> live t n \<Longrightarrow> view t (start_address (cell t n)) = Some (cell t n)"
    and view_address: "invar t \<Longrightarrow> view t a = Some m \<Longrightarrow> start_address m = a \<and> mem_valid m = 1"
    and insert_hit: "invar t \<Longrightarrow> view t a = Some m \<Longrightarrow> insert t a s = Inr (t, None)"
    and insert_miss: "invar t \<Longrightarrow> view t a = None \<Longrightarrow> 2 \<le> room t \<Longrightarrow>
      \<exists>t' n. insert t a s = Inr (t', Some n) \<and> invar t' \<and> live t' n \<and>
        start_address (cell t' n) = a \<and> room t' = room t - 1 \<and>
        view t' = (view t)(a \<mapsto> cell t' n)"
    and write_cell: "invar t \<Longrightarrow> live t n \<Longrightarrow> start_address m = start_address (cell t n) \<Longrightarrow>
      mem_valid m = 1 \<Longrightarrow>
      invar (set_cell t n m) \<and> live (set_cell t n m) n \<and> cell (set_cell t n m) n = m \<and>
      room (set_cell t n m) = room t \<and>
      view (set_cell t n m) = (view t)(start_address m \<mapsto> m)"
begin

lemma lookup_cases:
  assumes "invar t"
  obtains (miss) "view t a = None" "lookup t a s = Inr None"
  | (hit) n where "lookup t a s = Inr (Some n)" "live t n" "view t a = Some (cell t n)"
      "start_address (cell t n) = a"
  using assms lookup_miss lookup_hit view_address by (metis option.exhaust)

text \<open>
  Find or add: whatever the table holds at the address, the result is a live pointer to a
  record there, one free record is used up at most, and nothing changes elsewhere.
\<close>

lemma find_or_insert:
  assumes "invar t" "2 \<le> room t"
    and init: "\<And>t' n. live t' n \<Longrightarrow> init t' (Some n) = Inr (set_cell t' n (f (cell t' n)))"
    and f: "\<And>m. start_address (f m) = start_address m"
      "\<And>m. mem_valid m = 1 \<Longrightarrow> mem_valid (f m) = 1"
  shows "\<exists>t' n. bindE (lookup t a s) (\<lambda>v. case v of Some n \<Rightarrow> Inr (t, Some n)
      | None \<Rightarrow> bindE (insert t a s) (\<lambda>(t', v'). bindE (init t' v') (\<lambda>t''. Inr (t'', v'))))
        = Inr (t', Some n) \<and> invar t' \<and> live t' n \<and> start_address (cell t' n) = a \<and>
      room t - 1 \<le> room t' \<and> room t' \<le> room t \<and> view t' = (view t)(a \<mapsto> cell t' n) \<and>
      (\<forall>m. view t a = Some m \<longrightarrow> t' = t \<and> cell t' n = m)"
  using assms(1)
proof (cases rule: lookup_cases [where a = a and s = s])
  case miss
  obtain t' n where t': "insert t a s = Inr (t', Some n)" "invar t'" "live t' n"
    "start_address (cell t' n) = a" "room t' = room t - 1" "view t' = (view t)(a \<mapsto> cell t' n)"
    using insert_miss [OF assms(1) miss(1) assms(2)] by metis
  have "mem_valid (cell t' n) = 1" using view_address [OF t'(2), of a] t'(6) by simp
  then have "mem_valid (f (cell t' n)) = 1" by (rule f)
  with write_cell [OF t'(2,3), of "f (cell t' n)"] t' miss init f(1)
  show ?thesis by simp
next
  case (hit n)
  then show ?thesis using assms(1) by (auto simp: map_upd_triv)
qed

text \<open>
  The same when setting up a new record may stop: what is said holds of every result.
\<close>

lemma find_or_insert_yields:
  assumes "invar t" "2 \<le> room t"
    and init: "\<And>t' n t''. live t' n \<Longrightarrow> mem_valid (cell t' n) = 1 \<Longrightarrow> init t' (Some n) = Inr t'' \<Longrightarrow>
      \<exists>m. t'' = set_cell t' n m \<and> start_address m = start_address (cell t' n) \<and> mem_valid m = 1"
  shows "yields (bindE (lookup t a s) (\<lambda>v. case v of Some n \<Rightarrow> Inr (t, Some n)
      | None \<Rightarrow> bindE (insert t a s) (\<lambda>(t', v'). bindE (init t' v') (\<lambda>t''. Inr (t'', v')))))
    (\<lambda>(t', v). \<exists>n. v = Some n \<and> invar t' \<and> live t' n \<and> start_address (cell t' n) = a \<and>
      room t - 1 \<le> room t' \<and> room t' \<le> room t \<and> view t' = (view t)(a \<mapsto> cell t' n) \<and>
      (\<forall>m. view t a = Some m \<longrightarrow> t' = t \<and> cell t' n = m))"
  using assms(1)
proof (cases rule: lookup_cases [where a = a and s = s])
  case miss
  obtain t' n where t': "insert t a s = Inr (t', Some n)" "invar t'" "live t' n"
    "start_address (cell t' n) = a" "room t' = room t - 1" "view t' = (view t)(a \<mapsto> cell t' n)"
    using insert_miss [OF assms(1) miss(1) assms(2)] by metis
  have val: "mem_valid (cell t' n) = 1" using view_address [OF t'(2), of a] t'(6) by simp
  show ?thesis
  proof (cases "init t' (Some n)")
    case (Inl e)
    with miss t' show ?thesis by simp
  next
    case (Inr t'')
    with init [OF t'(3) val] obtain m where m: "t'' = set_cell t' n m"
      "start_address m = start_address (cell t' n)" "mem_valid m = 1" by blast
    with write_cell [OF t'(2,3) m(2,3)] t' miss Inr show ?thesis by simp
  qed
next
  case (hit n)
  then show ?thesis using assms(1) by (auto simp: map_upd_triv)
qed

end

text \<open>The table of \<open>exe.c\<close> provides this interface.\<close>

interpretation tab: memory_table search_store add_new_store nth list_update
  "\<lambda>mem n. n < length (entries mem)" table_map free_slots wf_table
proof
  fix t :: "memory_s list" and a s m
  assume t: "wf_table t"
  show "table_map t a = None \<Longrightarrow> search_store t a s = Inr None"
    by (rule search_store_None [OF t])
  show "table_map t a = Some m \<Longrightarrow>
      \<exists>n. search_store t a s = Inr (Some n) \<and> n < length (entries t) \<and> t ! n = m"
    using table_map_Some_iff [OF t] search_store_Some [OF t] by metis
  show "n < length (entries t) \<Longrightarrow> table_map t (start_address (t ! n)) = Some (t ! n)" for n
    using table_map_Some_iff [OF t] by metis
  show "table_map t a = Some m \<Longrightarrow> start_address m = a \<and> mem_valid m = 1"
    using table_map_Some_set [OF t] entries_valid by metis
  show "table_map t a = Some m \<Longrightarrow> add_new_store t a s = Inr (t, None)"
    by (rule add_new_store_old [OF t])
  show "\<exists>t' n. add_new_store t a s = Inr (t', Some n) \<and> wf_table t' \<and>
      n < length (entries t') \<and> start_address (t' ! n) = a \<and> free_slots t' = free_slots t - 1 \<and>
      table_map t' = (table_map t)(a \<mapsto> t' ! n)" if "table_map t a = None" "2 \<le> free_slots t"
    using add_new_store_new [OF t that(1)] wf_table_length [OF t]
      add_record [OF t, of "new_record (t ! length (entries t)) a (bytes_of_bits s)"] that
    by simp
  show "n < length (entries t) \<Longrightarrow> start_address m = start_address (t ! n) \<Longrightarrow> mem_valid m = 1 \<Longrightarrow>
      wf_table (t[n := m]) \<and> n < length (entries (t[n := m])) \<and> t[n := m] ! n = m \<and>
      free_slots (t[n := m]) = free_slots t \<and>
      table_map (t[n := m]) = (table_map t)(start_address m \<mapsto> m)" for n
    using change_record [OF t, of n m] length_entries_le [of t] by simp
qed

lemma find_or_add_wf:
  assumes "wf_table mem" "2 \<le> free_slots mem"
    and "\<And>mem' n. n < length (entries mem') \<Longrightarrow>
      init mem' (Some n) = Inr (mem'[n := f (mem' ! n)])"
    and "\<And>m. start_address (f m) = start_address m"
    and "\<And>m. mem_valid m = 1 \<Longrightarrow> mem_valid (f m) = 1"
  shows "\<exists>mem' n. find_or_add mem a s init = Inr (mem', Some n) \<and> wf_table mem' \<and>
      n < length (entries mem') \<and> start_address (mem' ! n) = a \<and>
      free_slots mem - 1 \<le> free_slots mem' \<and> free_slots mem' \<le> free_slots mem \<and>
      table_map mem' = (table_map mem)(a \<mapsto> mem' ! n) \<and>
      (\<forall>m. table_map mem a = Some m \<longrightarrow> mem' = mem \<and> mem' ! n = m)"
  unfolding find_or_add_def by (rule tab.find_or_insert [OF assms])

lemma find_or_add_yields:
  assumes "wf_table mem" "2 \<le> free_slots mem"
    and "\<And>mem' n mem''. n < length (entries mem') \<Longrightarrow> mem_valid (mem' ! n) = 1 \<Longrightarrow>
      init mem' (Some n) = Inr mem'' \<Longrightarrow>
      \<exists>m. mem'' = mem'[n := m] \<and> start_address m = start_address (mem' ! n) \<and> mem_valid m = 1"
  shows "yields (find_or_add mem a s init) (\<lambda>(mem', v). \<exists>n. v = Some n \<and> wf_table mem' \<and>
      n < length (entries mem') \<and> start_address (mem' ! n) = a \<and>
      free_slots mem - 1 \<le> free_slots mem' \<and> free_slots mem' \<le> free_slots mem \<and>
      table_map mem' = (table_map mem)(a \<mapsto> mem' ! n) \<and>
      (\<forall>m. table_map mem a = Some m \<longrightarrow> mem' = mem \<and> mem' ! n = m))"
  unfolding find_or_add_def by (rule tab.find_or_insert_yields [OF assms])

text \<open>What the pointer points to, in the two cases.\<close>

lemma find_or_add_hit:
  assumes "wf_table mem" "table_map mem a = Some m"
  obtains n where "\<And>s init. find_or_add mem a s init = Inr (mem, Some n)" "n < length (entries mem)"
    "mem ! n = m"
proof -
  from assms obtain n where "n < length (entries mem)" "mem ! n = m" "start_address m = a"
    by (auto simp: table_map_Some_iff)
  moreover from this have "find_or_add mem a s init = Inr (mem, Some n)" for s init
    using search_store_Some [OF assms(1)] by (simp add: find_or_add_def)
  ultimately show thesis using that by blast
qed

lemma find_or_add_miss:
  assumes "wf_table mem" "table_map mem a = None"
  shows "find_or_add mem a s init =
    (let k = length (entries mem)
     in bindE (init (mem[k := new_record (mem ! k) a (bytes_of_bits s)]) (Some k))
          (\<lambda>mem'. Inr (mem', Some k)))"
  using search_store_None [OF assms(1,2)] add_new_store_new [OF assms(1,2)]
  by (simp add: find_or_add_def Let_def)

text \<open>Whatever the set-up of a new record does to it, the table grows.\<close>

lemma find_or_add_grows:
  assumes "wf_table mem" "2 \<le> free_slots mem"
    and init: "\<And>mem' n mem''. n < length (entries mem') \<Longrightarrow> mem_valid (mem' ! n) = 1 \<Longrightarrow>
      init mem' (Some n) = Inr mem'' \<Longrightarrow>
      \<exists>m. mem'' = mem'[n := m] \<and> start_address m = start_address (mem' ! n) \<and> mem_valid m = 1"
  shows "yields (find_or_add mem a s init) (\<lambda>(t, v). grows mem t)"
proof (cases "table_map mem a")
  case None
  let ?k = "length (entries mem)"
  let ?new = "new_record (mem ! ?k) a (bytes_of_bits s)"
  let ?t = "mem[?k := ?new]"
  have k: "?k < length mem" by (rule wf_table_length [OF assms(1)])
  have new: "table_map mem (start_address ?new) = None" "mem_valid ?new = 1" using None by simp_all
  note add = add_record [OF assms(1) new assms(2)]
  have t: "grows mem ?t" by (rule grows_add [OF assms(1) new assms(2)])
  have "grows mem t" if "init ?t (Some ?k) = Inr t" for t
  proof -
    from init [OF _ _ that] obtain m where m: "t = ?t[?k := m]" "start_address m = start_address (?t ! ?k)" "mem_valid m = 1"
      using add(2) k by auto
    have "grows ?t t" unfolding m(1) by (rule grows_change [OF add(1) _ m(2,3)]) (simp add: add(2))
    with t show ?thesis by (rule grows_trans)
  qed
  then show ?thesis unfolding find_or_add_miss [OF assms(1) None] Let_def by (auto simp: yields_def bindE_Inr_iff)
next
  case (Some m)
  with assms(1) obtain n where "find_or_add mem a s init = Inr (mem, Some n)" by (rule find_or_add_hit) blast
  then show ?thesis by simp
qed

lemma print_store_wf: "wf_table mem \<Longrightarrow> print_store mem = Inr ()"
proof -
  assume "wf_table mem"
  then obtain es m fs where es: "mem = es @ m # fs" "\<forall>x \<in> set es. mem_valid x = 1"
    "mem_valid m \<noteq> 1" by (metis list.set_intros(1) wf_tableE)
  have "\<forall>x \<in> set es. mem_valid x = 1 \<Longrightarrow> mem_valid m \<noteq> 1 \<Longrightarrow> print_store (es @ m # fs) = Inr ()"
    by (induction es) auto
  with es show ?thesis by simp
qed

section \<open>Reading the data section\<close>

lemma or_byte: "or (push_bit 8 (x :: u64)) (ucast (b :: u8)) = 256 * x + ucast b"
proof -
  have "push_bit 8 x + ucast b = or (push_bit 8 x) (ucast b)"
    by (rule disjunctive_add) (auto simp: bit_simps dest: bit_imp_le_length)
  then show ?thesis by (simp add: push_bit_eq_mult mult.commute)
qed

lemma read_data_loop_bytes:
  assumes "unat offset + n \<le> length (data self)" "length (data self) < 2 ^ 64"
  shows "read_data_loop self offset n tmp =
    Inr (256 ^ n * tmp + horner_sum ucast 256 (take n (drop (unat offset) (data self))))"
  using assms(1)
proof (induction n arbitrary: tmp)
  case 0
  then show ?case by simp
next
  case (Suc n)
  have "unat (of_nat n + offset) = unat offset + n"
    using Suc.prems assms(2) by (simp add: unat_word_ariths unat_of_nat ac_simps)
  moreover have "take (Suc n) (drop (unat offset) (data self)) =
      take n (drop (unat offset) (data self)) @ [data self ! (unat offset + n)]"
    using Suc.prems by (simp add: take_Suc_conv_app_nth)
  ultimately show ?case using Suc.IH Suc.prems
    by (simp add: horner_sum_append or_byte algebra_simps)
qed

text \<open>
  Within the data section read_data is the little-endian number of the (bits + 7) / 8
  bytes at the offset, cut to 64 bits.
\<close>
theorem read_data_little_endian:
  assumes "0 < bits" "unat offset + nat (bytes_of_bits bits) \<le> unat (data_size self)"
    and "length (data self) = unat (data_size self)"
  shows "read_data self offset bits =
    Inr (horner_sum ucast 256 (take (nat (bytes_of_bits bits)) (drop (unat offset) (data self))))"
proof -
  define n where "n = nat (bytes_of_bits bits)"
  have n: "0 < n" "word_of_int (bytes_of_bits bits) = (of_nat n :: u64)"
    using assms(1) by (simp_all add: n_def bytes_of_bits_def)
  have lt: "length (data self) < 2 ^ 64" unfolding assms(3) using unsigned_less [of "data_size self"] by simp
  have sum: "unat offset + n < 2 ^ 64" using assms(2,3) lt by (simp add: n_def)
  have "offset + of_nat n = of_nat (unat offset + n)" by simp
  also have "\<dots> - 1 = (of_nat (unat offset + n - 1) :: u64)" using n(1) by simp
  finally have "unat (offset + of_nat n - 1) = unat offset + n - 1"
    using sum by (simp add: unat_of_nat)
  then have "offset + of_nat n - 1 \<le> data_size self"
    using assms(2) by (simp add: word_le_nat_alt n_def)
  moreover have "read_data_loop self offset n 0 =
      Inr (horner_sum ucast 256 (take n (drop (unat offset) (data self))))"
    using read_data_loop_bytes [OF _ lt, of offset n 0] assms(2,3) by (simp add: n_def)
  ultimately show ?thesis by (simp add: read_data_def n(2) n_def)
qed

text \<open>
  C6. The range check of read_data lets through a read that ends one byte past the data
  section: the model faults out of bounds instead of returning 0.
\<close>
theorem read_data_one_past:
  assumes "0 < bits" "unat offset + nat (bytes_of_bits bits) = Suc (unat (data_size self))"
    and "length (data self) = unat (data_size self)" "unat (data_size self) < 2 ^ 64 - 1"
  shows "read_data self offset bits = Inl OutOfBounds"
proof -
  define n where "n = nat (bytes_of_bits bits)"
  have n: "0 < n" "word_of_int (bytes_of_bits bits) = (of_nat n :: u64)"
    using assms(1) by (simp_all add: n_def bytes_of_bits_def)
  have eq: "unat offset + n = Suc (unat (data_size self))" using assms(2) by (simp add: n_def)
  have "offset + of_nat n = of_nat (unat offset + n)" by simp
  also have "\<dots> = of_nat (unat (data_size self)) + 1" unfolding eq by simp
  finally have "offset + of_nat n - 1 = data_size self" by simp
  moreover obtain k where k: "n = Suc k" using n(1) by (cases n) auto
  have "unat (of_nat k + offset) = unat (data_size self)"
  proof -
    have "of_nat k + offset = offset + of_nat n - 1" by (simp add: k)
    then show ?thesis using calculation by simp
  qed
  ultimately show ?thesis using assms(3) by (simp add: read_data_def n(2) k n_def [symmetric])
qed

end
