(* ===== verification/Operands.thy ===== *)
theory Operands
  imports Store
begin

text \<open>
  Reading a source operand and writing the destination operand of an RTL instruction:
  \<open>get_value_RTL_instruction\<close> and \<open>put_value_RTL_instruction\<close> of \<open>src/execute/exe.c\<close>,
  one definition per addressing mode. A call returns the C result code (0 or 1) with the new
  state, or stops with a fault.
\<close>

section \<open>Reading a source operand\<close>

definition source_equals_dest :: "operand_s \<Rightarrow> operand_s \<Rightarrow> int" where
  "source_equals_dest a b =
     (if store a = store b \<and> indirect a = indirect b \<and> indirect_size a = indirect_size b \<and>
         index a = index b \<and> value_size a = value_size b
      then 1 else 0)"

text \<open>The fields every addressing mode copies from the record into the destination.\<close>

definition copy_value :: "memory_s \<Rightarrow> memory_s \<Rightarrow> memory_s" where
  "copy_value dest v = dest\<lparr>mem_length := mem_length v,
     init_value_type := init_value_type v, init_value := init_value v,
     offset_value := offset_value v, value_type := value_type v,
     ref_memory := ref_memory v, ref_log := ref_log v, value_scope := value_scope v,
     value_id := value_id v, mem_valid := 1\<rparr>"

text \<open>The end of the function: both tables are printed, the result is 0.\<close>

definition get_done :: "process_state_s \<Rightarrow> memory_s \<Rightarrow> (int \<times> process_state_s \<times> memory_s) c" where
  "get_done ps dest =
     bindE (print_store (memory_reg ps)) (\<lambda>_.
       bindE (print_store (memory_stack ps)) (\<lambda>_. Inr (0, ps, dest)))"

definition get_immediate :: "operand_s \<Rightarrow> memory_s \<Rightarrow> memory_s" where
  "get_immediate source dest = dest\<lparr>start_address := 0, mem_length := value_size source,
     init_value_type := 1, init_value := index source, offset_value := 0, value_type := 0,
     ref_memory := 0, ref_log := 0, value_scope := 4, value_id := 0, mem_valid := 1\<rparr>"

definition get_register ::
  "process_state_s \<Rightarrow> operand_s \<Rightarrow> memory_s \<Rightarrow> int \<Rightarrow> (int \<times> process_state_s \<times> memory_s) c" where
  "get_register ps source dest info_id =
     bindE (find_or_add (memory_reg ps) (index source) (value_size source)
              (set_fields (\<lambda>m. m\<lparr>value_id := 0, value_scope := (if info_id = 1 then 2 else 1)\<rparr>)))
       (\<lambda>(reg, v). let ps' = ps\<lparr>memory_reg := reg\<rparr> in
          case v of
            None \<Rightarrow> Inr (1, ps', dest)
          | Some n \<Rightarrow>
              get_done ps' ((copy_value dest (reg ! n))\<lparr>start_address := start_address (reg ! n)\<rparr>))"

text \<open>A new record of the data table starts with the 32 bits of the data section.\<close>

definition init_data :: "self_s \<Rightarrow> u64 \<Rightarrow> memory_s list \<Rightarrow> nat option \<Rightarrow> memory_s list c" where
  "init_data self data_index mem v =
     (case v of
        None \<Rightarrow> Inl NullDeref
      | Some n \<Rightarrow>
          bindE (read_data self data_index 32) (\<lambda>d.
            Inr (mem[n := (mem ! n)\<lparr>init_value := d, value_scope := 3, value_id := 0\<rparr>])))"

text \<open>
  The data record at \<open>data_index\<close>. \<open>v\<close> is the register pointer the address came from; it
  is null for a direct address, and is dereferenced all the same.
\<close>

definition get_memory_at ::
  "self_s \<Rightarrow> process_state_s \<Rightarrow> operand_s \<Rightarrow> memory_s \<Rightarrow> nat option \<Rightarrow> u64 \<Rightarrow>
     (int \<times> process_state_s \<times> memory_s) c" where
  "get_memory_at self ps source dest v data_index =
     bindE (find_or_add (memory_data ps) data_index (value_size source) (init_data self data_index))
       (\<lambda>(dat, vd). let ps' = ps\<lparr>memory_data := dat\<rparr> in
          case vd of
            None \<Rightarrow> Inr (1, ps', dest)
          | Some d \<Rightarrow>
              (case v of
                 None \<Rightarrow> Inl NullDeref
               | Some n \<Rightarrow>
                   get_done ps' ((copy_value dest (dat ! d))\<lparr>
                     start_address := start_address (dat ! d),
                     indirect_init_value := init_value (memory_reg ps ! n),
                     indirect_offset_value := offset_value (memory_reg ps ! n)\<rparr>)))"

definition get_memory ::
  "self_s \<Rightarrow> process_state_s \<Rightarrow> operand_s \<Rightarrow> memory_s \<Rightarrow> (int \<times> process_state_s \<times> memory_s) c" where
  "get_memory self ps source dest =
     (case store source of
        STORE_DIRECT \<Rightarrow> get_memory_at self ps source dest None (index source)
      | STORE_REG \<Rightarrow>
          bindE (find_or_add (memory_reg ps) (index source) (indirect_size source)
                   (set_fields (\<lambda>m. m\<lparr>value_id := 0\<rparr>)))
            (\<lambda>(reg, v). let ps' = ps\<lparr>memory_reg := reg\<rparr> in
               case v of
                 None \<Rightarrow> Inr (1, ps', dest)
               | Some n \<Rightarrow> get_memory_at self ps' source (dest\<lparr>value_id := value_id (reg ! n)\<rparr>)
                             (Some n) (abs_value (reg ! n)))
      | STORE_PTR \<Rightarrow> Inr (1, ps, dest))"

definition get_stack ::
  "process_state_s \<Rightarrow> operand_s \<Rightarrow> memory_s \<Rightarrow> (int \<times> process_state_s \<times> memory_s) c" where
  "get_stack ps source dest =
     bindE (find_or_add (memory_reg ps) (index source) (indirect_size source)
              (set_fields_checked (\<lambda>m. m\<lparr>value_id := 0\<rparr>)))
       (\<lambda>(reg, v). let ps' = ps\<lparr>memory_reg := reg\<rparr> in
          case v of
            None \<Rightarrow> Inr (1, ps', dest)
          | Some n \<Rightarrow>
              let a = abs_value (reg ! n) in
              bindE (find_or_add (memory_stack ps') a (value_size source)
                       (set_fields (\<lambda>m. m\<lparr>value_scope := (if a > 0x10000 then 1 else 2),
                                           value_id := 0\<rparr>)))
                (\<lambda>(stk, vs). let ps'' = ps'\<lparr>memory_stack := stk\<rparr> in
                   case vs of
                     None \<Rightarrow> Inr (1, ps'', dest)
                   | Some k \<Rightarrow>
                       get_done ps'' ((copy_value dest (stk ! k))\<lparr>start_address := 0,
                         indirect_init_value := init_value (reg ! n),
                         indirect_offset_value := offset_value (reg ! n)\<rparr>)))"

definition get_value_RTL_instruction ::
  "self_s \<Rightarrow> process_state_s \<Rightarrow> operand_s \<Rightarrow> memory_s \<Rightarrow> int \<Rightarrow>
     (int \<times> process_state_s \<times> memory_s) c" where
  "get_value_RTL_instruction self ps source dest info_id =
     (case indirect source of
        IND_DIRECT \<Rightarrow>
          (case store source of
             STORE_DIRECT \<Rightarrow> get_done ps (get_immediate source dest)
           | STORE_REG \<Rightarrow> get_register ps source dest info_id
           | STORE_PTR \<Rightarrow> Inr (1, ps, dest))
      | IND_MEM \<Rightarrow> get_memory self ps source dest
      | IND_STACK \<Rightarrow> get_stack ps source dest
      | IND_IO \<Rightarrow> Inr (1, ps, dest))"

section \<open>Writing the destination operand\<close>

definition store_value :: "memory_s \<Rightarrow> memory_s \<Rightarrow> memory_s" where
  "store_value m v = m\<lparr>init_value_type := init_value_type v, init_value := init_value v,
     offset_value := offset_value v, value_type := value_type v, ref_memory := ref_memory v,
     ref_log := ref_log v, value_scope := value_scope v, value_id := value_id v,
     mem_valid := 1\<rparr>"

definition put_register ::
  "process_state_s \<Rightarrow> inst_log_entry_s \<Rightarrow> (int \<times> process_state_s) c" where
  "put_register ps inst =
     (let dst = dstA (instruction inst); v3 = value3 inst in
      bindE (find_or_add (memory_reg ps) (index dst) (value_size dst) (\<lambda>m v. Inr m))
        (\<lambda>(reg, v). let ps' = ps\<lparr>memory_reg := reg\<rparr> in
           case v of
             None \<Rightarrow> Inr (1, ps')
           | Some n \<Rightarrow>
               if start_address (reg ! n) \<noteq> index dst then Inr (1, ps')
               else if start_address (reg ! n) \<noteq> start_address v3 then Inl (Exit 1)
               else Inr (0, ps'\<lparr>memory_reg :=
                      reg[n := (store_value (reg ! n) v3)\<lparr>start_address := start_address v3\<rparr>]\<rparr>)))"

definition put_memory_at ::
  "process_state_s \<Rightarrow> inst_log_entry_s \<Rightarrow> u64 \<Rightarrow> (int \<times> process_state_s) c" where
  "put_memory_at ps inst data_index =
     (let dst = dstA (instruction inst) in
      bindE (find_or_add (memory_data ps) data_index (value_size dst) (\<lambda>m v. Inr m))
        (\<lambda>(dat, vd). let ps' = ps\<lparr>memory_data := dat\<rparr> in
           case vd of
             None \<Rightarrow> Inr (1, ps')
           | Some d \<Rightarrow>
               if start_address (dat ! d) \<noteq> data_index then Inr (1, ps')
               else Inr (0, ps'\<lparr>memory_data := dat[d := store_value (dat ! d) (value3 inst)]\<rparr>)))"

definition put_memory ::
  "process_state_s \<Rightarrow> inst_log_entry_s \<Rightarrow> (int \<times> process_state_s) c" where
  "put_memory ps inst =
     (let dst = dstA (instruction inst) in
      case store dst of
        STORE_DIRECT \<Rightarrow> put_memory_at ps inst (index dst)
      | STORE_REG \<Rightarrow>
          bindE (find_or_add (memory_reg ps) (index dst) (indirect_size dst)
                   (set_fields (\<lambda>m. m\<lparr>value_id := 0\<rparr>)))
            (\<lambda>(reg, v). let ps' = ps\<lparr>memory_reg := reg\<rparr> in
               case v of
                 None \<Rightarrow> Inr (1, ps')
               | Some n \<Rightarrow>
                   if start_address (reg ! n) \<noteq> index dst then Inr (1, ps')
                   else put_memory_at ps' inst (abs_value (reg ! n)))
      | STORE_PTR \<Rightarrow> Inr (1, ps))"

text \<open>
  Before its null check the stack case passes \<open>value->init_value\<close> to \<open>debug_print\<close>, so a
  register that is not in the table is a null dereference and the rest of the case only
  runs with a register found.
\<close>

definition put_stack ::
  "process_state_s \<Rightarrow> inst_log_entry_s \<Rightarrow> (int \<times> process_state_s) c" where
  "put_stack ps inst =
     (let dst = dstA (instruction inst) in
      bindE (search_store (memory_reg ps) (index dst) (indirect_size dst)) (\<lambda>v.
        case v of
          None \<Rightarrow> Inl NullDeref
        | Some n \<Rightarrow>
            if start_address (memory_reg ps ! n) \<noteq> index dst then Inr (1, ps)
            else
              bindE (find_or_add (memory_stack ps) (abs_value (memory_reg ps ! n))
                       (value_size dst) (\<lambda>m v. Inr m))
                (\<lambda>(stk, vs). let ps' = ps\<lparr>memory_stack := stk\<rparr> in
                   case vs of
                     None \<Rightarrow> Inr (1, ps')
                   | Some k \<Rightarrow>
                       Inr (0, ps'\<lparr>memory_stack :=
                              stk[k := store_value (stk ! k) (value3 inst)]\<rparr>))))"

definition put_value_RTL_instruction ::
  "process_state_s \<Rightarrow> inst_log_entry_s \<Rightarrow> (int \<times> process_state_s) c" where
  "put_value_RTL_instruction ps inst =
     bindE (case indirect (dstA (instruction inst)) of
              IND_DIRECT \<Rightarrow>
                (case store (dstA (instruction inst)) of
                   STORE_DIRECT \<Rightarrow> Inr (1, ps)
                 | STORE_REG \<Rightarrow> put_register ps inst
                 | STORE_PTR \<Rightarrow> Inr (1, ps))
            | IND_MEM \<Rightarrow> put_memory ps inst
            | IND_STACK \<Rightarrow> put_stack ps inst
            | IND_IO \<Rightarrow> Inr (1, ps))
       (\<lambda>(result, ps').
          bindE (print_store (memory_reg ps')) (\<lambda>_.
            bindE (print_store (memory_stack ps')) (\<lambda>_. Inr (result, ps'))))"

section \<open>Well-formed states\<close>

definition wf_state :: "process_state_s \<Rightarrow> bool" where
  "wf_state ps \<longleftrightarrow> wf_table (memory_reg ps) \<and> wf_table (memory_stack ps) \<and> wf_table (memory_data ps)"

definition has_room :: "process_state_s \<Rightarrow> nat \<Rightarrow> bool" where
  "has_room ps k \<longleftrightarrow> k \<le> free_slots (memory_reg ps) \<and> k \<le> free_slots (memory_stack ps) \<and>
     k \<le> free_slots (memory_data ps)"

text \<open>
  What every operation of the executor does to the state: the tables stay well formed, each
  keeps its records at their indices and addresses and loses at most \<open>k\<close> free ones, and the
  text and the used map are not touched.
\<close>

definition evolves :: "nat \<Rightarrow> process_state_s \<Rightarrow> process_state_s \<Rightarrow> bool" where
  "evolves k ps ps' \<longleftrightarrow> wf_state ps' \<and> memory_text ps' = memory_text ps \<and>
     memory_used ps' = memory_used ps \<and>
     grows (memory_reg ps) (memory_reg ps') \<and> grows (memory_stack ps) (memory_stack ps') \<and>
     grows (memory_data ps) (memory_data ps') \<and>
     free_slots (memory_reg ps) \<le> free_slots (memory_reg ps') + k \<and>
     free_slots (memory_stack ps) \<le> free_slots (memory_stack ps') + k \<and>
     free_slots (memory_data ps) \<le> free_slots (memory_data ps') + k"

lemma evolves_refl: "wf_state ps \<Longrightarrow> evolves k ps ps"
  by (simp add: evolves_def)

lemma evolves_trans: "evolves j p q \<Longrightarrow> evolves k q r \<Longrightarrow> evolves (j + k) p r"
  by (auto simp: evolves_def intro: grows_trans)

lemma evolves_mono: "evolves j p q \<Longrightarrow> j \<le> k \<Longrightarrow> evolves k p q"
  by (simp add: evolves_def)

lemma evolves_wf: "evolves k p q \<Longrightarrow> wf_state q"
  by (simp add: evolves_def)

lemma evolves_room: "evolves k p q \<Longrightarrow> has_room p (k + j) \<Longrightarrow> has_room q j"
  by (auto simp: evolves_def has_room_def)

lemma evolves_used: "evolves k p q \<Longrightarrow> memory_used q = memory_used p"
  by (simp add: evolves_def)

lemma evolves_reg:
  assumes "wf_state ps" "wf_table t" "grows (memory_reg ps) t" "free_slots (memory_reg ps) - k \<le> free_slots t"
  shows "evolves k ps (ps\<lparr>memory_reg := t\<rparr>)"
  using assms by (auto simp: evolves_def wf_state_def)

lemma evolves_stack:
  assumes "wf_state ps" "wf_table t" "grows (memory_stack ps) t" "free_slots (memory_stack ps) - k \<le> free_slots t"
  shows "evolves k ps (ps\<lparr>memory_stack := t\<rparr>)"
  using assms by (auto simp: evolves_def wf_state_def)

lemma evolves_data:
  assumes "wf_state ps" "wf_table t" "grows (memory_data ps) t" "free_slots (memory_data ps) - k \<le> free_slots t"
  shows "evolves k ps (ps\<lparr>memory_data := t\<rparr>)"
  using assms by (auto simp: evolves_def wf_state_def)

lemma get_done_wf: "wf_state ps \<Longrightarrow> get_done ps v = Inr (0, ps, v)"
  by (simp add: get_done_def wf_state_def print_store_wf)

section \<open>The abstract register file\<close>

text \<open>
  A register that has no record yet reads as zero: the record a first read adds holds
  \<open>init_value\<close> and \<open>offset_value\<close> zero. Its scope is 1 (a parameter) or 2 (a local).
\<close>

definition reg_pair :: "process_state_s \<Rightarrow> u64 \<Rightarrow> u64 \<times> u64" where
  "reg_pair ps r = (case table_map (memory_reg ps) r of
     None \<Rightarrow> (0, 0) | Some m \<Rightarrow> (init_value m, offset_value m))"

definition reg_scope :: "process_state_s \<Rightarrow> int \<Rightarrow> u64 \<Rightarrow> int" where
  "reg_scope ps info r = (case table_map (memory_reg ps) r of
     None \<Rightarrow> (if info = 1 then 2 else 1) | Some m \<Rightarrow> value_scope m)"

text \<open>Operands that name a register or a number.\<close>

definition direct :: "operand_s \<Rightarrow> bool" where
  "direct opr \<longleftrightarrow> indirect opr = IND_DIRECT \<and> store opr \<noteq> STORE_PTR"

definition pair_of :: "process_state_s \<Rightarrow> operand_s \<Rightarrow> u64 \<times> u64" where
  "pair_of ps opr = (case store opr of STORE_DIRECT \<Rightarrow> (index opr, 0) | _ \<Rightarrow> reg_pair ps (index opr))"

definition scope_of :: "process_state_s \<Rightarrow> int \<Rightarrow> operand_s \<Rightarrow> int" where
  "scope_of ps info opr = (case store opr of STORE_DIRECT \<Rightarrow> 4 | _ \<Rightarrow> reg_scope ps info (index opr))"

text \<open>The registers that have a record keep one, of the same scope.\<close>

definition scopes_kept :: "memory_s list \<Rightarrow> memory_s list \<Rightarrow> bool" where
  "scopes_kept t t' \<longleftrightarrow> (\<forall>r m. table_map t r = Some m \<longrightarrow>
     (\<exists>m'. table_map t' r = Some m' \<and> value_scope m' = value_scope m))"

lemma scopes_kept_refl: "scopes_kept t t"
  by (simp add: scopes_kept_def)

lemma scopes_kept_trans: "scopes_kept r s \<Longrightarrow> scopes_kept s t \<Longrightarrow> scopes_kept r t"
  unfolding scopes_kept_def by metis

lemma copy_value_simps [simp]:
  "init_value (copy_value d m) = init_value m" "offset_value (copy_value d m) = offset_value m"
  "value_scope (copy_value d m) = value_scope m" "mem_valid (copy_value d m) = 1"
  "start_address (copy_value d m) = start_address d" "value_id (copy_value d m) = value_id m"
  by (simp_all add: copy_value_def)

lemma store_value_simps [simp]:
  "init_value (store_value d m) = init_value m" "offset_value (store_value d m) = offset_value m"
  "value_scope (store_value d m) = value_scope m" "mem_valid (store_value d m) = 1"
  "start_address (store_value d m) = start_address d"
  by (simp_all add: store_value_def)

text \<open>Reading a register.\<close>

lemma get_register_spec:
  assumes wf: "wf_state ps" and room: "has_room ps 2"
  obtains t v where "get_register ps source dest info = Inr (0, ps\<lparr>memory_reg := t\<rparr>, v)"
    "evolves 1 ps (ps\<lparr>memory_reg := t\<rparr>)" "reg_pair (ps\<lparr>memory_reg := t\<rparr>) = reg_pair ps"
    "(init_value v, offset_value v) = reg_pair ps (index source)"
    "value_scope v = reg_scope ps info (index source)" "start_address v = index source"
    "mem_valid v = 1" "scopes_kept (memory_reg ps) t"
proof -
  let ?r = "memory_reg ps" and ?a = "index source"
  let ?f = "\<lambda>m. m\<lparr>value_id := 0, value_scope := (if info = 1 then 2 else 1)\<rparr>"
  have w: "wf_table ?r" "2 \<le> free_slots ?r" using wf room by (auto simp: wf_state_def has_room_def)
  show thesis
  proof (cases "table_map ?r ?a")
    case (Some m)
    from find_or_add_hit [OF w(1) Some] obtain n where n:
      "find_or_add ?r ?a (value_size source) (set_fields ?f) = Inr (?r, Some n)"
      "?r ! n = m" by metis
    have a: "start_address m = ?a" using tab.view_address [OF w(1) Some] by simp
    let ?v = "(copy_value dest m)\<lparr>start_address := ?a\<rparr>"
    have "get_register ps source dest info = Inr (0, ps\<lparr>memory_reg := ?r\<rparr>, ?v)"
      using n a get_done_wf [OF wf] by (simp add: get_register_def)
    moreover have "evolves 1 ps (ps\<lparr>memory_reg := ?r\<rparr>)" by (simp add: evolves_refl [OF wf])
    ultimately show thesis
      by (rule that) (simp_all add: reg_pair_def reg_scope_def Some scopes_kept_refl)
  next
    case None
    let ?k = "length (entries ?r)"
    define new where "new = ?f (new_record (?r ! ?k) ?a (bytes_of_bits (value_size source)))"
    let ?t = "?r[?k := new]"
    have k: "?k < length ?r" by (rule wf_table_length [OF w(1)])
    have find: "find_or_add ?r ?a (value_size source) (set_fields ?f) = Inr (?t, Some ?k)"
      using find_or_add_miss [OF w(1) None] k by (simp add: set_fields_def Let_def new_def)
    have new: "start_address new = ?a" "mem_valid new = 1" "init_value new = 0"
      "offset_value new = 0" "value_scope new = (if info = 1 then 2 else 1)"
      by (simp_all add: new_def new_record_def)
    have tab: "wf_table ?t" "free_slots ?t = free_slots ?r - 1"
      "table_map ?t = (table_map ?r)(?a \<mapsto> new)"
      using add_record [OF w(1), of new] None new w(2) by simp_all
    have "grows ?r ?t" by (rule grows_add [OF w(1)]) (use None new w(2) in simp_all)
    then have ev: "evolves 1 ps (ps\<lparr>memory_reg := ?t\<rparr>)"
      by (rule evolves_reg [OF wf tab(1)]) (simp add: tab(2))
    have pair: "reg_pair (ps\<lparr>memory_reg := ?t\<rparr>) = reg_pair ps"
      using tab(3) new(3,4) None by (auto simp: reg_pair_def fun_eq_iff)
    let ?v = "(copy_value dest new)\<lparr>start_address := ?a\<rparr>"
    have "get_register ps source dest info = Inr (0, ps\<lparr>memory_reg := ?t\<rparr>, ?v)"
      using find k new(1) get_done_wf [OF evolves_wf [OF ev]] by (simp add: get_register_def)
    then show thesis using ev pair
      by (rule that) (use None in \<open>simp_all add: reg_pair_def reg_scope_def new scopes_kept_def tab(3)\<close>)
  qed
qed

text \<open>What a read of a direct operand keeps: everything but the set of known registers.\<close>

definition keeps :: "nat \<Rightarrow> process_state_s \<Rightarrow> process_state_s \<Rightarrow> bool" where
  "keeps k ps ps' \<longleftrightarrow> evolves k ps ps' \<and> memory_stack ps' = memory_stack ps \<and>
     memory_data ps' = memory_data ps \<and> reg_pair ps' = reg_pair ps \<and>
     scopes_kept (memory_reg ps) (memory_reg ps')"

lemma keeps_refl: "wf_state ps \<Longrightarrow> keeps k ps ps"
  by (simp add: keeps_def evolves_refl scopes_kept_refl)

lemma keeps_trans: "keeps j p q \<Longrightarrow> keeps k q r \<Longrightarrow> keeps (j + k) p r"
  by (auto simp: keeps_def intro: evolves_trans scopes_kept_trans)

lemma keeps_evolves: "keeps k p q \<Longrightarrow> evolves k p q"
  by (simp add: keeps_def)

lemma keeps_pair_of: "keeps k p q \<Longrightarrow> pair_of q = pair_of p"
  by (auto simp: keeps_def pair_of_def fun_eq_iff split: store_kind.splits)

lemma get_direct:
  assumes wf: "wf_state ps" and room: "has_room ps 2" and dir: "direct source"
  obtains ps' v where "get_value_RTL_instruction self ps source dest info = Inr (0, ps', v)"
    "keeps 1 ps ps'" "(init_value v, offset_value v) = pair_of ps source"
    "value_scope v = scope_of ps info source" "mem_valid v = 1"
    "store source = STORE_DIRECT \<longrightarrow> ps' = ps"
proof (cases "store source")
  case STORE_DIRECT
  then have "get_value_RTL_instruction self ps source dest info = Inr (0, ps, get_immediate source dest)"
    using dir get_done_wf [OF wf] by (simp add: direct_def get_value_RTL_instruction_def)
  then show thesis
    by (rule that) (use STORE_DIRECT in
      \<open>simp_all add: keeps_refl [OF wf] pair_of_def scope_of_def get_immediate_def\<close>)
next
  case STORE_REG
  obtain t v where t: "get_register ps source dest info = Inr (0, ps\<lparr>memory_reg := t\<rparr>, v)"
    "evolves 1 ps (ps\<lparr>memory_reg := t\<rparr>)" "reg_pair (ps\<lparr>memory_reg := t\<rparr>) = reg_pair ps"
    "(init_value v, offset_value v) = reg_pair ps (index source)"
    "value_scope v = reg_scope ps info (index source)" "start_address v = index source"
    "mem_valid v = 1" "scopes_kept (memory_reg ps) t"
    by (rule get_register_spec [OF wf room])
  have "get_value_RTL_instruction self ps source dest info = Inr (0, ps\<lparr>memory_reg := t\<rparr>, v)"
    using dir STORE_REG t(1) by (simp add: direct_def get_value_RTL_instruction_def)
  then show thesis
    by (rule that) (use STORE_REG t in \<open>simp_all add: keeps_def pair_of_def scope_of_def\<close>)
next
  case STORE_PTR
  with dir show thesis by (simp add: direct_def)
qed

text \<open>Writing a register.\<close>

lemma same_record:
  "mem_valid (mem ! n) = 1 \<Longrightarrow>
     \<exists>m. mem = mem[n := m] \<and> start_address m = start_address (mem ! n) \<and> mem_valid m = 1"
  by (rule exI [of _ "mem ! n"]) simp

lemma find_or_add_id:
  assumes "wf_table mem" "2 \<le> free_slots mem"
  obtains mem' n where "find_or_add mem a s (\<lambda>m v. Inr m) = Inr (mem', Some n)" "wf_table mem'"
    "n < length (entries mem')" "start_address (mem' ! n) = a"
    "free_slots mem - 1 \<le> free_slots mem'" "free_slots mem' \<le> free_slots mem"
    "table_map mem' = (table_map mem)(a \<mapsto> mem' ! n)" "grows mem mem'"
proof -
  obtain mem' n where mem': "find_or_add mem a s (\<lambda>m v. Inr m) = Inr (mem', Some n)" "wf_table mem'"
    "n < length (entries mem')" "start_address (mem' ! n) = a"
    "free_slots mem - 1 \<le> free_slots mem'" "free_slots mem' \<le> free_slots mem"
    "table_map mem' = (table_map mem)(a \<mapsto> mem' ! n)"
    using find_or_add_wf [OF assms, of "\<lambda>m v. Inr m" "\<lambda>m. m" a s] by auto
  have "yields (find_or_add mem a s (\<lambda>m v. Inr m)) (\<lambda>(t, v). grows mem t)"
    by (rule find_or_add_grows [OF assms]) (auto intro: same_record)
  with mem'(1) have "grows mem mem'" by simp
  with mem' show thesis by (rule that)
qed

lemma put_value_done:
  assumes "wf_state ps'"
  shows "bindE (Inr (r, ps')) (\<lambda>(result, ps').
    bindE (print_store (memory_reg ps')) (\<lambda>_.
      bindE (print_store (memory_stack ps')) (\<lambda>_. Inr (result, ps')))) = Inr (r, ps')"
  using assms by (simp add: wf_state_def print_store_wf)

lemma put_direct:
  assumes wf: "wf_state ps" and room: "has_room ps 2"
    and dst: "indirect (dstA (instruction inst)) = IND_DIRECT"
      "store (dstA (instruction inst)) = STORE_REG"
    and addr: "start_address (value3 inst) = index (dstA (instruction inst))"
  obtains ps' where "put_value_RTL_instruction ps inst = Inr (0, ps')" "evolves 1 ps ps'"
    "memory_stack ps' = memory_stack ps" "memory_data ps' = memory_data ps"
    "reg_pair ps' = (reg_pair ps)(index (dstA (instruction inst)) :=
       (init_value (value3 inst), offset_value (value3 inst)))"
    "reg_scope ps' i (index (dstA (instruction inst))) = value_scope (value3 inst)"
proof -
  let ?d = "dstA (instruction inst)" and ?v = "value3 inst" and ?r = "memory_reg ps"
  have w: "wf_table ?r" "2 \<le> free_slots ?r" using wf room by (auto simp: wf_state_def has_room_def)
  obtain t n where t: "find_or_add ?r (index ?d) (value_size ?d) (\<lambda>m v. Inr m) = Inr (t, Some n)"
    "wf_table t" "n < length (entries t)" "start_address (t ! n) = index ?d"
    "free_slots ?r - 1 \<le> free_slots t" "free_slots t \<le> free_slots ?r"
    "table_map t = (table_map ?r)(index ?d \<mapsto> t ! n)" "grows ?r t"
    by (rule find_or_add_id [OF w])
  define m where "m = (store_value (t ! n) ?v)\<lparr>start_address := start_address ?v\<rparr>"
  have m: "start_address m = start_address (t ! n)" "mem_valid m = 1"
    "init_value m = init_value ?v" "offset_value m = offset_value ?v"
    "value_scope m = value_scope ?v" "start_address m = index ?d"
    using t(4) addr by (simp_all add: m_def)
  note ch = change_record [OF t(2,3) m(1,2)]
  let ?p = "ps\<lparr>memory_reg := t[n := m]\<rparr>"
  have "grows ?r (t[n := m])" using t(8) grows_change [OF t(2,3) m(1,2)] by (rule grows_trans)
  then have ev: "evolves 1 ps ?p" by (rule evolves_reg [OF wf ch(1)]) (use ch(3) t(5) in simp)
  have "put_register ps inst = Inr (0, ?p)"
    using t(1,4) addr by (simp add: put_register_def Let_def m_def)
  then have "put_value_RTL_instruction ps inst = Inr (0, ?p)"
    using dst put_value_done [OF evolves_wf [OF ev]] by (simp add: put_value_RTL_instruction_def)
  moreover have map: "table_map (t[n := m]) = (table_map ?r)(index ?d \<mapsto> m)"
    using ch(4) t(7) m(6) by simp
  moreover have "reg_pair ?p = (reg_pair ps)(index ?d := (init_value ?v, offset_value ?v))"
    by (simp add: reg_pair_def [abs_def] map m(3,4) fun_eq_iff)
  moreover have "reg_scope ?p i (index ?d) = value_scope ?v"
    by (simp add: reg_scope_def map m(5))
  ultimately show thesis using ev by (intro that [of ?p]) simp_all
qed

section \<open>Every addressing mode\<close>

text \<open>
  Reading any operand keeps the state well formed, whatever it returns; writing one too.
\<close>

lemma wf_stateD:
  "wf_state ps \<Longrightarrow> wf_table (memory_reg ps)" "wf_state ps \<Longrightarrow> wf_table (memory_stack ps)"
  "wf_state ps \<Longrightarrow> wf_table (memory_data ps)"
  by (simp_all add: wf_state_def)

lemma has_roomD:
  "has_room ps k \<Longrightarrow> k \<le> free_slots (memory_reg ps)"
  "has_room ps k \<Longrightarrow> k \<le> free_slots (memory_stack ps)"
  "has_room ps k \<Longrightarrow> k \<le> free_slots (memory_data ps)"
  by (simp_all add: has_room_def)

lemma find_reg:
  assumes "wf_state ps" "2 \<le> free_slots (memory_reg ps)"
    and "\<And>mem' n mem''. n < length (entries mem') \<Longrightarrow> mem_valid (mem' ! n) = 1 \<Longrightarrow>
      init mem' (Some n) = Inr mem'' \<Longrightarrow>
      \<exists>m. mem'' = mem'[n := m] \<and> start_address m = start_address (mem' ! n) \<and> mem_valid m = 1"
  shows "yields (find_or_add (memory_reg ps) a s init)
    (\<lambda>(t, v). evolves 1 ps (ps\<lparr>memory_reg := t\<rparr>) \<and>
       (\<exists>n. v = Some n \<and> n < length (entries t) \<and> start_address (t ! n) = a))"
  by (rule yields_mono [OF yields_conj [OF find_or_add_yields [OF wf_stateD(1) [OF assms(1)]
          assms(2,3)] find_or_add_grows [OF wf_stateD(1) [OF assms(1)] assms(2,3)]]])
    (auto intro: evolves_reg [OF assms(1)])

lemma find_stack:
  assumes "wf_state ps" "2 \<le> free_slots (memory_stack ps)"
    and "\<And>mem' n mem''. n < length (entries mem') \<Longrightarrow> mem_valid (mem' ! n) = 1 \<Longrightarrow>
      init mem' (Some n) = Inr mem'' \<Longrightarrow>
      \<exists>m. mem'' = mem'[n := m] \<and> start_address m = start_address (mem' ! n) \<and> mem_valid m = 1"
  shows "yields (find_or_add (memory_stack ps) a s init)
    (\<lambda>(t, v). evolves 1 ps (ps\<lparr>memory_stack := t\<rparr>) \<and>
       (\<exists>n. v = Some n \<and> n < length (entries t) \<and> start_address (t ! n) = a))"
  by (rule yields_mono [OF yields_conj [OF find_or_add_yields [OF wf_stateD(2) [OF assms(1)]
          assms(2,3)] find_or_add_grows [OF wf_stateD(2) [OF assms(1)] assms(2,3)]]])
    (auto intro: evolves_stack [OF assms(1)])

lemma find_data:
  assumes "wf_state ps" "2 \<le> free_slots (memory_data ps)"
    and "\<And>mem' n mem''. n < length (entries mem') \<Longrightarrow> mem_valid (mem' ! n) = 1 \<Longrightarrow>
      init mem' (Some n) = Inr mem'' \<Longrightarrow>
      \<exists>m. mem'' = mem'[n := m] \<and> start_address m = start_address (mem' ! n) \<and> mem_valid m = 1"
  shows "yields (find_or_add (memory_data ps) a s init)
    (\<lambda>(t, v). evolves 1 ps (ps\<lparr>memory_data := t\<rparr>) \<and>
       (\<exists>n. v = Some n \<and> n < length (entries t) \<and> start_address (t ! n) = a))"
  by (rule yields_mono [OF yields_conj [OF find_or_add_yields [OF wf_stateD(3) [OF assms(1)]
          assms(2,3)] find_or_add_grows [OF wf_stateD(3) [OF assms(1)] assms(2,3)]]])
    (auto intro: evolves_data [OF assms(1)])

text \<open>
  A memory operand takes a record of the register table and one of the stack or data table:
  one free record of each table all the same.
\<close>

lemma evolves_reg_stack:
  "evolves k ps (ps\<lparr>memory_reg := r\<rparr>) \<Longrightarrow>
     evolves k (ps\<lparr>memory_reg := r\<rparr>) (ps\<lparr>memory_reg := r, memory_stack := s\<rparr>) \<Longrightarrow>
     evolves k ps (ps\<lparr>memory_reg := r, memory_stack := s\<rparr>)"
  by (auto simp: evolves_def)

lemma evolves_reg_data:
  "evolves k ps (ps\<lparr>memory_reg := r\<rparr>) \<Longrightarrow>
     evolves k (ps\<lparr>memory_reg := r\<rparr>) (ps\<lparr>memory_reg := r, memory_data := s\<rparr>) \<Longrightarrow>
     evolves k ps (ps\<lparr>memory_reg := r, memory_data := s\<rparr>)"
  by (auto simp: evolves_def)


lemma get_done_yields [yields_intros]: "Q (0, ps, v) \<Longrightarrow> yields (get_done ps v) Q"
  by (auto simp: get_done_def yields_def bindE_Inr_iff)

lemma init_data_yields:
  assumes "init_data self a mem' (Some n) = Inr mem''" "n < length mem'" "mem_valid (mem' ! n) = 1"
  shows "\<exists>m. mem'' = mem'[n := m] \<and> start_address m = start_address (mem' ! n) \<and> mem_valid m = 1"
  using assms by (auto simp: init_data_def bindE_Inr_iff)

lemma get_memory_at_evolves:
  assumes "wf_state ps" "2 \<le> free_slots (memory_data ps)"
  shows "yields (get_memory_at self ps source dest v a) (\<lambda>(_, ps', _).
    \<exists>t. ps' = ps\<lparr>memory_data := t\<rparr> \<and> evolves 1 ps ps')"
  unfolding get_memory_at_def Let_def
  by (rule yields_bind, rule yields_mono [OF find_data [OF assms]])
    (auto intro!: init_data_yields yields_intros split: option.splits dest: order_less_le_trans [OF _ length_entries_le])

lemma evolves_write:
  "evolves k ps (ps\<lparr>memory_reg := t\<rparr>) \<Longrightarrow> n < length (entries t) \<Longrightarrow>
     start_address m = start_address (t ! n) \<Longrightarrow> mem_valid m = 1 \<Longrightarrow>
     evolves k ps (ps\<lparr>memory_reg := t[n := m]\<rparr>)"
  "evolves k ps (ps\<lparr>memory_stack := t\<rparr>) \<Longrightarrow> n < length (entries t) \<Longrightarrow>
     start_address m = start_address (t ! n) \<Longrightarrow> mem_valid m = 1 \<Longrightarrow>
     evolves k ps (ps\<lparr>memory_stack := t[n := m]\<rparr>)"
  "evolves k ps (ps\<lparr>memory_data := t\<rparr>) \<Longrightarrow> n < length (entries t) \<Longrightarrow>
     start_address m = start_address (t ! n) \<Longrightarrow> mem_valid m = 1 \<Longrightarrow>
     evolves k ps (ps\<lparr>memory_data := t[n := m]\<rparr>)"
  by (auto simp: evolves_def wf_state_def change_record intro: grows_trans grows_change)

lemma get_register_evolves:
  assumes "wf_state ps" "has_room ps 2"
  shows "yields (get_register ps source dest info) (\<lambda>(_, ps', _). evolves 1 ps ps')"
  using get_register_spec [OF assms] by (metis case_prodI yields_simps(1))

lemma get_memory_evolves:
  assumes "wf_state ps" "has_room ps 2"
  shows "yields (get_memory self ps source dest) (\<lambda>(_, ps', _). evolves 1 ps ps')"
proof (cases "store source")
  case STORE_DIRECT
  show ?thesis using STORE_DIRECT assms(1)
    by (auto simp: get_memory_def
        intro!: yields_mono [OF get_memory_at_evolves [OF assms(1) has_roomD(3) [OF assms(2)]]])
next
  case STORE_REG
  have data: "yields (get_memory_at self (ps\<lparr>memory_reg := t\<rparr>) source d v a) (\<lambda>(_, ps', _). evolves 1 ps ps')"
    if t: "evolves 1 ps (ps\<lparr>memory_reg := t\<rparr>)" for t d v a
    by (rule yields_mono [OF get_memory_at_evolves [OF evolves_wf [OF t]]])
      (use has_roomD(3) [OF assms(2)] in \<open>auto intro: evolves_reg_data [OF t]\<close>)
  show ?thesis unfolding get_memory_def Let_def STORE_REG store_kind.case
    by (rule yields_bind, rule yields_mono [OF find_reg [OF assms(1) has_roomD(1) [OF assms(2)]]])
      (auto simp: set_fields_def intro!: data)
next
  case STORE_PTR
  then show ?thesis by (simp add: get_memory_def evolves_refl assms)
qed

lemma get_stack_evolves:
  assumes "wf_state ps" "has_room ps 2"
  shows "yields (get_stack ps source dest) (\<lambda>(_, ps', _). evolves 1 ps ps')"
proof -
  have stk: "yields (find_or_add (memory_stack ps) a s (set_fields f))
      (\<lambda>(k, v). evolves 1 ps (ps\<lparr>memory_reg := t, memory_stack := k\<rparr>) \<and> v \<noteq> None)"
    if t: "evolves 1 ps (ps\<lparr>memory_reg := t\<rparr>)"
      and f: "\<And>m. start_address (f m) = start_address m" "\<And>m. mem_valid m = 1 \<Longrightarrow> mem_valid (f m) = 1"
    for t a s f
    by (rule yields_mono [OF find_stack [OF evolves_wf [OF t], simplified, OF has_roomD(2) [OF assms(2)]]])
      (auto simp: set_fields_def f intro: evolves_reg_stack [OF t])
  show ?thesis unfolding get_stack_def Let_def
    by (rule yields_bind, rule yields_mono [OF find_reg [OF assms(1) has_roomD(1) [OF assms(2)]]])
      (auto simp: set_fields_checked_def intro!: yields_intros yields_mono [OF stk] get_done_yields)
qed

lemma get_value_evolves:
  assumes "wf_state ps" "has_room ps 2"
  shows "yields (get_value_RTL_instruction self ps source dest info) (\<lambda>(_, ps', _). evolves 1 ps ps')"
  unfolding get_value_RTL_instruction_def
  by (auto simp: evolves_refl assms get_register_evolves get_memory_evolves get_stack_evolves
      intro!: get_done_yields split: indirect_kind.splits store_kind.splits)

lemma put_register_evolves:
  assumes "wf_state ps" "has_room ps 2"
  shows "yields (put_register ps inst) (\<lambda>(_, ps'). evolves 1 ps ps')"
  unfolding put_register_def Let_def
  by (rule yields_bind, rule yields_mono [OF find_reg [OF assms(1) has_roomD(1) [OF assms(2)]]])
    (auto intro!: evolves_write same_record)

lemma put_memory_at_evolves:
  assumes "wf_state ps" "2 \<le> free_slots (memory_data ps)"
  shows "yields (put_memory_at ps inst a) (\<lambda>(_, ps'). \<exists>t. ps' = ps\<lparr>memory_data := t\<rparr> \<and> evolves 1 ps ps')"
  unfolding put_memory_at_def Let_def
  by (rule yields_bind, rule yields_mono [OF find_data [OF assms]])
    (auto intro!: evolves_write same_record)

lemma put_memory_evolves:
  assumes "wf_state ps" "has_room ps 2"
  shows "yields (put_memory ps inst) (\<lambda>(_, ps'). evolves 1 ps ps')"
proof (cases "store (dstA (instruction inst))")
  case STORE_DIRECT
  then show ?thesis
    by (auto simp: put_memory_def
        intro!: yields_mono [OF put_memory_at_evolves [OF assms(1) has_roomD(3) [OF assms(2)]]])
next
  case STORE_REG
  have data: "yields (put_memory_at (ps\<lparr>memory_reg := t\<rparr>) inst a) (\<lambda>(_, ps'). evolves 1 ps ps')"
    if t: "evolves 1 ps (ps\<lparr>memory_reg := t\<rparr>)" for t a
    by (rule yields_mono [OF put_memory_at_evolves [OF evolves_wf [OF t]]])
      (use has_roomD(3) [OF assms(2)] in \<open>auto intro: evolves_reg_data [OF t]\<close>)
  show ?thesis unfolding put_memory_def Let_def STORE_REG store_kind.case
    by (rule yields_bind, rule yields_mono [OF find_reg [OF assms(1) has_roomD(1) [OF assms(2)]]])
      (auto simp: set_fields_def intro!: data)
next
  case STORE_PTR
  then show ?thesis by (simp add: put_memory_def evolves_refl assms)
qed

lemma put_stack_evolves:
  assumes "wf_state ps" "has_room ps 2"
  shows "yields (put_stack ps inst) (\<lambda>(_, ps'). evolves 1 ps ps')"
proof -
  have stk: "yields (bindE (find_or_add (memory_stack ps) a s (\<lambda>m v. Inr m)) k) (\<lambda>(_, ps'). evolves 1 ps ps')"
    if "\<And>t n. evolves 1 ps (ps\<lparr>memory_stack := t\<rparr>) \<Longrightarrow> n < length (entries t) \<Longrightarrow>
      yields (k (t, Some n)) (\<lambda>(_, ps'). evolves 1 ps ps')" for a s k
    by (rule yields_bind, rule yields_mono [OF find_stack [OF assms(1) has_roomD(2) [OF assms(2)]]])
      (auto intro: that same_record)
  show ?thesis unfolding put_stack_def Let_def
    by (rule yields_bind) (auto simp: yields_def [of "search_store _ _ _"] evolves_refl assms
        intro!: stk evolves_write split: option.splits)
qed

lemma put_value_evolves:
  assumes "wf_state ps" "has_room ps 2"
  shows "yields (put_value_RTL_instruction ps inst) (\<lambda>(_, ps'). evolves 1 ps ps')"
proof -
  have "yields (case indirect (dstA (instruction inst)) of
              IND_DIRECT \<Rightarrow>
                (case store (dstA (instruction inst)) of
                   STORE_DIRECT \<Rightarrow> Inr (1, ps)
                 | STORE_REG \<Rightarrow> put_register ps inst
                 | STORE_PTR \<Rightarrow> Inr (1, ps))
            | IND_MEM \<Rightarrow> put_memory ps inst
            | IND_STACK \<Rightarrow> put_stack ps inst
            | IND_IO \<Rightarrow> Inr (1, ps)) (\<lambda>(_, ps'). evolves 1 ps ps')"
    using put_register_evolves [OF assms] put_memory_evolves [OF assms] put_stack_evolves [OF assms]
    by (auto simp: evolves_refl assms split: indirect_kind.splits store_kind.splits)
  then show ?thesis unfolding put_value_RTL_instruction_def
    by (rule yields_bind [OF yields_mono]) (auto simp: yields_def bindE_Inr_iff)
qed

section \<open>What is written is read back\<close>

text \<open>The record an operand names, when the tables hold it.\<close>

definition cell_of :: "process_state_s \<Rightarrow> operand_s \<Rightarrow> memory_s option" where
  "cell_of ps opr =
     (case indirect opr of
        IND_DIRECT \<Rightarrow> table_map (memory_reg ps) (index opr)
      | IND_MEM \<Rightarrow> Option.bind (table_map (memory_reg ps) (index opr))
          (\<lambda>m. table_map (memory_data ps) (abs_value m))
      | IND_STACK \<Rightarrow> Option.bind (table_map (memory_reg ps) (index opr))
          (\<lambda>m. table_map (memory_stack ps) (abs_value m))
      | IND_IO \<Rightarrow> None)"

lemma get_value_cell:
  assumes wf: "wf_state ps" and reg: "store opr = STORE_REG" and cell: "cell_of ps opr = Some m"
  obtains v where "get_value_RTL_instruction self ps opr dest info = Inr (0, ps, v)"
    "init_value v = init_value m" "offset_value v = offset_value m"
    "value_scope v = value_scope m"
proof (cases "indirect opr")
  case IND_DIRECT
  with cell have c: "table_map (memory_reg ps) (index opr) = Some m" by (simp add: cell_of_def)
  obtain n where n: "\<And>i. find_or_add (memory_reg ps) (index opr) (value_size opr) i
      = Inr (memory_reg ps, Some n)" "memory_reg ps ! n = m"
    using find_or_add_hit [OF wf_stateD(1) [OF wf] c] by metis
  show thesis
    by (rule that [of "(copy_value dest m)\<lparr>start_address := start_address m\<rparr>"])
      (simp_all add: get_value_RTL_instruction_def IND_DIRECT reg get_register_def n get_done_wf wf)
next
  case IND_MEM
  with cell obtain b where b: "table_map (memory_reg ps) (index opr) = Some b"
    "table_map (memory_data ps) (abs_value b) = Some m"
    by (auto simp: cell_of_def bind_eq_Some_conv)
  obtain n where n: "\<And>i. find_or_add (memory_reg ps) (index opr) (indirect_size opr) i
      = Inr (memory_reg ps, Some n)" "memory_reg ps ! n = b"
    using find_or_add_hit [OF wf_stateD(1) [OF wf] b(1)] by metis
  obtain k where k: "\<And>i. find_or_add (memory_data ps) (abs_value b) (value_size opr) i
      = Inr (memory_data ps, Some k)" "memory_data ps ! k = m"
    using find_or_add_hit [OF wf_stateD(3) [OF wf] b(2)] by metis
  show thesis
    by (rule that [of "(copy_value (dest\<lparr>value_id := value_id b\<rparr>) m)\<lparr>
        start_address := start_address m, indirect_init_value := init_value b,
        indirect_offset_value := offset_value b\<rparr>"])
      (simp_all add: get_value_RTL_instruction_def IND_MEM reg get_memory_def get_memory_at_def n k
        get_done_wf wf)
next
  case IND_STACK
  with cell obtain b where b: "table_map (memory_reg ps) (index opr) = Some b"
    "table_map (memory_stack ps) (abs_value b) = Some m"
    by (auto simp: cell_of_def bind_eq_Some_conv)
  obtain n where n: "\<And>i. find_or_add (memory_reg ps) (index opr) (indirect_size opr) i
      = Inr (memory_reg ps, Some n)" "memory_reg ps ! n = b"
    using find_or_add_hit [OF wf_stateD(1) [OF wf] b(1)] by metis
  obtain k where k: "\<And>i. find_or_add (memory_stack ps) (abs_value b) (value_size opr) i
      = Inr (memory_stack ps, Some k)" "memory_stack ps ! k = m"
    using find_or_add_hit [OF wf_stateD(2) [OF wf] b(2)] by metis
  show thesis
    by (rule that [of "(copy_value dest m)\<lparr>start_address := 0,
        indirect_init_value := init_value b, indirect_offset_value := offset_value b\<rparr>"])
      (simp_all add: get_value_RTL_instruction_def IND_STACK get_stack_def n k get_done_wf wf Let_def)
next
  case IND_IO
  with cell show thesis by (simp add: cell_of_def)
qed

lemma change_cell:
  assumes "wf_table t" "n < length (entries t)" "start_address (t ! n) = a"
    "start_address m = a" "mem_valid m = 1"
  shows "table_map (t[n := m]) a = Some m"
  using change_record(4) [OF assms(1,2), of m] assms(3-5) by simp

lemma live_cell: "wf_table t \<Longrightarrow> n < length (entries t) \<Longrightarrow> table_map t (start_address (t ! n)) = Some (t ! n)"
  by (rule tab.view_live)

definition holds :: "memory_s option \<Rightarrow> memory_s \<Rightarrow> bool" where
  "holds c v \<longleftrightarrow> (\<exists>m. c = Some m \<and> init_value m = init_value v \<and> offset_value m = offset_value v \<and>
     value_scope m = value_scope v)"

lemma put_register_cell:
  assumes "wf_state ps" "has_room ps 2" "indirect (dstA (instruction inst)) = IND_DIRECT"
  shows "yields (put_register ps inst)
    (\<lambda>(r, ps'). r = 0 \<longrightarrow> holds (cell_of ps' (dstA (instruction inst))) (value3 inst))"
  unfolding put_register_def Let_def
  by (rule yields_bind, rule yields_mono [OF find_reg [OF assms(1) has_roomD(1) [OF assms(2)]]])
    (auto simp: cell_of_def assms(3) holds_def change_cell evolves_def wf_state_def intro: same_record)

lemma put_memory_at_cell:
  assumes "wf_state ps" "2 \<le> free_slots (memory_data ps)"
  shows "yields (put_memory_at ps inst a) (\<lambda>(r, ps'). memory_reg ps' = memory_reg ps \<and>
    (r = 0 \<longrightarrow> holds (table_map (memory_data ps') a) (value3 inst)))"
  unfolding put_memory_at_def Let_def
  by (rule yields_bind, rule yields_mono [OF find_data [OF assms]])
    (auto simp: holds_def change_cell evolves_def wf_state_def intro: same_record)

lemma put_memory_cell:
  assumes "wf_state ps" "has_room ps 2" "indirect (dstA (instruction inst)) = IND_MEM"
    "store (dstA (instruction inst)) = STORE_REG"
  shows "yields (put_memory ps inst)
    (\<lambda>(r, ps'). r = 0 \<longrightarrow> holds (cell_of ps' (dstA (instruction inst))) (value3 inst))"
proof -
  let ?d = "dstA (instruction inst)"
  have data: "yields (put_memory_at (ps\<lparr>memory_reg := t\<rparr>) inst (abs_value (t ! n)))
      (\<lambda>(r, ps'). r = 0 \<longrightarrow> holds (cell_of ps' ?d) (value3 inst))"
    if t: "evolves 1 ps (ps\<lparr>memory_reg := t\<rparr>)" "n < length (entries t)" "start_address (t ! n) = index ?d"
    for t n
  proof -
    have w: "wf_table t" using t(1) by (simp add: evolves_def wf_state_def)
    show ?thesis
      by (rule yields_mono [OF put_memory_at_cell [OF evolves_wf [OF t(1)]]])
        (use has_roomD(3) [OF assms(2)] live_cell [OF w t(2)] t(3) assms(3) in
          \<open>auto simp: cell_of_def\<close>)
  qed
  show ?thesis unfolding put_memory_def Let_def assms(4) store_kind.case
    by (rule yields_bind, rule yields_mono [OF find_reg [OF assms(1) has_roomD(1) [OF assms(2)]]])
      (auto simp: set_fields_def intro!: data)
qed

lemma put_stack_cell:
  assumes "wf_state ps" "has_room ps 2" "indirect (dstA (instruction inst)) = IND_STACK"
  shows "yields (put_stack ps inst)
    (\<lambda>(r, ps'). r = 0 \<longrightarrow> holds (cell_of ps' (dstA (instruction inst))) (value3 inst))"
proof -
  let ?d = "dstA (instruction inst)"
  have stk: "yields (bindE (find_or_add (memory_stack ps) a s (\<lambda>m v. Inr m)) k) Q"
    if "\<And>t n. wf_table t \<Longrightarrow> n < length (entries t) \<Longrightarrow> start_address (t ! n) = a \<Longrightarrow>
      yields (k (t, Some n)) Q" for a s k and Q :: "int \<times> process_state_s \<Rightarrow> bool"
    by (rule yields_bind, rule yields_mono [OF find_stack [OF assms(1) has_roomD(2) [OF assms(2)]]])
      (auto intro: that same_record simp: evolves_def wf_state_def)
  show ?thesis
  proof (cases "search_store (memory_reg ps) (index ?d) (indirect_size ?d)")
    case (Inr v)
    show ?thesis
    proof (cases v)
      case None
      with Inr show ?thesis by (simp add: put_stack_def)
    next
      case (Some n)
      note live = search_store_live [OF wf_stateD(1) [OF assms(1)] Inr [unfolded Some]]
      show ?thesis unfolding put_stack_def Let_def Inr Some bindE.simps option.case
        using live by (auto intro!: stk simp: cell_of_def assms(3) holds_def change_cell)
    qed
  qed (simp add: put_stack_def)
qed

lemma put_value_cell:
  assumes "wf_state ps" "has_room ps 2" "store (dstA (instruction inst)) = STORE_REG"
  shows "yields (put_value_RTL_instruction ps inst)
    (\<lambda>(r, ps'). r = 0 \<longrightarrow> holds (cell_of ps' (dstA (instruction inst))) (value3 inst))"
proof -
  have "yields (case indirect (dstA (instruction inst)) of
              IND_DIRECT \<Rightarrow> put_register ps inst
            | IND_MEM \<Rightarrow> put_memory ps inst
            | IND_STACK \<Rightarrow> put_stack ps inst
            | IND_IO \<Rightarrow> Inr (1, ps))
     (\<lambda>(r, ps'). r = 0 \<longrightarrow> holds (cell_of ps' (dstA (instruction inst))) (value3 inst))"
    using put_register_cell [OF assms(1,2)] put_memory_cell [OF assms(1,2) _ assms(3)]
      put_stack_cell [OF assms(1,2)]
    by (auto split: indirect_kind.splits)
  then show ?thesis unfolding put_value_RTL_instruction_def assms(3) store_kind.case
    by (rule yields_bind [OF yields_mono]) (auto simp: yields_def bindE_Inr_iff)
qed


end
