(* ===== verification/Execute.thy ===== *)
theory Execute
  imports Operands
begin

text \<open>
  \<open>execute_instruction\<close> of \<open>src/execute/exe.c\<close>: the size check, one definition per case of
  the opcode switch, and the final scope check. A case yields the C result code, the new
  process state and the log entry with its three values filled in.
\<close>

unbundle bit_operations_syntax

type_synonym exec = "int \<times> process_state_s \<times> inst_log_entry_s"

section \<open>Shared steps of the cases\<close>

text \<open>\<open>srcA\<close> into \<open>value1\<close>, \<open>srcB\<close> or \<open>dstA\<close> into \<open>value2\<close>.\<close>

definition get_value1 :: "self_s \<Rightarrow> process_state_s \<Rightarrow> inst_log_entry_s \<Rightarrow> int \<Rightarrow> exec c" where
  "get_value1 self ps inst info =
     bindE (get_value_RTL_instruction self ps (srcA (instruction inst)) (value1 inst) info)
       (\<lambda>(ret, ps', v). Inr (ret, ps', inst\<lparr>value1 := v\<rparr>))"

definition get_value2 ::
  "self_s \<Rightarrow> process_state_s \<Rightarrow> inst_log_entry_s \<Rightarrow> operand_s \<Rightarrow> int \<Rightarrow> exec c" where
  "get_value2 self ps inst source info =
     bindE (get_value_RTL_instruction self ps source (value2 inst) info)
       (\<lambda>(ret, ps', v). Inr (ret, ps', inst\<lparr>value2 := v\<rparr>))"

text \<open>
  Both operands in turn. The second result code overwrites the first; the source operands
  belong to the instruction, which reading does not change.
\<close>

definition with_operands ::
  "self_s \<Rightarrow> process_state_s \<Rightarrow> inst_log_entry_s \<Rightarrow> operand_s \<Rightarrow> int \<Rightarrow> int \<Rightarrow>
     (exec \<Rightarrow> 'a c) \<Rightarrow> 'a c" where
  "with_operands self ps inst source2 info1 info2 k =
     bindE (get_value1 self ps inst info1) (\<lambda>(ret1, ps1, inst1).
       bindE (get_value2 self ps1 inst1 source2 info2) k)"

text \<open>The result is written back; the code the write returns is not looked at.\<close>

definition exec_put :: "exec \<Rightarrow> exec c" where
  "exec_put e =
     (case e of (ret, ps, inst) \<Rightarrow>
        bindE (put_value_RTL_instruction ps inst) (\<lambda>(_, ps'). Inr (ret, ps', inst)))"

text \<open>
  The body the arithmetic and logic cases share, with the initial and the offset value of
  the result left open: the rest of \<open>value3\<close> comes from \<open>value1\<close> and the destination.
\<close>

definition indirect_from_value1 :: "inst_log_entry_s \<Rightarrow> memory_s \<Rightarrow> memory_s" where
  "indirect_from_value1 inst v3 =
     (if indirect (dstA (instruction inst)) \<noteq> IND_DIRECT then
        v3\<lparr>indirect_init_value := indirect_init_value (value1 inst),
           indirect_offset_value := indirect_offset_value (value1 inst),
           value_id := value_id (value1 inst)\<rparr>
      else v3)"

definition alu_result :: "inst_log_entry_s \<Rightarrow> u64 \<Rightarrow> u64 \<Rightarrow> inst_log_entry_s" where
  "alu_result inst iv ov =
     (let dst = dstA (instruction inst); v1 = value1 inst;
          v3 = (value3 inst)\<lparr>start_address := index dst, mem_length := value_size dst,
                 init_value_type := init_value_type v1, init_value := iv,
                 offset_value := ov, value_type := value_type v1\<rparr>;
          v3 = indirect_from_value1 inst v3
      in inst\<lparr>value3 := v3\<lparr>ref_memory := ref_memory v1, ref_log := ref_log v1,
                 value_scope := value_scope v1, value_id := value_id v1, mem_valid := 1\<rparr>\<rparr>)"

text \<open>C shifts of 64 bit values are undefined from a count of 64 on.\<close>

definition shift_left :: "u64 \<Rightarrow> u64 \<Rightarrow> u64 c" where
  "shift_left x n = (if n < 64 then Inr (push_bit (unat n) x) else Inl ShiftCount)"

definition shift_right :: "u64 \<Rightarrow> u64 \<Rightarrow> u64 c" where
  "shift_right x n = (if n < 64 then Inr (drop_bit (unat n) x) else Inl ShiftCount)"

section \<open>The cases\<close>

definition exec_cmp :: "self_s \<Rightarrow> process_state_s \<Rightarrow> inst_log_entry_s \<Rightarrow> exec c" where
  "exec_cmp self ps inst = with_operands self ps inst (srcB (instruction inst)) 0 1 Inr"

text \<open>A parameter moved into a register becomes a local.\<close>

definition param_to_local :: "inst_log_entry_s \<Rightarrow> int \<Rightarrow> int" where
  "param_to_local inst scp =
     (if scp = 1 \<and> STORE_REG = store (dstA (instruction inst)) \<and>
         1 = value_scope (value1 inst) \<and> indirect (dstA (instruction inst)) = IND_DIRECT
      then 2 else scp)"

definition exec_mov :: "self_s \<Rightarrow> process_state_s \<Rightarrow> inst_log_entry_s \<Rightarrow> exec c" where
  "exec_mov self ps inst =
     bindE (get_value1 self ps inst 0) (\<lambda>(ret, ps, inst).
       let dst = dstA (instruction inst); v1 = value1 inst;
           scp = param_to_local inst (value_scope v1);
           scp = (if scp = 0 \<and> STORE_DIRECT = store (srcA (instruction inst)) \<and>
                     indirect dst = IND_DIRECT then 2 else scp);
           v3 = (value3 inst)\<lparr>start_address := index dst, mem_length := value_size dst,
                  init_value_type := init_value_type v1, init_value := init_value v1,
                  offset_value := offset_value v1, value_type := value_type v1,
                  ref_memory := ref_memory v1, ref_log := ref_log v1,
                  value_scope := scp, value_id := 0, mem_valid := 1\<rparr>
       in if indirect dst \<noteq> IND_DIRECT then Inl (Exit 1)
          else if scp = 0 then Inl (Exit 1)
          else exec_put (ret, ps, inst\<lparr>value3 := v3, value1 := v1\<lparr>value_id := 0\<rparr>\<rparr>))"

definition exec_load :: "self_s \<Rightarrow> process_state_s \<Rightarrow> inst_log_entry_s \<Rightarrow> exec c" where
  "exec_load self ps inst =
     bindE (get_value1 self ps inst 0) (\<lambda>(ret, ps, inst).
       let dst = dstA (instruction inst); v1 = value1 inst;
           v3 = (value3 inst)\<lparr>start_address := index dst, mem_length := value_size dst,
                  init_value_type := init_value_type v1, init_value := init_value v1,
                  offset_value := offset_value v1, value_type := value_type v1,
                  ref_memory := ref_memory v1, ref_log := ref_log v1,
                  value_scope := 2, value_id := 0, mem_valid := 1\<rparr>
       in if indirect dst \<noteq> IND_DIRECT then Inl (Exit 1)
          else exec_put (ret, ps, inst\<lparr>value3 := v3, value1 := v1\<lparr>value_id := 0\<rparr>\<rparr>))"

definition exec_store :: "self_s \<Rightarrow> process_state_s \<Rightarrow> inst_log_entry_s \<Rightarrow> exec c" where
  "exec_store self ps inst =
     with_operands self ps inst (srcB (instruction inst)) 0 1 (\<lambda>(ret, ps, inst).
       let dst = dstA (instruction inst); v1 = value1 inst; v2 = value2 inst;
           v3 = (value3 inst)\<lparr>start_address := start_address v2, mem_length := mem_length v2,
                  init_value_type := init_value_type v1, init_value := init_value v1,
                  offset_value := offset_value v1, value_type := value_type v1\<rparr>;
           v3 = (if indirect dst \<noteq> IND_DIRECT then
                   v3\<lparr>indirect_init_value := init_value v2,
                      indirect_offset_value := offset_value v2, value_id := value_id v2\<rparr>
                 else v3);
           v3 = v3\<lparr>ref_memory := ref_memory v1, ref_log := ref_log v1\<rparr>;
           v3 = (if indirect dst = IND_STACK then v3\<lparr>value_scope := 2\<rparr>
                 else if indirect dst = IND_MEM then v3\<lparr>value_scope := 3\<rparr>
                 else v3)
       in exec_put (ret, ps, inst\<lparr>value3 := v3\<lparr>value_id := 0, mem_valid := 1\<rparr>,
                                  value1 := v1\<lparr>value_id := 0\<rparr>\<rparr>))"

definition exec_add :: "self_s \<Rightarrow> process_state_s \<Rightarrow> inst_log_entry_s \<Rightarrow> exec c" where
  "exec_add self ps inst =
     with_operands self ps inst (srcB (instruction inst)) 0 1 (\<lambda>(ret, ps, inst).
       let v1 = value1 inst; v2 = value2 inst;
           inst = alu_result inst (init_value v1) (offset_value v1 + init_value v2)
       in if value_scope (value3 inst) = 0 then Inl (Exit 1) else exec_put (ret, ps, inst))"

definition exec_adc :: "self_s \<Rightarrow> process_state_s \<Rightarrow> inst_log_entry_s \<Rightarrow> exec c" where
  "exec_adc self ps inst =
     with_operands self ps inst (srcB (instruction inst)) 0 1 exec_put"

text \<open>
  The product replaces the absolute value; everything but the offset comes from one of the
  two values: from \<open>value2\<close> when \<open>srcA\<close> is a number, from \<open>value1\<close> otherwise.
\<close>

definition mul_result :: "inst_log_entry_s \<Rightarrow> memory_s \<Rightarrow> u64 \<Rightarrow> inst_log_entry_s" where
  "mul_result inst v ov =
     inst\<lparr>value3 := (value3 inst)\<lparr>start_address := index (dstA (instruction inst)),
       mem_length := value_size (dstA (instruction inst)), init_value_type := init_value_type v,
       init_value := init_value v, offset_value := ov, value_type := value_type v,
       ref_memory := ref_memory v, ref_log := ref_log v, value_scope := value_scope v,
       value_id := value_id v, mem_valid := 1\<rparr>\<rparr>"

definition exec_mul :: "self_s \<Rightarrow> process_state_s \<Rightarrow> inst_log_entry_s \<Rightarrow> exec c" where
  "exec_mul self ps inst =
     with_operands self ps inst (srcB (instruction inst)) 0 1 (\<lambda>(ret, ps, inst).
       let src = srcA (instruction inst); v1 = value1 inst; v2 = value2 inst
       in exec_put (ret, ps, mul_result inst
            (if store src = STORE_DIRECT \<and> indirect src = IND_DIRECT then v2 else v1)
            ((offset_value v1 + init_value v1) * (offset_value v2 + init_value v2)
               - init_value v1)))"

definition exec_sub :: "self_s \<Rightarrow> process_state_s \<Rightarrow> inst_log_entry_s \<Rightarrow> exec c" where
  "exec_sub self ps inst =
     with_operands self ps inst (srcB (instruction inst)) 0 1 (\<lambda>(ret, ps, inst).
       let v1 = value1 inst; v2 = value2 inst
       in exec_put (ret, ps, alu_result inst (init_value v1)
            (offset_value v1 - init_value v2)))"

definition exec_sbb :: "self_s \<Rightarrow> process_state_s \<Rightarrow> inst_log_entry_s \<Rightarrow> exec c" where
  "exec_sbb self ps inst =
     with_operands self ps inst (srcB (instruction inst)) 0 1 (\<lambda>(ret, ps, inst).
       let v1 = value1 inst; v2 = value2 inst
       in exec_put (ret, ps, alu_result inst (init_value v1)
            (offset_value v1 - init_value v2)))"

definition exec_test :: "self_s \<Rightarrow> process_state_s \<Rightarrow> inst_log_entry_s \<Rightarrow> exec c" where
  "exec_test self ps inst =
     with_operands self ps inst (srcB (instruction inst)) 0 1 (\<lambda>(ret, ps, inst).
       let v1 = value1 inst; v2 = value2 inst
       in Inr (ret, ps, alu_result inst 0
            ((offset_value v1 + init_value v2) AND init_value v1)))"

definition exec_and :: "self_s \<Rightarrow> process_state_s \<Rightarrow> inst_log_entry_s \<Rightarrow> exec c" where
  "exec_and self ps inst =
     with_operands self ps inst (srcB (instruction inst)) 0 1 (\<lambda>(ret, ps, inst).
       let v1 = value1 inst; v2 = value2 inst
       in exec_put (ret, ps, alu_result inst 0
            ((offset_value v1 + init_value v1) AND init_value v2)))"

definition exec_or :: "self_s \<Rightarrow> process_state_s \<Rightarrow> inst_log_entry_s \<Rightarrow> exec c" where
  "exec_or self ps inst =
     with_operands self ps inst (srcB (instruction inst)) 0 1 (\<lambda>(ret, ps, inst).
       let v1 = value1 inst; v2 = value2 inst
       in exec_put (ret, ps, alu_result inst 0
            ((offset_value v1 + init_value v1) OR init_value v2)))"

definition exec_xor :: "self_s \<Rightarrow> process_state_s \<Rightarrow> inst_log_entry_s \<Rightarrow> exec c" where
  "exec_xor self ps inst =
     with_operands self ps inst (srcB (instruction inst))
       (source_equals_dest (srcA (instruction inst)) (srcB (instruction inst))) 1
       (\<lambda>(ret, ps, inst).
       let v1 = value1 inst; v2 = value2 inst
       in exec_put (ret, ps, alu_result inst 0
            ((offset_value v1 + init_value v1) XOR init_value v2)))"

definition exec_neg :: "self_s \<Rightarrow> process_state_s \<Rightarrow> inst_log_entry_s \<Rightarrow> exec c" where
  "exec_neg self ps inst =
     bindE (get_value1 self ps inst 0) (\<lambda>(ret, ps, inst).
       let v1 = value1 inst
       in exec_put (ret, ps, alu_result inst 0 (0 - (offset_value v1 + init_value v1))))"

text \<open>The source writes \<open>!\<close>, the logical negation.\<close>

definition exec_not :: "self_s \<Rightarrow> process_state_s \<Rightarrow> inst_log_entry_s \<Rightarrow> exec c" where
  "exec_not self ps inst =
     bindE (get_value1 self ps inst 0) (\<lambda>(ret, ps, inst).
       let v1 = value1 inst
       in exec_put (ret, ps, alu_result inst 0
            (if offset_value v1 + init_value v1 = 0 then 1 else 0)))"

definition exec_shl :: "self_s \<Rightarrow> process_state_s \<Rightarrow> inst_log_entry_s \<Rightarrow> exec c" where
  "exec_shl self ps inst =
     with_operands self ps inst (srcB (instruction inst)) 0 1 (\<lambda>(ret, ps, inst).
       let v1 = value1 inst; v2 = value2 inst
       in bindE (shift_left (offset_value v1 + init_value v1) (init_value v2)) (\<lambda>x.
            exec_put (ret, ps, alu_result inst 0 x)))"

definition exec_shr :: "self_s \<Rightarrow> process_state_s \<Rightarrow> inst_log_entry_s \<Rightarrow> exec c" where
  "exec_shr self ps inst =
     with_operands self ps inst (srcB (instruction inst)) 0 1 (\<lambda>(ret, ps, inst).
       let v1 = value1 inst; v2 = value2 inst
       in bindE (shift_right (offset_value v1 + init_value v1) (init_value v2)) (\<lambda>x.
            exec_put (ret, ps, alu_result inst 0 x)))"

definition exec_sal :: "self_s \<Rightarrow> process_state_s \<Rightarrow> inst_log_entry_s \<Rightarrow> exec c" where
  "exec_sal self ps inst =
     with_operands self ps inst (srcB (instruction inst)) 0 1 (\<lambda>(ret, ps, inst).
       let v1 = value1 inst; v2 = value2 inst
       in bindE (shift_left (offset_value v1 + init_value v1) (init_value v2)) (\<lambda>x.
            exec_put (ret, ps, alu_result inst 0 x)))"

definition exec_sar :: "self_s \<Rightarrow> process_state_s \<Rightarrow> inst_log_entry_s \<Rightarrow> exec c" where
  "exec_sar self ps inst =
     with_operands self ps inst (srcB (instruction inst)) 0 0 (\<lambda>(ret, ps, inst).
       let v1 = value1 inst; v2 = value2 inst
       in bindE (shift_right (offset_value v1 + init_value v1) (init_value v2)) (\<lambda>x.
            exec_put (ret, ps, alu_result inst 0 x)))"

text \<open>
  The jumps read the instruction pointer's record, which must be in the register table. The
  absolute target goes into \<open>value3\<close>.
\<close>

definition with_ip :: "process_state_s \<Rightarrow> (nat \<Rightarrow> memory_s \<Rightarrow> 'a c) \<Rightarrow> 'a c" where
  "with_ip ps k =
     bindE (search_store (memory_reg ps) REG_IP 4) (\<lambda>v.
       case v of None \<Rightarrow> Inl NullDeref | Some n \<Rightarrow> k n (memory_reg ps ! n))"

definition jump_target :: "inst_log_entry_s \<Rightarrow> memory_s \<Rightarrow> u64 \<Rightarrow> inst_log_entry_s" where
  "jump_target inst ip rel =
     inst\<lparr>value3 := (copy_value (value3 inst) ip)\<lparr>start_address := start_address ip,
            offset_value := offset_value ip + rel\<rparr>\<rparr>"

definition exec_if :: "self_s \<Rightarrow> process_state_s \<Rightarrow> inst_log_entry_s \<Rightarrow> exec c" where
  "exec_if self ps inst =
     with_operands self ps inst (dstA (instruction inst)) 0 1 (\<lambda>(ret, ps, inst).
       with_ip ps (\<lambda>n ip. Inr (ret, ps, jump_target inst ip (init_value (value2 inst)))))"

definition exec_jmpt :: "self_s \<Rightarrow> process_state_s \<Rightarrow> inst_log_entry_s \<Rightarrow> exec c" where
  "exec_jmpt self ps inst =
     with_operands self ps inst (dstA (instruction inst)) 0 1 (\<lambda>(ret, ps, inst).
       let v1 = value1 inst;
           v3 = (value3 inst)\<lparr>start_address := start_address v1, mem_length := mem_length v1,
                  init_value_type := init_value_type v1, init_value := init_value v1,
                  offset_value := offset_value v1, value_type := value_type v1\<rparr>;
           v3 = indirect_from_value1 inst v3
       in Inr (ret, ps, inst\<lparr>
            value3 := v3\<lparr>ref_memory := ref_memory v1, ref_log := ref_log v1,
              value_scope := param_to_local inst (value_scope v1), value_id := 0,
              mem_valid := 1\<rparr>,
            value1 := v1\<lparr>value_id := 0\<rparr>\<rparr>))"

definition exec_jmp :: "self_s \<Rightarrow> process_state_s \<Rightarrow> inst_log_entry_s \<Rightarrow> exec c" where
  "exec_jmp self ps inst =
     bindE (get_value1 self ps inst 0) (\<lambda>(ret, ps, inst).
       with_ip ps (\<lambda>n ip.
         let inst = jump_target inst ip (init_value (value1 inst))
         in Inr (ret, ps\<lparr>memory_reg :=
                   (memory_reg ps)[n := ip\<lparr>offset_value := offset_value (value3 inst)\<rparr>]\<rparr>,
                 inst)))"

text \<open>The scan of the external entry points for the one a call goes to.\<close>

fun find_entry_point ::
  "(external_entry_point_s \<Rightarrow> bool) \<Rightarrow> external_entry_point_s list \<Rightarrow> nat \<Rightarrow> nat \<Rightarrow>
     nat option c" where
  "find_entry_point P eeps n 0 = Inr None"
| "find_entry_point P eeps n (Suc k) =
     bindE (at eeps n) (\<lambda>e.
       if P e then Inr (Some n) else find_entry_point P eeps (Suc n) k)"

definition link_operand :: "nat option \<Rightarrow> instruction_s \<Rightarrow> instruction_s" where
  "link_operand r ins =
     (case r of
        None \<Rightarrow> ins
      | Some n \<Rightarrow> ins\<lparr>srcA := (srcA ins)\<lparr>index := of_nat n, relocated := 1\<rparr>\<rparr>)"

definition link_relocated_call :: "self_s \<Rightarrow> instruction_s \<Rightarrow> instruction_s c" where
  "link_relocated_call self ins =
     (if relocated (srcA ins) = 2 then
        bindE (find_entry_point
                 (\<lambda>e. eep_valid e \<noteq> 0 \<and> eep_type e = 1 \<and>
                      eep_value e = word_of_int (relocated_index (srcA ins)))
                 (external_entry_points self) 0 EXTERNAL_ENTRY_POINTS_MAX)
          (\<lambda>r. Inr (link_operand r ins))
      else Inr ins)"

definition link_direct_call :: "self_s \<Rightarrow> u64 \<Rightarrow> instruction_s \<Rightarrow> instruction_s c" where
  "link_direct_call self call_offset ins =
     (if relocated (srcA ins) = 0 \<and> indirect (srcA ins) = IND_DIRECT then
        bindE (find_entry_point
                 (\<lambda>e. eep_valid e \<noteq> 0 \<and> (eep_type e = 1 \<or> eep_type e = 2) \<and>
                      eep_value e = call_offset)
                 (external_entry_points self) 0 EXTERNAL_ENTRY_POINTS_MAX)
          (\<lambda>r. Inr (link_operand r ins))
      else Inr ins)"

definition exec_call :: "self_s \<Rightarrow> process_state_s \<Rightarrow> inst_log_entry_s \<Rightarrow> exec c" where
  "exec_call self ps inst =
     with_operands self ps inst (srcB (instruction inst)) 0 1 (\<lambda>(ret, ps, inst).
       with_ip ps (\<lambda>n ip.
         let v1 = (value1 inst)\<lparr>offset_value := init_value (value1 inst),
                                init_value := offset_value ip\<rparr>
         in bindE (link_relocated_call self (instruction inst)) (\<lambda>ins.
            bindE (link_direct_call self (init_value v1 + offset_value v1) ins) (\<lambda>ins.
              exec_put (ret, ps, inst\<lparr>instruction := ins,
                value1 := v1\<lparr>value_id := 0, mem_valid := 1\<rparr>,
                value3 := (value3 inst)\<lparr>start_address := index (dstA ins),
                  mem_length := value_size (dstA ins), init_value_type := 0, init_value := 0,
                  offset_value := 0, value_type := 0, indirect_init_value := 0,
                  indirect_offset_value := 0, ref_memory := 0, ref_log := 0,
                  value_scope := 2, value_id := 0, mem_valid := 1\<rparr>\<rparr>)))))"

text \<open>
  \<open>SEX\<close> and \<open>TRUNC\<close> may return from inside the switch (\<open>Return\<close>), past the final check;
  the other cases leave it by \<open>break\<close>. Both first set the length of the destination's record,
  when there is one.
\<close>

datatype 'a flow = Break 'a | Return 'a

definition set_dst_length :: "process_state_s \<Rightarrow> operand_s \<Rightarrow> process_state_s c" where
  "set_dst_length ps dst =
     bindE (search_store (memory_reg ps) (index dst) (value_size dst)) (\<lambda>v.
       case v of
         None \<Rightarrow> Inr ps
       | Some n \<Rightarrow> Inr (ps\<lparr>memory_reg :=
                     (memory_reg ps)[n := (memory_reg ps ! n)\<lparr>mem_length := value_size dst\<rparr>]\<rparr>))"

definition resize_result ::
  "inst_log_entry_s \<Rightarrow> (u64 \<Rightarrow> u64) \<Rightarrow> inst_log_entry_s" where
  "resize_result inst f =
     (let dst = dstA (instruction inst); v1 = value1 inst;
          v3 = (value3 inst)\<lparr>start_address := index dst, mem_length := value_size dst,
                 init_value_type := init_value_type v1, init_value := f (init_value v1),
                 offset_value := f (offset_value v1), value_type := value_type v1\<rparr>;
          v3 = indirect_from_value1 inst v3
      in inst\<lparr>value3 := v3\<lparr>ref_memory := ref_memory v1, ref_log := ref_log v1,
                value_scope := param_to_local inst (value_scope v1), value_id := 0,
                mem_valid := 1\<rparr>,
              value1 := v1\<lparr>value_id := 0\<rparr>\<rparr>)"

text \<open>What is left in \<open>value3\<close> when the length is neither 32 nor 64.\<close>

definition resize_failed :: "inst_log_entry_s \<Rightarrow> inst_log_entry_s" where
  "resize_failed inst =
     inst\<lparr>value3 := (value3 inst)\<lparr>start_address := index (dstA (instruction inst)),
            mem_length := value_size (dstA (instruction inst)),
            init_value_type := init_value_type (value1 inst)\<rparr>\<rparr>"

definition exec_sex :: "self_s \<Rightarrow> process_state_s \<Rightarrow> inst_log_entry_s \<Rightarrow> exec flow c" where
  "exec_sex self ps inst =
     bindE (get_value1 self ps inst 0) (\<lambda>(ret, ps, inst).
       let dst = dstA (instruction inst) in
       bindE (set_dst_length ps dst) (\<lambda>ps.
         if value_size dst = 64 then
           bindE (exec_put (ret, ps, resize_result inst (\<lambda>x. scast (ucast x :: u32)))) (\<lambda>e. Inr (Break e))
         else if value_size dst = 32 then
           bindE (exec_put (ret, ps, resize_result inst (\<lambda>x. scast (ucast x :: u16)))) (\<lambda>e. Inr (Break e))
         else Inr (Return (1, ps, resize_failed inst))))"

definition exec_trunc :: "self_s \<Rightarrow> process_state_s \<Rightarrow> inst_log_entry_s \<Rightarrow> exec flow c" where
  "exec_trunc self ps inst =
     bindE (get_value1 self ps inst 0) (\<lambda>(ret, ps, inst).
       let dst = dstA (instruction inst) in
       bindE (set_dst_length ps dst) (\<lambda>ps.
         if value_size dst = 64 then
           bindE (exec_put (ret, ps, resize_result inst (\<lambda>x. x AND 0xffffffffffffffff))) (\<lambda>e. Inr (Break e))
         else if value_size dst = 32 then
           bindE (exec_put (ret, ps, resize_result inst (\<lambda>x. x AND 0xffffffff))) (\<lambda>e. Inr (Break e))
         else Inr (Return (1, ps, resize_failed inst))))"

section \<open>The function\<close>

definition print_inst_short :: "instruction_s \<Rightarrow> unit c" where
  "print_inst_short ins = (if flags ins \<in> {0, 1} then Inr () else Inl OutOfBounds)"

definition check_value_sizes :: "instruction_s \<Rightarrow> unit c" where
  "check_value_sizes ins =
     (let a = value_size (srcA ins); b = value_size (srcB ins); d = value_size (dstA ins);
          need = (\<lambda>zero. if zero then Inl (Exit 1) else Inr ())
      in if opcode ins = OP_NOP then Inr ()
         else if opcode ins \<in> {OP_CMP, OP_TEST} then need (a = 0 \<or> b = 0)
         else if opcode ins \<in> {OP_MOV, OP_NEG, OP_NOT, OP_TRUNC} then need (a = 0 \<or> d = 0)
         else if opcode ins \<in> {OP_ADC, OP_ADD, OP_MUL, OP_IMUL, OP_SBB, OP_SUB, OP_AND, OP_OR,
                               OP_XOR, OP_SHL, OP_SHR, OP_SAL, OP_SAR}
              then need (a = 0 \<or> b = 0 \<or> d = 0)
         else if opcode ins \<in> {OP_LOAD, OP_STORE, OP_JMPT, OP_JMP, OP_CALL, OP_IF} then Inr ()
         else Inl (Exit 1))"

definition exec_break :: "exec c \<Rightarrow> exec flow c" where
  "exec_break m = bindE m (\<lambda>e. Inr (Break e))"

definition execute_case ::
  "self_s \<Rightarrow> process_state_s \<Rightarrow> inst_log_entry_s \<Rightarrow> exec flow c" where
  "execute_case self ps inst =
     (case opcode (instruction inst) of
        OP_NOP \<Rightarrow> Inr (Break (0, ps, inst))
      | OP_CMP \<Rightarrow> exec_break (exec_cmp self ps inst)
      | OP_MOV \<Rightarrow> exec_break (exec_mov self ps inst)
      | OP_LOAD \<Rightarrow> exec_break (exec_load self ps inst)
      | OP_STORE \<Rightarrow> exec_break (exec_store self ps inst)
      | OP_SEX \<Rightarrow> exec_sex self ps inst
      | OP_ADD \<Rightarrow> exec_break (exec_add self ps inst)
      | OP_ADC \<Rightarrow> exec_break (exec_adc self ps inst)
      | OP_MUL \<Rightarrow> exec_break (exec_mul self ps inst)
      | OP_IMUL \<Rightarrow> exec_break (exec_mul self ps inst)
      | OP_SUB \<Rightarrow> exec_break (exec_sub self ps inst)
      | OP_SBB \<Rightarrow> exec_break (exec_sbb self ps inst)
      | OP_TEST \<Rightarrow> exec_break (exec_test self ps inst)
      | OP_AND \<Rightarrow> exec_break (exec_and self ps inst)
      | OP_OR \<Rightarrow> exec_break (exec_or self ps inst)
      | OP_XOR \<Rightarrow> exec_break (exec_xor self ps inst)
      | OP_NEG \<Rightarrow> exec_break (exec_neg self ps inst)
      | OP_NOT \<Rightarrow> exec_break (exec_not self ps inst)
      | OP_SHL \<Rightarrow> exec_break (exec_shl self ps inst)
      | OP_SHR \<Rightarrow> exec_break (exec_shr self ps inst)
      | OP_SAL \<Rightarrow> exec_break (exec_sal self ps inst)
      | OP_SAR \<Rightarrow> exec_break (exec_sar self ps inst)
      | OP_IF \<Rightarrow> exec_break (exec_if self ps inst)
      | OP_JMPT \<Rightarrow> exec_break (exec_jmpt self ps inst)
      | OP_JMP \<Rightarrow> exec_break (exec_jmp self ps inst)
      | OP_CALL \<Rightarrow> exec_break (exec_call self ps inst)
      | OP_TRUNC \<Rightarrow> exec_trunc self ps inst
      | _ \<Rightarrow> Inr (Break (1, ps, inst)))"

definition check_scope :: "exec \<Rightarrow> exec c" where
  "check_scope e =
     (case e of (ret, ps, inst) \<Rightarrow>
        if opcode (instruction inst) \<in> {OP_NOP, OP_CMP} then Inr e
        else if value_scope (value3 inst) = 0 then Inl (Exit 1)
        else Inr e)"

definition execute_instruction ::
  "self_s \<Rightarrow> process_state_s \<Rightarrow> inst_log_entry_s \<Rightarrow> exec c" where
  "execute_instruction self ps inst =
     bindE (print_inst_short (instruction inst)) (\<lambda>_.
     bindE (check_value_sizes (instruction inst)) (\<lambda>_.
     bindE (execute_case self ps inst) (\<lambda>f.
       case f of Break e \<Rightarrow> check_scope e | Return e \<Rightarrow> Inr e)))"


lemma evolves_into: "evolves j p q \<Longrightarrow> evolves k q r \<Longrightarrow> j + k \<le> n \<Longrightarrow> evolves n p r"
  by (rule evolves_mono [OF evolves_trans])

section \<open>Every instruction keeps the state well formed\<close>

lemma get_value1_yields:
  assumes "wf_state ps" "has_room ps 2"
  shows "yields (get_value1 self ps inst info)
    (\<lambda>(_, ps', inst'). evolves 1 ps ps' \<and> instruction inst' = instruction inst)"
  unfolding get_value1_def
  by (rule yields_bind, rule yields_mono [OF get_value_evolves [OF assms]]) auto

lemma get_value2_yields:
  assumes "wf_state ps" "has_room ps 2"
  shows "yields (get_value2 self ps inst source info)
    (\<lambda>(_, ps', inst'). evolves 1 ps ps' \<and> instruction inst' = instruction inst)"
  unfolding get_value2_def
  by (rule yields_bind, rule yields_mono [OF get_value_evolves [OF assms]]) auto

text \<open>One operand, or two, and then a continuation that uses up one record at most.\<close>

lemma one_operand_yields:
  assumes wf: "wf_state ps" and room: "has_room ps 4"
    and k: "\<And>r ps' inst'. wf_state ps' \<Longrightarrow> has_room ps' 2 \<Longrightarrow> instruction inst' = instruction inst \<Longrightarrow>
      yields (k (r, ps', inst')) (\<lambda>x. evolves 1 ps' (st x))"
  shows "yields (bindE (get_value1 self ps inst info) k) (\<lambda>x. evolves 3 ps (st x))"
proof (rule yields_bind, rule yields_mono [OF get_value1_yields [OF wf]])
  show "has_room ps 2" using room by (simp add: has_room_def)
  fix e :: exec
  assume e: "case e of (_, ps', inst') \<Rightarrow> evolves 1 ps ps' \<and> instruction inst' = instruction inst"
  obtain r p i where e': "e = (r, p, i)" by (cases e)
  have ev: "evolves 1 ps p" "instruction i = instruction inst" using e e' by auto
  have "has_room p 2" using evolves_room [OF ev(1), of 2] room by (simp add: has_room_def)
  then show "yields (k e) (\<lambda>x. evolves 3 ps (st x))" unfolding e'
    by (rule yields_mono [OF k [OF evolves_wf [OF ev(1)] _ ev(2)]])
      (rule evolves_into [OF ev(1)], assumption, simp)
qed

lemma with_operands_yields:
  assumes wf: "wf_state ps" and room: "has_room ps 4"
    and k: "\<And>r ps' inst'. wf_state ps' \<Longrightarrow> has_room ps' 2 \<Longrightarrow> instruction inst' = instruction inst \<Longrightarrow>
      yields (k (r, ps', inst')) (\<lambda>x. evolves 1 ps' (st x))"
  shows "yields (with_operands self ps inst source info1 info2 k) (\<lambda>x. evolves 3 ps (st x))"
  unfolding with_operands_def
proof (rule yields_bind, rule yields_mono [OF get_value1_yields [OF wf]])
  show "has_room ps 2" using room by (simp add: has_room_def)
  fix e :: exec
  assume e: "case e of (_, ps', inst') \<Rightarrow> evolves 1 ps ps' \<and> instruction inst' = instruction inst"
  obtain r p i where e': "e = (r, p, i)" by (cases e)
  have ev: "evolves 1 ps p" "instruction i = instruction inst" using e e' by auto
  have room3: "has_room p 3" using evolves_room [OF ev(1), of 3] room by simp
  have "yields (bindE (get_value2 self p i source info2) k) (\<lambda>x. evolves 2 p (st x))"
  proof (rule yields_bind, rule yields_mono [OF get_value2_yields [OF evolves_wf [OF ev(1)]]])
    show "has_room p 2" using room3 by (simp add: has_room_def)
    fix e2 :: exec
    assume e2: "case e2 of (_, ps', inst') \<Rightarrow> evolves 1 p ps' \<and> instruction inst' = instruction i"
    obtain r2 q j where e2': "e2 = (r2, q, j)" by (cases e2)
    have ev2: "evolves 1 p q" "instruction j = instruction inst" using e2 e2' ev(2) by auto
    have "has_room q 2" using evolves_room [OF ev2(1), of 2] room3 by simp
    with ev2 show "yields (k e2) (\<lambda>x. evolves 2 p (st x))" unfolding e2'
      by (intro yields_mono [OF k]) (auto dest: evolves_wf evolves_trans [OF ev2(1)])
  qed
  then show "yields (case e of (ret1, ps1, inst1) \<Rightarrow> bindE (get_value2 self ps1 inst1 source info2) k)
      (\<lambda>x. evolves 3 ps (st x))"
    unfolding e' by (auto elim!: yields_mono dest: evolves_trans [OF ev(1)])
qed

lemma exec_put_yields:
  assumes "wf_state ps" "has_room ps 2"
  shows "yields (exec_put (r, ps, inst)) (\<lambda>e. evolves 1 ps (fst (snd e)))"
  unfolding exec_put_def prod.case
  by (rule yields_bind, rule yields_mono [OF put_value_evolves [OF assms]]) auto

lemma write_reg_evolves:
  assumes "wf_state ps" "n < length (entries (memory_reg ps))"
    "start_address m = start_address (memory_reg ps ! n)" "mem_valid m = 1"
  shows "evolves k ps (ps\<lparr>memory_reg := (memory_reg ps)[n := m]\<rparr>)"
  using evolves_write(1) [of k ps "memory_reg ps" n m] assms by (simp add: evolves_refl)

lemma live_valid:
  "n < length (entries mem) \<Longrightarrow> mem_valid (mem ! n) = 1"
  by (metis nth_mem nth_entries entries_valid)

lemma with_ip_yields:
  assumes "wf_state ps"
    and "\<And>n. n < length (entries (memory_reg ps)) \<Longrightarrow> yields (k n (memory_reg ps ! n)) Q"
  shows "yields (with_ip ps k) Q"
  using search_store_live [OF wf_stateD(1) [OF assms(1)]] assms(2) unfolding with_ip_def
  by (cases "search_store (memory_reg ps) REG_IP 4") (auto split: option.splits)

lemma set_dst_length_yields:
  assumes "wf_state ps"
  shows "yields (set_dst_length ps d) (\<lambda>ps'. evolves 0 ps ps')"
  using search_store_live [OF wf_stateD(1) [OF assms(1)]] unfolding set_dst_length_def
  by (cases "search_store (memory_reg ps) (index d) (value_size d)")
    (auto split: option.splits intro!: write_reg_evolves assms evolves_refl live_valid)

text \<open>The state a case leaves, in either way of leaving it.\<close>

definition state_of :: "exec flow \<Rightarrow> process_state_s" where
  "state_of f = (case f of Break e \<Rightarrow> fst (snd e) | Return e \<Rightarrow> fst (snd e))"

lemma state_of_simps [simp]:
  "state_of (Break (r, ps, inst)) = ps" "state_of (Return (r, ps, inst)) = ps"
  by (simp_all add: state_of_def)

lemma exec_break_yields:
  "yields m (\<lambda>e. P (fst (snd e))) \<Longrightarrow> yields (exec_break m) (\<lambda>f. P (state_of f))"
  unfolding exec_break_def by (rule yields_bind, erule yields_mono) (simp add: state_of_def)

lemma exec_put_flow_yields:
  assumes "wf_state ps" "has_room ps 2"
  shows "yields (bindE (exec_put (r, ps, inst)) (\<lambda>e. Inr (Break e))) (\<lambda>f. evolves 1 ps (state_of f))"
  by (rule yields_bind, rule yields_mono [OF exec_put_yields [OF assms]]) (simp add: state_of_def)

lemmas case_yields = with_operands_yields one_operand_yields exec_put_yields with_ip_yields

lemmas step_yields = bind_yields [where m = "shift_left x n" for x n]
  bind_yields [where m = "shift_right x n" for x n]
  bind_yields [where m = "link_relocated_call self i" for self i]
  bind_yields [where m = "link_direct_call self c i" for self c i]

lemma resize_yields:
  assumes "wf_state ps" "has_room ps 4"
    and k: "\<And>r ps' inst'. wf_state ps' \<Longrightarrow> has_room ps' 2 \<Longrightarrow>
      yields (k r inst' ps') (\<lambda>f. evolves 1 ps' (state_of f))"
  shows "yields (bindE (get_value1 self ps inst 0) (\<lambda>(r, ps, inst).
      bindE (set_dst_length ps (d inst)) (k r inst))) (\<lambda>f. evolves 3 ps (state_of f))"
proof (rule one_operand_yields [OF assms(1,2)], unfold prod.case)
  fix r p and i :: inst_log_entry_s
  assume p: "wf_state p" "has_room p 2"
  show "yields (bindE (set_dst_length p (d i)) (k r i)) (\<lambda>f. evolves 1 p (state_of f))"
  proof (rule yields_bind, rule yields_mono [OF set_dst_length_yields [OF p(1)]])
    fix q assume q: "evolves 0 p q"
    then have "wf_state q" "has_room q 2" 
      using p(2) evolves_wf [OF q] q by (auto simp: has_room_def evolves_def)
    then show "yields (k r i q) (\<lambda>f. evolves 1 p (state_of f))"
      by (rule yields_mono [OF k]) (use evolves_trans [OF q] in fastforce)
  qed
qed

lemma execute_case_evolves:
  assumes "wf_state ps" "has_room ps 4"
  shows "yields (execute_case self ps inst) (\<lambda>f. evolves 3 ps (state_of f))"
proof -
  note p = assms
  have cases: "yields (m self ps inst) (\<lambda>e. evolves 3 ps (fst (snd e)))"
    if "m \<in> {exec_cmp, exec_mov, exec_load, exec_store, exec_add, exec_adc, exec_mul, exec_sub,
      exec_sbb, exec_test, exec_and, exec_or, exec_xor, exec_neg, exec_not, exec_shl, exec_shr,
      exec_sal, exec_sar}" for m
    using that unfolding exec_cmp_def exec_mov_def exec_load_def exec_store_def exec_add_def
      exec_adc_def exec_mul_def exec_sub_def exec_sbb_def exec_test_def exec_and_def exec_or_def
      exec_xor_def exec_neg_def exec_not_def exec_shl_def exec_shr_def exec_sal_def exec_sar_def
    by (auto simp: Let_def evolves_refl intro!: case_yields step_yields p)
  have jumps: "yields (m self ps inst) (\<lambda>e. evolves 3 ps (fst (snd e)))"
    if "m \<in> {exec_if, exec_jmpt, exec_jmp, exec_call}" for m
    using that unfolding exec_if_def exec_jmpt_def exec_jmp_def exec_call_def
    by (auto simp: Let_def evolves_refl live_valid
        intro!: case_yields step_yields p write_reg_evolves)
  have "yields (exec_sex self ps inst) (\<lambda>f. evolves 3 ps (state_of f))"
    "yields (exec_trunc self ps inst) (\<lambda>f. evolves 3 ps (state_of f))"
    unfolding exec_sex_def exec_trunc_def Let_def
    by (auto intro!: resize_yields p exec_put_flow_yields simp: evolves_refl)
  with cases jumps show ?thesis unfolding execute_case_def
    by (auto split: opcode.splits intro!: exec_break_yields evolves_refl p)
qed

text \<open>
  C1. From a well-formed state with four free records in each table execute_instruction
  preserves the well-formedness of the whole executor state for every opcode and operand
  kind: the used records of every table stay a prefix with distinct addresses, every record
  in use stays in use at its index and with its address, no table changes its size, at most
  three free slots of each table are taken, and the text and the map of executed bytes are
  untouched.
\<close>
theorem execute_instruction_wf:
  assumes "wf_state ps" "has_room ps 4" "execute_instruction self ps inst = Inr (r, ps', inst')"
  shows "evolves 3 ps ps'"
proof -
  have "yields (execute_instruction self ps inst) (\<lambda>e. evolves 3 ps (fst (snd e)))"
    unfolding execute_instruction_def
  proof (rule bind_yields, rule bind_yields, rule yields_bind)
    show "yields (execute_case self ps inst)
        (\<lambda>f. yields (case f of Break e \<Rightarrow> check_scope e | Return e \<Rightarrow> Inr e)
               (\<lambda>e. evolves 3 ps (fst (snd e))))"
      by (rule yields_mono [OF execute_case_evolves [OF assms(1,2)]])
        (auto simp: state_of_def check_scope_def yields_def split: flow.splits if_splits)
  qed
  then show ?thesis using assms(3) by (auto simp: yields_def)
qed

end
