(* ===== verification/Alu.thy ===== *)
theory Alu
  imports Execute
begin

text \<open>
  The functional behaviour of \<open>execute_instruction\<close> on registers and numbers: which
  absolute value each opcode leaves in its destination, and what it leaves alone.
\<close>

unbundle bit_operations_syntax

section \<open>Instructions on registers and numbers\<close>

text \<open>
  \<open>register_form\<close>: the operands are registers or numbers, the destination is a register,
  every size is set and the flags index \<open>dis_flags_table\<close>.
\<close>

definition register_form :: "instruction_s \<Rightarrow> bool" where
  "register_form ins \<longleftrightarrow> direct (srcA ins) \<and> direct (srcB ins) \<and>
     indirect (dstA ins) = IND_DIRECT \<and> store (dstA ins) = STORE_REG \<and>
     value_size (srcA ins) \<noteq> 0 \<and> value_size (srcB ins) \<noteq> 0 \<and> value_size (dstA ins) \<noteq> 0 \<and>
     flags ins \<in> {0, 1}"

definition value_pair :: "memory_s \<Rightarrow> u64 \<times> u64" where
  "value_pair m = (init_value m, offset_value m)"

text \<open>Both reads at once.\<close>

lemma get_value1_direct:
  assumes "wf_state ps" "has_room ps 2" "direct (srcA (instruction inst))"
  obtains ps' v where
    "get_value1 self ps inst info = Inr (0, ps', inst\<lparr>value1 := v\<rparr>)" "keeps 1 ps ps'"
    "value_pair v = pair_of ps (srcA (instruction inst))"
    "value_scope v = scope_of ps info (srcA (instruction inst))"
    "store (srcA (instruction inst)) = STORE_DIRECT \<longrightarrow> ps' = ps"
proof -
  obtain ps' v where "get_value_RTL_instruction self ps (srcA (instruction inst)) (value1 inst) info
      = Inr (0, ps', v)" "keeps 1 ps ps'"
    "(init_value v, offset_value v) = pair_of ps (srcA (instruction inst))"
    "value_scope v = scope_of ps info (srcA (instruction inst))" "mem_valid v = 1"
    "store (srcA (instruction inst)) = STORE_DIRECT \<longrightarrow> ps' = ps"
    by (rule get_direct [OF assms])
  then show thesis by (intro that) (simp_all add: get_value1_def value_pair_def)
qed

lemma with_operands_direct:
  assumes wf: "wf_state ps" and room: "has_room ps 3"
    and dir: "direct (srcA (instruction inst))" "direct source"
  obtains ps' v w where
    "\<And>k. with_operands self ps inst source info1 info2 k = k (0, ps', inst\<lparr>value1 := v, value2 := w\<rparr>)"
    "keeps 2 ps ps'" "value_pair v = pair_of ps (srcA (instruction inst))"
    "value_scope v = scope_of ps info1 (srcA (instruction inst))"
    "value_pair w = pair_of ps source"
    "store (srcA (instruction inst)) = STORE_DIRECT \<longrightarrow> value_scope w = scope_of ps info2 source"
proof -
  have r2: "has_room ps 2" using room by (simp add: has_room_def)
  obtain p v where p: "get_value1 self ps inst info1 = Inr (0, p, inst\<lparr>value1 := v\<rparr>)" "keeps 1 ps p"
    "value_pair v = pair_of ps (srcA (instruction inst))"
    "value_scope v = scope_of ps info1 (srcA (instruction inst))"
    "store (srcA (instruction inst)) = STORE_DIRECT \<longrightarrow> p = ps"
    by (rule get_value1_direct [OF wf r2 dir(1)])
  have wp: "wf_state p" "has_room p 2"
    using p(2) room evolves_room [of 1 ps p 2] by (auto simp: keeps_def dest: evolves_wf)
  obtain q w where q: "get_value_RTL_instruction self p source (value2 (inst\<lparr>value1 := v\<rparr>)) info2
      = Inr (0, q, w)" "keeps 1 p q" "(init_value w, offset_value w) = pair_of p source"
    "value_scope w = scope_of p info2 source" "mem_valid w = 1"
    "store source = STORE_DIRECT \<longrightarrow> q = p"
    by (rule get_direct [OF wp dir(2)])
  show thesis
  proof (rule that)
    show "with_operands self ps inst source info1 info2 k = k (0, q, inst\<lparr>value1 := v, value2 := w\<rparr>)"
      for k using p(1) q(1) by (simp add: with_operands_def get_value2_def)
    show "keeps 2 ps q" using keeps_trans [OF p(2) q(2)] by simp
    show "value_pair w = pair_of ps source"
      using q(3) keeps_pair_of [OF p(2)] by (simp add: value_pair_def)
    show "store (srcA (instruction inst)) = STORE_DIRECT \<longrightarrow> value_scope w = scope_of ps info2 source"
      using p(5) q(4) by simp
  qed (fact p)+
qed

text \<open>
  The result of an instruction that writes the pair \<open>(iv, ov)\<close> to its destination register:
  the other registers, the stack and the data are as before.
\<close>

definition writes :: "process_state_s \<Rightarrow> inst_log_entry_s \<Rightarrow> u64 \<times> u64 \<Rightarrow> exec c \<Rightarrow> bool" where
  "writes ps inst val e \<longleftrightarrow> (\<exists>ps' inst'. e = Inr (0, ps', inst') \<and> evolves 3 ps ps' \<and>
     memory_stack ps' = memory_stack ps \<and> memory_data ps' = memory_data ps \<and>
     reg_pair ps' = (reg_pair ps)(index (dstA (instruction inst)) := val) \<and>
     instruction inst' = instruction inst \<and> value_scope (value3 inst') \<noteq> 0)"

lemma exec_put_writes:
  assumes wf: "wf_state ps" and room: "has_room ps 4" and keeps: "keeps 2 ps p"
    and dst: "indirect (dstA (instruction inst)) = IND_DIRECT" "store (dstA (instruction inst)) = STORE_REG"
    and i: "instruction i = instruction inst" "start_address (value3 i) = index (dstA (instruction inst))"
      "value_scope (value3 i) \<noteq> 0"
  shows "writes ps inst (value_pair (value3 i)) (exec_put (0, p, i))"
proof -
  have p: "wf_state p" "has_room p 2"
    using keeps room evolves_room [of 2 ps p 2] by (auto simp: keeps_def dest: evolves_wf)
  have d: "indirect (dstA (instruction i)) = IND_DIRECT" "store (dstA (instruction i)) = STORE_REG"
    "start_address (value3 i) = index (dstA (instruction i))" using dst i by simp_all
  obtain q where q: "put_value_RTL_instruction p i = Inr (0, q)" "evolves 1 p q"
    "memory_stack q = memory_stack p" "memory_data q = memory_data p"
    "reg_pair q = (reg_pair p)(index (dstA (instruction i)) :=
       (init_value (value3 i), offset_value (value3 i)))"
    "reg_scope q 0 (index (dstA (instruction i))) = value_scope (value3 i)"
    by (rule put_direct [OF p d])
  have "evolves 3 ps q" using evolves_trans [OF keeps_evolves [OF keeps] q(2)] by simp
  with q keeps i show ?thesis by (simp add: writes_def exec_put_def keeps_def value_pair_def)
qed

lemma alu_result_simps [simp]:
  "instruction (alu_result i iv ov) = instruction i"
  "start_address (value3 (alu_result i iv ov)) = index (dstA (instruction i))"
  "value_scope (value3 (alu_result i iv ov)) = value_scope (value1 i)"
  "value_pair (value3 (alu_result i iv ov)) = (iv, ov)"
  by (simp_all add: alu_result_def indirect_from_value1_def value_pair_def Let_def)

text \<open>Arithmetic cases: the pair written is a function of the two operand pairs.\<close>

lemma binary_writes:
  assumes wf: "wf_state ps" and room: "has_room ps 4" and form: "register_form (instruction inst)"
    and scp: "scope_of ps info (srcA (instruction inst)) \<noteq> 0"
    and k: "\<And>v w p. value_pair v = pair_of ps (srcA (instruction inst)) \<Longrightarrow>
      value_pair w = pair_of ps (srcB (instruction inst)) \<Longrightarrow> value_scope v \<noteq> 0 \<Longrightarrow>
      k (0, p, inst\<lparr>value1 := v, value2 := w\<rparr>)
        = exec_put (0, p, alu_result (inst\<lparr>value1 := v, value2 := w\<rparr>) iv ov)"
  shows "writes ps inst (iv, ov) (with_operands self ps inst (srcB (instruction inst)) info info2 k)"
proof -
  have r3: "has_room ps 3" using room by (simp add: has_room_def)
  have d: "direct (srcA (instruction inst))" "direct (srcB (instruction inst))"
    "indirect (dstA (instruction inst)) = IND_DIRECT" "store (dstA (instruction inst)) = STORE_REG"
    using form by (auto simp: register_form_def)
  obtain p v w where p:
    "\<And>k :: exec \<Rightarrow> exec c. with_operands self ps inst (srcB (instruction inst)) info info2 k
       = k (0, p, inst\<lparr>value1 := v, value2 := w\<rparr>)"
    "keeps 2 ps p" "value_pair v = pair_of ps (srcA (instruction inst))"
    "value_scope v = scope_of ps info (srcA (instruction inst))"
    "value_pair w = pair_of ps (srcB (instruction inst))"
    "store (srcA (instruction inst)) = STORE_DIRECT \<longrightarrow>
       value_scope w = scope_of ps info2 (srcB (instruction inst))"
    by (rule with_operands_direct [OF wf r3 d(1,2)], rule that)
  have "value_scope v \<noteq> 0" using p(4) scp by simp
  moreover have "writes ps inst (value_pair (value3 (alu_result (inst\<lparr>value1 := v, value2 := w\<rparr>) iv ov)))
      (exec_put (0, p, alu_result (inst\<lparr>value1 := v, value2 := w\<rparr>) iv ov))"
    by (rule exec_put_writes [OF wf room p(2) d(3,4)]) (use calculation in simp_all)
  ultimately show ?thesis unfolding p(1) using p(3,5) k by simp
qed

lemma unary_writes:
  assumes wf: "wf_state ps" and room: "has_room ps 4" and dir: "direct (srcA (instruction inst))"
    and dst: "indirect (dstA (instruction inst)) = IND_DIRECT" "store (dstA (instruction inst)) = STORE_REG"
    and k: "\<And>v p. value_pair v = pair_of ps (srcA (instruction inst)) \<Longrightarrow>
      value_scope v = scope_of ps 0 (srcA (instruction inst)) \<Longrightarrow>
      \<exists>i. k (0, p, inst\<lparr>value1 := v\<rparr>) = exec_put (0, p, i) \<and> instruction i = instruction inst \<and>
        start_address (value3 i) = index (dstA (instruction inst)) \<and>
        value_scope (value3 i) \<noteq> 0 \<and> value_pair (value3 i) = val"
  shows "writes ps inst val (bindE (get_value1 self ps inst 0) k)"
proof -
  have r2: "has_room ps 2" using room by (simp add: has_room_def)
  obtain p v where p: "get_value1 self ps inst 0 = Inr (0, p, inst\<lparr>value1 := v\<rparr>)" "keeps 1 ps p"
    "value_pair v = pair_of ps (srcA (instruction inst))"
    "value_scope v = scope_of ps 0 (srcA (instruction inst))"
    "store (srcA (instruction inst)) = STORE_DIRECT \<longrightarrow> p = ps"
    by (rule get_value1_direct [OF wf r2 dir])
  have keeps: "keeps 2 ps p" using p(2) by (auto simp: keeps_def elim: evolves_mono)
  obtain i where i: "k (0, p, inst\<lparr>value1 := v\<rparr>) = exec_put (0, p, i)"
    "instruction i = instruction inst" "start_address (value3 i) = index (dstA (instruction inst))"
    "value_scope (value3 i) \<noteq> 0" "value_pair (value3 i) = val"
    using k [OF p(3,4)] by blast
  from exec_put_writes [OF wf room keeps dst i(2-4)] p(1) i(1,5) show ?thesis by simp
qed

lemma unary_alu_writes:
  assumes "wf_state ps" "has_room ps 4" "register_form (instruction inst)"
    and scp: "scope_of ps 0 (srcA (instruction inst)) \<noteq> 0"
    and k: "\<And>v p. value_pair v = pair_of ps (srcA (instruction inst)) \<Longrightarrow>
      k (0, p, inst\<lparr>value1 := v\<rparr>) = exec_put (0, p, alu_result (inst\<lparr>value1 := v\<rparr>) iv ov)"
  shows "writes ps inst (iv, ov) (bindE (get_value1 self ps inst 0) k)"
proof (rule unary_writes [OF assms(1,2)])
  show "direct (srcA (instruction inst))" "indirect (dstA (instruction inst)) = IND_DIRECT"
    "store (dstA (instruction inst)) = STORE_REG" using assms(3) by (auto simp: register_form_def)
  fix v p
  assume v: "value_pair v = pair_of ps (srcA (instruction inst))"
    "value_scope v = scope_of ps 0 (srcA (instruction inst))"
  show "\<exists>i. k (0, p, inst\<lparr>value1 := v\<rparr>) = exec_put (0, p, i) \<and> instruction i = instruction inst \<and>
        start_address (value3 i) = index (dstA (instruction inst)) \<and>
        value_scope (value3 i) \<noteq> 0 \<and> value_pair (value3 i) = (iv, ov)"
    by (rule exI [of _ "alu_result (inst\<lparr>value1 := v\<rparr>) iv ov"]) (use k v scp in simp)
qed

text \<open>The initial part of an operand, and its absolute value.\<close>

definition operand_init :: "process_state_s \<Rightarrow> operand_s \<Rightarrow> u64" where
  "operand_init ps opr = fst (pair_of ps opr)"

definition operand_abs :: "process_state_s \<Rightarrow> operand_s \<Rightarrow> u64" where
  "operand_abs ps opr = fst (pair_of ps opr) + snd (pair_of ps opr)"

definition reg_abs :: "process_state_s \<Rightarrow> u64 \<Rightarrow> u64" where
  "reg_abs ps r = fst (reg_pair ps r) + snd (reg_pair ps r)"

text \<open>The machine operation of the opcodes the executor computes on registers and numbers.\<close>

fun alu_op :: "opcode \<Rightarrow> (u64 \<Rightarrow> u64 \<Rightarrow> u64) option" where
  "alu_op OP_MOV = Some (\<lambda>a b. a)"
| "alu_op OP_ADD = Some (\<lambda>a b. a + b)"
| "alu_op OP_SUB = Some (\<lambda>a b. a - b)"
| "alu_op OP_SBB = Some (\<lambda>a b. a - b)"
| "alu_op OP_AND = Some (\<lambda>a b. a AND b)"
| "alu_op OP_OR = Some (\<lambda>a b. a OR b)"
| "alu_op OP_XOR = Some (\<lambda>a b. a XOR b)"
| "alu_op OP_NEG = Some (\<lambda>a b. - a)"
| "alu_op OP_NOT = Some (\<lambda>a b. if a = 0 then 1 else 0)"
| "alu_op _ = None"

definition alu_value :: "process_state_s \<Rightarrow> instruction_s \<Rightarrow> (u64 \<Rightarrow> u64 \<Rightarrow> u64) \<Rightarrow> u64" where
  "alu_value ps ins f = f (operand_abs ps (srcA ins)) (operand_init ps (srcB ins))"

definition writes_abs :: "process_state_s \<Rightarrow> inst_log_entry_s \<Rightarrow> u64 \<Rightarrow> exec c \<Rightarrow> bool" where
  "writes_abs ps inst x e \<longleftrightarrow> (\<exists>val. fst val + snd val = x \<and> writes ps inst val e)"

lemma writes_absI: "writes ps inst val e \<Longrightarrow> fst val + snd val = x \<Longrightarrow> writes_abs ps inst x e"
  unfolding writes_abs_def by blast

lemma writes_absE:
  assumes "writes_abs ps inst x e"
  obtains ps' inst' where "e = Inr (0, ps', inst')" "evolves 3 ps ps'"
    "reg_abs ps' = (reg_abs ps)(index (dstA (instruction inst)) := x)"
    "memory_stack ps' = memory_stack ps" "memory_data ps' = memory_data ps"
  using assms by (auto simp: writes_abs_def writes_def reg_abs_def fun_eq_iff)

lemma pair_cases: "value_pair v = q \<longleftrightarrow> init_value v = fst q \<and> offset_value v = snd q"
  by (auto simp: value_pair_def)

text \<open>From a case to the function: the checks before and after it pass.\<close>

lemma check_value_sizes_form:
  assumes "register_form ins" "opcode ins \<in> {OP_MOV, OP_NEG, OP_NOT, OP_TRUNC, OP_ADC, OP_ADD,
    OP_MUL, OP_IMUL, OP_SBB, OP_SUB, OP_AND, OP_OR, OP_XOR, OP_SHL, OP_SHR, OP_SAL, OP_SAR}"
  shows "check_value_sizes ins = Inr ()"
proof -
  have "value_size (srcA ins) \<noteq> 0" "value_size (srcB ins) \<noteq> 0" "value_size (dstA ins) \<noteq> 0"
    using assms(1) by (simp_all add: register_form_def)
  then show ?thesis using assms(2) by (simp add: check_value_sizes_def Let_def; fast)
qed

lemma execute_writes:
  assumes "register_form (instruction inst)" "check_value_sizes (instruction inst) = Inr ()"
    and "execute_case self ps inst = exec_break m" "writes ps inst val m"
  shows "writes ps inst val (execute_instruction self ps inst)"
proof -
  have "print_inst_short (instruction inst) = Inr ()"
    using assms(1) by (simp add: register_form_def print_inst_short_def)
  moreover obtain q i where "m = Inr (0, q, i)" "value_scope (value3 i) \<noteq> 0"
    using assms(4) by (auto simp: writes_def)
  ultimately show ?thesis using assms(2-4)
    by (simp add: execute_instruction_def exec_break_def check_scope_def)
qed

fun_cases alu_op_SomeE: "alu_op opc = Some f"

lemma exec_alu_writes:
  assumes wf: "wf_state ps" and room: "has_room ps 4" and form: "register_form (instruction inst)"
    and scp: "scope_of ps 0 (srcA (instruction inst)) \<noteq> 0"
  defines "a \<equiv> pair_of ps (srcA (instruction inst))"
    and "b \<equiv> pair_of ps (srcB (instruction inst))"
  shows "writes ps inst (fst a, snd a + fst b) (exec_add self ps inst)"
    and "writes ps inst (fst a, snd a - fst b) (exec_sub self ps inst)"
    and "writes ps inst (fst a, snd a - fst b) (exec_sbb self ps inst)"
    and "writes ps inst (0, (snd a + fst a) AND fst b) (exec_and self ps inst)"
    and "writes ps inst (0, (snd a + fst a) OR fst b) (exec_or self ps inst)"
  unfolding exec_add_def exec_sub_def exec_sbb_def exec_and_def exec_or_def a_def b_def
  by (rule binary_writes [OF wf room form scp]; simp add: pair_cases Let_def)+

lemma exec_xor_writes:
  assumes wf: "wf_state ps" and room: "has_room ps 4" and form: "register_form (instruction inst)"
    and scp: "scope_of ps 0 (srcA (instruction inst)) \<noteq> 0"
  defines "a \<equiv> pair_of ps (srcA (instruction inst))"
    and "b \<equiv> pair_of ps (srcB (instruction inst))"
  shows "writes ps inst (0, (snd a + fst a) XOR fst b) (exec_xor self ps inst)"
proof -
  have "scope_of ps i (srcA (instruction inst)) \<noteq> 0" for i
    using scp by (auto simp: scope_of_def reg_scope_def split: store_kind.splits option.splits)
  then show ?thesis unfolding exec_xor_def a_def b_def
    by (intro binary_writes [OF wf room form]) (simp_all add: pair_cases Let_def)
qed

lemma exec_shift_writes:
  assumes wf: "wf_state ps" and room: "has_room ps 4" and form: "register_form (instruction inst)"
    and scp: "scope_of ps 0 (srcA (instruction inst)) \<noteq> 0"
    and count: "operand_init ps (srcB (instruction inst)) < 64"
  defines "a \<equiv> operand_abs ps (srcA (instruction inst))"
    and "n \<equiv> unat (operand_init ps (srcB (instruction inst)))"
  shows "writes ps inst (0, push_bit n a) (exec_shl self ps inst)"
    and "writes ps inst (0, push_bit n a) (exec_sal self ps inst)"
    and "writes ps inst (0, drop_bit n a) (exec_shr self ps inst)"
    and "writes ps inst (0, drop_bit n a) (exec_sar self ps inst)"
  unfolding exec_shl_def exec_shr_def exec_sal_def exec_sar_def a_def n_def
  by (rule binary_writes [OF wf room form scp];
      use count in \<open>simp add: pair_cases Let_def shift_left_def shift_right_def operand_init_def
        operand_abs_def add.commute\<close>)+

lemma exec_unary_writes:
  assumes wf: "wf_state ps" and room: "has_room ps 4" and form: "register_form (instruction inst)"
    and scp: "scope_of ps 0 (srcA (instruction inst)) \<noteq> 0"
  defines "a \<equiv> pair_of ps (srcA (instruction inst))"
  shows "writes ps inst (0, 0 - (snd a + fst a)) (exec_neg self ps inst)"
    and "writes ps inst (0, if snd a + fst a = 0 then 1 else 0) (exec_not self ps inst)"
    and "writes ps inst a (exec_mov self ps inst)"
proof -
  have d: "direct (srcA (instruction inst))" "indirect (dstA (instruction inst)) = IND_DIRECT"
    "store (dstA (instruction inst)) = STORE_REG" using form by (auto simp: register_form_def)
  show "writes ps inst (0, 0 - (snd a + fst a)) (exec_neg self ps inst)"
    and "writes ps inst (0, if snd a + fst a = 0 then 1 else 0) (exec_not self ps inst)"
    unfolding exec_neg_def exec_not_def a_def
    by (rule unary_alu_writes [OF wf room form scp]; simp add: pair_cases Let_def)+
  show "writes ps inst a (exec_mov self ps inst)"
    unfolding exec_mov_def a_def
  proof (rule unary_writes [OF wf room d])
    fix v p
    assume v: "value_pair v = pair_of ps (srcA (instruction inst))"
      "value_scope v = scope_of ps 0 (srcA (instruction inst))"
    have "param_to_local (inst\<lparr>value1 := v\<rparr>) (value_scope v) \<noteq> 0"
      using v scp by (simp add: param_to_local_def)
    then show "\<exists>i. (case (0, p, inst\<lparr>value1 := v\<rparr>) of (ret, ps, inst) \<Rightarrow>
        let dst = dstA (instruction inst); v1 = value1 inst;
           scp = param_to_local inst (value_scope v1);
           scp = (if scp = 0 \<and> STORE_DIRECT = store (srcA (instruction inst)) \<and>
                     indirect dst = IND_DIRECT then 2 else scp);
           v3 = (value3 inst)\<lparr>start_address := index dst, mem_length := value_size dst,
                  init_value_type := init_value_type v1, init_value := init_value v1,
                  offset_value := offset_value v1, value_type := value_type v1,
                  ref_memory := ref_memory v1, ref_log := ref_log v1,
                  value_scope := scp, value_id := 0, mem_valid := 1\<rparr>
        in if indirect dst \<noteq> IND_DIRECT then Inl (Exit 1)
          else if scp = 0 then Inl (Exit 1)
          else exec_put (ret, ps, inst\<lparr>value3 := v3, value1 := v1\<lparr>value_id := 0\<rparr>\<rparr>))
        = exec_put (0, p, i) \<and> instruction i = instruction inst \<and>
        start_address (value3 i) = index (dstA (instruction inst)) \<and>
        value_scope (value3 i) \<noteq> 0 \<and> value_pair (value3 i) = pair_of ps (srcA (instruction inst))"
      using d v(1) by (simp add: Let_def) (rule exI, rule conjI, rule refl, simp add: pair_cases)
  qed
qed

lemma execute_alu_writes:
  assumes "wf_state ps" "has_room ps 4" "register_form (instruction inst)"
    and "scope_of ps 0 (srcA (instruction inst)) \<noteq> 0"
    and "alu_op (opcode (instruction inst)) = Some f"
  shows "writes_abs ps inst (alu_value ps (instruction inst) f) (execute_instruction self ps inst)"
proof -
  note binary = exec_alu_writes [OF assms(1-4), of self]
  note xor = exec_xor_writes [OF assms(1-4), of self]
  note unary = exec_unary_writes [OF assms(1-4), of self]
  note rule = writes_absI [OF execute_writes [OF assms(3) check_value_sizes_form [OF assms(3)]]]
  note facts = execute_case_def alu_value_def operand_abs_def operand_init_def
  show ?thesis
  proof (cases rule: alu_op_SomeE [OF assms(5)])
    case 1
    show ?thesis by (rule rule [OF _ _ unary(3)]) (use 1 in \<open>simp_all add: facts ac_simps\<close>)
  next
    case 2
    show ?thesis by (rule rule [OF _ _ binary(1)]) (use 2 in \<open>simp_all add: facts ac_simps\<close>)
  next
    case 3
    show ?thesis by (rule rule [OF _ _ binary(2)]) (use 3 in \<open>simp_all add: facts ac_simps\<close>)
  next
    case 4
    show ?thesis by (rule rule [OF _ _ binary(3)]) (use 4 in \<open>simp_all add: facts ac_simps\<close>)
  next
    case 5
    show ?thesis by (rule rule [OF _ _ binary(4)]) (use 5 in \<open>simp_all add: facts ac_simps\<close>)
  next
    case 6
    show ?thesis by (rule rule [OF _ _ binary(5)]) (use 6 in \<open>simp_all add: facts ac_simps\<close>)
  next
    case 7
    show ?thesis by (rule rule [OF _ _ xor]) (use 7 in \<open>simp_all add: facts ac_simps\<close>)
  next
    case 8
    show ?thesis by (rule rule [OF _ _ unary(1)]) (use 8 in \<open>simp_all add: facts ac_simps\<close>)
  next
    case 9
    show ?thesis by (rule rule [OF _ _ unary(2)]) (use 9 in \<open>simp_all add: facts ac_simps\<close>)
  qed
qed

text \<open>
  C2. On direct operands with their sizes set and a first source whose scope is known MOV,
  ADD, SUB, SBB, AND, OR, XOR, NEG and NOT run through execute_instruction, return 0 and
  change exactly one register: its absolute value becomes the operation applied to the
  absolute value of srcA and, for the ones with two sources, the initial value of srcB;
  every other register, the stack and the data are unchanged.
\<close>
theorem execute_instruction_alu:
  assumes "wf_state ps" "has_room ps 4" "register_form (instruction inst)"
    and "scope_of ps 0 (srcA (instruction inst)) \<noteq> 0"
    and "alu_op (opcode (instruction inst)) = Some f"
  shows "\<exists>ps' inst'. execute_instruction self ps inst = Inr (0, ps', inst') \<and> evolves 3 ps ps' \<and>
    reg_abs ps' = (reg_abs ps)(index (dstA (instruction inst)) := alu_value ps (instruction inst) f) \<and>
    memory_stack ps' = memory_stack ps \<and> memory_data ps' = memory_data ps"
  using execute_alu_writes [OF assms, of self] by (elim writes_absE) blast

text \<open>The continuation of two direct reads, seen through its result.\<close>

lemma operands_continue:
  fixes k :: "exec \<Rightarrow> 'a c"
  assumes "wf_state ps" "has_room ps 4" "direct (srcA (instruction inst))" "direct source"
    and "\<And>v w p. value_pair v = pair_of ps (srcA (instruction inst)) \<Longrightarrow>
      value_pair w = pair_of ps source \<Longrightarrow> keeps 2 ps p \<Longrightarrow>
      value_scope v = scope_of ps info1 (srcA (instruction inst)) \<Longrightarrow>
      (store (srcA (instruction inst)) = STORE_DIRECT \<longrightarrow> value_scope w = scope_of ps info2 source) \<Longrightarrow>
      Q (k (0, p, inst\<lparr>value1 := v, value2 := w\<rparr>))"
  shows "Q (with_operands self ps inst source info1 info2 k)"
proof -
  have r3: "has_room ps 3" using assms(2) by (simp add: has_room_def)
  obtain p v w where p:
    "\<And>k :: exec \<Rightarrow> 'a c. with_operands self ps inst source info1 info2 k
       = k (0, p, inst\<lparr>value1 := v, value2 := w\<rparr>)"
    "keeps 2 ps p" "value_pair v = pair_of ps (srcA (instruction inst))"
    "value_scope v = scope_of ps info1 (srcA (instruction inst))"
    "value_pair w = pair_of ps source"
    "store (srcA (instruction inst)) = STORE_DIRECT \<longrightarrow> value_scope w = scope_of ps info2 source"
    by (rule with_operands_direct [OF assms(1) r3 assms(3,4)], rule that)
  show ?thesis unfolding p(1) by (rule assms(5) [OF p(3,5,2,4,6)])
qed

lemma exec_shift_faults:
  assumes "wf_state ps" "has_room ps 4" "register_form (instruction inst)"
    and "\<not> operand_init ps (srcB (instruction inst)) < 64"
  shows "exec_shl self ps inst = Inl ShiftCount" "exec_sal self ps inst = Inl ShiftCount"
    "exec_shr self ps inst = Inl ShiftCount" "exec_sar self ps inst = Inl ShiftCount"
proof -
  have d: "direct (srcA (instruction inst))" "direct (srcB (instruction inst))"
    using assms(3) by (auto simp: register_form_def)
  note rule = operands_continue [OF assms(1,2) d, where Q = "\<lambda>r. r = Inl ShiftCount"]
  show "exec_shl self ps inst = Inl ShiftCount" "exec_sal self ps inst = Inl ShiftCount"
    "exec_shr self ps inst = Inl ShiftCount" "exec_sar self ps inst = Inl ShiftCount"
    unfolding exec_shl_def exec_sal_def exec_shr_def exec_sar_def
    by (rule rule; use assms(4) in \<open>simp add: operand_init_def pair_cases Let_def shift_left_def
        shift_right_def\<close>)+
qed

text \<open>
  The shifts write the absolute value of srcA shifted by the initial value of srcB,
  right shifts with zeros even for SAR; a count of 64 or more is the undefined shift of C
  and the model faults.
\<close>
theorem execute_instruction_shift:
  assumes "wf_state ps" "has_room ps 4" "register_form (instruction inst)"
    and "scope_of ps 0 (srcA (instruction inst)) \<noteq> 0"
    and "opcode (instruction inst) \<in> {OP_SHL, OP_SAL, OP_SHR, OP_SAR}"
  defines "n \<equiv> operand_init ps (srcB (instruction inst))"
    and "a \<equiv> operand_abs ps (srcA (instruction inst))"
  shows "if n < 64
    then \<exists>ps' inst'. execute_instruction self ps inst = Inr (0, ps', inst') \<and> evolves 3 ps ps' \<and>
      reg_abs ps' = (reg_abs ps)(index (dstA (instruction inst)) :=
        if opcode (instruction inst) \<in> {OP_SHL, OP_SAL} then push_bit (unat n) a
        else drop_bit (unat n) a) \<and>
      memory_stack ps' = memory_stack ps \<and> memory_data ps' = memory_data ps
    else execute_instruction self ps inst = Inl ShiftCount"
proof (cases "n < 64")
  case True
  note count = True [unfolded n_def]
  note rule = writes_absI [OF execute_writes [OF assms(3) check_value_sizes_form [OF assms(3)]]]
  have "writes_abs ps inst (if opcode (instruction inst) \<in> {OP_SHL, OP_SAL} then push_bit (unat n) a
        else drop_bit (unat n) a) (execute_instruction self ps inst)"
    using assms(5)
  proof (elim insertE emptyE)
    assume o: "opcode (instruction inst) = OP_SHL"
    show ?thesis by (rule rule [OF _ _ exec_shift_writes(1) [OF assms(1-4) count]])
      (simp_all add: o execute_case_def a_def n_def)
  next
    assume o: "opcode (instruction inst) = OP_SAL"
    show ?thesis by (rule rule [OF _ _ exec_shift_writes(2) [OF assms(1-4) count]])
      (simp_all add: o execute_case_def a_def n_def)
  next
    assume o: "opcode (instruction inst) = OP_SHR"
    show ?thesis by (rule rule [OF _ _ exec_shift_writes(3) [OF assms(1-4) count]])
      (simp_all add: o execute_case_def a_def n_def)
  next
    assume o: "opcode (instruction inst) = OP_SAR"
    show ?thesis by (rule rule [OF _ _ exec_shift_writes(4) [OF assms(1-4) count]])
      (simp_all add: o execute_case_def a_def n_def)
  qed
  then show ?thesis using True by (elim writes_absE) auto
next
  case False
  have "execute_case self ps inst = Inl ShiftCount"
    using assms(5) exec_shift_faults [OF assms(1-3) False [unfolded n_def]]
    by (auto simp: execute_case_def exec_break_def)
  then show ?thesis using False assms(3,5)
    by (auto simp: execute_instruction_def check_value_sizes_form register_form_def print_inst_short_def)
qed

section \<open>Multiplication and truncation\<close>

lemma mul_result_simps [simp]:
  "instruction (mul_result i v ov) = instruction i"
  "start_address (value3 (mul_result i v ov)) = index (dstA (instruction i))"
  "value_scope (value3 (mul_result i v ov)) = value_scope v"
  "value_pair (value3 (mul_result i v ov)) = (init_value v, ov)"
  by (simp_all add: mul_result_def value_pair_def)

lemma exec_mul_writes:
  assumes wf: "wf_state ps" and room: "has_room ps 4" and form: "register_form (instruction inst)"
    and scp: "scope_of ps 0 (srcA (instruction inst)) \<noteq> 0" "scope_of ps 1 (srcB (instruction inst)) \<noteq> 0"
  defines "a \<equiv> pair_of ps (srcA (instruction inst))"
    and "b \<equiv> pair_of ps (srcB (instruction inst))"
    and "imm \<equiv> store (srcA (instruction inst)) = STORE_DIRECT"
  shows "writes ps inst (if imm then fst b else fst a,
    (snd a + fst a) * (snd b + fst b) - fst a) (exec_mul self ps inst)"
proof -
  have d: "direct (srcA (instruction inst))" "direct (srcB (instruction inst))"
    "indirect (srcA (instruction inst)) = IND_DIRECT"
    "indirect (dstA (instruction inst)) = IND_DIRECT" "store (dstA (instruction inst)) = STORE_REG"
    using form by (auto simp: register_form_def direct_def)
  show ?thesis unfolding exec_mul_def
  proof (rule operands_continue [OF wf room d(1,2)], unfold prod.case Let_def)
    fix v w p
    assume v: "value_pair v = pair_of ps (srcA (instruction inst))"
      "value_pair w = pair_of ps (srcB (instruction inst))" "keeps 2 ps p"
      "value_scope v = scope_of ps 0 (srcA (instruction inst))"
      "store (srcA (instruction inst)) = STORE_DIRECT \<longrightarrow> value_scope w = scope_of ps 1 (srcB (instruction inst))"
    let ?i = "mul_result (inst\<lparr>value1 := v, value2 := w\<rparr>) (if imm then w else v)
      ((offset_value v + init_value v) * (offset_value w + init_value w) - init_value v)"
    have "writes ps inst (value_pair (value3 ?i)) (exec_put (0, p, ?i))"
      by (rule exec_put_writes [OF wf room v(3) d(4,5)]) (use v(4,5) scp imm_def in auto)
    then show "writes ps inst (if imm then fst b else fst a, (snd a + fst a) * (snd b + fst b) - fst a)
      (exec_put (0, p, mul_result (inst\<lparr>value1 := v, value2 := w\<rparr>)
        (if store (srcA (instruction (inst\<lparr>value1 := v, value2 := w\<rparr>))) = STORE_DIRECT \<and>
            indirect (srcA (instruction (inst\<lparr>value1 := v, value2 := w\<rparr>))) = IND_DIRECT
         then value2 (inst\<lparr>value1 := v, value2 := w\<rparr>) else value1 (inst\<lparr>value1 := v, value2 := w\<rparr>))
        ((offset_value (value1 (inst\<lparr>value1 := v, value2 := w\<rparr>)) +
          init_value (value1 (inst\<lparr>value1 := v, value2 := w\<rparr>))) *
         (offset_value (value2 (inst\<lparr>value1 := v, value2 := w\<rparr>)) +
          init_value (value2 (inst\<lparr>value1 := v, value2 := w\<rparr>))) -
         init_value (value1 (inst\<lparr>value1 := v, value2 := w\<rparr>)))))"
      using v(1,2) d(3) by (cases imm) (simp_all add: pair_cases a_def b_def imm_def)
  qed
qed

text \<open>
  MUL and IMUL write the product of the absolute values modulo 2 ^ 64, but with an
  immediate srcA the result is off by the difference of the initial values of srcB and srcA.
\<close>
theorem execute_instruction_mul:
  assumes "wf_state ps" "has_room ps 4" "register_form (instruction inst)"
    and "opcode (instruction inst) \<in> {OP_MUL, OP_IMUL}"
    and "scope_of ps 0 (srcA (instruction inst)) \<noteq> 0" "scope_of ps 1 (srcB (instruction inst)) \<noteq> 0"
  shows "\<exists>ps' inst'. execute_instruction self ps inst = Inr (0, ps', inst') \<and> evolves 3 ps ps' \<and>
    reg_abs ps' = (reg_abs ps)(index (dstA (instruction inst)) :=
      operand_abs ps (srcA (instruction inst)) * operand_abs ps (srcB (instruction inst)) +
      (if store (srcA (instruction inst)) = STORE_DIRECT
       then operand_init ps (srcB (instruction inst)) - operand_init ps (srcA (instruction inst))
       else 0)) \<and>
    memory_stack ps' = memory_stack ps \<and> memory_data ps' = memory_data ps"
proof -
  note rule = writes_absI [OF execute_writes [OF assms(3) check_value_sizes_form [OF assms(3)]]]
  let ?d = "if store (srcA (instruction inst)) = STORE_DIRECT
         then operand_init ps (srcB (instruction inst)) - operand_init ps (srcA (instruction inst))
         else 0"
  have "writes_abs ps inst (operand_abs ps (srcA (instruction inst)) *
      operand_abs ps (srcB (instruction inst)) + ?d) (execute_instruction self ps inst)"
    by (rule rule [OF _ _ exec_mul_writes [OF assms(1-3,5,6)]])
      (use assms(4) in \<open>auto simp: execute_case_def operand_abs_def operand_init_def ac_simps\<close>)
  then show ?thesis by (elim writes_absE) blast
qed

lemma set_dst_length_keeps:
  assumes "wf_state ps"
  obtains ps' where "set_dst_length ps d = Inr ps'" "keeps 0 ps ps'"
  using search_store_total [OF wf_stateD(1) [OF assms], of "index d" "value_size d"]
proof (elim disjE conjE exE)
  assume "search_store (memory_reg ps) (index d) (value_size d) = Inr None"
  then show thesis by (intro that [of ps]) (simp_all add: set_dst_length_def keeps_refl assms)
next
  fix n
  assume hit: "search_store (memory_reg ps) (index d) (value_size d) = Inr (Some n)"
    "n < length (entries (memory_reg ps))" "table_map (memory_reg ps) (index d) = Some (memory_reg ps ! n)"
    "start_address (memory_reg ps ! n) = index d"
  let ?m = "(memory_reg ps ! n)\<lparr>mem_length := value_size d\<rparr>"
  let ?p = "ps\<lparr>memory_reg := (memory_reg ps)[n := ?m]\<rparr>"
  have valid: "mem_valid ?m = 1" using live_valid [OF hit(2)] by simp
  have "evolves 0 ps ?p" by (rule write_reg_evolves [OF assms hit(2) _ valid]) simp
  moreover have tab: "table_map ((memory_reg ps)[n := ?m]) = (table_map (memory_reg ps))(index d \<mapsto> ?m)"
    using change_record(4) [OF wf_stateD(1) [OF assms] hit(2) _ valid] hit(4) by simp
  then have "reg_pair ?p = reg_pair ps"
    using hit(3) by (auto simp: reg_pair_def fun_eq_iff)
  moreover have "scopes_kept (memory_reg ps) (memory_reg ?p)"
    using hit(3) calculation by (auto simp: scopes_kept_def tab)
  ultimately show thesis using hit(1)
    by (intro that [of ?p]) (simp_all add: set_dst_length_def keeps_def)
qed

lemma resize_result_simps [simp]:
  "instruction (resize_result i f) = instruction i"
  "start_address (value3 (resize_result i f)) = index (dstA (instruction i))"
  "value_scope (value3 (resize_result i f)) = param_to_local i (value_scope (value1 i))"
  "value_pair (value3 (resize_result i f)) = (f (init_value (value1 i)), f (offset_value (value1 i)))"
  by (simp_all add: resize_result_def indirect_from_value1_def value_pair_def Let_def)

text \<open>
  Truncation keeps the low half of both parts of the value, so the absolute value is right
  modulo \<open>2 ^ 32\<close>.
\<close>

lemma low_half: "take_bit 32 ((x AND 0xffffffff) + (y AND 0xffffffff) :: u64) = take_bit 32 (x + y)"
proof -
  have "z AND 0xffffffff = take_bit 32 z" for z :: u64
    by (simp add: take_bit_eq_mask mask_eq_exp_minus_1)
  moreover have "take_bit 32 (take_bit 32 x + take_bit 32 y) = take_bit 32 (x + y)"
    by transfer (simp add: take_bit_add)
  ultimately show ?thesis by simp
qed

text \<open>
  TRUNC to 32 bits writes one register whose low 32 bits are those of the absolute value
  of the source.
\<close>
theorem execute_instruction_trunc:
  assumes "wf_state ps" "has_room ps 4" "register_form (instruction inst)"
    and "opcode (instruction inst) = OP_TRUNC" "scope_of ps 0 (srcA (instruction inst)) \<noteq> 0"
    and "value_size (dstA (instruction inst)) = 32"
  shows "\<exists>ps' inst' x. execute_instruction self ps inst = Inr (0, ps', inst') \<and> evolves 3 ps ps' \<and>
    reg_abs ps' = (reg_abs ps)(index (dstA (instruction inst)) := x) \<and>
    take_bit 32 x = take_bit 32 (operand_abs ps (srcA (instruction inst))) \<and>
    memory_stack ps' = memory_stack ps \<and> memory_data ps' = memory_data ps"
proof -
  have d: "direct (srcA (instruction inst))" "indirect (dstA (instruction inst)) = IND_DIRECT"
    "store (dstA (instruction inst)) = STORE_REG" "print_inst_short (instruction inst) = Inr ()"
    using assms(3) by (auto simp: register_form_def print_inst_short_def)
  have r2: "has_room ps 2" using assms(2) by (simp add: has_room_def)
  obtain p v where p: "get_value1 self ps inst 0 = Inr (0, p, inst\<lparr>value1 := v\<rparr>)" "keeps 1 ps p"
    "value_pair v = pair_of ps (srcA (instruction inst))"
    "value_scope v = scope_of ps 0 (srcA (instruction inst))"
    "store (srcA (instruction inst)) = STORE_DIRECT \<longrightarrow> p = ps"
    by (rule get_value1_direct [OF assms(1) r2 d(1)])
  obtain q where q: "set_dst_length p (dstA (instruction inst)) = Inr q" "keeps 0 p q"
    by (rule set_dst_length_keeps [OF evolves_wf [OF keeps_evolves [OF p(2)]]])
  have keeps: "keeps 2 ps q" using keeps_trans [OF p(2) q(2)]
    by (auto simp: keeps_def elim: evolves_mono)
  let ?f = "\<lambda>x :: u64. x AND 0xffffffff" and ?a = "pair_of ps (srcA (instruction inst))"
  let ?i = "resize_result (inst\<lparr>value1 := v\<rparr>) ?f"
  have "writes ps inst (value_pair (value3 ?i)) (exec_put (0, q, ?i))"
    by (rule exec_put_writes [OF assms(1,2) keeps d(2,3)])
      (use p(4) assms(5) in \<open>simp_all add: param_to_local_def\<close>)
  then have w: "writes ps inst (?f (fst ?a), ?f (snd ?a)) (exec_put (0, q, ?i))"
    using p(3) by (simp add: pair_cases)
  have c: "execute_case self ps inst = exec_break (exec_put (0, q, ?i))"
    using p(1) q(1) assms(4,6) by (simp add: execute_case_def exec_trunc_def exec_break_def)
  have "writes_abs ps inst (?f (fst ?a) + ?f (snd ?a)) (execute_instruction self ps inst)"
    by (rule writes_absI [OF execute_writes [OF assms(3) check_value_sizes_form [OF assms(3)] c w]])
      (simp_all add: assms(4))
  moreover have "take_bit 32 (?f (fst ?a) + ?f (snd ?a)) =
      take_bit 32 (operand_abs ps (srcA (instruction inst)))"
    unfolding operand_abs_def by (rule low_half)
  ultimately show ?thesis by (elim writes_absE) metis
qed

section \<open>What is not executed\<close>

text \<open>The opcodes the size check knows.\<close>

definition executable_opcodes :: "opcode set" where
  "executable_opcodes = {OP_NOP, OP_CMP, OP_TEST, OP_MOV, OP_NEG, OP_NOT, OP_TRUNC, OP_ADC, OP_ADD,
     OP_MUL, OP_IMUL, OP_SBB, OP_SUB, OP_AND, OP_OR, OP_XOR, OP_SHL, OP_SHR, OP_SAL, OP_SAR,
     OP_LOAD, OP_STORE, OP_JMPT, OP_JMP, OP_CALL, OP_IF}"

text \<open>
  Every opcode outside the value-size check ends the program with exit(1), SEX included
  although it has a case of its own.
\<close>
theorem execute_instruction_unknown:
  assumes "opcode (instruction inst) \<notin> executable_opcodes" "flags (instruction inst) \<in> {0, 1}"
  shows "execute_instruction self ps inst = Inl (Exit 1)"
proof -
  have "check_value_sizes (instruction inst) = Inl (Exit 1)"
    using assms(1) by (simp add: executable_opcodes_def check_value_sizes_def Let_def)
  then show ?thesis using assms(2) by (auto simp: execute_instruction_def print_inst_short_def)
qed

text \<open>
  ADC computes nothing: it writes the stale value3 of the log entry back, and stops the
  program when that record has another start address than the destination.
\<close>
theorem execute_instruction_adc:
  assumes "wf_state ps" "has_room ps 4" "register_form (instruction inst)"
    and "opcode (instruction inst) = OP_ADC"
    and "start_address (value3 inst) \<noteq> index (dstA (instruction inst))"
  shows "execute_instruction self ps inst = Inl (Exit 1)"
proof -
  have d: "direct (srcA (instruction inst))" "direct (srcB (instruction inst))"
    "indirect (dstA (instruction inst)) = IND_DIRECT" "store (dstA (instruction inst)) = STORE_REG"
    "print_inst_short (instruction inst) = Inr ()"
    using assms(3) by (auto simp: register_form_def print_inst_short_def)
  have "exec_adc self ps inst = Inl (Exit 1)"
    unfolding exec_adc_def
  proof (rule operands_continue [OF assms(1,2) d(1,2), where Q = "\<lambda>r. r = Inl (Exit 1)"])
    fix v w p
    assume "keeps 2 ps p"
    then have p: "wf_table (memory_reg p)" "2 \<le> free_slots (memory_reg p)"
      using assms(2) evolves_room [of 2 ps p 2] by (auto simp: keeps_def has_room_def evolves_def wf_state_def)
    obtain t n where t: "find_or_add (memory_reg p) (index (dstA (instruction inst)))
        (value_size (dstA (instruction inst))) (\<lambda>m v. Inr m) = Inr (t, Some n)" "wf_table t"
      "n < length (entries t)" "start_address (t ! n) = index (dstA (instruction inst))"
      "free_slots (memory_reg p) - 1 \<le> free_slots t" "free_slots t \<le> free_slots (memory_reg p)"
      "table_map t = (table_map (memory_reg p))(index (dstA (instruction inst)) \<mapsto> t ! n)" "grows (memory_reg p) t"
      by (rule find_or_add_id [OF p])
    then show "exec_put (0, p, inst\<lparr>value1 := v, value2 := w\<rparr>) = Inl (Exit 1)"
      using d(3,4) assms(5) by (simp add: exec_put_def put_value_RTL_instruction_def put_register_def)
  qed
  then show ?thesis using d(5) check_value_sizes_form [OF assms(3)] assms(4)
    by (simp add: execute_instruction_def execute_case_def exec_break_def)
qed

section \<open>Where absolute values go wrong\<close>

text \<open>
  ADD of a register whose record has an offset other than zero does not store the sum of
  the absolute values: the offset of srcB is dropped.
\<close>
theorem execute_add_loses_offset:
  assumes "wf_state ps" "has_room ps 4" "register_form (instruction inst)"
    and "scope_of ps 0 (srcA (instruction inst)) \<noteq> 0" "opcode (instruction inst) = OP_ADD"
    and "store (srcB (instruction inst)) = STORE_REG"
    and "snd (reg_pair ps (index (srcB (instruction inst)))) \<noteq> 0"
    and "execute_instruction self ps inst = Inr (r, ps', inst')"
  shows "reg_abs ps' (index (dstA (instruction inst))) \<noteq>
    operand_abs ps (srcA (instruction inst)) + operand_abs ps (srcB (instruction inst))"
proof -
  have add: "alu_op (opcode (instruction inst)) = Some (\<lambda>a b. a + b)" by (simp add: assms(5))
  obtain q i where "execute_instruction self ps inst = Inr (0, q, i)"
    "reg_abs q = (reg_abs ps)(index (dstA (instruction inst)) := alu_value ps (instruction inst) (\<lambda>a b. a + b))"
    using writes_absE [OF execute_alu_writes [OF assms(1-4) add, of self]] by blast
  then have "reg_abs ps' (index (dstA (instruction inst))) =
      operand_abs ps (srcA (instruction inst)) + operand_init ps (srcB (instruction inst))"
    using assms(8) by (simp add: alu_value_def)
  moreover have "operand_abs ps (srcB (instruction inst)) =
      operand_init ps (srcB (instruction inst)) + snd (reg_pair ps (index (srcB (instruction inst))))"
    using assms(6) by (simp add: operand_abs_def operand_init_def pair_of_def)
  ultimately show ?thesis using assms(7) by simp
qed

end
