(* ===== verification/Jumps.thy ===== *)
theory Jumps
  imports Alu
begin

text \<open>
  The instructions that steer control: jumps, comparisons, the conditional jump and the
  linking of calls to external entry points.
\<close>

section \<open>The instruction pointer\<close>

lemma with_ip_known:
  assumes "wf_state ps" "table_map (memory_reg ps) REG_IP = Some m"
  obtains n where "\<And>k. with_ip ps k = k n m" "n < length (entries (memory_reg ps))"
    "memory_reg ps ! n = m" "start_address m = REG_IP"
proof -
  obtain n where n: "search_store (memory_reg ps) REG_IP 4 = Inr (Some n)"
    "n < length (entries (memory_reg ps))" "memory_reg ps ! n = m"
    using tab.lookup_hit [OF wf_stateD(1) [OF assms(1)] assms(2), of 4] by auto
  moreover have "start_address m = REG_IP"
    using tab.view_address [OF wf_stateD(1) [OF assms(1)] assms(2)] by simp
  ultimately show thesis using that by (simp add: with_ip_def)
qed

text \<open>A number as the only operand of a jump leaves the state alone.\<close>

lemma get_value1_number:
  assumes "wf_state ps" "indirect (srcA (instruction inst)) = IND_DIRECT"
    "store (srcA (instruction inst)) = STORE_DIRECT"
  shows "get_value1 self ps inst info =
    Inr (0, ps, inst\<lparr>value1 := get_immediate (srcA (instruction inst)) (value1 inst)\<rparr>)"
  using assms by (simp add: get_value1_def get_value_RTL_instruction_def get_done_wf)

text \<open>
  JMP with an immediate adds it to the offset of the instruction pointer's record and to
  nothing else, and leaves the absolute target in value3.
\<close>
theorem execute_jmp:
  assumes wf: "wf_state ps" and op: "opcode (instruction inst) = OP_JMP" "flags (instruction inst) \<in> {0, 1}"
    and src: "indirect (srcA (instruction inst)) = IND_DIRECT" "store (srcA (instruction inst)) = STORE_DIRECT"
    and ip: "table_map (memory_reg ps) REG_IP = Some m" "value_scope m \<noteq> 0"
  shows "\<exists>ps' inst'. execute_instruction self ps inst = Inr (0, ps', inst') \<and> evolves 0 ps ps' \<and>
    reg_pair ps' = (reg_pair ps)(REG_IP := (init_value m, offset_value m + index (srcA (instruction inst)))) \<and>
    abs_value (value3 inst') = abs_value m + index (srcA (instruction inst)) \<and>
    memory_stack ps' = memory_stack ps \<and> memory_data ps' = memory_data ps"
proof -
  obtain n where n: "\<And>k :: nat \<Rightarrow> memory_s \<Rightarrow> exec c. with_ip ps k = k n m"
    "n < length (entries (memory_reg ps))" "memory_reg ps ! n = m" "start_address m = REG_IP"
    by (rule with_ip_known [OF wf ip(1)], rule that)
  let ?s = "index (srcA (instruction inst))"
  let ?v1 = "get_immediate (srcA (instruction inst)) (value1 inst)"
  let ?i = "jump_target (inst\<lparr>value1 := ?v1\<rparr>) m ?s"
  define m' where "m' = m\<lparr>offset_value := offset_value m + ?s\<rparr>"
  let ?p = "ps\<lparr>memory_reg := (memory_reg ps)[n := m']\<rparr>"
  have v3: "offset_value (value3 ?i) = offset_value m + ?s" "init_value (value3 ?i) = init_value m"
    "value_scope (value3 ?i) = value_scope m" "instruction ?i = instruction inst"
    by (simp_all add: jump_target_def)
  have "exec_jmp self ps inst = Inr (0, ?p, ?i)"
    using get_value1_number [OF wf src] n(1) v3(1)
    by (simp add: exec_jmp_def get_immediate_def m'_def)
  then have run: "execute_instruction self ps inst = Inr (0, ?p, ?i)"
    using op ip(2) v3 by (auto simp: execute_instruction_def print_inst_short_def
        check_value_sizes_def execute_case_def exec_break_def check_scope_def Let_def)
  have m': "start_address m' = start_address (memory_reg ps ! n)" "mem_valid m' = 1"
    using n live_valid [OF n(2)] by (simp_all add: m'_def)
  have "evolves 0 ps ?p" by (rule write_reg_evolves [OF wf n(2) m'])
  moreover have "table_map ((memory_reg ps)[n := m']) = (table_map (memory_reg ps))(REG_IP \<mapsto> m')"
    using change_record(4) [OF wf_stateD(1) [OF wf] n(2) m'] n(3,4) m'(1) by simp
  then have "reg_pair ?p = (reg_pair ps)(REG_IP := (init_value m, offset_value m + ?s))"
    by (auto simp: reg_pair_def fun_eq_iff m'_def)
  ultimately show ?thesis using run v3 by (auto simp: abs_value_def)
qed

text \<open>
  The comparison and the conditional jump read their operands; the conditional jump leaves
  the absolute target in \<open>value3\<close>.
\<close>

text \<open>
  CMP reads both operands into value1 and value2, changes no register value and leaves
  value3 alone.
\<close>
theorem execute_cmp:
  assumes "wf_state ps" "has_room ps 4" "register_form (instruction inst)"
    and "opcode (instruction inst) = OP_CMP"
  shows "\<exists>ps' inst'. execute_instruction self ps inst = Inr (0, ps', inst') \<and> keeps 2 ps ps' \<and>
    abs_value (value1 inst') = operand_abs ps (srcA (instruction inst)) \<and>
    abs_value (value2 inst') = operand_abs ps (srcB (instruction inst)) \<and>
    value3 inst' = value3 inst"
proof -
  have d: "direct (srcA (instruction inst))" "direct (srcB (instruction inst))"
    "print_inst_short (instruction inst) = Inr ()" "check_value_sizes (instruction inst) = Inr ()"
    using assms(3,4) by (auto simp: register_form_def print_inst_short_def check_value_sizes_def Let_def)
  let ?Q = "\<lambda>r. \<exists>ps' inst'. r = Inr (0, ps', inst') \<and> keeps 2 ps ps' \<and> instruction inst' = instruction inst \<and>
    abs_value (value1 inst') = operand_abs ps (srcA (instruction inst)) \<and>
    abs_value (value2 inst') = operand_abs ps (srcB (instruction inst)) \<and>
    value3 inst' = value3 inst"
  have "?Q (exec_cmp self ps inst)"
    unfolding exec_cmp_def
    by (rule operands_continue [OF assms(1,2) d(1,2), where Q = ?Q])
      (auto simp: pair_cases abs_value_def operand_abs_def)
  then show ?thesis using assms(4) d(3,4)
    by (auto simp: execute_instruction_def execute_case_def exec_break_def check_scope_def)
qed

text \<open>
  IF changes no register and leaves in value3 the absolute target of the jump, the
  instruction pointer plus the relative destination.
\<close>
theorem execute_if:
  assumes "wf_state ps" "has_room ps 4" "opcode (instruction inst) = OP_IF" "flags (instruction inst) \<in> {0, 1}"
    and "direct (srcA (instruction inst))" "indirect (dstA (instruction inst)) = IND_DIRECT"
      "store (dstA (instruction inst)) = STORE_DIRECT"
    and ip: "table_map (memory_reg ps) REG_IP = Some m" "value_scope m \<noteq> 0"
  shows "\<exists>ps' inst'. execute_instruction self ps inst = Inr (0, ps', inst') \<and> keeps 2 ps ps' \<and>
    abs_value (value3 inst') = reg_abs ps REG_IP + index (dstA (instruction inst))"
proof -
  have dd: "direct (dstA (instruction inst))" using assms(6,7) by (simp add: direct_def)
  let ?d = "index (dstA (instruction inst))"
  let ?Q = "\<lambda>r. \<exists>ps' inst'. r = Inr (0, ps', inst') \<and> keeps 2 ps ps' \<and> instruction inst' = instruction inst \<and>
    value_scope (value3 inst') \<noteq> 0 \<and> abs_value (value3 inst') = reg_abs ps REG_IP + ?d"
  have "?Q (exec_if self ps inst)"
    unfolding exec_if_def
  proof (rule operands_continue [OF assms(1,2,5) dd, where Q = ?Q], unfold prod.case)
    fix u w p
    assume v: "value_pair w = pair_of ps (dstA (instruction inst))" "keeps 2 ps p"
    obtain m' where m': "table_map (memory_reg p) REG_IP = Some m'" "value_scope m' = value_scope m"
      using v(2) ip(1) by (auto simp: keeps_def scopes_kept_def)
    obtain n where n: "\<And>k :: nat \<Rightarrow> memory_s \<Rightarrow> exec c. with_ip p k = k n m'"
      "n < length (entries (memory_reg p))" "memory_reg p ! n = m'" "start_address m' = REG_IP"
      by (rule with_ip_known [OF evolves_wf [OF keeps_evolves [OF v(2)]] m'(1)], rule that)
    have "reg_pair ps REG_IP = reg_pair p REG_IP" using v(2) by (simp add: keeps_def)
    then have "(init_value m', offset_value m') = reg_pair ps REG_IP"
      using m'(1) by (simp add: reg_pair_def [of p])
    then have "abs_value m' = reg_abs ps REG_IP" by (metis abs_value_def reg_abs_def fst_conv snd_conv)
    moreover have "init_value w = ?d" using v(1) assms(7) by (simp add: pair_cases pair_of_def)
    ultimately show "?Q (with_ip p (\<lambda>n ip. Inr (0 :: int, p, jump_target (inst\<lparr>value1 := u, value2 := w\<rparr>) ip
        (init_value (value2 (inst\<lparr>value1 := u, value2 := w\<rparr>))))))"
      using v(2) m'(2) ip(2) unfolding n(1) by (simp add: jump_target_def abs_value_def add.assoc)
  qed
  moreover have "print_inst_short (instruction inst) = Inr ()" "check_value_sizes (instruction inst) = Inr ()"
    using assms(3,4) by (auto simp: print_inst_short_def check_value_sizes_def Let_def)
  ultimately show ?thesis using assms(3)
    by (auto simp: execute_instruction_def execute_case_def exec_break_def check_scope_def)
qed

section \<open>Linking a call\<close>

lemma find_entry_point_first:
  "n + k \<le> length eeps \<Longrightarrow> find_entry_point P eeps n k =
     Inr (case filter (\<lambda>i. P (eeps ! i)) [n ..< n + k] of [] \<Rightarrow> None | i # _ \<Rightarrow> Some i)"
proof (induction k arbitrary: n)
  case 0
  then show ?case by simp
next
  case (Suc k)
  have "[n ..< n + Suc k] = n # [Suc n ..< Suc n + k]" by (simp add: upt_conv_Cons)
  with Suc show ?case by simp
qed

lemma first_of_filter:
  assumes "filter Q [0 ..< k] = i # js"
  shows "i < k" "Q i" "\<forall>j < i. \<not> Q j"
proof -
  obtain xs ys where s: "[0 ..< k] = xs @ i # ys" "\<forall>x \<in> set xs. \<not> Q x" "Q i"
    using assms by (auto simp: filter_eq_Cons_iff)
  show "Q i" by (rule s)
  have "i \<in> set [0 ..< k]" using s(1) by simp
  then show "i < k" by simp
  have i: "i = length xs"
    using s(1) by (metis add_0 length_append less_add_same_cancel1 length_Cons zero_less_Suc
        length_upt minus_nat.diff_0 nth_append_length nth_upt)
  have "take i [0 ..< k] = xs" using s(1) i by simp
  then have "xs = [0 ..< i]" using \<open>i < k\<close> by (simp add: take_upt)
  then show "\<forall>j < i. \<not> Q j" using s(2) by simp
qed

definition call_target :: "u64 \<Rightarrow> external_entry_point_s \<Rightarrow> bool" where
  "call_target a e \<longleftrightarrow> eep_valid e \<noteq> 0 \<and> (eep_type e = 1 \<or> eep_type e = 2) \<and> eep_value e = a"

text \<open>
  A direct call is linked to the first valid internal or external entry point at the
  call's offset, by index and with relocated set to 1; without one the instruction is
  unchanged.
\<close>
theorem link_direct_call_first:
  assumes "EXTERNAL_ENTRY_POINTS_MAX \<le> length (external_entry_points self)"
    and "relocated (srcA ins) = 0" "indirect (srcA ins) = IND_DIRECT"
  shows "\<exists>ins'. link_direct_call self a ins = Inr ins' \<and>
    (if \<exists>n < EXTERNAL_ENTRY_POINTS_MAX. call_target a (external_entry_points self ! n)
     then \<exists>n < EXTERNAL_ENTRY_POINTS_MAX. call_target a (external_entry_points self ! n) \<and>
       (\<forall>m < n. \<not> call_target a (external_entry_points self ! m)) \<and>
       index (srcA ins') = of_nat n \<and> relocated (srcA ins') = 1
     else ins' = ins)"
proof -
  let ?e = "external_entry_points self" and ?M = EXTERNAL_ENTRY_POINTS_MAX
  let ?l = "filter (\<lambda>i. call_target a (?e ! i)) [0 ..< ?M]"
  have run: "link_direct_call self a ins =
      Inr (link_operand (case ?l of [] \<Rightarrow> None | i # _ \<Rightarrow> Some i) ins)"
    using assms find_entry_point_first [of 0 ?M ?e "call_target a"]
    by (simp add: link_direct_call_def call_target_def [abs_def])
  show ?thesis
  proof (cases ?l)
    case Nil
    then have "\<not> (\<exists>n < ?M. call_target a (?e ! n))" by (auto simp: filter_empty_conv)
    then show ?thesis using run Nil by (auto simp: link_operand_def)
  next
    case (Cons i js)
    from first_of_filter [OF this] show ?thesis using run Cons by (auto simp: link_operand_def)
  qed
qed

end
