(* ===== verification/Paths.thy ===== *)
theory Paths
  imports GlobalStruct
begin

text \<open>
  \<open>src/analyse/analyse.c\<close>, the path table of a function: a path is a list of nodes that
  continues an earlier path at the step where it branched off. The loops that walk a path
  back (\<open>path_loop_check\<close>, \<open>find_node_in_path\<close>, \<open>find_node_at_index_in_path\<close>) are
  described by the list of the nodes they meet, for the tables in which every path branches
  off an earlier one.
\<close>

section \<open>Walking a path back\<close>

text \<open>
  A position is a path and a step in it. One step back stays in the path or, at its start,
  goes to the position the path branched off at; the first path is its own predecessor.
\<close>

definition step_back :: "path_s list \<Rightarrow> int \<times> int \<Rightarrow> (int \<times> int) option c" where
  "step_back ps pos =
     (let (p, s) = pos in
      if s - 1 < 0 then
        bindE (at_int ps p) (\<lambda>r.
          Inr (if path_prev r \<noteq> p then Some (path_prev r, path_prev_index r) else None))
      else Inr (Some (p, s - 1)))"

definition node_at :: "path_s list \<Rightarrow> int \<times> int \<Rightarrow> int c" where
  "node_at ps pos = bindE (at_int ps (fst pos)) (\<lambda>r. at_int (path r) (snd pos))"

text \<open>
  The loops that walk back without a limit get as many steps as the table has positions:
  a longer walk visits a position twice and never ends.
\<close>

definition walk_fuel :: "path_s list \<Rightarrow> nat" where
  "walk_fuel ps = Suc (sum_list (map (\<lambda>r. length (path r)) ps))"

section \<open>The loop check\<close>

text \<open>0: the start is reached, 1: the node was met, 2: the limit is.\<close>

fun loop_check :: "path_s list \<Rightarrow> nat \<Rightarrow> int \<times> int \<Rightarrow> int \<Rightarrow> int c" where
  "loop_check ps 0 pos node = Inr 2"
| "loop_check ps (Suc k) pos node =
     bindE (step_back ps pos) (\<lambda>r.
       case r of
         None \<Rightarrow> Inr 0
       | Some pos \<Rightarrow> bindE (node_at ps pos) (\<lambda>x. if x = node then Inr 1 else loop_check ps k pos node))"

definition path_loop_check :: "path_s list \<Rightarrow> int \<Rightarrow> int \<Rightarrow> int \<Rightarrow> int \<Rightarrow> (int \<times> path_s list) c" where
  "path_loop_check ps p step node limit =
     bindE (at_int ps p) (\<lambda>r.
     bindE (loop_check ps (nat limit) (p, step) node) (\<lambda>result.
       Inr (result, if result = 1 then ps[nat p := r\<lparr>path_type := PATH_TYPE_LOOP\<rparr>] else ps)))"

section \<open>Finding a node in a path\<close>

text \<open>
  The walk from the end of a path until a test holds, with the position number, which is
  negative in the paths before.
\<close>

fun seek :: "nat \<Rightarrow> path_s list \<Rightarrow> (int \<times> int \<Rightarrow> int \<Rightarrow> bool c) \<Rightarrow> int \<times> int \<Rightarrow> int \<Rightarrow>
    ((int \<times> int) \<times> int) option c" where
  "seek 0 ps P pos position = Inl Diverge"
| "seek (Suc k) ps P pos position =
     bindE (step_back ps pos) (\<lambda>r.
       case r of
         None \<Rightarrow> Inr None
       | Some pos \<Rightarrow> bindE (P pos (position - 1)) (\<lambda>b.
           if b then Inr (Some (pos, position - 1)) else seek k ps P pos (position - 1)))"

definition find_node_in_path :: "path_s list \<Rightarrow> int \<Rightarrow> int \<Rightarrow> int option c" where
  "find_node_in_path ps base node =
     bindE (at_int ps base) (\<lambda>r.
     bindE (seek (walk_fuel ps) ps (\<lambda>pos _. bindE (node_at ps pos) (\<lambda>x. Inr (node = x)))
              (base, path_size r) (path_size r))
       (\<lambda>r. Inr (map_option snd r)))"

definition find_node_at_index_in_path :: "path_s list \<Rightarrow> int \<Rightarrow> int \<Rightarrow> int option c" where
  "find_node_at_index_in_path ps base ix =
     bindE (at_int ps base) (\<lambda>r.
     bindE (seek (walk_fuel ps) ps (\<lambda>_ position. Inr (position = ix)) (base, path_size r) (path_size r))
       (\<lambda>r. case r of None \<Rightarrow> Inr None | Some (pos, _) \<Rightarrow> bindE (node_at ps pos) (\<lambda>x. Inr (Some x))))"

section \<open>Well-formed path tables\<close>

text \<open>
  Every path but those that are their own predecessor branches off an earlier one, at a step
  that one has; the sizes fit the buffers.
\<close>

definition branches :: "path_s list \<Rightarrow> nat \<Rightarrow> bool" where
  "branches ps p \<longleftrightarrow> path_prev (ps ! p) \<noteq> int p"

definition wf_paths :: "path_s list \<Rightarrow> bool" where
  "wf_paths ps \<longleftrightarrow> (\<forall>p < length ps.
     0 \<le> path_size (ps ! p) \<and> path_size (ps ! p) \<le> int (length (path (ps ! p))) \<and>
     (branches ps p \<longrightarrow> 0 \<le> path_prev (ps ! p) \<and> path_prev (ps ! p) < int p \<and>
        0 \<le> path_prev_index (ps ! p) \<and>
        path_prev_index (ps ! p) < int (length (path (ps ! nat (path_prev (ps ! p)))))))"

lemma node_at_nat:
  "q < length ps \<Longrightarrow> t < length (path (ps ! q)) \<Longrightarrow> node_at ps (int q, int t) = Inr (path (ps ! q) ! t)"
  by (simp add: node_at_def at_int_def)

text \<open>The nodes before a position, the nearest first.\<close>

function trail :: "path_s list \<Rightarrow> nat \<Rightarrow> nat \<Rightarrow> int list" where
  "trail ps p s = rev (take s (path (ps ! p))) @
     (if branches ps p \<and> nat (path_prev (ps ! p)) < p
      then trail ps (nat (path_prev (ps ! p))) (Suc (nat (path_prev_index (ps ! p)))) else [])"
  by auto
termination by (relation "measure (\<lambda>(ps, p, s). p)") auto

declare trail.simps [simp del]

text \<open>The whole path, from the entry of the function.\<close>

definition whole_path :: "path_s list \<Rightarrow> nat \<Rightarrow> int list" where
  "whole_path ps p = rev (trail ps p (nat (path_size (ps ! p))))"

lemma wf_pathsD:
  assumes "wf_paths ps" "p < length ps"
  shows "0 \<le> path_size (ps ! p)" "nat (path_size (ps ! p)) \<le> length (path (ps ! p))"
    "branches ps p \<Longrightarrow> 0 \<le> path_prev (ps ! p)" "branches ps p \<Longrightarrow> nat (path_prev (ps ! p)) < p"
    "branches ps p \<Longrightarrow> 0 \<le> path_prev_index (ps ! p)"
    "branches ps p \<Longrightarrow> Suc (nat (path_prev_index (ps ! p))) \<le> length (path (ps ! nat (path_prev (ps ! p))))"
  using assms by (auto simp: wf_paths_def)

text \<open>A position inside the table, as \<open>step_back\<close> takes it.\<close>

definition inside :: "path_s list \<Rightarrow> nat \<Rightarrow> nat \<Rightarrow> bool" where
  "inside ps p s \<longleftrightarrow> p < length ps \<and> s \<le> length (path (ps ! p))"

text \<open>
  One step back is one step down the trail: the position it reaches holds the head of the
  trail, and the rest is the trail from there.
\<close>

lemma trail_Suc:
  assumes "wf_paths ps" "inside ps p (Suc s)"
  shows "trail ps p (Suc s) = path (ps ! p) ! s # trail ps p s"
  using assms(2) by (subst (1 2) trail.simps) (simp add: inside_def take_Suc_conv_app_nth)

lemma step_back_cases:
  assumes wf: "wf_paths ps" and pos: "inside ps p s"
  obtains (start) "step_back ps (int p, int s) = Inr None" "trail ps p s = []"
  | (step) q t where "step_back ps (int p, int s) = Inr (Some (int q, int t))"
      "node_at ps (int q, int t) = Inr (path (ps ! q) ! t)" "inside ps q t"
      "trail ps p s = path (ps ! q) ! t # trail ps q t" "q \<le> p"
proof (cases s)
  case (Suc s')
  with pos have "inside ps p s'" "s' < length (path (ps ! p))" "p < length ps" by (auto simp: inside_def)
  with Suc trail_Suc [OF wf, of p s'] pos that(2) [of p s'] show ?thesis
    by (simp add: step_back_def node_at_def at_int_def)
next
  case 0
  have p: "p < length ps" using pos by (simp add: inside_def)
  show ?thesis
  proof (cases "branches ps p")
    case False
    with 0 p that(1) show ?thesis
      by (simp add: step_back_def at_int_def branches_def trail.simps [of ps p])
  next
    case True
    let ?q = "nat (path_prev (ps ! p))" and ?t = "nat (path_prev_index (ps ! p))"
    note rest = trail_Suc [OF wf, of ?q ?t] and wf = wf_pathsD [OF wf p]
    have q: "?q < length ps" "inside ps ?q (Suc ?t)" "inside ps ?q ?t" "?t < length (path (ps ! ?q))"
      using wf(4,6) [OF True] p by (auto simp: inside_def)
    have "trail ps p 0 = path (ps ! ?q) ! ?t # trail ps ?q ?t"
      using rest [OF q(2)] True wf(4) by (subst trail.simps) simp
    moreover have "step_back ps (int p, 0) = Inr (Some (int ?q, int ?t))"
      using True p wf(3,5) by (simp add: step_back_def at_int_def branches_def)
    moreover have "node_at ps (int ?q, int ?t) = Inr (path (ps ! ?q) ! ?t)"
      by (rule node_at_nat [OF q(1,4)])
    ultimately show ?thesis using 0 q(3) wf(4) [OF True] that(2) [of ?q ?t] by simp
  qed
qed

lemma find_map: "find P (map f xs) = map_option f (find (\<lambda>x. P (f x)) xs)"
  by (induction xs) auto

section \<open>What the walks find\<close>

lemma loop_check_trail:
  assumes "wf_paths ps" "inside ps p s"
  shows "loop_check ps k (int p, int s) node =
    Inr (if node \<in> set (take k (trail ps p s)) then 1 else if length (trail ps p s) < k then 0 else 2)"
  using assms(2)
proof (induction k arbitrary: p s)
  case (Suc k)
  show ?case
    by (rule step_back_cases [OF assms(1) Suc.prems]) (auto simp: Suc.IH)
qed simp

text \<open>The first hit on the trail, and the number of steps to it.\<close>

lemma seek_trail:
  assumes "wf_paths ps" "inside ps p s" "length (trail ps p s) < k"
    and "\<And>q t i. inside ps q t \<Longrightarrow> node_at ps (int q, int t) = Inr (path (ps ! q) ! t) \<Longrightarrow>
      R (int q, int t) i = Inr (P (path (ps ! q) ! t) i)"
  shows "case find (\<lambda>i. P (trail ps p s ! i) (position - 1 - int i)) [0 ..< length (trail ps p s)] of
      None \<Rightarrow> seek k ps R (int p, int s) position = Inr None
    | Some i \<Rightarrow> \<exists>pos. seek k ps R (int p, int s) position = Inr (Some (pos, position - 1 - int i)) \<and>
        node_at ps pos = Inr (trail ps p s ! i)"
  using assms(2,3)
proof (induction k arbitrary: p s position)
  case (Suc k)
  show ?case
  proof (rule step_back_cases [OF assms(1) Suc.prems(1)])
    fix q t
    assume b: "step_back ps (int p, int s) = Inr (Some (int q, int t))"
      "node_at ps (int q, int t) = Inr (path (ps ! q) ! t)" "inside ps q t"
      "trail ps p s = path (ps ! q) ! t # trail ps q t"
    have R: "R (int q, int t) (position - 1) = Inr (P (path (ps ! q) ! t) (position - 1))"
      by (rule assms(4) [OF b(3,2)])
    let ?l = "trail ps q t"
    have "[0 ..< length (trail ps p s)] = 0 # map Suc [0 ..< length ?l]"
      unfolding b(4) by (simp add: upt_conv_Cons map_Suc_upt del: upt_Suc)
    then have f: "find (\<lambda>i. P (trail ps p s ! i) (position - 1 - int i)) [0 ..< length (trail ps p s)] =
        (if P (path (ps ! q) ! t) (position - 1) then Some 0
         else map_option Suc (find (\<lambda>i. P (?l ! i) (position - 1 - 1 - int i)) [0 ..< length ?l]))"
      unfolding b(4) by (simp add: find_map comp_def algebra_simps)
    have "case find (\<lambda>i. P (?l ! i) (position - 1 - 1 - int i)) [0 ..< length ?l] of
      None \<Rightarrow> seek k ps R (int q, int t) (position - 1) = Inr None
    | Some i \<Rightarrow> \<exists>pos. seek k ps R (int q, int t) (position - 1) = Inr (Some (pos, position - 1 - 1 - int i)) \<and>
        node_at ps pos = Inr (?l ! i)"
      by (rule Suc.IH) (use b(3,4) Suc.prems(2) in simp_all)
    then show ?thesis using b R unfolding f by (auto simp: algebra_simps split: option.splits)
  qed simp
qed simp

lemma trail_length:
  "length (trail ps p s) \<le> s + sum_list (map (\<lambda>r. length (path r)) (take p ps))"
  if "wf_paths ps" "inside ps p s"
  using that(2)
proof (induction p arbitrary: s rule: less_induct)
  case (less p)
  let ?q = "nat (path_prev (ps ! p))" and ?t = "Suc (nat (path_prev_index (ps ! p)))"
  let ?len = "\<lambda>xs. sum_list (map (\<lambda>r. length (path r)) xs)"
  show ?case
  proof (cases "branches ps p")
    case False
    then show ?thesis by (subst trail.simps) simp
  next
    case True
    have p: "p < length ps" using less.prems by (simp add: inside_def)
    note wf = wf_pathsD [OF that(1) p]
    have q: "?q < p" "inside ps ?q ?t" using wf(4,6) [OF True] p by (auto simp: inside_def)
    have "?t \<le> length (path (ps ! ?q))" by (rule wf(6) [OF True])
    then have "length (trail ps ?q ?t) \<le> length (path (ps ! ?q)) + ?len (take ?q ps)"
      using less.IH [OF q] by simp
    also have "\<dots> = ?len (take (Suc ?q) ps)" using q(1) p by (simp add: take_Suc_conv_app_nth)
    also have "\<dots> \<le> ?len (take p ps)"
    proof -
      have "take p ps = take (Suc ?q) ps @ take (p - Suc ?q) (drop (Suc ?q) ps)"
        using q(1) by (metis Suc_leI le_add_diff_inverse take_add)
      then show ?thesis by (metis le_add1 map_append sum_list_append)
    qed
    finally show ?thesis using True q(1) by (subst trail.simps) simp
  qed
qed

lemma trail_fuel:
  assumes "wf_paths ps" "inside ps p s"
  shows "length (trail ps p s) < walk_fuel ps"
proof -
  have p: "p < length ps" "s \<le> length (path (ps ! p))" using assms(2) by (simp_all add: inside_def)
  have "s + sum_list (map (\<lambda>r. length (path r)) (take p ps)) \<le>
      sum_list (map (\<lambda>r. length (path r)) (take (Suc p) ps))"
    using p by (simp add: take_Suc_conv_app_nth)
  also have "\<dots> \<le> sum_list (map (\<lambda>r. length (path r)) ps)"
    by (metis append_take_drop_id le_add1 map_append sum_list_append)
  finally show ?thesis using trail_length [OF assms] by (simp add: walk_fuel_def)
qed

text \<open>The end of a path is a position.\<close>

lemma inside_end: "wf_paths ps \<Longrightarrow> p < length ps \<Longrightarrow> inside ps p (nat (path_size (ps ! p)))"
  using wf_pathsD(2) by (simp add: inside_def)

definition end_trail :: "path_s list \<Rightarrow> nat \<Rightarrow> int list" where
  "end_trail ps p = trail ps p (nat (path_size (ps ! p)))"

lemma whole_path_trail: "whole_path ps p = rev (end_trail ps p)"
  by (simp add: whole_path_def end_trail_def)

lemma find_node_in_path_trail:
  assumes "wf_paths ps" "p < length ps"
  shows "find_node_in_path ps (int p) node =
    Inr (map_option (\<lambda>i. path_size (ps ! p) - 1 - int i)
      (find (\<lambda>i. end_trail ps p ! i = node) [0 ..< length (end_trail ps p)]))"
proof -
  let ?s = "path_size (ps ! p)"
  note [simp] = inside_end [OF assms]
  have s: "int (nat ?s) = ?s" using wf_pathsD(1) [OF assms] by simp
  let ?R = "\<lambda>pos (_ :: int). bindE (node_at ps pos) (\<lambda>x. Inr (node = x))"
  have "case find (\<lambda>i. trail ps p (nat ?s) ! i = node) [0 ..< length (trail ps p (nat ?s))] of
      None \<Rightarrow> seek (walk_fuel ps) ps ?R (int p, int (nat ?s)) ?s = Inr None
    | Some i \<Rightarrow> \<exists>pos. seek (walk_fuel ps) ps ?R (int p, int (nat ?s)) ?s = Inr (Some (pos, ?s - 1 - int i)) \<and>
        node_at ps pos = Inr (trail ps p (nat ?s) ! i)"
    by (rule seek_trail [OF assms(1), where P = "\<lambda>x _. x = node"]) (auto simp: trail_fuel [OF assms(1)])
  then show ?thesis using assms(2) unfolding s
    by (auto simp: find_node_in_path_def at_int_def end_trail_def split: option.splits)
qed

lemma find_only: "find (\<lambda>i. c - int i = d) [0 ..< n] =
    (if 0 \<le> c - d \<and> c - d < int n then Some (nat (c - d)) else None)"
proof (cases "find (\<lambda>i. c - int i = d) [0 ..< n]")
  case None
  then have "\<not> (\<exists>i < n. c - int i = d)" by (auto simp: find_None_iff)
  moreover have "nat (c - d) < n \<and> c - int (nat (c - d)) = d" if "0 \<le> c - d" "c - d < int n"
    using that by linarith
  ultimately show ?thesis using None by auto
next
  case (Some i)
  then have "i < n" "c - int i = d" by (auto simp: find_Some_iff)
  then show ?thesis using Some by auto
qed

lemma find_node_at_index_trail:
  assumes "wf_paths ps" "p < length ps"
  shows "find_node_at_index_in_path ps (int p) ix =
    (let i = path_size (ps ! p) - 1 - ix in
     Inr (if 0 \<le> i \<and> i < int (length (end_trail ps p)) then Some (end_trail ps p ! nat i) else None))"
proof -
  let ?s = "path_size (ps ! p)"
  note [simp] = inside_end [OF assms]
  have s: "int (nat ?s) = ?s" using wf_pathsD(1) [OF assms] by simp
  let ?R = "\<lambda>(_ :: int \<times> int) position. Inr (position = ix)"
  have "case find (\<lambda>i. ?s - 1 - int i = ix) [0 ..< length (trail ps p (nat ?s))] of
      None \<Rightarrow> seek (walk_fuel ps) ps ?R (int p, int (nat ?s)) ?s = Inr None
    | Some i \<Rightarrow> \<exists>pos. seek (walk_fuel ps) ps ?R (int p, int (nat ?s)) ?s = Inr (Some (pos, ?s - 1 - int i)) \<and>
        node_at ps pos = Inr (trail ps p (nat ?s) ! i)"
    by (rule seek_trail [OF assms(1), where P = "\<lambda>_ position. position = ix"]) (auto simp: trail_fuel [OF assms(1)])
  then show ?thesis using assms(2) unfolding s find_only
    by (auto simp: find_node_at_index_in_path_def at_int_def end_trail_def Let_def split: if_splits)
qed

text \<open>
  C15. find_node_in_path finds every node of a path, through the paths it branches off, at
  the last place it occurs, and find_node_at_index_in_path gives the node back at that
  index.
\<close>
theorem find_node_round_trip:
  assumes "wf_paths ps" "p < length ps" "node \<in> set (whole_path ps p)"
  shows "\<exists>k. find_node_in_path ps (int p) node = Inr (Some k) \<and>
    find_node_at_index_in_path ps (int p) k = Inr (Some node) \<and>
    (\<forall>j > k. find_node_at_index_in_path ps (int p) j \<noteq> Inr (Some node))"
proof -
  let ?l = "end_trail ps p" and ?s = "path_size (ps ! p)"
  have "\<exists>i < length ?l. ?l ! i = node" using assms(3) by (auto simp: whole_path_trail in_set_conv_nth)
  then have "find (\<lambda>i. ?l ! i = node) [0 ..< length ?l] \<noteq> None" by (auto simp: find_None_iff)
  then obtain i where f: "find (\<lambda>i. ?l ! i = node) [0 ..< length ?l] = Some i" by auto
  then have i: "i < length ?l" "?l ! i = node" "\<forall>j < i. ?l ! j \<noteq> node"
    by (auto simp: find_Some_iff)
  show ?thesis
  proof (intro exI conjI allI impI)
    show "find_node_in_path ps (int p) node = Inr (Some (?s - 1 - int i))"
      using find_node_in_path_trail [OF assms(1,2)] f by simp
    show "find_node_at_index_in_path ps (int p) (?s - 1 - int i) = Inr (Some node)"
      using i by (simp add: find_node_at_index_trail [OF assms(1,2)])
    fix j assume "?s - 1 - int i < j"
    then show "find_node_at_index_in_path ps (int p) j \<noteq> Inr (Some node)"
      using i(3) by (auto simp: find_node_at_index_trail [OF assms(1,2)] Let_def nat_less_iff)
  qed
qed

text \<open>
  Below its limit path_loop_check decides whether the node occurs on the path before
  the step, through the paths it branches off, and marks the path as a loop exactly then.
\<close>
theorem path_loop_check_finds:
  assumes "wf_paths ps" "p < length ps" "s \<le> length (path (ps ! p))"
    and "int (length (trail ps p s)) < limit"
  shows "path_loop_check ps (int p) (int s) node limit =
    Inr (if node \<in> set (trail ps p s) then (1, ps[p := (ps ! p)\<lparr>path_type := PATH_TYPE_LOOP\<rparr>]) else (0, ps))"
  using assms loop_check_trail [OF assms(1), of p s "nat limit" node]
  by (simp add: path_loop_check_def at_int_def inside_def zless_nat_eq_int_zless)

end
