(* ===== verification/Unique.thy ===== *)
theory Unique
  imports GlobalStruct
begin

text \<open>
  Lists that take an element once: the path lists of a node, the parameters and locals of a
  function. An operation that adds an element returns 1 when it was there and 0 when it
  appended it; the locale holds what follows for any such operation.
\<close>

section \<open>Lists without repetition\<close>

definition enter :: "'a \<Rightarrow> 'a list \<Rightarrow> 'a list" where
  "enter x ns = (if x \<in> set ns then ns else ns @ [x])"

lemma enter_set [simp]: "set (enter x ns) = insert x (set ns)"
  by (auto simp: enter_def)

lemma enter_distinct [simp]: "distinct (enter x ns) \<longleftrightarrow> distinct ns"
  by (auto simp: enter_def)

lemma enter_twice [simp]: "enter x (enter x ns) = enter x ns"
  by (simp add: enter_def)

lemma fold_enter [simp]: "set (fold enter xs ns) = set xs \<union> set ns" "distinct (fold enter xs ns) \<longleftrightarrow> distinct ns"
  by (induction xs arbitrary: ns) auto

lemma fold_enter_new: "distinct (ns @ xs) \<Longrightarrow> fold enter xs ns = ns @ xs"
  by (induction xs arbitrary: ns) (auto simp: enter_def)

locale unique_list =
  fixes elems :: "'s \<Rightarrow> 'a list" and add :: "'s \<Rightarrow> 'a \<Rightarrow> int \<times> 's"
  assumes add_elems: "elems (snd (add s x)) = enter x (elems s)"
    and add_code: "fst (add s x) = (if x \<in> set (elems s) then 1 else 0)"
begin

definition add_all :: "'a list \<Rightarrow> 's \<Rightarrow> 's" where
  "add_all xs s = fold (\<lambda>x s. snd (add s x)) xs s"

lemma add_all_elems: "elems (add_all xs s) = fold enter xs (elems s)"
  by (induction xs arbitrary: s) (simp_all add: add_all_def add_elems)

lemma add_all_set: "set (elems (add_all xs s)) = set xs \<union> set (elems s)"
  by (simp add: add_all_elems)

lemma add_all_distinct: "distinct (elems (add_all xs s)) = distinct (elems s)"
  by (simp add: add_all_elems)

lemma add_again: "fst (add (snd (add s x)) x) = 1"
  by (simp add: add_code add_elems)

end

end
