(* ===== verification/NodePaths.thy ===== *)
theory NodePaths
  imports Paths Unique
begin

text \<open>
  \<open>src/analyse/analyse.c\<close>, \<open>build_node_paths\<close>: every node gets the numbers of the paths it
  lies on, in one list for the paths that end in a loop and in another for the rest.
\<close>

section \<open>The paths of a node\<close>

text \<open>The code is 1 when the path is there already.\<close>

definition add_path_to_node :: "control_flow_node_s \<Rightarrow> int \<Rightarrow> int \<times> control_flow_node_s" where
  "add_path_to_node node p =
     (if p \<in> set (node_path node) then (1, node)
      else (0, node\<lparr>node_path := node_path node @ [p]\<rparr>))"

definition add_looped_path_to_node :: "control_flow_node_s \<Rightarrow> int \<Rightarrow> int \<times> control_flow_node_s" where
  "add_looped_path_to_node node p =
     (if p \<in> set (looped_path node) then (1, node)
      else (0, node\<lparr>looped_path := looped_path node @ [p]\<rparr>))"

interpretation np: unique_list node_path add_path_to_node
  by unfold_locales (simp_all add: add_path_to_node_def enter_def)

interpretation lp: unique_list looped_path add_looped_path_to_node
  by unfold_locales (simp_all add: add_looped_path_to_node_def enter_def)

definition visit_node :: "bool \<Rightarrow> int \<Rightarrow> int \<Rightarrow> int \<Rightarrow> control_flow_node_s list \<Rightarrow> control_flow_node_s list c" where
  "visit_node looped l ep x nodes =
     bindE (at_int nodes x) (\<lambda>node.
       let node = snd (if looped then add_looped_path_to_node node l else add_path_to_node node l)
       in Inr (nodes[nat x := node\<lparr>entry_point_of := ep\<rparr>]))"

fun visit_path :: "nat \<Rightarrow> path_s list \<Rightarrow> bool \<Rightarrow> int \<Rightarrow> int \<Rightarrow> int \<times> int \<Rightarrow>
    control_flow_node_s list \<Rightarrow> control_flow_node_s list c" where
  "visit_path 0 ps looped l ep pos nodes = Inl Diverge"
| "visit_path (Suc k) ps looped l ep pos nodes =
     bindE (node_at ps pos) (\<lambda>x.
     bindE (visit_node looped l ep x nodes) (\<lambda>nodes.
     bindE (step_back ps pos) (\<lambda>r.
       case r of None \<Rightarrow> Inr nodes | Some pos \<Rightarrow> visit_path k ps looped l ep pos nodes)))"

definition node_paths_of :: "path_s list \<Rightarrow> int \<Rightarrow> nat \<Rightarrow> control_flow_node_s list \<Rightarrow> control_flow_node_s list c" where
  "node_paths_of ps ep l nodes =
     bindE (at ps l) (\<lambda>r.
       if 0 < path_size r
       then visit_path (walk_fuel ps) ps (path_type r = PATH_TYPE_LOOP) (int l) ep (int l, path_size r - 1) nodes
       else Inr nodes)"

fun node_paths_all :: "path_s list \<Rightarrow> int \<Rightarrow> nat list \<Rightarrow> control_flow_node_s list \<Rightarrow> control_flow_node_s list c" where
  "node_paths_all ps ep [] nodes = Inr nodes"
| "node_paths_all ps ep (l # ls) nodes = bindE (node_paths_of ps ep l nodes) (node_paths_all ps ep ls)"

definition build_node_paths ::
  "control_flow_node_s list \<Rightarrow> path_s list \<Rightarrow> int \<Rightarrow> int \<Rightarrow> control_flow_node_s list c" where
  "build_node_paths nodes ps paths_size ep = node_paths_all ps ep [0 ..< nat paths_size] nodes"

section \<open>A node has the paths it lies on\<close>

text \<open>What happens to node \<open>i\<close> when the nodes \<open>xs\<close> are visited for path \<open>l\<close>.\<close>

definition visited :: "bool \<Rightarrow> int \<Rightarrow> int list \<Rightarrow> control_flow_node_s list \<Rightarrow> control_flow_node_s list \<Rightarrow> bool" where
  "visited looped l xs nodes nodes' \<longleftrightarrow> length nodes' = length nodes \<and>
     (\<forall>i < length nodes.
        node_path (nodes' ! i) =
          (if \<not> looped \<and> int i \<in> set xs then enter l (node_path (nodes ! i)) else node_path (nodes ! i)) \<and>
        looped_path (nodes' ! i) =
          (if looped \<and> int i \<in> set xs then enter l (looped_path (nodes ! i)) else looped_path (nodes ! i)))"

lemma visit_node_visited:
  "yields (visit_node looped l ep x nodes) (visited looped l [x] nodes)"
  by (auto simp: visit_node_def at_int_def visited_def nth_list_update add_path_to_node_def
      add_looped_path_to_node_def enter_def Let_def)

lemma visited_append:
  assumes "visited looped l xs a b" "visited looped l ys b c"
  shows "visited looped l (xs @ ys) a c"
  using assms unfolding visited_def by (auto split: if_splits)

lemma visit_path_visited:
  assumes "wf_paths ps" "inside ps p (Suc s)"
  shows "yields (visit_path k ps looped l ep (int p, int s) nodes) (visited looped l (trail ps p (Suc s)) nodes)"
  using assms(2)
proof (induction k arbitrary: p s nodes)
  case (Suc k)
  have pos: "p < length ps" "s < length (path (ps ! p))" "inside ps p s"
    using Suc.prems by (auto simp: inside_def)
  let ?x = "path (ps ! p) ! s"
  have x: "node_at ps (int p, int s) = Inr ?x" by (rule node_at_nat [OF pos(1,2)])
  have t: "trail ps p (Suc s) = [?x] @ trail ps p s" using trail_Suc [OF assms(1) Suc.prems] by simp
  show ?case unfolding visit_path.simps x bindE.simps t
  proof (rule yields_bind, rule yields_mono [OF visit_node_visited])
    fix nodes1 assume v: "visited looped l [?x] nodes nodes1"
    show "yields (bindE (step_back ps (int p, int s))
        (\<lambda>r. case r of None \<Rightarrow> Inr nodes1 | Some pos \<Rightarrow> visit_path k ps looped l ep pos nodes1))
        (visited looped l ([?x] @ trail ps p s) nodes)"
    proof (rule step_back_cases [OF assms(1) pos(3)])
      fix q t
      assume b: "step_back ps (int p, int s) = Inr (Some (int q, int t))"
        "node_at ps (int q, int t) = Inr (path (ps ! q) ! t)" "inside ps q t"
        "trail ps p s = path (ps ! q) ! t # trail ps q t"
      then have in': "inside ps q (Suc t)"
        by (auto simp: inside_def node_at_def at_int_def split: if_splits)
      have "yields (visit_path k ps looped l ep (int q, int t) nodes1) (visited looped l (trail ps p s) nodes1)"
        using Suc.IH [OF in', of nodes1] trail_Suc [OF assms(1) in'] b(4) by simp
      then show ?thesis unfolding b(1)
        by (simp, elim yields_mono) (use visited_append [OF v] in simp)
    qed (use v in simp)
  qed
qed simp

text \<open>The paths of a kind through a node, among the first ones.\<close>

definition paths_through :: "path_s list \<Rightarrow> bool \<Rightarrow> nat list \<Rightarrow> nat \<Rightarrow> int list" where
  "paths_through ps looped ls i = map int (filter (\<lambda>l. (path_type (ps ! l) = PATH_TYPE_LOOP) = looped \<and>
     0 < path_size (ps ! l) \<and> int i \<in> set (whole_path ps l)) ls)"

lemma node_paths_of_visited:
  assumes "wf_paths ps"
  shows "yields (node_paths_of ps ep l nodes) (\<lambda>nodes'. length nodes' = length nodes \<and>
    (\<forall>i < length nodes.
       node_path (nodes' ! i) = fold enter (paths_through ps False [l] i) (node_path (nodes ! i)) \<and>
       looped_path (nodes' ! i) = fold enter (paths_through ps True [l] i) (looped_path (nodes ! i))))"
proof (cases "l < length ps \<and> 0 < path_size (ps ! l)")
  case True
  let ?s = "nat (path_size (ps ! l) - 1)"
  have s: "Suc ?s = nat (path_size (ps ! l))" "path_size (ps ! l) - 1 = int ?s" using True by auto
  have pos: "inside ps l (Suc ?s)" using inside_end [OF assms] True s(1) by simp
  have "node_paths_of ps ep l nodes = visit_path (walk_fuel ps) ps (path_type (ps ! l) = PATH_TYPE_LOOP)
      (int l) ep (int l, int ?s) nodes" using True unfolding s(2) [symmetric] by (simp add: node_paths_of_def)
  moreover have "set (trail ps l (Suc ?s)) = set (whole_path ps l)" unfolding s(1) by (simp add: whole_path_def)
  ultimately show ?thesis
    by (simp only:, intro yields_mono [OF visit_path_visited [OF assms pos]])
      (use True in \<open>auto simp: visited_def paths_through_def\<close>)
next
  case False
  then show ?thesis by (auto simp: node_paths_of_def at_def paths_through_def)
qed

lemma node_paths_all_visited:
  assumes "wf_paths ps"
  shows "yields (node_paths_all ps ep ls nodes) (\<lambda>nodes'. length nodes' = length nodes \<and>
    (\<forall>i < length nodes.
       node_path (nodes' ! i) = fold enter (paths_through ps False ls i) (node_path (nodes ! i)) \<and>
       looped_path (nodes' ! i) = fold enter (paths_through ps True ls i) (looped_path (nodes ! i))))"
proof (induction ls arbitrary: nodes)
  case Nil
  then show ?case by (simp add: paths_through_def)
next
  case (Cons l ls)
  have split: "paths_through ps b (l # ls) i = paths_through ps b [l] i @ paths_through ps b ls i" for b i
    by (simp add: paths_through_def)
  show ?case unfolding node_paths_all.simps
    by (rule yields_bind, rule yields_mono [OF node_paths_of_visited [OF assms]],
        rule yields_mono [OF Cons.IH]) (auto simp: split)
qed

lemma build_node_paths_paths:
  assumes "wf_paths ps" "build_node_paths nodes ps paths_size ep = Inr nodes'" "i < length nodes"
    and "node_path (nodes ! i) = []" "looped_path (nodes ! i) = []"
  shows "node_path (nodes' ! i) = paths_through ps False [0 ..< nat paths_size] i"
    "looped_path (nodes' ! i) = paths_through ps True [0 ..< nat paths_size] i"
proof -
  have "distinct (paths_through ps b [0 ..< nat paths_size] i)" for b
    by (simp add: paths_through_def distinct_map)
  then show "node_path (nodes' ! i) = paths_through ps False [0 ..< nat paths_size] i"
    "looped_path (nodes' ! i) = paths_through ps True [0 ..< nat paths_size] i"
    using yieldsD [OF node_paths_all_visited [OF assms(1)] assms(2) [unfolded build_node_paths_def]] assms(3-5)
    by (simp_all add: fold_enter_new)
qed

text \<open>
  C14. After build_node_paths the lists of a node hold, in order and once each, the numbers
  of exactly the paths that go through it: the loop paths in one, the others in the other.
\<close>
theorem build_node_paths_exact:
  assumes "wf_paths ps" "build_node_paths nodes ps paths_size ep = Inr nodes'" "i < length nodes"
    and "node_path (nodes ! i) = []" "looped_path (nodes ! i) = []"
  shows "node_path (nodes' ! i) = paths_through ps False [0 ..< nat paths_size] i \<and>
    looped_path (nodes' ! i) = paths_through ps True [0 ..< nat paths_size] i"
  using build_node_paths_paths [OF assms] by simp

end
