(* ===== verification/Dominance.thy ===== *)
theory Dominance
  imports NodePaths "HOL-Library.Sublist"
begin

text \<open>
  \<open>src/analyse/analyse.c\<close>, \<open>is_subset\<close> and \<open>build_node_dominance\<close>: the dominator of a node
  is the first node up the chain of forward predecessors that has all the paths of the node.
  The passes over the node table (\<open>each_node\<close>) are shared with the later theories.
\<close>

section \<open>Subsets of lists\<close>

text \<open>Element \<open>n\<close> of the first list is looked for from element \<open>n\<close> of the second on.\<close>

fun subset_from :: "int list \<Rightarrow> int list \<Rightarrow> bool" where
  "subset_from [] b = True"
| "subset_from (x # a) b = (x \<in> set b \<and> subset_from a (tl b))"

text \<open>0: no, 1: the lists are equal, 2: subset.\<close>

definition is_subset :: "int list \<Rightarrow> int list \<Rightarrow> int" where
  "is_subset a b =
     (if length b < length a then 0
      else if length b = length a \<and> a = b then 1
      else if subset_from a b then 2 else 0)"

lemma subset_from_suffix: "subset_from a b \<Longrightarrow> suffix b c \<Longrightarrow> subset_from a c"
proof (induction a arbitrary: b c)
  case (Cons x a)
  obtain z where c: "c = z @ b" using Cons.prems(2) by (auto simp: suffix_def)
  have "suffix (tl b) (tl c)"
    by (cases z; cases b) (auto simp: c suffix_def)
  moreover have "set b \<subseteq> set c" by (simp add: c)
  ultimately show ?case using Cons by auto
qed simp

lemma subset_from_set: "subset_from a b \<Longrightarrow> set a \<subseteq> set b"
proof (induction a arbitrary: b)
  case (Cons x a)
  then have "set a \<subseteq> set (tl b)" by simp
  moreover have "set (tl b) \<subseteq> set b" by (cases b) auto
  ultimately show ?case using Cons.prems by auto
qed simp

lemma subset_from_filter:
  "distinct xs \<Longrightarrow> set (filter P xs) \<subseteq> set (filter Q xs) \<Longrightarrow> subset_from (filter P xs) (filter Q xs)"
proof (induction xs)
  case (Cons x xs)
  have Q: "Q y" if y: "y \<in> set (x # xs)" "P y" for y
  proof -
    have "y \<in> set (filter Q (x # xs))" by (rule subsetD [OF Cons.prems(2)]) (use y in auto)
    then show ?thesis by (simp only: set_filter mem_Collect_eq)
  qed
  have sub: "set (filter P xs) \<subseteq> set (filter Q xs)" using Q by auto
  then have rest: "subset_from (filter P xs) (filter Q xs)" using Cons by simp
  show ?case
  proof (cases "P x")
    case True
    then have "Q x" using Q by simp
    then show ?thesis using True rest by simp
  next
    case False
    then show ?thesis using subset_from_suffix [OF rest, of "x # filter Q xs"] rest
      by (simp add: suffix_ConsI)
  qed
qed simp

lemma is_subset_filter:
  assumes "distinct xs" "a = filter P xs" "b = filter Q xs"
  shows "(is_subset a b \<noteq> 0 \<longleftrightarrow> set a \<subseteq> set b) \<and> (is_subset a b = 1 \<longleftrightarrow> set a = set b)"
proof -
  have d: "distinct a" "distinct b" using assms by simp_all
  have sub: "subset_from a b \<longleftrightarrow> set a \<subseteq> set b"
    using subset_from_set subset_from_filter [OF assms(1), of P Q] assms(2,3) by blast
  have len: "length a \<le> length b" if "set a \<subseteq> set b"
    using that card_mono [OF _ that] d by (simp add: distinct_card)
  have eq: "a = b" if "set a = set b"
  proof -
    have "filter P xs = filter Q xs" by (rule filter_cong [OF refl]) (use that assms(2,3) in auto)
    then show ?thesis using assms(2,3) by simp
  qed
  show ?thesis
  proof (cases "set a \<subseteq> set b")
    case True
    then show ?thesis using len [OF True] eq by (auto simp: is_subset_def sub)
  next
    case False
    then have "a \<noteq> b" "set a \<noteq> set b" by auto
    with False show ?thesis by (simp add: is_subset_def sub)
  qed
qed

text \<open>
  is_subset decides the subset relation, and equality, of lists that are subsequences
  of one list without repetitions, as the path and loop lists of the nodes are.
\<close>
theorem is_subset_of_subsequences:
  assumes "distinct xs" "a = filter P xs" "b = filter Q xs"
  shows "(is_subset a b \<noteq> 0 \<longleftrightarrow> set a \<subseteq> set b) \<and> (is_subset a b = 1 \<longleftrightarrow> set a = set b)"
  by (rule is_subset_filter [OF assms])

section \<open>Passes over the nodes\<close>

text \<open>The nodes are updated one after the other, the later ones seeing the earlier updates.\<close>

fun each_node :: "(control_flow_node_s list \<Rightarrow> nat \<Rightarrow> control_flow_node_s \<Rightarrow> control_flow_node_s c) \<Rightarrow>
    nat list \<Rightarrow> control_flow_node_s list \<Rightarrow> control_flow_node_s list c" where
  "each_node f [] nodes = Inr nodes"
| "each_node f (n # ns) nodes =
     bindE (at nodes n) (\<lambda>node. bindE (f nodes n node) (\<lambda>node. each_node f ns (nodes[n := node])))"

text \<open>The nodes \<open>ns\<close> changed as the relation says, the others stayed as they were.\<close>

definition pass_over :: "(nat \<Rightarrow> control_flow_node_s \<Rightarrow> control_flow_node_s \<Rightarrow> bool) \<Rightarrow> nat list \<Rightarrow>
    control_flow_node_s list \<Rightarrow> control_flow_node_s list \<Rightarrow> bool" where
  "pass_over R ns nodes nodes' \<longleftrightarrow> length nodes' = length nodes \<and>
     (\<forall>i < length nodes. (i \<in> set ns \<longrightarrow> R i (nodes ! i) (nodes' ! i)) \<and> (i \<notin> set ns \<longrightarrow> nodes' ! i = nodes ! i))"

lemma pass_overD:
  assumes "pass_over R ns nodes nodes'"
  shows "length nodes' = length nodes"
    "i < length nodes \<Longrightarrow> i \<in> set ns \<Longrightarrow> R i (nodes ! i) (nodes' ! i)"
    "i < length nodes \<Longrightarrow> i \<notin> set ns \<Longrightarrow> nodes' ! i = nodes ! i"
  using assms by (simp_all add: pass_over_def)

lemma pass_over_step:
  assumes "pass_over R ns (nodes[n := node]) nodes'" "n \<notin> set ns" "R n (nodes ! n) node"
  shows "pass_over R (n # ns) nodes nodes'"
  unfolding pass_over_def
proof (intro conjI allI impI)
  show len: "length nodes' = length nodes" using pass_overD(1) [OF assms(1)] by simp
  fix i assume i: "i < length nodes"
  show "R i (nodes ! i) (nodes' ! i)" if "i \<in> set (n # ns)"
    using that pass_overD(2,3) [OF assms(1), of i] assms(2,3) i by (cases "i = n") simp_all
  show "nodes' ! i = nodes ! i" if "i \<notin> set (n # ns)"
    using that pass_overD(3) [OF assms(1), of i] i by simp
qed

text \<open>An invariant of the table and a relation between the old and the new node.\<close>

lemma each_node_yields:
  assumes "distinct ns" "I nodes"
    and "\<And>nodes n. I nodes \<Longrightarrow> n < length nodes \<Longrightarrow>
      yields (f nodes n (nodes ! n)) (\<lambda>node. R n (nodes ! n) node \<and> I (nodes[n := node]))"
  shows "yields (each_node f ns nodes) (\<lambda>nodes'. I nodes' \<and> pass_over R ns nodes nodes')"
  using assms(1,2)
proof (induction ns arbitrary: nodes)
  case Nil
  then show ?case by (simp add: pass_over_def)
next
  case (Cons n ns)
  show ?case
  proof (cases "n < length nodes")
    case True
    have d: "distinct ns" "n \<notin> set ns" using Cons.prems(1) by simp_all
    show ?thesis unfolding each_node.simps at_simps(1) [OF True] bindE.simps
    proof (rule yields_bind, rule yields_mono [OF assms(3) [OF Cons.prems(2) True]])
      fix node assume node: "R n (nodes ! n) node \<and> I (nodes[n := node])"
      show "yields (each_node f ns (nodes[n := node])) (\<lambda>nodes'. I nodes' \<and> pass_over R (n # ns) nodes nodes')"
        by (rule yields_mono [OF Cons.IH [OF d(1) conjunct2 [OF node]]])
          (use node d(2) pass_over_step in blast)
    qed
  qed (simp add: at_def)
qed

section \<open>Dominators\<close>

text \<open>The first predecessor that is there and whose link is no loop edge, or 0.\<close>

fun first_pred :: "control_flow_node_s list \<Rightarrow> (int \<times> int) list \<Rightarrow> int c" where
  "first_pred nodes [] = Inr 0"
| "first_pred nodes ((p, li) # rest) =
     (if p = 0 then first_pred nodes rest
      else bindE (at_int nodes p) (\<lambda>q. bindE (at_int (link_next q) li) (\<lambda>l.
             if is_loop_edge l = 0 then Inr p else first_pred nodes rest)))"

definition forward_pred :: "control_flow_node_s list \<Rightarrow> int \<Rightarrow> int c" where
  "forward_pred nodes b =
     bindE (at_int nodes b) (\<lambda>node. first_pred nodes (zip (prev_node node) (prev_link_index node)))"

text \<open>
  The chain of these predecessors, up to one that has all the paths of the node. More steps
  than there are nodes go round in a circle.
\<close>

fun dominate :: "nat \<Rightarrow> control_flow_node_s list \<Rightarrow> int list \<Rightarrow> int \<Rightarrow> int option c" where
  "dominate 0 nodes mine b = Inl Diverge"
| "dominate (Suc k) nodes mine b =
     bindE (forward_pred nodes b) (\<lambda>p.
       if p = 0 then Inr None
       else bindE (at_int nodes p) (\<lambda>d.
              if is_subset mine (node_path d) \<noteq> 0 then Inr (Some p) else dominate k nodes mine p))"

definition dominate_node :: "control_flow_node_s list \<Rightarrow> nat \<Rightarrow> control_flow_node_s \<Rightarrow> control_flow_node_s c" where
  "dominate_node nodes n node =
     bindE (dominate (Suc (length nodes)) nodes (node_path node) (int n)) (\<lambda>r.
       Inr (case r of None \<Rightarrow> node | Some p \<Rightarrow> node\<lparr>dominator := p\<rparr>))"

definition build_node_dominance :: "control_flow_node_s list \<Rightarrow> int \<Rightarrow> control_flow_node_s list c" where
  "build_node_dominance nodes nodes_size = each_node dominate_node [1 ..< nat nodes_size] nodes"

lemma dominate_Some:
  "dominate k nodes mine b = Inr (Some p) \<Longrightarrow>
     0 \<le> p \<and> p < int (length nodes) \<and> p \<noteq> 0 \<and> is_subset mine (node_path (nodes ! nat p)) \<noteq> 0"
proof (induction k arbitrary: b)
  case (Suc k)
  then show ?case by (auto simp: bindE_Inr_iff at_int_Inr_iff split: if_splits)
qed simp

text \<open>The table with its dominators left out.\<close>

definition undominated :: "control_flow_node_s list \<Rightarrow> control_flow_node_s list" where
  "undominated nodes = map (\<lambda>n. n\<lparr>dominator := 0\<rparr>) nodes"

lemma undominated_update [simp]:
  "n < length nodes \<Longrightarrow> undominated (nodes[n := (nodes ! n)\<lparr>dominator := d\<rparr>]) = undominated nodes"
  by (auto simp: undominated_def map_update intro!: nth_equalityI simp: nth_list_update)

lemma build_node_dominance_yields:
  "yields (build_node_dominance nodes nodes_size) (\<lambda>nodes'. undominated nodes' = undominated nodes \<and>
    (\<forall>i < length nodes. dominator (nodes' ! i) = dominator (nodes ! i) \<or>
      (\<exists>d. dominator (nodes' ! i) = int d \<and> 0 < d \<and> d < length nodes \<and>
         is_subset (node_path (nodes ! i)) (node_path (nodes ! d)) \<noteq> 0)))"
proof -
  let ?I = "\<lambda>ns. undominated ns = undominated nodes"
  let ?R = "\<lambda>(i :: nat) a b. dominator b = dominator a \<or> (\<exists>d. dominator b = int d \<and> 0 < d \<and> d < length nodes \<and>
         is_subset (node_path a) (node_path (nodes ! d)) \<noteq> 0)"
  have same: "length ns = length nodes" "d < length nodes \<Longrightarrow> node_path (ns ! d) = node_path (nodes ! d)"
    if "?I ns" for ns d
  proof -
    show len: "length ns = length nodes" using that by (metis undominated_def length_map)
    assume d: "d < length nodes"
    have "(ns ! d)\<lparr>dominator := 0\<rparr> = (nodes ! d)\<lparr>dominator := 0\<rparr>"
      using that d len unfolding undominated_def by (metis nth_map)
    then have "node_path ((ns ! d)\<lparr>dominator := 0\<rparr>) = node_path ((nodes ! d)\<lparr>dominator := 0\<rparr>)" by simp
    then show "node_path (ns ! d) = node_path (nodes ! d)" by simp
  qed
  have "yields (each_node dominate_node [1 ..< nat nodes_size] nodes)
      (\<lambda>nodes'. ?I nodes' \<and> pass_over ?R [1 ..< nat nodes_size] nodes nodes')"
  proof (rule each_node_yields)
    fix ns n assume I: "?I ns" and n: "n < length ns"
    show "yields (dominate_node ns n (ns ! n)) (\<lambda>node. ?R n (ns ! n) node \<and> ?I (ns[n := node]))"
      unfolding dominate_node_def
    proof (rule yields_bind, unfold yields_def, intro allI impI)
      fix r x assume r: "dominate (Suc (length ns)) ns (node_path (ns ! n)) (int n) = Inr r"
        and x: "Inr (case r of None \<Rightarrow> ns ! n | Some p \<Rightarrow> (ns ! n)\<lparr>dominator := p\<rparr>) = (Inr x :: control_flow_node_s c)"
      show "?R n (ns ! n) x \<and> ?I (ns[n := x])"
      proof (cases r)
        case None
        then show ?thesis using x I by auto
      next
        case (Some p)
        then have p: "0 \<le> p" "p < int (length ns)" "p \<noteq> 0"
          "is_subset (node_path (ns ! n)) (node_path (ns ! nat p)) \<noteq> 0"
          using dominate_Some [OF r [unfolded Some]] by simp_all
        then have "\<exists>d. p = int d \<and> 0 < d \<and> d < length nodes \<and>
            is_subset (node_path (ns ! n)) (node_path (nodes ! d)) \<noteq> 0"
          using same [OF I] by (intro exI [of _ "nat p"]) auto
        then show ?thesis using x Some I n by auto
      qed
    qed
  qed simp_all
  then show ?thesis unfolding build_node_dominance_def
  proof (rule yields_mono, elim conjE, intro conjI allI impI)
    fix nodes' i assume "pass_over ?R [1 ..< nat nodes_size] nodes nodes'" and i: "i < length nodes"
    note r = pass_overD(2,3) [OF this(1) i]
    show "?R i (nodes ! i) (nodes' ! i)"
      by (cases "i \<in> set [1 ..< nat nodes_size]", erule r(1), drule r(2), simp)
  qed
qed

text \<open>
  A dominator found after \<open>build_node_paths\<close> lies on every path, loop paths apart, on which
  the node lies.
\<close>

lemma paths_through_filter:
  "paths_through ps looped [0 ..< n] i = filter (\<lambda>l. (path_type (ps ! nat l) = PATH_TYPE_LOOP) = looped \<and>
     0 < path_size (ps ! nat l) \<and> int i \<in> set (whole_path ps (nat l))) (map int [0 ..< n])"
  by (simp add: paths_through_def filter_map comp_def)

text \<open>
  C13. The dominator build_node_dominance gives a node lies on every path without a loop
  that goes through the node, counted from the entry of the function.
\<close>
theorem dominator_on_every_path:
  assumes "wf_paths ps" "\<And>i. i < length nodes \<Longrightarrow> node_path (nodes ! i) = [] \<and> looped_path (nodes ! i) = []"
    and "build_node_paths nodes ps paths_size ep = Inr nodes1"
    and "build_node_dominance nodes1 nodes_size = Inr nodes2"
    and "i < length nodes" "dominator (nodes2 ! i) \<noteq> dominator (nodes1 ! i)"
    and "l < nat paths_size" "path_type (ps ! l) \<noteq> PATH_TYPE_LOOP" "0 < path_size (ps ! l)"
    and "int i \<in> set (whole_path ps l)"
  shows "dominator (nodes2 ! i) \<in> set (whole_path ps l)"
proof -
  have len: "length nodes1 = length nodes"
    using yieldsD [OF node_paths_all_visited [OF assms(1)] assms(3) [unfolded build_node_paths_def]] by simp
  have exact: "node_path (nodes1 ! n) = paths_through ps False [0 ..< nat paths_size] n" if "n < length nodes" for n
    using build_node_paths_paths [OF assms(1,3) that] assms(2) [OF that] by simp
  obtain d where d: "dominator (nodes2 ! i) = int d" "d < length nodes"
    "is_subset (node_path (nodes1 ! i)) (node_path (nodes1 ! d)) \<noteq> 0"
    using yieldsD [OF build_node_dominance_yields assms(4)] assms(5,6) len by auto
  have dist: "distinct (map int [0 ..< nat paths_size])" by (simp add: distinct_map)
  have "set (paths_through ps False [0 ..< nat paths_size] i) \<subseteq> set (paths_through ps False [0 ..< nat paths_size] d)"
    using d(3) is_subset_filter [OF dist paths_through_filter paths_through_filter]
    unfolding exact [OF assms(5)] exact [OF d(2)] by blast
  moreover have "int l \<in> set (paths_through ps False [0 ..< nat paths_size] i)"
    using assms(7-10) by (auto simp: paths_through_def)
  ultimately have "int l \<in> set (paths_through ps False [0 ..< nat paths_size] d)" by blast
  then show ?thesis unfolding d(1) by (auto simp: paths_through_def)
qed

text \<open>
  The search for a dominator ends when the forward predecessors descend in some ranking of
  the nodes, that is when the links without the loop edges have no cycle.
\<close>

lemma dominate_ends:
  assumes "\<And>b p. forward_pred nodes b = Inr p \<Longrightarrow> p \<noteq> 0 \<Longrightarrow> rank p < rank b"
  shows "rank b < k \<Longrightarrow> dominate k nodes mine b \<noteq> Inl Diverge"
proof (induction k arbitrary: b)
  case (Suc k)
  have no: "first_pred nodes ps \<noteq> Inl Diverge" for ps
    by (induction ps) (auto simp: bindE_Inl_iff at_int_def split: if_splits)
  have "forward_pred nodes b \<noteq> Inl Diverge"
    using no by (auto simp: forward_pred_def bindE_Inl_iff at_int_def split: if_splits)
  moreover have "dominate k nodes mine p \<noteq> Inl Diverge" if "forward_pred nodes b = Inr p" "p \<noteq> 0" for p
    by (rule Suc.IH) (use assms [OF that] Suc.prems in simp)
  ultimately show ?case by (auto simp: bindE_Inl_iff at_int_def split: if_splits)
qed simp

lemma first_pred_undominated:
  assumes "undominated a = undominated b"
  shows "first_pred a ps = first_pred b ps"
proof -
  have len: "length a = length b" using assms by (metis undominated_def length_map)
  have "link_next (a ! i) = link_next (b ! i)" if "i < length a" for i
  proof -
    have "(a ! i)\<lparr>dominator := 0\<rparr> = (b ! i)\<lparr>dominator := 0\<rparr>"
      using that len assms unfolding undominated_def by (metis nth_map)
    then have "link_next ((a ! i)\<lparr>dominator := 0\<rparr>) = link_next ((b ! i)\<lparr>dominator := 0\<rparr>)" by simp
    then show ?thesis by simp
  qed
  then have step: "bindE (at_int a p) (\<lambda>q. bindE (at_int (link_next q) li) f) =
      bindE (at_int b p) (\<lambda>q. bindE (at_int (link_next q) li) f)" for p li f
    by (auto simp: at_int_def len)
  show ?thesis
  proof (induction ps)
    case (Cons l ps)
    then show ?case by (cases l) (simp add: step cong del: if_weak_cong)
  qed simp
qed

lemma forward_pred_undominated:
  assumes "undominated a = undominated b"
  shows "forward_pred a n = forward_pred b n"
proof -
  have len: "length a = length b" using assms by (metis undominated_def length_map)
  have "prev_node (a ! i) = prev_node (b ! i)" "prev_link_index (a ! i) = prev_link_index (b ! i)"
    if "i < length a" for i
  proof -
    have "(a ! i)\<lparr>dominator := 0\<rparr> = (b ! i)\<lparr>dominator := 0\<rparr>"
      using that len assms unfolding undominated_def by (metis nth_map)
    then have "prev_node ((a ! i)\<lparr>dominator := 0\<rparr>) = prev_node ((b ! i)\<lparr>dominator := 0\<rparr>)"
      "prev_link_index ((a ! i)\<lparr>dominator := 0\<rparr>) = prev_link_index ((b ! i)\<lparr>dominator := 0\<rparr>)" by simp_all
    then show "prev_node (a ! i) = prev_node (b ! i)" "prev_link_index (a ! i) = prev_link_index (b ! i)" by simp_all
  qed
  then show ?thesis by (auto simp: forward_pred_def at_int_def len first_pred_undominated [OF assms])
qed

lemma each_node_ends:
  assumes "I nodes"
    and "\<And>nodes n. I nodes \<Longrightarrow> n < length nodes \<Longrightarrow> safe (f nodes n (nodes ! n)) (\<lambda>node. I (nodes[n := node]))"
  shows "safe (each_node f ns nodes) I"
  using assms(1)
proof (induction ns arbitrary: nodes)
  case (Cons n ns)
  show ?case
  proof (cases "n < length nodes")
    case True
    have "safe (each_node f ns (nodes[n := node])) I" if "I (nodes[n := node])" for node
      by (rule Cons.IH [OF that])
    with True show ?thesis by (auto intro!: safe_step [OF assms(2) [OF Cons.prems True]])
  qed simp
qed simp

text \<open>
  build_node_dominance ends when the forward predecessors of the nodes go down in some
  rank bounded by the size of the table.
\<close>
theorem build_node_dominance_ends:
  assumes "\<And>b p. forward_pred nodes b = Inr p \<Longrightarrow> p \<noteq> 0 \<Longrightarrow> rank p < rank b"
    and "\<And>b. rank b \<le> length nodes"
  shows "build_node_dominance nodes nodes_size \<noteq> Inl Diverge"
proof -
  let ?I = "\<lambda>ns. undominated ns = undominated nodes"
  have "safe (each_node dominate_node [1 ..< nat nodes_size] nodes) ?I"
  proof (rule each_node_ends)
    fix ns n assume I: "?I ns" and n: "n < length ns"
    have "length ns = length nodes" using I by (metis undominated_def length_map)
    moreover have "forward_pred ns b = forward_pred nodes b" for b by (rule forward_pred_undominated [OF I])
    ultimately have ends: "dominate (Suc (length ns)) ns mine b \<noteq> Inl Diverge" for mine b
      using dominate_ends [of ns rank b "Suc (length ns)" mine] assms by (simp add: le_imp_less_Suc)
    show "safe (dominate_node ns n (ns ! n)) (\<lambda>node. ?I (ns[n := node]))"
      unfolding dominate_node_def
      by (rule safe_bind) (use ends I n in \<open>auto simp: safe_def yields_def split: option.splits\<close>)
  qed simp
  then show ?thesis by (simp add: build_node_dominance_def safe_def)
qed

end
