(* ===== verification/Links.thy ===== *)
theory Links
  imports Dominance
begin

text \<open>
  \<open>src/analyse/analyse.c\<close>, \<open>analyse_control_flow_node_links\<close> and \<open>build_node_type\<close>: the
  links of the nodes are sorted into loop edges, loop exits, loop entries and normal links by
  the loops of the nodes they join, and the branches get a type from that.
\<close>

section \<open>The links of a node\<close>

text \<open>
  Only links that are no loop edges are looked at. From a loop head, a link stays in the
  loop when the next node is in that loop only; from another node, when the next node is in
  the same loops.
\<close>

definition head_link :: "nat \<Rightarrow> control_flow_node_s \<Rightarrow> node_link_s \<Rightarrow> node_link_s" where
  "head_link n next_node link =
     (if member_of_loop next_node = [int n] then link\<lparr>is_normal := 1\<rparr> else link\<lparr>is_loop_exit := 1\<rparr>)"

definition body_link :: "control_flow_node_s \<Rightarrow> control_flow_node_s \<Rightarrow> node_link_s \<Rightarrow> node_link_s" where
  "body_link node next_node link =
     (let r = is_subset (member_of_loop next_node) (member_of_loop node)
      in if r = 2 then link\<lparr>is_loop_exit := 1\<rparr>
         else if r = 1 then link\<lparr>is_normal := 1\<rparr> else link)"

definition classify_link ::
  "control_flow_node_s list \<Rightarrow> nat \<Rightarrow> control_flow_node_s \<Rightarrow> node_link_s \<Rightarrow> node_link_s c" where
  "classify_link nodes n node link =
     (if is_loop_edge link \<noteq> 0 then Inr link
      else bindE (at_int nodes (link_node link)) (\<lambda>next_node.
        let link = (if loop_head next_node \<noteq> 0 then link\<lparr>is_loop_entry := 1\<rparr> else link)
        in Inr (if loop_head node \<noteq> 0 then head_link n next_node link
                else body_link node next_node link)))"

fun each_link :: "(node_link_s \<Rightarrow> node_link_s c) \<Rightarrow> node_link_s list \<Rightarrow> node_link_s list c" where
  "each_link f [] = Inr []"
| "each_link f (l # ls) = bindE (f l) (\<lambda>l. bindE (each_link f ls) (\<lambda>ls. Inr (l # ls)))"

definition classify_node :: "control_flow_node_s list \<Rightarrow> nat \<Rightarrow> control_flow_node_s \<Rightarrow> control_flow_node_s c" where
  "classify_node nodes n node =
     bindE (each_link (classify_link nodes n node) (link_next node)) (\<lambda>ls. Inr (node\<lparr>link_next := ls\<rparr>))"

text \<open>An edge or an exit is not normal; what is none of the three is.\<close>

definition reset_normal :: "node_link_s \<Rightarrow> node_link_s" where
  "reset_normal l =
     (if is_loop_edge l \<noteq> 0 \<and> is_normal l \<noteq> 0 \<or> is_loop_exit l \<noteq> 0 \<and> is_normal l \<noteq> 0
      then l\<lparr>is_normal := 0\<rparr> else l)"

definition default_normal :: "node_link_s \<Rightarrow> node_link_s" where
  "default_normal l =
     (if is_loop_edge l = 0 \<and> is_normal l = 0 \<and> is_loop_exit l = 0 then l\<lparr>is_normal := 1\<rparr> else l)"

definition map_links :: "(node_link_s \<Rightarrow> node_link_s) \<Rightarrow> control_flow_node_s list \<Rightarrow> nat \<Rightarrow>
    control_flow_node_s \<Rightarrow> control_flow_node_s c" where
  "map_links f nodes n node = Inr (node\<lparr>link_next := map f (link_next node)\<rparr>)"

definition analyse_control_flow_node_links :: "control_flow_node_s list \<Rightarrow> int \<Rightarrow> control_flow_node_s list c" where
  "analyse_control_flow_node_links nodes nodes_size =
     (let ns = [1 ..< nat nodes_size] in
      bindE (each_node classify_node ns nodes) (\<lambda>nodes.
      bindE (each_node (map_links reset_normal) ns nodes) (\<lambda>nodes.
        each_node (map_links default_normal) ns nodes)))"

section \<open>The type of a node\<close>

text \<open>0 leaves the type of the node as it is.\<close>

definition branch_type :: "bool \<Rightarrow> node_link_s \<Rightarrow> node_link_s \<Rightarrow> int" where
  "branch_type is_head l m =
     (if is_head then
        (if is_loop_exit l = 1 then NODE_TYPE_LOOP
         else if is_loop_exit m = 1 then NODE_TYPE_LOOP
         else if is_normal l = 1 \<and> is_normal m = 1 then NODE_TYPE_LOOP_THEN_ELSE else 0)
      else
        (if is_loop_exit l = 1 then NODE_TYPE_IF_THEN_GOTO
         else if is_loop_exit m = 1 then NODE_TYPE_IF_THEN_GOTO
         else if is_normal l = 1 \<and> is_normal m = 1 then NODE_TYPE_IF_THEN_ELSE else 0))"

definition type_of_node :: "control_flow_node_s list \<Rightarrow> nat \<Rightarrow> control_flow_node_s \<Rightarrow> control_flow_node_s c" where
  "type_of_node nodes n node =
     (case link_next node of
        [] \<Rightarrow> Inr node
      | [l] \<Rightarrow> Inr node
      | [l, m] \<Rightarrow>
          let t = branch_type (loop_head node \<noteq> 0) l m
          in Inr (if t = 0 then node else node\<lparr>node_type := t\<rparr>)
      | _ \<Rightarrow> Inr (node\<lparr>node_type := NODE_TYPE_JMPT\<rparr>))"

definition build_node_type :: "control_flow_node_s list \<Rightarrow> int \<Rightarrow> control_flow_node_s list c" where
  "build_node_type nodes nodes_size = each_node type_of_node [1 ..< nat nodes_size] nodes"

section \<open>Every link gets its kind\<close>

lemma each_link_yields:
  "yields (each_link f ls) (\<lambda>ls'. list_all2 (\<lambda>l l'. f l = Inr l') ls ls')"
proof (induction ls)
  case (Cons l ls)
  then show ?case by (auto simp: yields_def bindE_Inr_iff)
qed simp

text \<open>What is left of the old link besides the flags.\<close>

definition settled :: "node_link_s \<Rightarrow> bool" where
  "settled l \<longleftrightarrow> (is_normal l \<noteq> 0 \<longleftrightarrow> is_loop_edge l = 0 \<and> is_loop_exit l = 0)"

lemma settle: "settled (default_normal (reset_normal l))"
  by (auto simp: settled_def default_normal_def reset_normal_def)

lemma settle_same: "is_loop_edge (default_normal (reset_normal l)) = is_loop_edge l"
  "is_loop_exit (default_normal (reset_normal l)) = is_loop_exit l"
  "is_loop_entry (default_normal (reset_normal l)) = is_loop_entry l"
  "link_node (default_normal (reset_normal l)) = link_node l"
  by (simp_all add: default_normal_def reset_normal_def)

text \<open>The parts of the nodes the classification reads.\<close>

definition loops_of :: "control_flow_node_s list \<Rightarrow> (int \<times> int list) list" where
  "loops_of nodes = map (\<lambda>n. (loop_head n, member_of_loop n)) nodes"

lemma loops_of_links [simp]:
  "n < length nodes \<Longrightarrow> loops_of (nodes[n := (nodes ! n)\<lparr>link_next := ls\<rparr>]) = loops_of nodes"
  by (auto simp: loops_of_def map_update intro!: nth_equalityI simp: nth_list_update)

lemma loops_ofD:
  assumes "loops_of a = loops_of b"
  shows "length a = length b" "i < length a \<Longrightarrow> loop_head (a ! i) = loop_head (b ! i)"
    "i < length a \<Longrightarrow> member_of_loop (a ! i) = member_of_loop (b ! i)"
proof -
  show len: "length a = length b" using assms by (metis loops_of_def length_map)
  assume "i < length a"
  moreover have "loops_of a ! i = loops_of b ! i" by (simp only: assms)
  ultimately have "(loop_head (a ! i), member_of_loop (a ! i)) = (loop_head (b ! i), member_of_loop (b ! i))"
    using len by (simp add: loops_of_def)
  then show "loop_head (a ! i) = loop_head (b ! i)" "member_of_loop (a ! i) = member_of_loop (b ! i)" by simp_all
qed

lemma map_links_pass:
  "yields (each_node (map_links f) [1 ..< nat m] nodes)
    (pass_over (\<lambda>_ a b. b = a\<lparr>link_next := map f (link_next a)\<rparr>) [1 ..< nat m] nodes)"
  by (rule yields_mono [OF each_node_yields [where I = "\<lambda>_. True"]]) (auto simp: map_links_def)

text \<open>The classification as a function of the node and the table it starts with.\<close>

lemma classify_link_cong:
  assumes "loops_of a = loops_of b" "loop_head x = loop_head y" "member_of_loop x = member_of_loop y"
  shows "classify_link a n x l = classify_link b n y l"
proof (cases "0 \<le> link_node l \<and> link_node l < int (length a)")
  case True
  then have "nat (link_node l) < length a" by linarith
  note same = loops_ofD(2,3) [OF assms(1) this] loops_ofD(1) [OF assms(1)]
  show ?thesis using True by (simp add: classify_link_def at_int_def head_link_def body_link_def Let_def same assms(2,3))
next
  case False
  then show ?thesis using loops_ofD(1) [OF assms(1)] by (auto simp: classify_link_def at_int_def)
qed

lemma classify_body_link:
  assumes "classify_link nodes n node l = Inr k" "is_loop_edge l = 0" "loop_head node = 0"
  shows "nat (link_node l) < length nodes \<and> is_loop_exit k =
    (if is_subset (member_of_loop (nodes ! nat (link_node l))) (member_of_loop node) = 2 then 1 else is_loop_exit l)"
proof -
  have "0 \<le> link_node l \<and> link_node l < int (length nodes)"
    using assms(1,2) by (auto simp: classify_link_def at_int_def split: if_splits)
  then show ?thesis using assms by (auto simp: classify_link_def at_int_def body_link_def Let_def)
qed

lemma classify_pass:
  "yields (each_node classify_node [1 ..< nat m] nodes)
    (pass_over (\<lambda>i a b. \<exists>ls. b = a\<lparr>link_next := ls\<rparr> \<and>
       list_all2 (\<lambda>l l'. classify_link nodes i a l = Inr l') (link_next a) ls) [1 ..< nat m] nodes)"
proof (rule yields_mono [OF each_node_yields [where I = "\<lambda>ns. loops_of ns = loops_of nodes"]])
  fix ns n assume I: "loops_of ns = loops_of nodes" and n: "n < length ns"
  show "yields (classify_node ns n (ns ! n)) (\<lambda>node. (\<exists>ls. node = (ns ! n)\<lparr>link_next := ls\<rparr> \<and>
       list_all2 (\<lambda>l l'. classify_link nodes n (ns ! n) l = Inr l') (link_next (ns ! n)) ls) \<and>
       loops_of (ns[n := node]) = loops_of nodes)"
    unfolding classify_node_def
  proof (rule yields_bind, rule yields_mono [OF each_link_yields], unfold yields_simps, intro conjI)
    fix ls assume "list_all2 (\<lambda>l l'. classify_link ns n (ns ! n) l = Inr l') (link_next (ns ! n)) ls"
    then show "\<exists>ls'. (ns ! n)\<lparr>link_next := ls\<rparr> = (ns ! n)\<lparr>link_next := ls'\<rparr> \<and>
        list_all2 (\<lambda>l l'. classify_link nodes n (ns ! n) l = Inr l') (link_next (ns ! n)) ls'"
      using classify_link_cong [OF I refl refl] by (intro exI [of _ ls]) simp
    show "loops_of (ns[n := (ns ! n)\<lparr>link_next := ls\<rparr>]) = loops_of nodes" using I n by simp
  qed
qed simp_all

text \<open>What the three passes make of a node inside the table.\<close>

definition relinked :: "control_flow_node_s list \<Rightarrow> nat \<Rightarrow> control_flow_node_s \<Rightarrow> control_flow_node_s \<Rightarrow> bool" where
  "relinked nodes i a b \<longleftrightarrow> (\<exists>ls. b = a\<lparr>link_next := ls\<rparr> \<and>
     list_all2 (\<lambda>l l'. \<exists>k. classify_link nodes i a l = Inr k \<and> l' = default_normal (reset_normal k)) (link_next a) ls)"

lemma links_pass:
  "yields (analyse_control_flow_node_links nodes m) (pass_over (relinked nodes) [1 ..< nat m] nodes)"
  unfolding yields_def
proof (intro allI impI)
  fix nodes' assume "analyse_control_flow_node_links nodes m = Inr nodes'"
  then obtain n1 n2 where r: "each_node classify_node [1 ..< nat m] nodes = Inr n1"
    "each_node (map_links reset_normal) [1 ..< nat m] n1 = Inr n2"
    "each_node (map_links default_normal) [1 ..< nat m] n2 = Inr nodes'"
    by (auto simp: analyse_control_flow_node_links_def Let_def bindE_Inr_iff)
  note p1 = pass_overD [OF yieldsD [OF classify_pass r(1)]] and p2 = pass_overD [OF yieldsD [OF map_links_pass r(2)]]
    and p3 = pass_overD [OF yieldsD [OF map_links_pass r(3)]]
  show "pass_over (relinked nodes) [1 ..< nat m] nodes nodes'"
    unfolding pass_over_def
  proof (intro conjI allI impI)
    show "length nodes' = length nodes" using p1(1) p2(1) p3(1) by simp
    fix i assume "i < length nodes"
    then have i: "i < length nodes" "i < length n1" "i < length n2" using p1(1) p2(1) by simp_all
    show "nodes' ! i = nodes ! i" if "i \<notin> set [1 ..< nat m]"
      using p3(3) [OF i(3) that] p2(3) [OF i(2) that] p1(3) [OF i(1) that] by simp
    assume m: "i \<in> set [1 ..< nat m]"
    obtain ls where ls: "n1 ! i = (nodes ! i)\<lparr>link_next := ls\<rparr>"
      "list_all2 (\<lambda>l l'. classify_link nodes i (nodes ! i) l = Inr l') (link_next (nodes ! i)) ls"
      using p1(2) [OF i(1) m] by blast
    have "nodes' ! i = (nodes ! i)\<lparr>link_next := map (\<lambda>l. default_normal (reset_normal l)) ls\<rparr>"
      using p3(2) [OF i(3) m] p2(2) [OF i(2) m] ls(1) by (simp add: comp_def)
    moreover have "list_all2 (\<lambda>l l'. \<exists>k. classify_link nodes i (nodes ! i) l = Inr k \<and> l' = default_normal (reset_normal k))
        (link_next (nodes ! i)) (map (\<lambda>l. default_normal (reset_normal l)) ls)"
      using ls(2) by (auto simp: list_all2_conv_all_nth)
    ultimately show "relinked nodes i (nodes ! i) (nodes' ! i)" unfolding relinked_def by blast
  qed
qed

lemma relinked_at:
  assumes "analyse_control_flow_node_links nodes m = Inr nodes'" "1 \<le> i" "i < nat m" "i < length nodes"
  shows "relinked nodes i (nodes ! i) (nodes' ! i)"
  by (rule pass_overD(2) [OF yieldsD [OF links_pass assms(1)] assms(4)]) (use assms(2,3) in simp)

text \<open>
  After analyse_control_flow_node_links a link is normal exactly when it is neither a
  loop edge nor a loop exit.
\<close>
theorem node_links_settled:
  assumes "analyse_control_flow_node_links nodes m = Inr nodes'"
    and "1 \<le> i" "i < nat m" "i < length nodes" "l \<in> set (link_next (nodes' ! i))"
  shows "is_normal l \<noteq> 0 \<longleftrightarrow> is_loop_edge l = 0 \<and> is_loop_exit l = 0"
proof -
  obtain ls where ls: "nodes' ! i = (nodes ! i)\<lparr>link_next := ls\<rparr>"
    "list_all2 (\<lambda>l l'. \<exists>k. classify_link nodes i (nodes ! i) l = Inr k \<and> l' = default_normal (reset_normal k))
         (link_next (nodes ! i)) ls"
    using relinked_at [OF assms(1-4)] unfolding relinked_def by blast
  then obtain k where "l = default_normal (reset_normal k)"
    using assms(5) by (auto simp: list_all2_conv_all_nth in_set_conv_nth)
  with settle [of k] show ?thesis by (simp add: settled_def)
qed

text \<open>
  A link of a node that is no loop head becomes a loop exit exactly when the node it
  leads to is in strictly fewer of the loops.
\<close>
theorem node_links_exit:
  assumes "analyse_control_flow_node_links nodes m = Inr nodes'"
    and "1 \<le> i" "i < nat m" "i < length nodes" "j < length (link_next (nodes ! i))"
    and "loop_head (nodes ! i) = 0"
    and "is_loop_edge (link_next (nodes ! i) ! j) = 0" "is_loop_exit (link_next (nodes ! i) ! j) = 0"
    and "distinct hs" "\<And>n. n < length nodes \<Longrightarrow> \<exists>P. member_of_loop (nodes ! n) = filter P hs"
  shows "is_loop_exit (link_next (nodes' ! i) ! j) \<noteq> 0 \<longleftrightarrow>
    set (member_of_loop (nodes ! nat (link_node (link_next (nodes ! i) ! j)))) \<subset> set (member_of_loop (nodes ! i))"
proof -
  let ?l = "link_next (nodes ! i) ! j"
  let ?next = "nodes ! nat (link_node ?l)"
  obtain ls where ls: "nodes' ! i = (nodes ! i)\<lparr>link_next := ls\<rparr>"
    "list_all2 (\<lambda>l l'. \<exists>k. classify_link nodes i (nodes ! i) l = Inr k \<and> l' = default_normal (reset_normal k))
         (link_next (nodes ! i)) ls"
    using relinked_at [OF assms(1-4)] unfolding relinked_def by blast
  then obtain k where k: "classify_link nodes i (nodes ! i) ?l = Inr k" "ls ! j = default_normal (reset_normal k)"
    using assms(5) by (auto simp: list_all2_conv_all_nth)
  have nxt: "nat (link_node ?l) < length nodes" using classify_body_link [OF k(1) assms(7,6)] by simp
  obtain P Q where PQ: "member_of_loop ?next = filter P hs" "member_of_loop (nodes ! i) = filter Q hs"
    using assms(10) [OF nxt] assms(10) [OF assms(4)] by blast
  note sub = is_subset_filter [OF assms(9) PQ]
  have "is_loop_exit k \<noteq> 0 \<longleftrightarrow> is_subset (member_of_loop ?next) (member_of_loop (nodes ! i)) = 2"
    using classify_body_link [OF k(1) assms(7,6)] assms(8) by simp
  also have "\<dots> \<longleftrightarrow> set (member_of_loop ?next) \<subset> set (member_of_loop (nodes ! i))"
  proof -
    have two: "is_subset a b = 2 \<longleftrightarrow> is_subset a b \<noteq> 0 \<and> is_subset a b \<noteq> 1" for a b
      unfolding is_subset_def by (cases "length b < length a"; cases "a = b"; cases "subset_from a b"; simp)
    show ?thesis unfolding two psubset_eq by (simp only: sub simp_thms)
  qed
  finally show ?thesis using ls(1) k(2) assms(5) by (simp add: settle_same)
qed

end
