(* ===== verification/Loops.thy ===== *)
theory Loops
  imports Paths Unique
begin

text \<open>
  \<open>src/analyse/analyse.c\<close>, the loop table: the nodes of the paths that end in the same loop
  head are merged into one loop, loops are nested, their exits are counted, and each node
  gets the heads of the loops it is in. The lists of the driver hold 1000 nodes, more than
  there are; a node enters a list once.
\<close>

section \<open>Merging a path into a loop\<close>

text \<open>The walk back from the end of the path to the loop's head; each node is entered once.\<close>

fun merge_walk :: "nat \<Rightarrow> path_s list \<Rightarrow> int \<Rightarrow> int \<times> int \<Rightarrow> int list \<Rightarrow> int list c" where
  "merge_walk 0 ps h pos ns = Inl Diverge"
| "merge_walk (Suc k) ps h pos ns =
     bindE (step_back ps pos) (\<lambda>r.
       case r of
         None \<Rightarrow> Inr ns
       | Some pos \<Rightarrow> bindE (node_at ps pos) (\<lambda>x.
           let ns = (if x \<in> set ns then ns else ns @ [x])
           in if x = h then Inr ns else merge_walk k ps h pos ns))"

definition merge_path_into_loop :: "path_s list \<Rightarrow> loop_s \<Rightarrow> int \<Rightarrow> loop_s c" where
  "merge_path_into_loop ps loop p =
     bindE (at_int ps p) (\<lambda>r.
     let h = path_loop_head r; step = path_size r - 1 in
     bindE (node_at ps (p, step)) (\<lambda>x.
       if x \<noteq> h then Inl (Exit 1)
       else bindE (merge_walk (walk_fuel ps) ps h (p, step) (loop_list loop)) (\<lambda>ns.
         Inr (loop\<lparr>head := h, loop_list := ns\<rparr>))))"

section \<open>The loop table\<close>

text \<open>The first index whose element satisfies a test.\<close>

fun index_of :: "('a \<Rightarrow> bool) \<Rightarrow> 'a list \<Rightarrow> nat option" where
  "index_of P [] = None"
| "index_of P (x # xs) = (if P x then Some 0 else map_option Suc (index_of P xs))"

text \<open>The loop with this head, or else the first free one.\<close>

definition loop_slot :: "loop_s list \<Rightarrow> int \<Rightarrow> nat option" where
  "loop_slot ls h =
     (case index_of (\<lambda>l. head l = h) ls of
        Some m \<Rightarrow> Some m
      | None \<Rightarrow> index_of (\<lambda>l. head l = 0) ls)"

definition add_loop_path :: "path_s list \<Rightarrow> nat \<Rightarrow> loop_s list \<Rightarrow> loop_s list c" where
  "add_loop_path ps n ls =
     bindE (at ps n) (\<lambda>r.
       if path_loop_head r = 0 then Inr ls
       else case loop_slot ls (path_loop_head r) of
              None \<Rightarrow> Inl (Exit 1)
            | Some m \<Rightarrow> bindE (merge_path_into_loop ps (ls ! m) (int n)) (\<lambda>l. Inr (ls[m := l])))"

fun collect_loops :: "path_s list \<Rightarrow> nat list \<Rightarrow> loop_s list \<Rightarrow> loop_s list c" where
  "collect_loops ps [] ls = Inr ls"
| "collect_loops ps (n # rest) ls = bindE (add_loop_path ps n ls) (collect_loops ps rest)"

text \<open>The nesting: the loop of the path the loop's path branched off. \<open>None\<close> is the code 1.\<close>

definition nest_loop :: "path_s list \<Rightarrow> nat \<Rightarrow> loop_s list \<Rightarrow> loop_s list option c" where
  "nest_loop ps n ls =
     bindE (at ps n) (\<lambda>r.
       if path_loop_head r = 0 then Inr (Some ls)
       else case index_of (\<lambda>l. head l = path_loop_head r) ls of
              None \<Rightarrow> Inr None
            | Some m \<Rightarrow> bindE (at_int ps (path_prev r)) (\<lambda>q.
                Inr (Some (if path_loop_head q \<noteq> 0 then ls[m := (ls ! m)\<lparr>nest := path_loop_head q\<rparr>] else ls))))"

fun nest_loops :: "path_s list \<Rightarrow> nat list \<Rightarrow> loop_s list \<Rightarrow> (int \<times> loop_s list) c" where
  "nest_loops ps [] ls = Inr (0, ls)"
| "nest_loops ps (n # rest) ls =
     bindE (nest_loop ps n ls) (\<lambda>r.
       case r of None \<Rightarrow> Inr (1, ls) | Some ls \<Rightarrow> nest_loops ps rest ls)"

definition build_control_flow_loops :: "path_s list \<Rightarrow> int \<Rightarrow> loop_s list \<Rightarrow> (int \<times> loop_s list) c" where
  "build_control_flow_loops ps paths_size ls =
     bindE (collect_loops ps [0 ..< nat paths_size] ls) (nest_loops ps [0 ..< nat paths_size])"

section \<open>Exits and members\<close>

text \<open>The number of exits among the links of the loop's nodes, for the loop and its head.\<close>

fun count_exits :: "control_flow_node_s list \<Rightarrow> int list \<Rightarrow> int c" where
  "count_exits nodes [] = Inr 0"
| "count_exits nodes (n # ns) =
     bindE (at_int nodes n) (\<lambda>node.
     bindE (count_exits nodes ns) (\<lambda>k.
       Inr (int (length (filter (\<lambda>l. is_loop_exit l \<noteq> 0) (link_next node))) + k)))"

definition set_multi_exit :: "control_flow_node_s list \<Rightarrow> loop_s \<Rightarrow> (control_flow_node_s list \<times> loop_s) c" where
  "set_multi_exit nodes loop =
     bindE (count_exits nodes (loop_list loop)) (\<lambda>k.
     bindE (at_int nodes (head loop)) (\<lambda>node.
       Inr (nodes[nat (head loop) := node\<lparr>multi_exit := k\<rparr>], loop\<lparr>loop_multi_exit := k\<rparr>)))"

fun build_control_flow_loops_multi_exit ::
  "control_flow_node_s list \<Rightarrow> loop_s list \<Rightarrow> (control_flow_node_s list \<times> loop_s list) c" where
  "build_control_flow_loops_multi_exit nodes [] = Inr (nodes, [])"
| "build_control_flow_loops_multi_exit nodes (l # ls) =
     bindE (set_multi_exit nodes l) (\<lambda>(nodes, l).
     bindE (build_control_flow_loops_multi_exit nodes ls) (\<lambda>(nodes, ls). Inr (nodes, l # ls)))"

definition add_member :: "int \<Rightarrow> int \<Rightarrow> control_flow_node_s list \<Rightarrow> control_flow_node_s list c" where
  "add_member h n nodes =
     bindE (at_int nodes n) (\<lambda>node.
       Inr (nodes[nat n := node\<lparr>member_of_loop := member_of_loop node @ [h]\<rparr>]))"

fun add_members :: "int \<Rightarrow> int list \<Rightarrow> control_flow_node_s list \<Rightarrow> control_flow_node_s list c" where
  "add_members h [] nodes = Inr nodes"
| "add_members h (n # ns) nodes = bindE (add_member h n nodes) (add_members h ns)"

fun build_control_flow_loops_node_members ::
  "loop_s list \<Rightarrow> control_flow_node_s list \<Rightarrow> control_flow_node_s list c" where
  "build_control_flow_loops_node_members [] nodes = Inr nodes"
| "build_control_flow_loops_node_members (l # ls) nodes =
     bindE (add_members (head l) (loop_list l) nodes) (build_control_flow_loops_node_members ls)"

section \<open>What a merge adds\<close>

text \<open>The part of a list up to the first \<open>h\<close>; the cycle a path closes at its loop head.\<close>

fun up_to :: "int \<Rightarrow> int list \<Rightarrow> int list" where
  "up_to h [] = []"
| "up_to h (x # xs) = x # (if x = h then [] else up_to h xs)"

definition cycle :: "path_s list \<Rightarrow> nat \<Rightarrow> int list" where
  "cycle ps p = up_to (path_loop_head (ps ! p)) (trail ps p (nat (path_size (ps ! p) - 1)))"

lemma merge_walk_trail:
  assumes "wf_paths ps" "inside ps p s" "length (trail ps p s) < k"
  shows "merge_walk k ps h (int p, int s) ns = Inr (fold enter (up_to h (trail ps p s)) ns)"
  using assms(2,3)
proof (induction k arbitrary: p s ns)
  case (Suc k)
  show ?case
    by (rule step_back_cases [OF assms(1) Suc.prems(1)])
      (use Suc in \<open>auto simp: enter_def [abs_def] Let_def\<close>)
qed simp

text \<open>A loop path ends at its head.\<close>

definition loop_path :: "path_s list \<Rightarrow> nat \<Rightarrow> bool" where
  "loop_path ps p \<longleftrightarrow> 0 < path_size (ps ! p) \<and>
     path (ps ! p) ! nat (path_size (ps ! p) - 1) = path_loop_head (ps ! p)"

lemma merge_path_result:
  assumes "wf_paths ps" "p < length ps" "loop_path ps p"
  shows "merge_path_into_loop ps loop (int p) =
    Inr (loop\<lparr>head := path_loop_head (ps ! p), loop_list := fold enter (cycle ps p) (loop_list loop)\<rparr>)"
proof -
  let ?s = "nat (path_size (ps ! p) - 1)"
  have s: "path_size (ps ! p) - 1 = int ?s" "?s < length (path (ps ! p))"
    using assms(3) wf_pathsD(1,2) [OF assms(1,2)] by (auto simp: loop_path_def)
  then have pos: "inside ps p ?s" using assms(2) by (simp add: inside_def)
  have "merge_walk (walk_fuel ps) ps h (int p, int ?s) ns = Inr (fold enter (up_to h (trail ps p ?s)) ns)" for h ns
    by (rule merge_walk_trail [OF assms(1) pos trail_fuel [OF assms(1) pos]])
  moreover have "node_at ps (int p, int ?s) = Inr (path_loop_head (ps ! p))"
    using node_at_nat [OF assms(2) s(2)] assms(3) by (simp add: loop_path_def)
  ultimately show ?thesis
    unfolding merge_path_into_loop_def Let_def using assms(2) s(1) by (simp add: at_int_def cycle_def)
qed

section \<open>The loop table\<close>

lemma index_of_Some: "index_of P xs = Some i \<Longrightarrow> i < length xs \<and> P (xs ! i)"
  by (induction xs arbitrary: i) (auto split: if_splits)

lemma index_of_None: "index_of P xs = None \<longleftrightarrow> (\<forall>x \<in> set xs. \<not> P x)"
  by (induction xs) auto

text \<open>
  After the paths \<open>D\<close>: no two loops share a head, a loop holds exactly the nodes of the
  cycles of the paths with its head, without repetition, and every loop path has its loop.
\<close>

definition collected :: "path_s list \<Rightarrow> nat set \<Rightarrow> loop_s list \<Rightarrow> bool" where
  "collected ps D ls \<longleftrightarrow>
     (\<forall>i < length ls. \<forall>j < length ls. head (ls ! i) = head (ls ! j) \<longrightarrow> head (ls ! i) \<noteq> 0 \<longrightarrow> i = j) \<and>
     (\<forall>i < length ls. distinct (loop_list (ls ! i)) \<and>
        set (loop_list (ls ! i)) =
          (\<Union>n \<in> {n \<in> D. path_loop_head (ps ! n) \<noteq> 0 \<and> path_loop_head (ps ! n) = head (ls ! i)}. set (cycle ps n))) \<and>
     (\<forall>n \<in> D. path_loop_head (ps ! n) \<noteq> 0 \<longrightarrow> path_loop_head (ps ! n) \<in> set (map head ls))"

lemma collected_skip:
  "collected ps D ls \<Longrightarrow> path_loop_head (ps ! n) = 0 \<Longrightarrow> collected ps (insert n D) ls"
  by (auto simp: collected_def)

lemma collected_merge:
  assumes c: "collected ps D ls" and h: "path_loop_head (ps ! n) = h" "h \<noteq> 0"
    and m: "loop_slot ls h = Some m"
  shows "collected ps (insert n D) (ls[m := (ls ! m)\<lparr>head := h, loop_list := fold enter (cycle ps n) (loop_list (ls ! m))\<rparr>])"
    (is "collected _ _ ?ls")
proof -
  have m': "m < length ls" "head (ls ! m) = h \<or> head (ls ! m) = 0"
    "head (ls ! m) \<noteq> h \<Longrightarrow> \<forall>i < length ls. head (ls ! i) \<noteq> h"
    using m by (auto simp: loop_slot_def index_of_None split: option.splits dest!: index_of_Some)
  have hd: "head (?ls ! i) = (if i = m then h else head (ls ! i))" if "i < length ls" for i
    using that by (simp add: nth_list_update)
  have other: "head (ls ! i) \<noteq> h" if "i < length ls" "i \<noteq> m" for i
    using m' that c h(2) unfolding collected_def by metis
  have ll: "loop_list (?ls ! i) = (if i = m then fold enter (cycle ps n) (loop_list (ls ! m)) else loop_list (ls ! i))"
    if "i < length ls" for i using that by (simp add: nth_list_update)
  let ?D = "\<lambda>D h. {n \<in> D. path_loop_head (ps ! n) \<noteq> 0 \<and> path_loop_head (ps ! n) = h}"
  have old: "set (loop_list (ls ! m)) = (\<Union>n \<in> ?D D h. set (cycle ps n))"
  proof (cases "head (ls ! m) = h")
    case True
    then show ?thesis using c m'(1) by (simp add: collected_def)
  next
    case False
    then have "h \<notin> set (map head ls)" using m'(3) by (auto simp: in_set_conv_nth)
    then have "?D D h = {}" using c unfolding collected_def by blast
    moreover have "?D D (head (ls ! m)) = {}" using False m'(2) by auto
    ultimately show ?thesis using c m'(1) unfolding collected_def by auto
  qed
  show ?thesis
    unfolding collected_def length_list_update
  proof (intro conjI allI impI)
    fix i j assume "i < length ls" "j < length ls" "head (?ls ! i) = head (?ls ! j)" "head (?ls ! i) \<noteq> 0"
    then show "i = j" using c other unfolding collected_def by (auto simp: hd split: if_splits)
  next
    fix i assume i: "i < length ls"
    show "distinct (loop_list (?ls ! i))" using c i m'(1) unfolding collected_def by (simp add: ll)
    show "set (loop_list (?ls ! i)) = (\<Union>n \<in> ?D (insert n D) (head (?ls ! i)). set (cycle ps n))"
    proof (cases "i = m")
      case True
      have "?D (insert n D) h = insert n (?D D h)" using h by auto
      then show ?thesis using True i old by (simp add: ll hd)
    next
      case False
      have "?D (insert n D) (head (ls ! i)) = ?D D (head (ls ! i))" using other [OF i False] h(1) by auto
      then show ?thesis using False i c by (simp add: ll hd collected_def)
    qed
  next
    have "map head ?ls = (map head ls)[m := h]" by (simp add: map_update)
    moreover have "x \<in> set ((map head ls)[m := h])" if "x \<in> set (map head ls)" "x \<noteq> 0" for x
    proof (cases "x = head (ls ! m)")
      case True
      then show ?thesis using m'(1,2) that(2) by (auto simp: set_update_memI)
    next
      case False
      from that(1) obtain i where i: "i < length ls" "x = head (ls ! i)" by (auto simp: in_set_conv_nth)
      then have "(map head ls)[m := h] ! i = x" using False by (cases "i = m") auto
      then show ?thesis using i(1) by (metis length_list_update length_map nth_mem)
    qed
    moreover have "h \<in> set ((map head ls)[m := h])" using m'(1) by (simp add: set_update_memI)
    ultimately show "\<forall>k \<in> insert n D. path_loop_head (ps ! k) \<noteq> 0 \<longrightarrow> path_loop_head (ps ! k) \<in> set (map head ?ls)"
      using c h(1) unfolding collected_def by auto
  qed
qed

lemma collect_loops_collected:
  assumes "wf_paths ps" "\<And>n. n < length ps \<Longrightarrow> path_loop_head (ps ! n) \<noteq> 0 \<Longrightarrow> loop_path ps n"
  shows "collected ps D ls \<Longrightarrow> yields (collect_loops ps ns ls)
    (\<lambda>ls'. collected ps (set ns \<union> D) ls' \<and> length ls' = length ls)"
proof (induction ns arbitrary: ls D)
  case (Cons n ns)
  have "yields (add_loop_path ps n ls) (\<lambda>ls'. collected ps (insert n D) ls' \<and> length ls' = length ls)"
  proof (cases "n < length ps \<and> path_loop_head (ps ! n) \<noteq> 0")
    case True
    then show ?thesis using merge_path_result [OF assms(1) _ assms(2)] collected_merge [OF Cons.prems]
      by (auto simp: add_loop_path_def split: option.splits)
  next
    case False
    then show ?thesis using Cons.prems collected_skip by (auto simp: add_loop_path_def at_def)
  qed
  then show ?case
  proof (simp, intro yields_bind, elim yields_mono)
    fix ls' assume l: "collected ps (insert n D) ls' \<and> length ls' = length ls"
    show "yields (collect_loops ps ns ls') (\<lambda>ls''. collected ps (insert n (set ns \<union> D)) ls'' \<and> length ls'' = length ls)"
      by (rule yields_mono [OF Cons.IH [of "insert n D"]]) (use l in auto)
  qed
qed simp

lemma nest_loop_heads:
  fixes ls ls' :: "loop_s list"
  shows "nest_loop ps n ls = Inr (Some ls') \<Longrightarrow> map head ls' = map head ls \<and> map loop_list ls' = map loop_list ls"
  by (auto simp: nest_loop_def bindE_Inr_iff split: if_splits option.splits dest!: index_of_Some
      intro!: nth_equalityI simp: nth_list_update)

lemma nest_loop_found:
  assumes "nest_loop ps n ls = Inr None" shows "path_loop_head (ps ! n) \<noteq> 0 \<and> path_loop_head (ps ! n) \<notin> set (map head ls)"
  using assms by (auto simp: nest_loop_def bindE_Inr_iff at_Inr_iff index_of_None split: if_splits option.splits)

lemma nest_loops_heads:
  fixes ls :: "loop_s list"
  assumes "\<And>n. n \<in> set ns \<Longrightarrow> path_loop_head (ps ! n) \<noteq> 0 \<Longrightarrow> path_loop_head (ps ! n) \<in> set (map head ls)"
  shows "yields (nest_loops ps ns ls) (\<lambda>(r, ls'). r = 0 \<and> map head ls' = map head ls \<and> map loop_list ls' = map loop_list ls)"
  using assms
proof (induction ns arbitrary: ls)
  case (Cons n ns)
  have "yields (nest_loop ps n ls) (\<lambda>r. \<exists>ls' :: loop_s list. r = Some ls' \<and> map head ls' = map head ls \<and> map loop_list ls' = map loop_list ls)"
    unfolding yields_def
  proof (intro allI impI)
    fix r assume r: "nest_loop ps n ls = Inr r"
    show "\<exists>ls' :: loop_s list. r = Some ls' \<and> map head ls' = map head ls \<and> map loop_list ls' = map loop_list ls"
      using r nest_loop_heads nest_loop_found Cons.prems [of n] by (cases r) auto
  qed
  then show ?case
  proof (simp, intro yields_bind, elim yields_mono)
    fix r assume "\<exists>ls' :: loop_s list. r = Some ls' \<and> map head ls' = map head ls \<and> map loop_list ls' = map loop_list ls"
    then obtain ls' where l: "r = Some ls'" "map head ls' = map head ls" "map loop_list ls' = map loop_list ls" by blast
    have "yields (nest_loops ps ns ls') (\<lambda>(r, ls''). r = 0 \<and> map head ls'' = map head ls' \<and> map loop_list ls'' = map loop_list ls')"
      by (rule Cons.IH) (use Cons.prems l(2) in auto)
    then show "yields (case r of None \<Rightarrow> Inr (1, ls) | Some ls \<Rightarrow> nest_loops ps ns ls)
        (\<lambda>(r, ls'). r = 0 \<and> map head ls' = map head ls \<and> map loop_list ls' = map loop_list ls)"
      by (simp add: l)
  qed
qed simp

lemma collected_cong:
  fixes ls ls' :: "loop_s list"
  assumes "map head ls' = map head ls" "map loop_list ls' = map loop_list ls" "collected ps D ls"
  shows "collected ps D ls'"
proof -
  have len: "length ls' = length ls" using assms(1) by (metis length_map)
  have "head (ls' ! i) = head (ls ! i)" "loop_list (ls' ! i) = loop_list (ls ! i)" if "i < length ls" for i
    using that len assms(1,2) by (metis nth_map)+
  then show ?thesis using assms(3) len unfolding collected_def assms(1) by simp
qed

lemma loops_collected:
  assumes "wf_paths ps" "\<And>n. n < length ps \<Longrightarrow> path_loop_head (ps ! n) \<noteq> 0 \<Longrightarrow> loop_path ps n"
    and "\<And>i. i < length ls \<Longrightarrow> head (ls ! i) = 0 \<and> loop_list (ls ! i) = []"
    and "build_control_flow_loops ps paths_size ls = Inr (r, ls')"
  shows "r = 0 \<and> collected ps {0 ..< nat paths_size} ls'"
proof -
  have "collected ps {} ls" using assms(3) by (simp add: collected_def)
  then have "yields (collect_loops ps [0 ..< nat paths_size] ls)
      (\<lambda>ls'. collected ps {0 ..< nat paths_size} ls' \<and> length ls' = length ls)"
    using collect_loops_collected [OF assms(1,2), of "{}" ls "[0 ..< nat paths_size]"] by simp
  moreover obtain l where l: "collect_loops ps [0 ..< nat paths_size] ls = Inr l"
    "nest_loops ps [0 ..< nat paths_size] l = Inr (r, ls')"
    using assms(4) by (auto simp: build_control_flow_loops_def bindE_Inr_iff)
  ultimately have c: "collected ps {0 ..< nat paths_size} l" by (simp add: yields_def)
  then have "path_loop_head (ps ! n) \<in> set (map head l)"
    if "n \<in> set [0 ..< nat paths_size]" "path_loop_head (ps ! n) \<noteq> 0" for n
    using that unfolding collected_def by simp
  from yieldsD [OF nest_loops_heads [OF this] l(2)] c show ?thesis by (auto intro: collected_cong)
qed

text \<open>
  On any well-formed path table whose loop paths end in their heads,
  build_control_flow_loops returns 0 and the loop of a head holds exactly the nodes of the
  cycles of its paths.
\<close>
theorem build_control_flow_loops_collects:
  assumes "wf_paths ps" "\<And>n. n < length ps \<Longrightarrow> path_loop_head (ps ! n) \<noteq> 0 \<Longrightarrow> loop_path ps n"
    and "\<And>i. i < length ls \<Longrightarrow> head (ls ! i) = 0 \<and> loop_list (ls ! i) = []"
    and "build_control_flow_loops ps paths_size ls = Inr (r, ls')"
  shows "r = 0 \<and> collected ps {0 ..< nat paths_size} ls'"
  by (rule loops_collected [OF assms])

section \<open>Which loops a node is in\<close>

lemma add_members_adds:
  assumes "distinct ns"
  shows "yields (add_members h ns nodes) (\<lambda>nodes'. length nodes' = length nodes \<and>
    (\<forall>i < length nodes. nodes' ! i = (nodes ! i)\<lparr>member_of_loop :=
       member_of_loop (nodes ! i) @ (if int i \<in> set ns then [h] else [])\<rparr>))"
  using assms
proof (induction ns arbitrary: nodes)
  case (Cons n ns)
  have step: "yields (add_member h n nodes) (\<lambda>nodes'. length nodes' = length nodes \<and>
    (\<forall>i < length nodes. nodes' ! i = (nodes ! i)\<lparr>member_of_loop :=
       member_of_loop (nodes ! i) @ (if int i = n then [h] else [])\<rparr>))"
    by (auto simp: add_member_def at_int_def nth_list_update)
  show ?case unfolding add_members.simps
  proof (rule yields_bind, rule yields_mono [OF step])
    fix nodes1 assume n1: "length nodes1 = length nodes \<and> (\<forall>i < length nodes. nodes1 ! i =
      (nodes ! i)\<lparr>member_of_loop := member_of_loop (nodes ! i) @ (if int i = n then [h] else [])\<rparr>)"
    have "distinct ns" "n \<notin> set ns" using Cons.prems by simp_all
    then show "yields (add_members h ns nodes1) (\<lambda>nodes'. length nodes' = length nodes \<and>
      (\<forall>i < length nodes. nodes' ! i = (nodes ! i)\<lparr>member_of_loop :=
        member_of_loop (nodes ! i) @ (if int i \<in> set (n # ns) then [h] else [])\<rparr>))"
      by (intro yields_mono [OF Cons.IH]) (use n1 in auto)
  qed
qed simp

text \<open>
  build_control_flow_loops_node_members appends to each node the heads of exactly the
  loops it is in, in the order of the loop table.
\<close>
theorem node_members_are_loops:
  assumes "\<And>l. l \<in> set ls \<Longrightarrow> distinct (loop_list l)"
    and "build_control_flow_loops_node_members ls nodes = Inr nodes'" "i < length nodes"
  shows "length nodes' = length nodes \<and> member_of_loop (nodes' ! i) =
    member_of_loop (nodes ! i) @ map head (filter (\<lambda>l. int i \<in> set (loop_list l)) ls)"
  using assms
proof (induction ls arbitrary: nodes)
  case (Cons l ls)
  obtain nodes1 where n1: "add_members (head l) (loop_list l) nodes = Inr nodes1"
    "build_control_flow_loops_node_members ls nodes1 = Inr nodes'"
    using Cons.prems(2) by (auto simp: bindE_Inr_iff)
  have "distinct (loop_list l)" using Cons.prems(1) by simp
  note m = yieldsD [OF add_members_adds [OF this] n1(1)]
  have "length nodes' = length nodes1 \<and> member_of_loop (nodes' ! i) =
    member_of_loop (nodes1 ! i) @ map head (filter (\<lambda>l. int i \<in> set (loop_list l)) ls)"
    by (rule Cons.IH) (use Cons.prems n1(2) m in auto)
  then show ?case using m Cons.prems(3) by auto
qed simp

end
