(* ===== verification/Enumerate.thy ===== *)
theory Enumerate
  imports Links Loops
begin

text \<open>
  \<open>src/analyse/analyse.c\<close>, \<open>build_control_flow_paths\<close>: the paths of a function from its entry,
  one for each way through the graph, each ended by an exit or by the first node it repeats.
  The enumeration comes to an end, and leaves the table the later passes rely on: the paths
  are well formed, repeat no node before their last, and a loop head is that last node.
\<close>

section \<open>The starting points still to be followed\<close>

text \<open>
  The second and later links of a node go into the free entries of the list (those whose node
  is 0); when there are none left, they are dropped.
\<close>

fun node_mid_start_add :: "node_link_s list \<Rightarrow> int \<Rightarrow> int \<Rightarrow> node_mid_start_s list \<Rightarrow> node_mid_start_s list" where
  "node_mid_start_add ls p s [] = []"
| "node_mid_start_add [] p s ms = ms"
| "node_mid_start_add (l # ls) p s (m # ms) =
     (if mid_node m = 0
      then \<lparr>mid_path_prev = p, mid_path_prev_index = s, mid_node = link_node l\<rparr> # node_mid_start_add ls p s ms
      else m # node_mid_start_add (l # ls) p s ms)"

text \<open>What the enumeration changes.\<close>

record path_walk =
  wpaths :: "path_s list"
  wnodes :: "control_flow_node_s list"
  wmids :: "node_mid_start_s list"

section \<open>Loop heads and loop edges\<close>

definition set_loop_head :: "int \<Rightarrow> int \<Rightarrow> path_walk \<Rightarrow> path_walk c" where
  "set_loop_head p node w =
     bindE (at_int (wpaths w) p) (\<lambda>r. bindE (at_int (wnodes w) node) (\<lambda>n.
       Inr (w\<lparr>wpaths := (wpaths w)[nat p := r\<lparr>path_loop_head := node\<rparr>],
              wnodes := (wnodes w)[nat node := n\<lparr>node_type := NODE_TYPE_LOOP, loop_head := 1\<rparr>]\<rparr>)))"

definition mark_edges :: "int \<Rightarrow> int \<Rightarrow> path_walk \<Rightarrow> path_walk c" where
  "mark_edges node1 node2 w =
     bindE (at_int (wnodes w) node1) (\<lambda>n.
       Inr (w\<lparr>wnodes := (wnodes w)[nat node1 := n\<lparr>link_next :=
              map (\<lambda>l. if link_node l = node2 then l\<lparr>is_loop_edge := 1\<rparr> else l) (link_next n)\<rparr>]\<rparr>))"

text \<open>
  A loop is found at the last node of a path. When the path has one node only, the node may
  be its own successor, or the loop is closed by the link the path branched off with.
\<close>

definition close_loop :: "int \<Rightarrow> int \<Rightarrow> int \<Rightarrow> path_walk \<Rightarrow> path_walk c" where
  "close_loop p step node w =
     bindE (set_loop_head p node w) (\<lambda>w.
       if 2 \<le> step then
         bindE (node_at (wpaths w) (p, step - 2)) (\<lambda>node1.
         bindE (node_at (wpaths w) (p, step - 1)) (\<lambda>node2. mark_edges node1 node2 w))
       else
         bindE (set_loop_head p node w) (\<lambda>w.
         bindE (mark_edges node node w) (\<lambda>w.
           if p \<noteq> 0 then
             bindE (at_int (wpaths w) p) (\<lambda>r.
             bindE (node_at (wpaths w) (path_prev r, path_prev_index r)) (\<lambda>node1. mark_edges node1 node w))
           else Inr w)))"

section \<open>One path\<close>

definition append_node :: "int \<Rightarrow> int \<Rightarrow> int \<Rightarrow> path_walk \<Rightarrow> path_walk c" where
  "append_node p step node w =
     bindE (at_int (wpaths w) p) (\<lambda>r.
     bindE (at_int (path r) step) (\<lambda>_.
       Inr (w\<lparr>wpaths := (wpaths w)[nat p := r\<lparr>path := (path r)[nat step := node]\<rparr>]\<rparr>)))"

text \<open>The first link is followed, the others become starting points.\<close>

definition follow_link :: "int \<Rightarrow> int \<Rightarrow> node_link_s list \<Rightarrow> path_walk \<Rightarrow> (path_walk \<times> int) c" where
  "follow_link p step ls w =
     (case ls of
        [] \<Rightarrow> Inl OutOfBounds
      | l # ls \<Rightarrow>
          let w = w\<lparr>wmids := node_mid_start_add ls p (step - 1) (wmids w)\<rparr>
          in bindE (append_node p step (link_node l) w) (\<lambda>w. Inr (w, link_node l)))"

text \<open>
  The loop that grows a path, from its last node; it ends with the size of the path. Every
  turn writes one more entry of the buffer.
\<close>

fun grow_path :: "nat \<Rightarrow> int \<Rightarrow> int \<Rightarrow> int \<Rightarrow> int \<Rightarrow> path_walk \<Rightarrow> (path_walk \<times> int) c" where
  "grow_path 0 nodes_size p step node w = Inl Diverge"
| "grow_path (Suc k) nodes_size p step node w =
     bindE (path_loop_check (wpaths w) p (step - 1) node nodes_size) (\<lambda>(loop, ps).
     let w = w\<lparr>wpaths := ps\<rparr> in
     if loop \<noteq> 0 then bindE (close_loop p step node w) (\<lambda>w. Inr (w, step))
     else
       bindE (at_int (wnodes w) node) (\<lambda>n.
         if link_next n = [] then Inr (w, step)
         else
           bindE (follow_link p step (link_next n) w) (\<lambda>(w, node).
           bindE (at_int (wnodes w) node) (\<lambda>n.
             if link_next n = [] then Inr (w, step + 1)
             else grow_path k nodes_size p (step + 1) node w))))"

definition start_path :: "int \<Rightarrow> nat \<Rightarrow> path_walk \<Rightarrow> path_walk c" where
  "start_path p n w =
     bindE (at (wmids w) n) (\<lambda>m.
     bindE (at_int (wpaths w) p) (\<lambda>r.
     bindE (at_int (path r) 0) (\<lambda>_.
       Inr (w\<lparr>wpaths := (wpaths w)[nat p := r\<lparr>path_used := 1, path := (path r)[0 := mid_node m],
                path_prev := mid_path_prev m, path_prev_index := mid_path_prev_index m\<rparr>],
              wmids := (wmids w)[n := m\<lparr>mid_node := 0\<rparr>]\<rparr>))))"

definition one_path :: "int \<Rightarrow> int \<Rightarrow> nat \<Rightarrow> path_walk \<Rightarrow> path_walk c" where
  "one_path nodes_size p n w =
     bindE (at (wmids w) n) (\<lambda>m.
     bindE (start_path p n w) (\<lambda>w.
     bindE (at_int (wpaths w) p) (\<lambda>r.
     bindE (grow_path (Suc (length (path r))) nodes_size p 1 (mid_node m) w) (\<lambda>(w, step).
     bindE (at_int (wpaths w) p) (\<lambda>r.
       Inr (w\<lparr>wpaths := (wpaths w)[nat p := r\<lparr>path_size := step\<rparr>]\<rparr>))))))"

section \<open>All paths\<close>

text \<open>
  The result is the returned code, the number of paths made and the tables. The code is 1 when
  the table is full: the caller's \<open>paths_used\<close> is then left unset.
\<close>

fun explore :: "nat \<Rightarrow> int \<Rightarrow> int \<Rightarrow> int \<Rightarrow> path_walk \<Rightarrow> (int \<times> int \<times> path_walk) c" where
  "explore 0 nodes_size paths_size p w = Inl Diverge"
| "explore (Suc k) nodes_size paths_size p w =
     (case index_of (\<lambda>m. mid_node m \<noteq> 0) (wmids w) of
        None \<Rightarrow> Inr (0, p, w)
      | Some n \<Rightarrow>
          bindE (one_path nodes_size p n w) (\<lambda>w.
            if paths_size \<le> p + 1 then Inr (1, p + 1, w)
            else explore k nodes_size paths_size (p + 1) w))"

definition no_mid :: node_mid_start_s where
  "no_mid = \<lparr>mid_path_prev = 0, mid_path_prev_index = 0, mid_node = 0\<rparr>"

definition build_control_flow_paths ::
  "control_flow_node_s list \<Rightarrow> int \<Rightarrow> path_s list \<Rightarrow> int \<Rightarrow> int \<Rightarrow> (int \<times> int \<times> path_walk) c" where
  "build_control_flow_paths nodes nodes_size ps paths_size start =
     explore (Suc (nat paths_size)) nodes_size paths_size 0
       \<lparr>wpaths = ps, wnodes = nodes, wmids = (replicate 1000 no_mid)[0 := no_mid\<lparr>mid_node := start\<rparr>]\<rparr>"

section \<open>The table while it grows\<close>

lemma branches_update [simp]: "n \<noteq> p \<Longrightarrow> branches (ps[p := r]) n \<longleftrightarrow> branches ps n"
  by (simp add: branches_def)

text \<open>A trail looks at its own path below the step and at earlier paths only.\<close>

lemma trail_update_later: "n < p \<Longrightarrow> trail (ps[p := r]) n s = trail ps n s"
proof (induction n arbitrary: s rule: less_induct)
  case (less n)
  show ?case
    by (subst (1 2) trail.simps) (use less in auto)
qed

lemma trail_update_same:
  assumes "p < length ps" "path_prev r = path_prev (ps ! p)" "path_prev_index r = path_prev_index (ps ! p)"
    and "take s (path r) = take s (path (ps ! p))"
  shows "trail (ps[p := r]) p s = trail ps p s"
  by (subst (1 2) trail.simps) (use assms trail_update_later in \<open>simp add: branches_def\<close>)

lemma trail_update:
  assumes "p < length ps" "path_prev r = path_prev (ps ! p)" "path_prev_index r = path_prev_index (ps ! p)"
    and "q < p \<or> q = p \<and> take s (path r) = take s (path (ps ! p))"
  shows "trail (ps[p := r]) q s = trail ps q s"
  using assms(4) trail_update_later trail_update_same [OF assms(1-3)] by blast

lemma trail_branch:
  assumes "p < length ps" "path_prev r = int q" "path_prev_index r = int t" "q < p"
  shows "trail (ps[p := r]) p 0 = trail ps q (Suc t)"
  by (subst trail.simps) (use assms trail_update_later in \<open>simp add: branches_def\<close>)

lemma trail_root: "p < length ps \<Longrightarrow> path_prev r = int p \<Longrightarrow> trail (ps[p := r]) p 0 = []"
  by (subst trail.simps) (simp add: branches_def)

lemma wf_paths_update:
  assumes "wf_paths ps" "p < length ps" "length (path r) = length (path (ps ! p))"
    and "0 \<le> path_size r" "path_size r \<le> int (length (path r))"
    and "path_prev r \<noteq> int p \<Longrightarrow> 0 \<le> path_prev r \<and> path_prev r < int p \<and> 0 \<le> path_prev_index r \<and>
      path_prev_index r < int (length (path (ps ! nat (path_prev r))))"
  shows "wf_paths (ps[p := r])"
  unfolding wf_paths_def length_list_update
proof (intro allI impI)
  fix q assume q: "q < length ps"
  have len: "length (path (ps[p := r] ! i)) = length (path (ps ! i))" for i
    using assms(2,3) by (cases "i = p") simp_all
  show "0 \<le> path_size (ps[p := r] ! q) \<and> path_size (ps[p := r] ! q) \<le> int (length (path (ps[p := r] ! q))) \<and>
     (branches (ps[p := r]) q \<longrightarrow> 0 \<le> path_prev (ps[p := r] ! q) \<and> path_prev (ps[p := r] ! q) < int q \<and>
        0 \<le> path_prev_index (ps[p := r] ! q) \<and>
        path_prev_index (ps[p := r] ! q) < int (length (path (ps[p := r] ! nat (path_prev (ps[p := r] ! q))))))"
  proof (cases "q = p")
    case True
    then show ?thesis using assms by (simp add: branches_def len)
  next
    case False
    then show ?thesis using assms(1) q by (simp add: wf_paths_def len)
  qed
qed

lemma inside_update [simp]:
  "p < length ps \<Longrightarrow> length (path r) = length (path (ps ! p)) \<Longrightarrow> inside (ps[p := r]) q s \<longleftrightarrow> inside ps q s"
  by (cases "q = p") (auto simp: inside_def)

text \<open>The nodes that have successors: the walk never goes on after any other.\<close>

definition inner :: "control_flow_node_s list \<Rightarrow> int set" where
  "inner ns = {x. 0 \<le> x \<and> x < int (length ns) \<and> link_next (ns ! nat x) \<noteq> []}"

text \<open>A list of such nodes without repetitions.\<close>

definition ways :: "int set \<Rightarrow> int list \<Rightarrow> bool" where
  "ways G xs \<longleftrightarrow> distinct xs \<and> set xs \<subseteq> G"

lemma ways_simps [simp]: "ways G []" "ways G (xs @ [x]) \<longleftrightarrow> ways G xs \<and> x \<in> G \<and> x \<notin> set xs"
  "ways G (x # xs) \<longleftrightarrow> ways G xs \<and> x \<in> G \<and> x \<notin> set xs"
  by (auto simp: ways_def)

text \<open>
  A starting point lies below step \<open>s\<close> of path \<open>p\<close> or in an earlier path; no node repeats up
  to it, and each has successors.
\<close>

definition mid_ok :: "int set \<Rightarrow> path_s list \<Rightarrow> nat \<Rightarrow> nat \<Rightarrow> node_mid_start_s \<Rightarrow> bool" where
  "mid_ok G ps p s m \<longleftrightarrow> (mid_node m \<noteq> 0 \<longrightarrow> (\<exists>q t. mid_path_prev m = int q \<and> mid_path_prev_index m = int t \<and>
     inside ps q (Suc t) \<and> ways G (trail ps q (Suc t)) \<and> (q < p \<or> q = p \<and> t < s)))"

lemma mid_ok_update:
  assumes "p < length ps" "path_prev r = path_prev (ps ! p)" "path_prev_index r = path_prev_index (ps ! p)"
    and "length (path r) = length (path (ps ! p))" "take s (path r) = take s (path (ps ! p))"
    and "mid_ok G ps p s m"
  shows "mid_ok G (ps[p := r]) p s m"
  unfolding mid_ok_def
proof
  assume "mid_node m \<noteq> 0"
  then obtain q t where q: "mid_path_prev m = int q" "mid_path_prev_index m = int t" "inside ps q (Suc t)"
    "ways G (trail ps q (Suc t))" "q < p \<or> q = p \<and> t < s" using assms(6) by (auto simp: mid_ok_def)
  have "q < p \<or> q = p \<and> take (Suc t) (path r) = take (Suc t) (path (ps ! p))"
    using q(5) assms(5) by (metis Suc_leI min.absorb1 take_take)
  then have "trail (ps[p := r]) q (Suc t) = trail ps q (Suc t)" by (rule trail_update [OF assms(1-3)])
  then show "\<exists>q t. mid_path_prev m = int q \<and> mid_path_prev_index m = int t \<and> inside (ps[p := r]) q (Suc t) \<and>
      ways G (trail (ps[p := r]) q (Suc t)) \<and> (q < p \<or> q = p \<and> t < s)"
    using q assms(1,4) by auto
qed

lemma mid_ok_mono:
  assumes "mid_ok G ps p s m" "p < p' \<or> p = p' \<and> s \<le> s'"
  shows "mid_ok G ps p' s' m"
  unfolding mid_ok_def
proof
  assume "mid_node m \<noteq> 0"
  then obtain q t where q: "mid_path_prev m = int q" "mid_path_prev_index m = int t" "inside ps q (Suc t)"
    "ways G (trail ps q (Suc t))" "q < p \<or> q = p \<and> t < s" using assms(1) by (auto simp: mid_ok_def)
  have "q < p' \<or> q = p' \<and> t < s'" using q(5) assms(2) by auto
  with q show "\<exists>q t. mid_path_prev m = int q \<and> mid_path_prev_index m = int t \<and> inside ps q (Suc t) \<and>
      ways G (trail ps q (Suc t)) \<and> (q < p' \<or> q = p' \<and> t < s')" by blast
qed

lemma node_mid_start_add_ok:
  assumes "inside ps p (Suc s)" "ways G (trail ps p (Suc s))"
  shows "\<forall>m \<in> set ms. mid_ok G ps p (Suc s) m \<Longrightarrow>
    \<forall>m \<in> set (node_mid_start_add ls (int p) (int s) ms). mid_ok G ps p (Suc s) m"
proof (induction ls "int p" "int s" ms rule: node_mid_start_add.induct)
  case (3 l ls m ms)
  have "mid_ok G ps p (Suc s) \<lparr>mid_path_prev = int p, mid_path_prev_index = int s, mid_node = link_node l\<rparr>"
    using assms by (auto simp: mid_ok_def)
  with 3 show ?case by simp
qed simp_all

text \<open>
  Path \<open>p\<close> with \<open>step\<close> nodes so far: the table is well formed, the last node is \<open>node\<close>, no
  node repeats before it, and the starting points lie below.
\<close>

definition growing :: "int set \<Rightarrow> path_s list \<Rightarrow> nat \<Rightarrow> nat \<Rightarrow> int \<Rightarrow> node_mid_start_s list \<Rightarrow> bool" where
  "growing G ps p step node ms \<longleftrightarrow> wf_paths ps \<and> inside ps p step \<and> 0 < step \<and>
     path (ps ! p) ! (step - 1) = node \<and> path_loop_head (ps ! p) = 0 \<and>
     ways G (trail ps p (step - 1)) \<and> (\<forall>m \<in> set ms. mid_ok G ps p (step - 1) m)"

text \<open>
  The loop head of path \<open>p\<close> that ends at index \<open>s\<close>: its last node when that repeats an earlier
  one; when it does not, no loop head is set unless the walk back came to its limit.
\<close>

definition loop_ends :: "int \<Rightarrow> path_s list \<Rightarrow> nat \<Rightarrow> nat \<Rightarrow> bool" where
  "loop_ends lim ps p s \<longleftrightarrow>
     (path (ps ! p) ! s \<in> set (trail ps p s) \<longrightarrow> path_loop_head (ps ! p) = path (ps ! p) ! s) \<and>
     (path_loop_head (ps ! p) \<noteq> 0 \<longrightarrow> path_loop_head (ps ! p) = path (ps ! p) ! s \<and>
        (path (ps ! p) ! s \<in> set (trail ps p s) \<or> nat lim \<le> length (trail ps p s)))"

text \<open>The same for the path as it ends, with its loop head.\<close>

definition grown :: "int \<Rightarrow> int set \<Rightarrow> path_s list \<Rightarrow> nat \<Rightarrow> nat \<Rightarrow> node_mid_start_s list \<Rightarrow> bool" where
  "grown lim G ps p step ms \<longleftrightarrow> wf_paths ps \<and> inside ps p step \<and> 0 < step \<and>
     loop_ends lim ps p (step - 1) \<and> distinct (trail ps p (step - 1)) \<and> (\<forall>m \<in> set ms. mid_ok G ps p step m)"

text \<open>What the growth of path \<open>p\<close> leaves alone.\<close>

definition same_but :: "nat \<Rightarrow> path_s list \<Rightarrow> path_s list \<Rightarrow> bool" where
  "same_but p ps ps' \<longleftrightarrow> (\<exists>r. ps' = ps[p := r] \<and> p < length ps \<and> path_prev r = path_prev (ps ! p) \<and>
     path_prev_index r = path_prev_index (ps ! p) \<and> length (path r) = length (path (ps ! p)) \<and>
     path_size r = path_size (ps ! p))"

lemma same_but_trans: "same_but p a b \<Longrightarrow> same_but p b c \<Longrightarrow> same_but p a c"
  by (auto simp: same_but_def)

lemma same_but_refl: "p < length ps \<Longrightarrow> same_but p ps ps"
  by (auto simp: same_but_def intro: exI [of _ "ps ! p"])

lemma inner_update:
  "link_next nd = [] \<longleftrightarrow> link_next (ns ! i) = [] \<Longrightarrow> inner (ns[i := nd]) = inner ns"
  by (cases "i < length ns") (auto simp: inner_def nth_list_update)

lemma set_loop_head_yields:
  "yields (set_loop_head (int p) node w) (\<lambda>w'. p < length (wpaths w) \<and>
     wpaths w' = (wpaths w)[p := (wpaths w ! p)\<lparr>path_loop_head := node\<rparr>] \<and> wmids w' = wmids w \<and> inner (wnodes w') = inner (wnodes w))"
  by (auto simp: set_loop_head_def yields_def bindE_Inr_iff at_int_Inr_iff inner_update)

lemma mark_edges_yields:
  "yields (mark_edges node1 node2 w) (\<lambda>w'. wpaths w' = wpaths w \<and> wmids w' = wmids w \<and> inner (wnodes w') = inner (wnodes w))"
  by (auto simp: mark_edges_def yields_def bindE_Inr_iff at_int_Inr_iff inner_update)

lemma close_loop_yields:
  "yields (close_loop (int p) step node w) (\<lambda>w'. p < length (wpaths w) \<and>
     wpaths w' = (wpaths w)[p := (wpaths w ! p)\<lparr>path_loop_head := node\<rparr>] \<and> wmids w' = wmids w \<and> inner (wnodes w') = inner (wnodes w))"
proof -
  note edges = yieldsD [OF mark_edges_yields] and heads = yieldsD [OF set_loop_head_yields [of p node]]
  show ?thesis unfolding yields_def close_loop_def
    by (auto simp: bindE_Inr_iff split: if_splits dest!: edges heads)
qed

text \<open>Flags of a path do not matter for the trails.\<close>

lemma flags_keep:
  assumes "p < length ps" "path_prev r = path_prev (ps ! p)" "path_prev_index r = path_prev_index (ps ! p)"
    and "path r = path (ps ! p)" "path_size r = path_size (ps ! p)"
  shows "wf_paths ps \<Longrightarrow> wf_paths (ps[p := r])" "trail (ps[p := r]) p s = trail ps p s"
    "mid_ok G ps p s m \<Longrightarrow> mid_ok G (ps[p := r]) p s m" "same_but p ps (ps[p := r])"
    "inside (ps[p := r]) q s \<longleftrightarrow> inside ps q s"
proof -
  show "wf_paths (ps[p := r])" if "wf_paths ps"
    by (rule wf_paths_update [OF that assms(1)])
      (use assms wf_pathsD [OF that assms(1)] that in \<open>auto simp: branches_def wf_paths_def\<close>)
  show "trail (ps[p := r]) p s = trail ps p s" by (rule trail_update) (use assms in auto)
  show "mid_ok G (ps[p := r]) p s m" if "mid_ok G ps p s m" by (rule mid_ok_update) (use assms that in auto)
  show "same_but p ps (ps[p := r])" using assms by (auto simp: same_but_def)
  show "inside (ps[p := r]) q s \<longleftrightarrow> inside ps q s" using assms by simp
qed

lemma growing_loop:
  assumes g: "growing G ps p step node ms"
    and l: "node \<in> set (trail ps p (step - 1)) \<or> nat lim \<le> length (trail ps p (step - 1))"
  shows "grown lim G (ps[p := (ps ! p)\<lparr>path_type := t, path_loop_head := node\<rparr>]) p step ms \<and>
    same_but p ps (ps[p := (ps ! p)\<lparr>path_type := t, path_loop_head := node\<rparr>])"
proof -
  have p: "p < length ps" using g by (simp add: growing_def inside_def)
  let ?r = "(ps ! p)\<lparr>path_type := t, path_loop_head := node\<rparr>"
  have r: "path_prev ?r = path_prev (ps ! p)" "path_prev_index ?r = path_prev_index (ps ! p)"
    "path ?r = path (ps ! p)" "path_size ?r = path_size (ps ! p)" "path_loop_head ?r = node" by simp_all
  note k = flags_keep [OF p r(1-4)]
  have "mid_ok G ps p step m" if "m \<in> set ms" for m
    using g that mid_ok_mono [of G ps p "step - 1" m p step] by (auto simp: growing_def)
  then show ?thesis using g l k p r unfolding growing_def grown_def loop_ends_def ways_def by simp
qed

lemma growing_end:
  assumes g: "growing G ps p step node ms" "node \<notin> set (trail ps p (step - 1))"
  shows "grown lim G ps p step ms" "same_but p ps ps" "node \<in> G \<Longrightarrow> ways G (trail ps p step)"
proof -
  have step: "Suc (step - 1) = step" using g by (simp add: growing_def)
  have "mid_ok G ps p step m" if "m \<in> set ms" for m
    using g that mid_ok_mono [of G ps p "step - 1" m p step] by (auto simp: growing_def)
  then show "grown lim G ps p step ms" using g unfolding growing_def grown_def loop_ends_def ways_def by simp
  show "same_but p ps ps" using g by (intro same_but_refl) (simp add: growing_def inside_def)
  show "ways G (trail ps p step)" if "node \<in> G"
    using trail_Suc [of ps p "step - 1"] g step that by (simp add: growing_def)
qed

lemma growing_next:
  assumes g: "growing G ps p step node ms" "node \<notin> set (trail ps p (step - 1))"
    and "step < length (path (ps ! p))" "node \<in> G"
  shows "growing G (ps[p := (ps ! p)\<lparr>path := (path (ps ! p))[step := node']\<rparr>]) p (Suc step) node'
      (node_mid_start_add ls (int p) (int step - 1) ms) \<and>
    same_but p ps (ps[p := (ps ! p)\<lparr>path := (path (ps ! p))[step := node']\<rparr>])"
proof -
  note e = growing_end(1) [OF g] growing_end(2) [OF g] growing_end(3) [OF g assms(4)]
  have wf: "wf_paths ps" "inside ps p step" "0 < step" "path_loop_head (ps ! p) = 0" "p < length ps"
    using g(1) by (auto simp: growing_def inside_def)
  let ?r = "(ps ! p)\<lparr>path := (path (ps ! p))[step := node']\<rparr>"
  have r: "path_prev ?r = path_prev (ps ! p)" "path_prev_index ?r = path_prev_index (ps ! p)"
    "length (path ?r) = length (path (ps ! p))" "take step (path ?r) = take step (path (ps ! p))" by simp_all
  have mids: "\<forall>m \<in> set (node_mid_start_add ls (int p) (int step - 1) ms). mid_ok G ps p step m"
    using node_mid_start_add_ok [of ps p "step - 1" G ms ls] wf(2,3) e(1,3) by (auto simp: grown_def of_nat_diff)
  have "wf_paths (ps[p := ?r])"
    by (rule wf_paths_update [OF wf(1,5)])
      (use r wf_pathsD [OF wf(1,5)] wf(1,5) in \<open>auto simp: branches_def wf_paths_def\<close>)
  moreover have "trail (ps[p := ?r]) p step = trail ps p step"
    by (rule trail_update [OF wf(5) r(1,2)]) (use r(4) in simp)
  moreover have "mid_ok G (ps[p := ?r]) p step m" if "mid_ok G ps p step m" for m
    by (rule mid_ok_update [OF wf(5) r that])
  moreover have "same_but p ps (ps[p := ?r])" using r wf(5) by (auto simp: same_but_def)
  ultimately show ?thesis using mids e(3) wf(4,5) assms(3) unfolding growing_def by (simp add: inside_def)
qed

lemma path_loop_check_safe:
  assumes "wf_paths ps" "inside ps p s"
  shows "safe (path_loop_check ps (int p) (int s) node lim) (\<lambda>(l, ps').
    (l = 0 \<longrightarrow> ps' = ps \<and> node \<notin> set (trail ps p s)) \<and>
    (l \<noteq> 0 \<longrightarrow> node \<in> set (trail ps p s) \<or> nat lim \<le> length (trail ps p s)) \<and> (\<exists>t. ps' = ps[p := (ps ! p)\<lparr>path_type := t\<rparr>]))"
proof -
  have "p < length ps" using assms(2) by (simp add: inside_def)
  moreover have "\<exists>t. ps = ps[p := (ps ! p)\<lparr>path_type := t\<rparr>]" by (rule exI [of _ "path_type (ps ! p)"]) simp
  ultimately show ?thesis unfolding path_loop_check_def loop_check_trail [OF assms]
    by (auto simp: at_int_def dest: in_set_takeD)
qed

lemma close_loop_safe:
  "safe (close_loop (int p) step node w) (\<lambda>w'. p < length (wpaths w) \<and>
     wpaths w' = (wpaths w)[p := (wpaths w ! p)\<lparr>path_loop_head := node\<rparr>] \<and> wmids w' = wmids w \<and> inner (wnodes w') = inner (wnodes w))"
proof -
  have "set_loop_head q x v \<noteq> Inl Diverge" "mark_edges x y v \<noteq> Inl Diverge" "node_at qs pos \<noteq> Inl Diverge"
    for q x y v qs pos
    by (auto simp: set_loop_head_def mark_edges_def node_at_def bindE_Inl_iff at_int_def)
  then have "close_loop (int p) step node w \<noteq> Inl Diverge"
    by (auto simp: close_loop_def bindE_Inl_iff at_int_def split: if_splits)
  then show ?thesis using close_loop_yields by (simp add: safe_def)
qed

lemma follow_link_safe:
  "safe (follow_link (int p) (int step) ls w) (\<lambda>(w', node). p < length (wpaths w) \<and> step < length (path (wpaths w ! p)) \<and>
     wpaths w' = (wpaths w)[p := (wpaths w ! p)\<lparr>path := (path (wpaths w ! p))[step := node]\<rparr>] \<and>
     wmids w' = node_mid_start_add (tl ls) (int p) (int step - 1) (wmids w) \<and> wnodes w' = wnodes w)"
  by (cases ls) (auto simp: follow_link_def append_node_def Let_def at_int_def)

lemma grow_path_safe:
  assumes "growing G (wpaths w) p step node (wmids w)" "length (path (wpaths w ! p)) < step + k" "inner (wnodes w) = G"
  shows "safe (grow_path k nodes_size (int p) (int step) node w) (\<lambda>(w', step').
    \<exists>n. step' = int n \<and> grown nodes_size G (wpaths w') p n (wmids w') \<and> same_but p (wpaths w) (wpaths w') \<and>
      inner (wnodes w') = G)"
  using assms
proof (induction k arbitrary: step node w)
  case 0
  then show ?case by (simp add: growing_def inside_def)
next
  case (Suc k)
  note g = Suc.prems(1)
  let ?ps = "wpaths w"
  let ?Q = "\<lambda>(w', step'). \<exists>n. step' = int n \<and> grown nodes_size G (wpaths w') p n (wmids w') \<and> same_but p ?ps (wpaths w') \<and>
    inner (wnodes w') = G"
  have pos: "wf_paths ?ps" "inside ?ps p (step - 1)" "int step - 1 = int (step - 1)" "p < length ?ps"
    using g by (auto simp: growing_def inside_def)
  show ?case unfolding grow_path.simps pos(3)
  proof (rule safe_step [OF path_loop_check_safe [OF pos(1,2)]], clarify)
    fix loop t
    let ?ps' = "?ps[p := (?ps ! p)\<lparr>path_type := t\<rparr>]"
    assume z: "loop = 0 \<longrightarrow> ?ps' = ?ps \<and> node \<notin> set (trail ?ps p (step - 1))"
      and l: "loop \<noteq> 0 \<longrightarrow> node \<in> set (trail ?ps p (step - 1)) \<or> nat nodes_size \<le> length (trail ?ps p (step - 1))"
    show "safe (let w = w\<lparr>wpaths := ?ps'\<rparr> in
        if loop \<noteq> 0 then bindE (close_loop (int p) (int step) node w) (\<lambda>w. Inr (w, int step))
        else bindE (at_int (wnodes w) node) (\<lambda>n.
               if link_next n = [] then Inr (w, int step)
               else bindE (follow_link (int p) (int step) (link_next n) w) (\<lambda>(w, node).
                    bindE (at_int (wnodes w) node) (\<lambda>n.
                      if link_next n = [] then Inr (w, int step + 1)
                      else grow_path k nodes_size (int p) (int step + 1) node w)))) ?Q"
    proof (cases "loop = 0")
      case False
      have "safe (bindE (close_loop (int p) (int step) node (w\<lparr>wpaths := ?ps'\<rparr>)) (\<lambda>w. Inr (w, int step))) ?Q"
        by (rule safe_step [OF close_loop_safe])
          (use growing_loop [OF g l [rule_format, OF False], of t] pos(4) Suc.prems(3) in \<open>auto intro!: exI [of _ step]\<close>)
      then show ?thesis using False by simp
    next
      case True
      then have ps': "?ps' = ?ps" and new: "node \<notin> set (trail ?ps p (step - 1))" using z by simp_all
      have w: "w\<lparr>wpaths := ?ps'\<rparr> = w" unfolding ps' by simp
      have fl: "safe (bindE (follow_link (int p) (int step) ls w) (\<lambda>(w, node).
                    bindE (at_int (wnodes w) node) (\<lambda>n.
                      if link_next n = [] then Inr (w, int step + 1)
                      else grow_path k nodes_size (int p) (int step + 1) node w))) ?Q" if go: "node \<in> G" for ls
      proof (rule safe_step [OF follow_link_safe], clarify)
        fix w' :: path_walk and node'
        assume f: "p < length ?ps" "step < length (path (?ps ! p))"
          "wpaths w' = ?ps[p := (?ps ! p)\<lparr>path := (path (?ps ! p))[step := node']\<rparr>]"
          "wmids w' = node_mid_start_add (tl ls) (int p) (int step - 1) (wmids w)" "wnodes w' = wnodes w"
        have n: "growing G (wpaths w') p (Suc step) node' (wmids w')" "same_but p ?ps (wpaths w')"
          using growing_next [OF g new f(2) go] unfolding f(3,4) by blast+
        have fits: "length (path (wpaths w' ! p)) < Suc step + k" using Suc.prems(2) f(1,3) by simp
        have s: "int step + 1 = int (Suc step)" by simp
        have rec: "safe (grow_path k nodes_size (int p) (int step + 1) node' w') ?Q"
          unfolding s by (rule safe_mono [OF Suc.IH [OF n(1) fits]]) (use f(5) Suc.prems(3) same_but_trans [OF n(2)] in auto)
        have "safe (Inr (w', int step + 1)) ?Q" if "link_next (wnodes w' ! nat node') = []"
        proof -
          have "node' \<notin> G" using that f(5) Suc.prems(3) by (auto simp: inner_def)
          then have "grown nodes_size G (wpaths w') p (Suc step) (wmids w')"
            using n(1) mid_ok_mono [of G "wpaths w'" p step _ p "Suc step"] unfolding growing_def grown_def loop_ends_def ways_def
            by auto
          then show ?thesis using n(2) f(5) Suc.prems(3) by (auto intro!: exI [of _ "Suc step"])
        qed
        then show "safe (bindE (at_int (wnodes w') node') (\<lambda>n. if link_next n = [] then Inr (w', int step + 1)
             else grow_path k nodes_size (int p) (int step + 1) node' w')) ?Q"
          by (intro safe_bind) (use rec in auto)
      qed
      have "safe (Inr (w, int step)) ?Q"
        using growing_end(1,2) [OF g new] Suc.prems(3) by (auto intro!: exI [of _ step])
      then have "safe (bindE (at_int (wnodes w) node) (\<lambda>n.
               if link_next n = [] then Inr (w, int step)
               else bindE (follow_link (int p) (int step) (link_next n) w) (\<lambda>(w, node).
                    bindE (at_int (wnodes w) node) (\<lambda>n.
                      if link_next n = [] then Inr (w, int step + 1)
                      else grow_path k nodes_size (int p) (int step + 1) node w)))) ?Q"
        by (intro safe_bind) (use fl Suc.prems(3) in \<open>auto simp: inner_def simp del: grow_path.simps\<close>)
      then show ?thesis using True w by (simp add: Let_def)
    qed
  qed
qed

section \<open>The table that comes out\<close>

text \<open>
  Below \<open>p\<close>, the paths have nodes and repeat none before their last one, and have the loop
  heads they end in; the others have none.
\<close>

definition paths_done :: "int \<Rightarrow> path_s list \<Rightarrow> nat \<Rightarrow> bool" where
  "paths_done lim ps p \<longleftrightarrow> wf_paths ps \<and> (\<forall>n < length ps.
     (if n < p then 0 < path_size (ps ! n) \<and> distinct (trail ps n (nat (path_size (ps ! n) - 1))) \<and>
        loop_ends lim ps n (nat (path_size (ps ! n) - 1))
      else path_loop_head (ps ! n) = 0))"

lemma paths_done_loop:
  "paths_done lim ps p \<Longrightarrow> n < length ps \<Longrightarrow> path_loop_head (ps ! n) \<noteq> 0 \<Longrightarrow> loop_path ps n"
  by (auto simp: paths_done_def loop_ends_def loop_path_def split: if_splits)

text \<open>Where a path may start: at the entry for the first, below an earlier position for the others.\<close>

definition start_ok :: "int set \<Rightarrow> path_s list \<Rightarrow> nat \<Rightarrow> node_mid_start_s \<Rightarrow> bool" where
  "start_ok G ps p m \<longleftrightarrow> p = 0 \<and> mid_path_prev m = 0 \<and> mid_path_prev_index m = 0 \<or> mid_ok G ps p 0 m \<and> mid_node m \<noteq> 0"

lemma start_growing:
  assumes d: "paths_done lim ps p" and p: "p < length ps" "path (ps ! p) \<noteq> []"
    and m: "start_ok G ps p m" and ms: "\<And>m. m \<in> set ms \<Longrightarrow> mid_ok G ps p 0 m"
  defines "r \<equiv> (ps ! p)\<lparr>path_used := 1, path := (path (ps ! p))[0 := mid_node m],
      path_prev := mid_path_prev m, path_prev_index := mid_path_prev_index m\<rparr>"
  shows "growing G (ps[p := r]) p 1 (mid_node m) ms"
proof -
  have wf: "wf_paths ps" using d by (simp add: paths_done_def)
  have len: "length (path r) = length (path (ps ! p))" by (simp add: r_def)
  have "wf_paths (ps[p := r]) \<and> ways G (trail (ps[p := r]) p 0)"
    using m unfolding start_ok_def
  proof (elim disjE conjE)
    assume "p = 0" "mid_path_prev m = 0" "mid_path_prev_index m = 0"
    then have "path_prev r = int p" by (simp add: r_def)
    moreover from this have "wf_paths (ps[p := r])"
      by (intro wf_paths_update [OF wf p(1) len]) (use wf_pathsD(1,2) [OF wf p(1)] in \<open>auto simp: r_def\<close>)
    ultimately show ?thesis using trail_root [OF p(1)] by simp
  next
    assume "mid_ok G ps p 0 m" "mid_node m \<noteq> 0"
    then obtain q t where q: "path_prev r = int q" "path_prev_index r = int t" "inside ps q (Suc t)"
      "ways G (trail ps q (Suc t))" "q < p" by (auto simp: mid_ok_def r_def)
    then have "wf_paths (ps[p := r])"
      by (intro wf_paths_update [OF wf p(1) len])
        (use wf_pathsD(1,2) [OF wf p(1)] in \<open>auto simp: r_def inside_def\<close>)
    then show ?thesis using trail_branch [OF p(1) q(1,2,5)] q(4) by simp
  qed
  moreover have "mid_ok G (ps[p := r]) p 0 x" if x: "x \<in> set ms" for x
  proof -
    have "trail (ps[p := r]) q (Suc t) = trail ps q (Suc t)" if "q < p" for q t
      by (rule trail_update_later [OF that])
    then show ?thesis using ms [OF x] inside_update [OF p(1) len] unfolding mid_ok_def by auto
  qed
  moreover have "path_loop_head (ps ! p) = 0" using d p(1) by (auto simp: paths_done_def)
  ultimately show ?thesis using p by (simp add: growing_def inside_def r_def Suc_le_eq)
qed

lemma grown_done:
  assumes d: "paths_done lim ps p" and g: "grown lim G ps' p step ms" and same: "\<exists>r. ps' = ps[p := r]" and p: "p < length ps"
  shows "paths_done lim (ps'[p := (ps' ! p)\<lparr>path_size := int step\<rparr>]) (Suc p) \<and>
    (\<forall>m \<in> set ms. mid_ok G (ps'[p := (ps' ! p)\<lparr>path_size := int step\<rparr>]) (Suc p) 0 m)"
proof -
  let ?r = "(ps' ! p)\<lparr>path_size := int step\<rparr>"
  let ?ps = "ps'[p := ?r]"
  have len: "length ps' = length ps" "p < length ps'" using same p by auto
  have wf: "wf_paths ps'" "inside ps' p step" "0 < step" using g by (auto simp: grown_def)
  have r: "path_prev ?r = path_prev (ps' ! p)" "path_prev_index ?r = path_prev_index (ps' ! p)"
    "path ?r = path (ps' ! p)" by simp_all
  have wf': "wf_paths ?ps"
    by (rule wf_paths_update [OF wf(1) len(2)])
      (use wf wf_pathsD [OF wf(1) len(2)] len in \<open>auto simp: branches_def wf_paths_def inside_def\<close>)
  have tr: "trail ?ps p s = trail ps' p s" for s by (rule trail_update [OF len(2) r(1,2)]) simp
  have mids: "mid_ok G ?ps (Suc p) 0 m" if "m \<in> set ms" for m
  proof (rule mid_ok_mono [of _ _ p step])
    show "mid_ok G ?ps p step m" by (rule mid_ok_update [OF len(2) r(1,2)]) (use that g in \<open>auto simp: grown_def\<close>)
  qed simp
  have other: "?ps ! n = ps ! n" if "n \<noteq> p" for n using same that by auto
  have trail_other: "trail ?ps n s = trail ps n s" if "n < p" for n s
  proof -
    obtain r' where "ps' = ps[p := r']" using same by blast
    then show ?thesis using trail_update_later [OF that] by simp
  qed
  have mine: "?ps ! p = ?r" using len(2) by simp
  have loop: "loop_ends lim ?ps n s \<longleftrightarrow> loop_ends lim ps n s" if "n < p" for n s
    unfolding loop_ends_def trail_other [OF that] other [OF less_imp_neq [OF that]] ..
  have size: "nat (path_size (?ps ! p) - 1) = step - 1" using wf(3) unfolding mine by (simp add: nat_diff_distrib)
  have same_path: "path (?ps ! p) = path (ps' ! p)" "path_loop_head (?ps ! p) = path_loop_head (ps' ! p)"
    by (simp_all add: mine)
  have "loop_ends lim ps' p (step - 1)" using g by (simp only: grown_def)
  then have "loop_ends lim ?ps p (step - 1)" unfolding loop_ends_def same_path tr .
  moreover have "distinct (trail ?ps p (step - 1))" using g unfolding tr grown_def by simp
  ultimately have last: "0 < path_size (?ps ! p) \<and> distinct (trail ?ps p (nat (path_size (?ps ! p) - 1))) \<and>
      loop_ends lim ?ps p (nat (path_size (?ps ! p) - 1))"
    unfolding size using wf(3) by (simp add: mine)
  have "paths_done lim ?ps (Suc p)"
    unfolding paths_done_def
  proof (intro conjI allI impI wf')
    fix n assume "n < length ?ps"
    then have n: "if n < p then 0 < path_size (ps ! n) \<and> distinct (trail ps n (nat (path_size (ps ! n) - 1))) \<and>
        loop_ends lim ps n (nat (path_size (ps ! n) - 1)) else path_loop_head (ps ! n) = 0"
      using d len by (simp add: paths_done_def)
    show "if n < Suc p then 0 < path_size (?ps ! n) \<and> distinct (trail ?ps n (nat (path_size (?ps ! n) - 1))) \<and>
        loop_ends lim ?ps n (nat (path_size (?ps ! n) - 1)) else path_loop_head (?ps ! n) = 0"
    proof (cases n p rule: linorder_cases)
      case less
      then show ?thesis using n other [of n] trail_other [OF less] loop [OF less] by simp
    next
      case equal
      then show ?thesis using last by simp
    next
      case greater
      then show ?thesis using n other [of n] by simp
    qed
  qed
  with mids show ?thesis by blast
qed

lemma one_path_safe:
  assumes d: "paths_done nodes_size (wpaths w) p" and m: "start_ok G (wpaths w) p (wmids w ! n)"
    and G: "inner (wnodes w) = G"
    and ms: "\<And>i. i < length (wmids w) \<Longrightarrow> i \<noteq> n \<Longrightarrow> mid_ok G (wpaths w) p 0 (wmids w ! i)"
  shows "safe (one_path nodes_size (int p) n w) (\<lambda>w'. length (wpaths w') = length (wpaths w) \<and>
    paths_done nodes_size (wpaths w') (Suc p) \<and> (\<forall>m \<in> set (wmids w'). mid_ok G (wpaths w') (Suc p) 0 m) \<and> inner (wnodes w') = G)"
proof -
  let ?ps = "wpaths w" and ?m = "wmids w ! n"
  let ?r = "(?ps ! p)\<lparr>path_used := 1, path := (path (?ps ! p))[0 := mid_node ?m],
      path_prev := mid_path_prev ?m, path_prev_index := mid_path_prev_index ?m\<rparr>"
  let ?w = "w\<lparr>wpaths := ?ps[p := ?r], wmids := (wmids w)[n := ?m\<lparr>mid_node := 0\<rparr>]\<rparr>"
  show ?thesis
  proof (cases "n < length (wmids w) \<and> p < length ?ps \<and> path (?ps ! p) \<noteq> []")
    case True
    then have p: "n < length (wmids w)" "p < length ?ps" "path (?ps ! p) \<noteq> []" by auto
    have mids: "mid_ok G ?ps p 0 x" if "x \<in> set (wmids ?w)" for x
    proof -
      from that obtain i where i: "i < length (wmids w)" "x = (wmids w)[n := ?m\<lparr>mid_node := 0\<rparr>] ! i"
        by (auto simp: in_set_conv_nth)
      show ?thesis
      proof (cases "i = n")
        case True
        then have "mid_node x = 0" using i by simp
        then show ?thesis by (simp add: mid_ok_def)
      next
        case False
        then show ?thesis using i ms [of i] by simp
      qed
    qed
    have g: "growing G (wpaths ?w) p 1 (mid_node ?m) (wmids ?w)"
      using start_growing [OF d p(2,3) m mids] by simp
    have fuel: "length (path (wpaths ?w ! p)) < 1 + Suc (length (path (wpaths ?w ! p)))" by simp
    have G': "inner (wnodes ?w) = G" using G by simp
    have run: "one_path nodes_size (int p) n w =
      bindE (grow_path (Suc (length (path (wpaths ?w ! p)))) nodes_size (int p) (int 1) (mid_node ?m) ?w)
        (\<lambda>(w, step). bindE (at_int (wpaths w) (int p)) (\<lambda>r.
           Inr (w\<lparr>wpaths := (wpaths w)[p := r\<lparr>path_size := step\<rparr>]\<rparr>)))"
      using p by (simp add: one_path_def start_path_def at_int_def del: grow_path.simps)
    show ?thesis unfolding run
    proof (rule safe_step [OF grow_path_safe [OF g fuel G']], elim case_prodE exE conjE)
      fix x :: "path_walk \<times> int" and w' step' step
      assume x: "x = (w', step')" "step' = int step" and i: "inner (wnodes w') = G"
        and e: "grown nodes_size G (wpaths w') p step (wmids w')" "same_but p (wpaths ?w) (wpaths w')"
      then have s: "\<exists>r. wpaths w' = ?ps[p := r]" by (auto simp: same_but_def)
      then have "length (wpaths w') = length ?ps" by auto
      then show "safe (case x of (w, step) \<Rightarrow> bindE (at_int (wpaths w) (int p)) (\<lambda>r. Inr (w\<lparr>wpaths := (wpaths w)[p := r\<lparr>path_size := step\<rparr>]\<rparr>)))
        (\<lambda>w'. length (wpaths w') = length ?ps \<and> paths_done nodes_size (wpaths w') (Suc p) \<and>
          (\<forall>m \<in> set (wmids w'). mid_ok G (wpaths w') (Suc p) 0 m) \<and> inner (wnodes w') = G)"
        using grown_done [OF d e(1) s p(2)] p(2) i unfolding x by (simp add: at_int_def)
    qed
  next
    case False
    then show ?thesis by (auto simp: one_path_def start_path_def at_def at_int_def)
  qed
qed

lemma explore_safe:
  assumes "paths_done nodes_size (wpaths w) p" "inner (wnodes w) = G" "0 < p" "\<And>m. m \<in> set (wmids w) \<Longrightarrow> mid_ok G (wpaths w) p 0 m"
    and "p < nat paths_size" "nat paths_size \<le> p + k"
  shows "safe (explore k nodes_size paths_size (int p) w) (\<lambda>(_, n, w').
    length (wpaths w') = length (wpaths w) \<and> paths_done nodes_size (wpaths w') (nat n))"
  using assms
proof (induction k arbitrary: p w)
  case (Suc k)
  have nat: "nat (int (Suc p)) = Suc p" by (rule nat_int)
  show ?case
  proof (cases "index_of (\<lambda>m. mid_node m \<noteq> 0) (wmids w)")
    case None
    then show ?thesis using Suc.prems(1) by simp
  next
    case (Some n)
    then have n: "n < length (wmids w)" "mid_node (wmids w ! n) \<noteq> 0" using index_of_Some [OF Some] by auto
    have "start_ok G (wpaths w) p (wmids w ! n)" using n Suc.prems(4) by (simp add: start_ok_def)
    note one = one_path_safe [OF Suc.prems(1) this Suc.prems(2)]
    have s: "int p + 1 = int (Suc p)" by simp
    have run: "explore (Suc k) nodes_size paths_size (int p) w =
      bindE (one_path nodes_size (int p) n w) (\<lambda>w.
            if paths_size \<le> int (Suc p) then Inr (1, int (Suc p), w)
            else explore k nodes_size paths_size (int (Suc p)) w)"
      unfolding explore.simps Some option.case s ..
    show ?thesis unfolding run
    proof (rule safe_step [OF one])
      fix w' :: path_walk assume w': "length (wpaths w') = length (wpaths w) \<and> paths_done nodes_size (wpaths w') (Suc p) \<and>
        (\<forall>m \<in> set (wmids w'). mid_ok G (wpaths w') (Suc p) 0 m) \<and> inner (wnodes w') = G"
      have "safe (explore k nodes_size paths_size (int (Suc p)) w') (\<lambda>(_, n, w'').
          length (wpaths w'') = length (wpaths w') \<and> paths_done nodes_size (wpaths w'') (nat n))" if "\<not> paths_size \<le> int (Suc p)"
        by (rule Suc.IH) (use w' Suc.prems(6) that in auto)
      then show "safe (if paths_size \<le> int (Suc p) then Inr (1, int (Suc p), w')
            else explore k nodes_size paths_size (int (Suc p)) w') (\<lambda>(_, n, w'').
          length (wpaths w'') = length (wpaths w) \<and> paths_done nodes_size (wpaths w'') (nat n))"
        using w' nat by (auto elim: safe_mono simp del: of_nat_Suc)
    qed (use n Suc.prems(4) in auto)
  qed
qed simp

text \<open>The table as \<open>calloc\<close> leaves it, each path with its buffer.\<close>

definition cleared :: "path_s list \<Rightarrow> bool" where
  "cleared ps \<longleftrightarrow> list_all (\<lambda>r. path_prev r = 0 \<and> path_prev_index r = 0 \<and> path_size r = 0 \<and>
     path_loop_head r = 0 \<and> path r \<noteq> []) ps"

lemma cleared_done:
  assumes "cleared ps" shows "paths_done nodes_size ps 0"
proof -
  have c: "path_prev (ps ! n) = 0 \<and> path_prev_index (ps ! n) = 0 \<and> path_size (ps ! n) = 0 \<and>
     path_loop_head (ps ! n) = 0 \<and> path (ps ! n) \<noteq> []" if "n < length ps" for n
    using assms that by (simp add: cleared_def list_all_length)
  moreover have "path (ps ! 0) \<noteq> []" if "n < length ps" for n using c [of 0] that by (metis length_greater_0_conv list.size(3) not_less_zero)
  ultimately show ?thesis by (simp add: paths_done_def wf_paths_def branches_def)
qed

lemma build_control_flow_paths_safe:
  assumes "cleared ps"
  shows "safe (build_control_flow_paths nodes nodes_size ps paths_size start)
    (\<lambda>(_, n, w'). length (wpaths w') = length ps \<and> paths_done nodes_size (wpaths w') (nat n))"
proof -
  note d = cleared_done [OF assms]
  define ms where "ms = (replicate 1000 no_mid)[0 := no_mid\<lparr>mid_node := start\<rparr>]"
  define w where "w = \<lparr>wpaths = ps, wnodes = nodes, wmids = ms\<rparr>"
  have len: "length ms = 1000" by (simp add: ms_def)
  have m0: "ms ! 0 = no_mid\<lparr>mid_node := start\<rparr>" unfolding ms_def by (rule nth_list_update_eq) simp
  have m: "ms ! i = no_mid" if "i < 1000" "i \<noteq> 0" for i using that by (simp add: ms_def)
  show ?thesis
  proof (cases "index_of (\<lambda>m. mid_node m \<noteq> 0) ms")
    case None
    then show ?thesis using d unfolding build_control_flow_paths_def ms_def [symmetric] by simp
  next
    case (Some n)
    then have n: "n < 1000" "mid_node (ms ! n) \<noteq> 0" using index_of_Some [OF Some] len by auto
    then have n0: "n = 0" using m [of n] by (cases "n = 0") (simp_all add: no_mid_def)
    have ok: "start_ok (inner nodes) (wpaths w) 0 (wmids w ! n)" by (simp add: start_ok_def w_def n0 m0 no_mid_def)
    have mids: "mid_ok (inner nodes) (wpaths w) 0 0 (wmids w ! i)" if "i < length (wmids w)" "i \<noteq> n" for i
      using m [of i] that len by (simp add: mid_ok_def w_def n0 no_mid_def)
    have run: "build_control_flow_paths nodes nodes_size ps paths_size start =
      bindE (one_path nodes_size (int 0) n w) (\<lambda>w.
            if paths_size \<le> int (Suc 0) then Inr (1, int (Suc 0), w)
            else explore (nat paths_size) nodes_size paths_size (int (Suc 0)) w)"
      using Some unfolding build_control_flow_paths_def ms_def [symmetric] w_def by (simp cong: if_cong)
    have "wpaths w = ps" by (simp add: w_def)
    have "inner (wnodes w) = inner nodes" by (simp add: w_def)
    note one = one_path_safe [OF _ ok this mids, unfolded \<open>wpaths w = ps\<close>, OF d]
    show ?thesis unfolding run
    proof (rule safe_step [OF one])
      fix w' :: path_walk assume w': "length (wpaths w') = length ps \<and> paths_done nodes_size (wpaths w') (Suc 0) \<and>
        (\<forall>m \<in> set (wmids w'). mid_ok (inner nodes) (wpaths w') (Suc 0) 0 m) \<and> inner (wnodes w') = inner nodes"
      have "safe (explore (nat paths_size) nodes_size paths_size (int (Suc 0)) w') (\<lambda>(_, n, w'').
          length (wpaths w'') = length (wpaths w') \<and> paths_done nodes_size (wpaths w'') (nat n))"
        if "\<not> paths_size \<le> int (Suc 0)"
        by (rule explore_safe) (use w' that in auto)
      then show "safe (if paths_size \<le> int (Suc 0) then Inr (1, int (Suc 0), w')
            else explore (nat paths_size) nodes_size paths_size (int (Suc 0)) w') (\<lambda>(_, n, w'').
          length (wpaths w'') = length ps \<and> paths_done nodes_size (wpaths w'') (nat n))"
        using w' by (auto elim: safe_mono)
    qed
  qed
qed

text \<open>
  C8. From a cleared table build_control_flow_paths ends, at the latest when the buffers or
  the table are full, and leaves well-formed paths: each branches off an earlier one inside
  its buffer and none repeats a node before its last one. The loop head of a path is its
  last node whenever that repeats an earlier node, and when it does not, no loop head is set
  unless the walk back came to its limit.
\<close>
theorem build_control_flow_paths_ends:
  assumes "cleared ps"
  shows "safe (build_control_flow_paths nodes nodes_size ps paths_size start)
    (\<lambda>(_, n, w'). length (wpaths w') = length ps \<and> paths_done nodes_size (wpaths w') (nat n))"
  by (rule build_control_flow_paths_safe [OF assms])

text \<open>
  C9. build_control_flow_loops on the table that build_control_flow_paths made returns 0 and
  collects, for every loop head, exactly the nodes of the cycles of the paths that end in
  it, once each; no two loops have the same head and no loop path is left out.
\<close>
theorem paths_then_loops:
  assumes "cleared ps" "build_control_flow_paths nodes nodes_size ps paths_size start = Inr (c, n, w)"
    and "\<And>i. i < length ls \<Longrightarrow> head (ls ! i) = 0 \<and> loop_list (ls ! i) = []"
    and "build_control_flow_loops (wpaths w) n ls = Inr (r, ls')"
  shows "r = 0 \<and> collected (wpaths w) {0 ..< nat n} ls'"
proof -
  have d: "paths_done nodes_size (wpaths w) (nat n)"
    using build_control_flow_paths_safe [OF assms(1), of nodes nodes_size paths_size start] assms(2) by simp
  then have "wf_paths (wpaths w)" by (simp add: paths_done_def)
  from loops_collected [OF this paths_done_loop [OF d] assms(3,4)] show ?thesis .
qed

end
