(* ===== verification/Nodes.thy ===== *)
theory Nodes
  imports Dominance
begin

text \<open>
  \<open>src/analyse/analyse.c\<close>, from the instruction log to the nodes of the control flow graph:
  \<open>tidy_inst_log\<close> drops repeated links, \<open>build_control_flow_nodes\<close> cuts the log into nodes,
  \<open>find_node_from_inst\<close> finds the node of an instruction. What tidying a list gives is shown
  here, the rest in the theories that follow.
\<close>

section \<open>Tidying the log\<close>

text \<open>
  Of equal entries all but the last become 0. Only \<open>prev\<close> and \<open>next\<close> lists of more than one
  entry are looked at.
\<close>

fun zero_repeats :: "int list \<Rightarrow> int list" where
  "zero_repeats [] = []"
| "zero_repeats (x # xs) = (if x \<in> set xs then 0 else x) # zero_repeats xs"

text \<open>
  Zero entries are dropped, but the entry that moves into the place of a dropped one is not
  looked at, and neither is the last one.
\<close>

fun drop_zeros :: "int list \<Rightarrow> int list" where
  "drop_zeros (x # y # xs) = (if x = 0 then y # drop_zeros xs else x # drop_zeros (y # xs))"
| "drop_zeros xs = xs"

definition tidy_links :: "int list \<Rightarrow> int list" where
  "tidy_links xs = (if 1 < length xs then drop_zeros (zero_repeats xs) else xs)"

definition tidy_entry :: "inst_log_entry_s \<Rightarrow> inst_log_entry_s" where
  "tidy_entry e =
     (let p = tidy_links (prev e)
      in e\<lparr>next_inst := tidy_links (next_inst e), prev := (if p = [0] then [] else p)\<rparr>)"

fun tidy_entries :: "nat list \<Rightarrow> inst_log_entry_s list \<Rightarrow> inst_log_entry_s list c" where
  "tidy_entries [] log = Inr log"
| "tidy_entries (n # ns) log = bindE (at log n) (\<lambda>e. tidy_entries ns (log[n := tidy_entry e]))"

definition tidy_inst_log :: "nat \<Rightarrow> inst_log_entry_s list \<Rightarrow> inst_log_entry_s list c" where
  "tidy_inst_log inst_log log = tidy_entries [1 ..< inst_log] log"

section \<open>Where nodes start and end\<close>

definition mark_start :: "int \<Rightarrow> inst_log_entry_s list \<Rightarrow> inst_log_entry_s list c" where
  "mark_start i log = bindE (at_int log i) (\<lambda>e. Inr (log[nat i := e\<lparr>node_start := 1\<rparr>]))"

definition mark_end :: "int \<Rightarrow> inst_log_entry_s list \<Rightarrow> inst_log_entry_s list c" where
  "mark_end i log = bindE (at_int log i) (\<lambda>e. Inr (log[nat i := e\<lparr>node_end := 1\<rparr>]))"

fun mark_starts :: "int list \<Rightarrow> inst_log_entry_s list \<Rightarrow> inst_log_entry_s list c" where
  "mark_starts [] log = Inr log"
| "mark_starts (i # is) log = bindE (mark_start i log) (mark_starts is)"

text \<open>The predecessors end their nodes; the only successor of one starts a node.\<close>

definition mark_pred :: "int \<Rightarrow> inst_log_entry_s list \<Rightarrow> inst_log_entry_s list c" where
  "mark_pred i log =
     bindE (mark_end i log) (\<lambda>log.
     bindE (at_int log i) (\<lambda>e.
       case next_inst e of [s] \<Rightarrow> mark_start s log | _ \<Rightarrow> Inr log))"

fun mark_preds :: "int list \<Rightarrow> inst_log_entry_s list \<Rightarrow> inst_log_entry_s list c" where
  "mark_preds [] log = Inr log"
| "mark_preds (i # is) log = bindE (mark_pred i log) (mark_preds is)"

definition scan_inst :: "nat \<Rightarrow> inst_log_entry_s list \<Rightarrow> inst_log_entry_s list c" where
  "scan_inst n log =
     bindE (at log n) (\<lambda>e.
     bindE (if length (next_inst e) \<noteq> 1 then bindE (mark_end (int n) log) (mark_starts (next_inst e)) else Inr log) (\<lambda>log.
       if length (prev e) \<noteq> 1 then bindE (mark_start (int n) log) (mark_preds (prev e)) else Inr log))"

fun scan_insts :: "nat list \<Rightarrow> inst_log_entry_s list \<Rightarrow> inst_log_entry_s list c" where
  "scan_insts [] log = Inr log"
| "scan_insts (n # ns) log = bindE (scan_inst n log) (scan_insts ns)"

section \<open>The nodes\<close>

text \<open>The walk from the start of a node to its end, with the number of the last instruction.\<close>

fun number_walk :: "nat \<Rightarrow> int \<Rightarrow> int \<Rightarrow> inst_log_entry_s list \<Rightarrow> (int \<times> inst_log_entry_s list) c" where
  "number_walk 0 node i log = Inl Diverge"
| "number_walk (Suc k) node i log =
     bindE (at_int log i) (\<lambda>e.
     bindE (at (next_inst e) 0) (\<lambda>t.
     bindE (at_int log t) (\<lambda>f.
       let log = log[nat t := f\<lparr>node_member := node\<rparr>]
       in if node_end f \<noteq> 0 then Inr (t, log) else number_walk k node t log)))"

definition number_node :: "nat \<Rightarrow> int \<Rightarrow> inst_log_entry_s list \<Rightarrow> (int \<times> inst_log_entry_s list) c" where
  "number_node n node log =
     bindE (at log n) (\<lambda>e.
       let log = log[n := e\<lparr>node_member := node\<rparr>]
       in if node_end e = 0 then number_walk (Suc (length log)) node (int n) log else Inr (int n, log))"

text \<open>Nodes are numbered from 1 on; the table comes with the number of the next one.\<close>

fun number_nodes :: "nat list \<Rightarrow> nat \<Rightarrow> control_flow_node_s list \<Rightarrow> inst_log_entry_s list \<Rightarrow>
    (nat \<times> control_flow_node_s list \<times> inst_log_entry_s list) c" where
  "number_nodes [] node nodes log = Inr (node, nodes, log)"
| "number_nodes (n # ns) node nodes log =
     bindE (at log n) (\<lambda>e.
       if node_start e = 0 then number_nodes ns node nodes log
       else bindE (number_node n (int node) log) (\<lambda>(last, log).
            bindE (at nodes node) (\<lambda>r.
              number_nodes ns (Suc node)
                (nodes[node := r\<lparr>inst_start := int n, inst_end := last, node_valid := 1\<rparr>]) log)))"

section \<open>Their links\<close>

text \<open>The node an instruction is in: the walk back to its start, along the first predecessors.\<close>

fun find_start :: "nat \<Rightarrow> inst_log_entry_s list \<Rightarrow> int \<Rightarrow> int c" where
  "find_start 0 log i = Inl Diverge"
| "find_start (Suc k) log i =
     bindE (at_int log i) (\<lambda>e.
       if node_start e \<noteq> 0 then Inr (node_member e)
       else case prev e of
              [] \<Rightarrow> Inr 0
            | p # _ \<Rightarrow> if p = 0 then Inr 0 else find_start k log p)"

definition find_node_from_inst :: "inst_log_entry_s list \<Rightarrow> int \<Rightarrow> int c" where
  "find_node_from_inst log i = find_start (Suc (length log)) log i"

fun find_nodes :: "inst_log_entry_s list \<Rightarrow> int list \<Rightarrow> int list c" where
  "find_nodes log [] = Inr []"
| "find_nodes log (i # is) =
     bindE (find_node_from_inst log i) (\<lambda>x. bindE (find_nodes log is) (\<lambda>xs. Inr (x # xs)))"

definition new_link :: "int \<Rightarrow> node_link_s" where
  "new_link x = \<lparr>link_node = x, is_normal = 0, is_loop_edge = 0, is_loop_exit = 0, is_loop_entry = 0\<rparr>"

definition link_one :: "inst_log_entry_s list \<Rightarrow> control_flow_node_s \<Rightarrow> control_flow_node_s c" where
  "link_one log node =
     bindE (at_int log (inst_start node)) (\<lambda>e.
     bindE (find_nodes log (prev e)) (\<lambda>ps.
     let node = (if prev e = [] then node
                 else node\<lparr>prev_node := ps, prev_link_index := map (\<lambda>_. 0) ps\<rparr>) in
     bindE (at_int log (inst_end node)) (\<lambda>e.
     bindE (find_nodes log (next_inst e)) (\<lambda>ns.
       Inr (if next_inst e = [] then node else node\<lparr>link_next := map new_link ns\<rparr>)))))"

text \<open>The place of each link in the node it comes from, entered at the node it leads to.\<close>

definition index_prev :: "int \<Rightarrow> int \<Rightarrow> control_flow_node_s \<Rightarrow> control_flow_node_s" where
  "index_prev n m node =
     node\<lparr>prev_link_index := map (\<lambda>(p, ix). if p = n then m else ix) (zip (prev_node node) (prev_link_index node))\<rparr>"

fun index_links :: "int \<Rightarrow> int \<Rightarrow> node_link_s list \<Rightarrow> control_flow_node_s list \<Rightarrow> control_flow_node_s list c" where
  "index_links n m [] nodes = Inr nodes"
| "index_links n m (l # ls) nodes =
     bindE (at_int nodes (link_node l)) (\<lambda>r.
       index_links n (m + 1) ls (nodes[nat (link_node l) := index_prev n m r]))"

fun index_nodes :: "nat list \<Rightarrow> control_flow_node_s list \<Rightarrow> control_flow_node_s list c" where
  "index_nodes [] nodes = Inr nodes"
| "index_nodes (n # ns) nodes =
     bindE (at nodes n) (\<lambda>r. bindE (index_links (int n) 0 (link_next r) nodes) (index_nodes ns))"

text \<open>The result has the number of nodes, the node table and the log.\<close>

definition build_control_flow_nodes ::
  "nat \<Rightarrow> inst_log_entry_s list \<Rightarrow> control_flow_node_s list \<Rightarrow> (nat \<times> control_flow_node_s list \<times> inst_log_entry_s list) c" where
  "build_control_flow_nodes inst_log log nodes =
     bindE (scan_insts [1 ..< inst_log] log) (\<lambda>log.
     bindE (number_nodes [1 ..< inst_log] 1 nodes log) (\<lambda>(node, nodes, log).
     bindE (each_node (\<lambda>_ _ r. link_one log r) [1 ..< node] nodes) (\<lambda>nodes.
     bindE (index_nodes [1 ..< node] nodes) (\<lambda>nodes.
       Inr (node - 1, nodes, log)))))"

section \<open>What the tidying leaves\<close>

lemma zero_repeats_set: "set (zero_repeats xs) - {0} = set xs - {0}"
  by (induction xs) auto

lemma drop_zeros_set: "set (drop_zeros xs) - {0} = set xs - {0}"
  by (induction xs rule: drop_zeros.induct) auto

lemma tidy_links_set: "set (tidy_links xs) - {0} = set xs - {0}"
  by (simp add: tidy_links_def drop_zeros_set zero_repeats_set)

text \<open>Neighbours that both occur again.\<close>

fun neighbours_repeat :: "int list \<Rightarrow> bool" where
  "neighbours_repeat (x # y # xs) = (x \<in> set (y # xs) \<and> y \<in> set xs \<or> neighbours_repeat (y # xs))"
| "neighbours_repeat xs = False"

lemma drop_zeros_keeps:
  assumes "0 \<notin> set xs" "neighbours_repeat xs" shows "0 \<in> set (drop_zeros (zero_repeats xs))"
  using assms
proof (induction xs rule: length_induct)
  case (1 xs)
  then obtain x y zs where xs: "xs = x # y # zs" by (cases xs rule: neighbours_repeat.cases) auto
  have IH: "0 \<in> set (drop_zeros (zero_repeats ys))" if "length ys < length xs" "set ys \<subseteq> set xs" "neighbours_repeat ys" for ys
    using 1 that by blast
  show ?case
  proof (cases "x \<in> set (y # zs)")
    case False
    then have "neighbours_repeat (y # zs)" using 1 xs by auto
    then have "0 \<in> set (drop_zeros (zero_repeats (y # zs)))" by (intro IH) (use xs in auto)
    then show ?thesis using False 1 xs by simp
  next
    case True
    show ?thesis
    proof (cases "y \<in> set zs")
      case yes: True
      then show ?thesis using True xs by auto
    next
      case no: False
      then have "neighbours_repeat zs" using 1 xs by (cases zs) auto
      then have "0 \<in> set (drop_zeros (zero_repeats zs))" using IH [of zs] xs by auto
      then show ?thesis using True xs by auto
    qed
  qed
qed

lemma drop_zeros_remdups:
  assumes "0 \<notin> set xs" "\<not> neighbours_repeat xs" shows "drop_zeros (zero_repeats xs) = remdups xs"
  using assms
proof (induction xs rule: length_induct)
  case (1 xs)
  have IH: "drop_zeros (zero_repeats ys) = remdups ys" if "length ys < length xs" "set ys \<subseteq> set xs" "\<not> neighbours_repeat ys" for ys
    using 1 that by blast
  show ?case
  proof (cases xs rule: neighbours_repeat.cases)
    case (1 x y zs)
    have rest: "drop_zeros (zero_repeats (y # zs)) = remdups (y # zs)" "drop_zeros (zero_repeats zs) = remdups zs"
    proof -
      show "drop_zeros (zero_repeats (y # zs)) = remdups (y # zs)" by (rule IH) (use 1 "1.prems" in auto)
      show "drop_zeros (zero_repeats zs) = remdups zs" by (rule IH) (use 1 "1.prems" in \<open>cases zs; auto\<close>)+
    qed
    show ?thesis using rest "1.prems" 1 by auto
  qed simp_all
qed

text \<open>
  C12. Tidying a list of links without a 0 gives the links once each, in the order of their
  last occurrences, when no two neighbouring entries are both repeated later; otherwise a 0
  is left in the list beside the links.
\<close>
theorem tidy_links_remdups:
  assumes "0 \<notin> set xs"
  shows "if neighbours_repeat xs then set (tidy_links xs) = insert 0 (set xs) else tidy_links xs = remdups xs"
proof (cases "1 < length xs")
  case True
  then show ?thesis using drop_zeros_keeps [OF assms] drop_zeros_remdups [OF assms] tidy_links_set [of xs] assms
    by (auto simp: tidy_links_def)
next
  case False
  then show ?thesis by (cases xs rule: neighbours_repeat.cases) (auto simp: tidy_links_def)
qed

end
