(* ===== verification/NodeMarks.thy ===== *)
theory NodeMarks
  imports Nodes
begin

text \<open>
  The first loop of \<open>build_control_flow_nodes\<close>: which instructions it marks as starts and ends
  of nodes. For a log with mutual links these are the places where the flow joins or splits.
\<close>


section \<open>What the scan marks\<close>

text \<open>The log with more instructions marked as starts and ends, and nothing else changed.\<close>

definition marked :: "int set \<Rightarrow> int set \<Rightarrow> inst_log_entry_s list \<Rightarrow> inst_log_entry_s list \<Rightarrow> bool" where
  "marked A B log log' \<longleftrightarrow> length log' = length log \<and>
     (\<forall>i < length log. prev (log' ! i) = prev (log ! i) \<and> next_inst (log' ! i) = next_inst (log ! i) \<and>
        (node_start (log' ! i) \<noteq> 0 \<longleftrightarrow> node_start (log ! i) \<noteq> 0 \<or> int i \<in> A) \<and>
        (node_end (log' ! i) \<noteq> 0 \<longleftrightarrow> node_end (log ! i) \<noteq> 0 \<or> int i \<in> B))"

lemma marked_refl: "marked {} {} log log"
  by (simp add: marked_def)

lemma marked_trans: "marked A B a b \<Longrightarrow> marked C D b c \<Longrightarrow> marked (A \<union> C) (B \<union> D) a c"
  by (auto simp: marked_def)

lemma marked_step:
  assumes "safe m (marked A B log)" "\<And>log'. marked A B log log' \<Longrightarrow> safe (f log') (marked C D log')"
  shows "safe (bindE m f) (marked (A \<union> C) (B \<union> D) log)"
  by (rule safe_step [OF assms(1)]) (blast intro: safe_mono [OF assms(2)] marked_trans)

lemma mark_start_marked: "safe (mark_start i log) (marked {i} {} log)"
  by (auto simp: mark_start_def at_int_def marked_def nth_list_update split: if_splits)

lemma mark_end_marked: "safe (mark_end i log) (marked {} {i} log)"
  by (auto simp: mark_end_def at_int_def marked_def nth_list_update split: if_splits)

lemma mark_starts_marked: "safe (mark_starts is log) (marked (set is) {} log)"
proof (induction "is" arbitrary: log)
  case (Cons i "is")
  show ?case using marked_step [OF mark_start_marked Cons.IH] by simp
qed (simp add: marked_refl)

text \<open>The marks of one instruction depend on the links of the log only.\<close>

definition only_next :: "inst_log_entry_s list \<Rightarrow> int list \<Rightarrow> int set" where
  "only_next log ps = {s. \<exists>p \<in> set ps. 0 \<le> p \<and> p < int (length log) \<and> next_inst (log ! nat p) = [s]}"

definition starts_by :: "inst_log_entry_s list \<Rightarrow> nat \<Rightarrow> int set" where
  "starts_by log n =
     (if length (next_inst (log ! n)) \<noteq> 1 then set (next_inst (log ! n)) else {}) \<union>
     (if length (prev (log ! n)) \<noteq> 1 then insert (int n) (only_next log (prev (log ! n))) else {})"

definition ends_by :: "inst_log_entry_s list \<Rightarrow> nat \<Rightarrow> int set" where
  "ends_by log n =
     (if length (next_inst (log ! n)) \<noteq> 1 then {int n} else {}) \<union>
     (if length (prev (log ! n)) \<noteq> 1 then set (prev (log ! n)) else {})"

lemma marked_next: "marked A B log log' \<Longrightarrow> only_next log' ps = only_next log ps"
  by (auto simp: marked_def only_next_def nat_less_iff)

lemma marked_by:
  assumes "marked A B log log'" "n < length log"
  shows "starts_by log' n = starts_by log n" "ends_by log' n = ends_by log n"
  using assms marked_next [OF assms(1)] by (simp_all add: marked_def starts_by_def ends_by_def)

lemma mark_pred_marked: "safe (mark_pred i log) (marked (only_next log [i]) {i} log)"
proof -
  have "safe (bindE (at_int log' i) (\<lambda>e. case next_inst e of [s] \<Rightarrow> mark_start s log' | _ \<Rightarrow> Inr log'))
      (marked (only_next log [i]) {} log')" if m: "marked {} {i} log log'" for log'
  proof (cases "0 \<le> i \<and> i < int (length log')")
    case True
    then have o: "only_next log [i] = {s. next_inst (log' ! nat i) = [s]}"
      using marked_next [OF m, of "[i]"] by (auto simp: only_next_def)
    show ?thesis
    proof (cases "\<exists>s. next_inst (log' ! nat i) = [s]")
      case True
      then obtain s where s: "next_inst (log' ! nat i) = [s]" by blast
      then have "only_next log [i] = {s}" using o by auto
      then show ?thesis using s mark_start_marked [of s log'] \<open>0 \<le> i \<and> _\<close> by (simp add: at_int_def)
    next
      case False
      then have "only_next log [i] = {}" using o by auto
      then show ?thesis using False \<open>0 \<le> i \<and> _\<close>
        by (auto simp: at_int_def marked_refl split: list.splits)
    qed
  qed (auto simp: at_int_def)
  from marked_step [OF mark_end_marked this] show ?thesis by (simp add: mark_pred_def)
qed

lemma mark_preds_marked: "safe (mark_preds is log) (marked (only_next log is) (set is) log)"
proof (induction "is" arbitrary: log)
  case (Cons i "is")
  have "only_next log (i # is) = only_next log [i] \<union> only_next log is" by (auto simp: only_next_def)
  moreover have "safe (mark_preds is log') (marked (only_next log is) (set is) log')"
    if "marked (only_next log [i]) {i} log log'" for log'
    using Cons.IH [of log'] marked_next [OF that] by simp
  ultimately show ?case using marked_step [OF mark_pred_marked] by simp
qed (simp add: marked_refl only_next_def)

lemma scan_inst_marked: "safe (scan_inst n log) (marked (starts_by log n) (ends_by log n) log)"
proof (cases "n < length log")
  case n: True
  let ?e = "log ! n"
  let ?A = "if length (next_inst ?e) \<noteq> 1 then set (next_inst ?e) else {}"
  let ?B = "if length (next_inst ?e) \<noteq> 1 then {int n} else {}"
  have first: "safe (if length (next_inst ?e) \<noteq> 1 then bindE (mark_end (int n) log) (mark_starts (next_inst ?e)) else Inr log)
      (marked ?A ?B log)"
    using marked_step [OF mark_end_marked mark_starts_marked] by (simp add: marked_refl)
  have second: "safe (if length (prev ?e) \<noteq> 1 then bindE (mark_start (int n) log') (mark_preds (prev ?e)) else Inr log')
      (marked (if length (prev ?e) \<noteq> 1 then insert (int n) (only_next log (prev ?e)) else {})
        (if length (prev ?e) \<noteq> 1 then set (prev ?e) else {}) log')" if m: "marked ?A ?B log log'" for log'
  proof (cases "length (prev ?e) \<noteq> 1")
    case True
    have "safe (mark_preds (prev ?e) log'') (marked (only_next log (prev ?e)) (set (prev ?e)) log'')"
      if "marked {int n} {} log' log''" for log''
      using mark_preds_marked [of "prev ?e" log''] marked_next [OF that] marked_next [OF m] by simp
    from marked_step [OF mark_start_marked this] True show ?thesis by simp
  qed (simp add: marked_refl)
  show ?thesis using marked_step [OF first second] n by (simp add: scan_inst_def starts_by_def ends_by_def)
qed (simp add: scan_inst_def)

lemma scan_insts_marked:
  assumes "\<And>n. n \<in> set ns \<Longrightarrow> n < length log"
  shows "safe (scan_insts ns log) (marked (\<Union>n \<in> set ns. starts_by log n) (\<Union>n \<in> set ns. ends_by log n) log)"
  using assms
proof (induction ns arbitrary: log)
  case (Cons n ns)
  have "safe (scan_insts ns log') (marked (\<Union>n \<in> set ns. starts_by log n) (\<Union>n \<in> set ns. ends_by log n) log')"
    if m: "marked (starts_by log n) (ends_by log n) log log'" for log'
  proof -
    have "length log' = length log" using m by (simp add: marked_def)
    then show ?thesis using Cons.IH [of log'] Cons.prems marked_by [OF m] by simp
  qed
  from marked_step [OF scan_inst_marked this] show ?case by simp
qed (simp add: marked_refl)

section \<open>The links of a log without marks\<close>

text \<open>
  The log the scan expects: entries 1 to \<open>m - 1\<close> are linked mutually, entry 0 stands for the
  callers, and nothing is marked.
\<close>

definition graph_log :: "inst_log_entry_s list \<Rightarrow> nat \<Rightarrow> bool" where
  "graph_log log m \<longleftrightarrow> 0 < m \<and> m \<le> length log \<and> prev (log ! 0) = [] \<and>
     (\<forall>i. i < length log \<longrightarrow> node_start (log ! i) = 0 \<and> node_end (log ! i) = 0) \<and>
     (\<forall>i. 1 \<le> i \<and> i < m \<longrightarrow> prev (log ! i) \<noteq> [0] \<and>
        set (next_inst (log ! i)) \<subseteq> {1 ..< int m} \<and> set (prev (log ! i)) \<subseteq> {0 ..< int m}) \<and>
     (\<forall>i j. 1 \<le> i \<and> i < m \<and> 1 \<le> j \<and> j < m \<longrightarrow> (int j \<in> set (next_inst (log ! i)) \<longleftrightarrow> int i \<in> set (prev (log ! j)))) \<and>
     (\<forall>i. 1 \<le> i \<and> i < m \<and> 0 \<in> set (prev (log ! i)) \<longrightarrow> int i \<in> set (next_inst (log ! 0)))"

text \<open>The successors and predecessors of an instruction by its number.\<close>

definition nexts :: "inst_log_entry_s list \<Rightarrow> int \<Rightarrow> int list" where
  "nexts log i = next_inst (log ! nat i)"

definition prevs :: "inst_log_entry_s list \<Rightarrow> int \<Rightarrow> int list" where
  "prevs log i = prev (log ! nat i)"

lemma graph_logD:
  assumes "graph_log log m" "1 \<le> i" "i < int m"
  shows "prevs log i \<noteq> [0]" "s \<in> set (nexts log i) \<Longrightarrow> 1 \<le> s \<and> s < int m"
    "p \<in> set (prevs log i) \<Longrightarrow> 0 \<le> p \<and> p < int m"
    "1 \<le> j \<Longrightarrow> j < int m \<Longrightarrow> j \<in> set (nexts log i) \<longleftrightarrow> i \<in> set (prevs log j)"
    "0 \<in> set (prevs log i) \<Longrightarrow> i \<in> set (nexts log 0)"
proof -
  have n: "1 \<le> nat i" "nat i < m" "int (nat i) = i" using assms(2,3) by (auto simp: One_nat_def)
  note g = assms(1) [unfolded graph_log_def]
  have "prev (log ! nat i) \<noteq> [0] \<and> set (next_inst (log ! nat i)) \<subseteq> {1 ..< int m} \<and> set (prev (log ! nat i)) \<subseteq> {0 ..< int m}"
    using g n(1,2) by blast
  then show "prevs log i \<noteq> [0]" "s \<in> set (nexts log i) \<Longrightarrow> 1 \<le> s \<and> s < int m"
    "p \<in> set (prevs log i) \<Longrightarrow> 0 \<le> p \<and> p < int m" by (auto simp: nexts_def prevs_def)
  show "i \<in> set (nexts log 0)" if "0 \<in> set (prevs log i)"
  proof -
    have "int (nat i) \<in> set (next_inst (log ! 0))" using g n(1,2) that unfolding prevs_def by blast
    then have "i \<in> set (next_inst (log ! 0))" unfolding n(3) .
    then show ?thesis by (simp add: nexts_def)
  qed
  assume "1 \<le> j" "j < int m"
  then have j: "1 \<le> nat j" "nat j < m" "int (nat j) = j" by (auto simp: One_nat_def)
  have "int (nat j) \<in> set (next_inst (log ! nat i)) \<longleftrightarrow> int (nat i) \<in> set (prev (log ! nat j))"
    using g n(1,2) j(1,2) by blast
  then show "j \<in> set (nexts log i) \<longleftrightarrow> i \<in> set (prevs log j)" unfolding nexts_def prevs_def n(3) j(3) .
qed

text \<open>Where nodes start and end, by the links alone.\<close>

definition starts_at :: "inst_log_entry_s list \<Rightarrow> int \<Rightarrow> bool" where
  "starts_at log s = (case prevs log s of [p] \<Rightarrow> length (nexts log p) \<noteq> 1 | _ \<Rightarrow> True)"

definition ends_at :: "inst_log_entry_s list \<Rightarrow> int \<Rightarrow> bool" where
  "ends_at log e = (case nexts log e of [s] \<Rightarrow> length (prevs log s) \<noteq> 1 | _ \<Rightarrow> True)"

lemma starts_at_iff:
  "starts_at log s \<longleftrightarrow> length (prevs log s) \<noteq> 1 \<or> (\<exists>p. prevs log s = [p] \<and> length (nexts log p) \<noteq> 1)"
  by (auto simp: starts_at_def One_nat_def length_Suc_conv split: list.splits)

lemma ends_at_iff:
  "ends_at log e \<longleftrightarrow> length (nexts log e) \<noteq> 1 \<or> (\<exists>s. nexts log e = [s] \<and> length (prevs log s) \<noteq> 1)"
  by (auto simp: ends_at_def One_nat_def length_Suc_conv split: list.splits)

lemma length_1: "length xs = 1 \<Longrightarrow> x \<in> set xs \<Longrightarrow> xs = [x]"
  by (cases xs) (auto simp: One_nat_def)

lemma not_start:
  assumes g: "graph_log log m" and i: "1 \<le> i" "i < int m" and "\<not> starts_at log i"
  obtains p where "prevs log i = [p]" "1 \<le> p" "p < int m" "nexts log p = [i]" "\<not> ends_at log p"
proof -
  have "length (prevs log i) = 1" using assms(4) by (auto simp: starts_at_iff)
  then obtain p where p: "prevs log i = [p]" by (cases "prevs log i") (auto simp: One_nat_def)
  have r: "1 \<le> p" "p < int m" using graph_logD(1,3) [OF g i] p by force+
  have "i \<in> set (nexts log p)" using graph_logD(4) [OF g r i] p by simp
  moreover have "length (nexts log p) = 1" using assms(4) p by (auto simp: starts_at_iff)
  ultimately have n: "nexts log p = [i]" by (rule length_1 [rotated])
  with p have "\<not> ends_at log p" by (simp add: ends_at_iff One_nat_def)
  with p r n show ?thesis by (rule that)
qed

lemma not_end:
  assumes g: "graph_log log m" and i: "1 \<le> i" "i < int m" and "\<not> ends_at log i"
  obtains s where "nexts log i = [s]" "1 \<le> s" "s < int m" "prevs log s = [i]" "\<not> starts_at log s"
proof -
  have "length (nexts log i) = 1" using assms(4) by (auto simp: ends_at_iff)
  then obtain s where s: "nexts log i = [s]" by (cases "nexts log i") (auto simp: One_nat_def)
  have r: "1 \<le> s" "s < int m" using graph_logD(2) [OF g i, of s] s by simp_all
  have "i \<in> set (prevs log s)" using graph_logD(4) [OF g i r] s by simp
  moreover have "length (prevs log s) = 1" using assms(4) s by (auto simp: ends_at_iff)
  ultimately have n: "prevs log s = [i]" by (rule length_1 [rotated])
  with s have "\<not> starts_at log s" by (simp add: starts_at_iff One_nat_def)
  with s r n show ?thesis by (rule that)
qed

lemma next_starts:
  assumes g: "graph_log log m" and i: "1 \<le> i" "i < int m" and e: "ends_at log i" "t \<in> set (nexts log i)"
  shows "starts_at log t"
proof (rule ccontr)
  assume n: "\<not> starts_at log t"
  have t: "1 \<le> t" "t < int m" using graph_logD(2) [OF g i e(2)] by simp_all
  obtain p where p: "prevs log t = [p]" "\<not> ends_at log p" by (rule not_start [OF g t n])
  have "i \<in> set (prevs log t)" using graph_logD(4) [OF g i t] e(2) by simp
  with p e(1) show False by simp
qed

lemma prev_ends:
  assumes g: "graph_log log m" and i: "1 \<le> i" "i < int m" and s: "starts_at log i" "p \<in> set (prevs log i)" "1 \<le> p"
  shows "ends_at log p"
proof (rule ccontr)
  assume n: "\<not> ends_at log p"
  have p: "p < int m" using graph_logD(3) [OF g i s(2)] by simp
  obtain t where t: "nexts log p = [t]" "\<not> starts_at log t" by (rule not_end [OF g s(3) p n])
  have "i \<in> set (nexts log p)" using graph_logD(4) [OF g s(3) p i] s(2) by simp
  with t s(1) show False by simp
qed

text \<open>The scan marks exactly these.\<close>

definition starts_ends :: "inst_log_entry_s list \<Rightarrow> nat \<Rightarrow> inst_log_entry_s list \<Rightarrow> bool" where
  "starts_ends log m log' \<longleftrightarrow> length log' = length log \<and>
     (\<forall>i. 0 \<le> i \<and> i < int (length log) \<longrightarrow> prevs log' i = prevs log i \<and> nexts log' i = nexts log i) \<and>
     (\<forall>i. 1 \<le> i \<and> i < int m \<longrightarrow> (node_start (log' ! nat i) \<noteq> 0 \<longleftrightarrow> starts_at log i) \<and>
        (node_end (log' ! nat i) \<noteq> 0 \<longleftrightarrow> ends_at log i)) \<and> node_start (log' ! 0) = 0"

lemma starts_by_iff:
  assumes g: "graph_log log m" and i: "1 \<le> i" "i < int m"
  shows "(\<exists>n \<in> {1 ..< m}. i \<in> starts_by log n) \<longleftrightarrow> starts_at log i"
proof
  assume s: "starts_at log i"
  show "\<exists>n \<in> {1 ..< m}. i \<in> starts_by log n"
  proof (cases "length (prevs log i) = 1")
    case False
    then have "i \<in> starts_by log (nat i)" using i by (simp add: starts_by_def prevs_def)
    moreover have "nat i \<in> {1 ..< m}" using i by (auto simp: One_nat_def)
    ultimately show ?thesis by blast
  next
    case True
    then obtain p where p: "prevs log i = [p]" "length (nexts log p) \<noteq> 1" using s by (auto simp: starts_at_iff)
    then have r: "1 \<le> p" "p < int m" using graph_logD(1,3) [OF g i] by force+
    have "i \<in> set (nexts log p)" using graph_logD(4) [OF g r i] p by simp
    then have "i \<in> starts_by log (nat p)" using p(2) by (simp add: starts_by_def nexts_def)
    moreover have "nat p \<in> {1 ..< m}" using r by (auto simp: One_nat_def)
    ultimately show ?thesis by blast
  qed
next
  assume "\<exists>n \<in> {1 ..< m}. i \<in> starts_by log n"
  then obtain n where n: "1 \<le> n" "n < m" "i \<in> starts_by log n" by auto
  then have r: "1 \<le> int n" "int n < int m" by (simp_all add: One_nat_def)
  have nx: "nexts log (int n) = next_inst (log ! n)" "prevs log (int n) = prev (log ! n)" by (simp_all add: nexts_def prevs_def)
  consider (many) "length (nexts log (int n)) \<noteq> 1" "i \<in> set (nexts log (int n))"
    | (self) "length (prevs log (int n)) \<noteq> 1" "i = int n"
    | (only) p where "length (prevs log (int n)) \<noteq> 1" "p \<in> set (prevs log (int n))" "nexts log p = [i]"
    using n(3) by (auto simp: starts_by_def only_next_def nx nexts_def split: if_splits)
  then show "starts_at log i"
  proof cases
    case many
    then have "int n \<in> set (prevs log i)" using graph_logD(4) [OF g r i] by simp
    then show ?thesis using many(1) length_1 [of "prevs log i" "int n"] unfolding starts_at_iff by blast
  next
    case self
    then show ?thesis by (simp add: starts_at_iff)
  next
    case only
    have "int n \<in> set (nexts log p)"
    proof (cases "p = 0")
      case True
      then show ?thesis using graph_logD(5) [OF g r] only(2) by simp
    next
      case False
      then have p: "1 \<le> p" "p < int m" using graph_logD(3) [OF g r only(2)] by simp_all
      then show ?thesis using graph_logD(4) [OF g p r] only(2) by simp
    qed
    then show ?thesis using only by (simp add: starts_at_iff)
  qed
qed

lemma ends_by_iff:
  assumes g: "graph_log log m" and i: "1 \<le> i" "i < int m"
  shows "(\<exists>n \<in> {1 ..< m}. i \<in> ends_by log n) \<longleftrightarrow> ends_at log i"
proof
  assume s: "ends_at log i"
  show "\<exists>n \<in> {1 ..< m}. i \<in> ends_by log n"
  proof (cases "length (nexts log i) = 1")
    case False
    then have "i \<in> ends_by log (nat i)" using i by (simp add: ends_by_def nexts_def)
    moreover have "nat i \<in> {1 ..< m}" using i by (auto simp: One_nat_def)
    ultimately show ?thesis by blast
  next
    case True
    then obtain t where t: "nexts log i = [t]" "length (prevs log t) \<noteq> 1" using s by (auto simp: ends_at_iff)
    then have r: "1 \<le> t" "t < int m" using graph_logD(2) [OF g i] by simp_all
    have "i \<in> set (prevs log t)" using graph_logD(4) [OF g i r] t by simp
    then have "i \<in> ends_by log (nat t)" using t(2) by (simp add: ends_by_def prevs_def)
    moreover have "nat t \<in> {1 ..< m}" using r by (auto simp: One_nat_def)
    ultimately show ?thesis by blast
  qed
next
  assume "\<exists>n \<in> {1 ..< m}. i \<in> ends_by log n"
  then obtain n where n: "1 \<le> n" "n < m" "i \<in> ends_by log n" by auto
  then have r: "1 \<le> int n" "int n < int m" by (simp_all add: One_nat_def)
  have nx: "nexts log (int n) = next_inst (log ! n)" "prevs log (int n) = prev (log ! n)" by (simp_all add: nexts_def prevs_def)
  consider (self) "length (nexts log (int n)) \<noteq> 1" "i = int n"
    | (many) "length (prevs log (int n)) \<noteq> 1" "i \<in> set (prevs log (int n))"
    using n(3) by (auto simp: ends_by_def nx split: if_splits)
  then show "ends_at log i"
  proof cases
    case self
    then show ?thesis by (simp add: ends_at_iff)
  next
    case many
    then have "int n \<in> set (nexts log i)" using graph_logD(4) [OF g i r] by simp
    then show ?thesis using many(1) length_1 [of "nexts log i" "int n"] unfolding ends_at_iff by blast
  qed
qed

lemma zero_no_start:
  assumes g: "graph_log log m" and n: "n \<in> {1 ..< m}" shows "0 \<notin> starts_by log n"
proof
  assume s: "0 \<in> starts_by log n"
  from n have r: "1 \<le> int n" "int n < int m" by (simp_all add: One_nat_def)
  have nx: "nexts log (int n) = next_inst (log ! n)" "prevs log (int n) = prev (log ! n)" by (simp_all add: nexts_def prevs_def)
  have "0 \<notin> set (nexts log (int n))" using graph_logD(2) [OF g r, of 0] by auto
  then obtain p where p: "p \<in> set (prevs log (int n))" "nexts log p = [0]"
    using s r unfolding starts_by_def only_next_def nx by (auto simp: nexts_def split: if_splits)
  show False
  proof (cases "p = 0")
    case True
    then have "int n = 0" using graph_logD(5) [OF g r] p by auto
    then show False using r by simp
  next
    case False
    then have "1 \<le> p" "p < int m" using graph_logD(3) [OF g r p(1)] by simp_all
    then show False using graph_logD(2) [OF g, of p 0] p(2) by auto
  qed
qed

lemma scan_marks:
  assumes g: "graph_log log m"
  shows "safe (scan_insts [1 ..< m] log) (starts_ends log m)"
proof (rule safe_mono [OF scan_insts_marked])
  have m: "m \<le> length log" "0 < m" and clear: "\<And>i. i < length log \<Longrightarrow> node_start (log ! i) = 0 \<and> node_end (log ! i) = 0"
    using g by (simp_all add: graph_log_def)
  show "n < length log" if "n \<in> set [1 ..< m]" for n using that m by auto
  fix log' assume k: "marked (\<Union>n \<in> set [1 ..< m]. starts_by log n) (\<Union>n \<in> set [1 ..< m]. ends_by log n) log log'"
  have at: "nat i < length log \<and> int (nat i) = i" if "0 \<le> i \<and> i < int (length log)" for i using that by auto
  show "starts_ends log m log'"
    unfolding starts_ends_def
  proof (intro conjI allI impI)
    show "length log' = length log" using k by (simp add: marked_def)
    show "prevs log' i = prevs log i" "nexts log' i = nexts log i" if "0 \<le> i \<and> i < int (length log)" for i
      using k at [OF that] by (simp_all add: marked_def prevs_def nexts_def)
    show "node_start (log' ! 0) = 0"
    proof -
      have "\<not> (\<exists>n \<in> set [1 ..< m]. 0 \<in> starts_by log n)" using zero_no_start [OF g] by auto
      moreover have len: "0 < length log" using m by linarith
      moreover have "node_start (log' ! 0) \<noteq> 0 \<longleftrightarrow>
          node_start (log ! 0) \<noteq> 0 \<or> (\<exists>n \<in> set [1 ..< m]. int 0 \<in> starts_by log n)"
        using k len unfolding marked_def by blast
      ultimately show ?thesis using clear [OF len] by simp
    qed
    fix i assume i: "1 \<le> i \<and> i < int m"
    then have n: "nat i < length log" "int (nat i) = i" using m by auto
    show "node_start (log' ! nat i) \<noteq> 0 \<longleftrightarrow> starts_at log i"
      using k n clear [OF n(1)] starts_by_iff [OF g, of i] i by (auto simp: marked_def)
    show "node_end (log' ! nat i) \<noteq> 0 \<longleftrightarrow> ends_at log i"
      using k n clear [OF n(1)] ends_by_iff [OF g, of i] i by (auto simp: marked_def)
  qed
qed

end
