(* ===== verification/NodeBlocks.thy ===== *)
theory NodeBlocks
  imports NodeMarks
begin

text \<open>
  The second loop of \<open>build_control_flow_nodes\<close>: the nodes are the blocks, each from a start
  along its only successors to the first end; the walks come to an end.
\<close>


section \<open>Blocks\<close>

text \<open>The instructions from \<open>i\<close> to the end of its node.\<close>

inductive flow :: "inst_log_entry_s list \<Rightarrow> int \<Rightarrow> int list \<Rightarrow> bool" for log where
  flow_end: "ends_at log i \<Longrightarrow> flow log i [i]"
| flow_next: "\<not> ends_at log i \<Longrightarrow> flow log (hd (nexts log i)) xs \<Longrightarrow> flow log i (i # xs)"

inductive_cases flow_endE: "flow log i [x]"
inductive_cases flow_ConsE: "flow log i (x # xs)"
inductive_simps flow_iff: "flow log i xs"

lemma flow_hd: "flow log i xs \<Longrightarrow> xs \<noteq> [] \<and> hd xs = i"
  by (induction rule: flow.induct) auto

lemma flow_last: "flow log i xs \<Longrightarrow> ends_at log (last xs)"
  by (induction rule: flow.induct) (auto dest: flow_hd)

lemma flow_det: "flow log i xs \<Longrightarrow> flow log i ys \<Longrightarrow> xs = ys"
proof (induction arbitrary: ys rule: flow.induct)
  case (flow_end i)
  from flow_end.prems show ?case by (cases rule: flow.cases) (use flow_end.hyps in auto)
next
  case (flow_next i xs)
  from flow_next.prems show ?case
  proof (cases rule: flow.cases)
    case flow_end
    then show ?thesis using flow_next.hyps(1) by simp
  next
    case (flow_next zs)
    then show ?thesis using \<open>\<And>ys. flow log (hd (nexts log i)) ys \<Longrightarrow> xs = ys\<close> by simp
  qed
qed

lemma flow_suffix: "flow log i xs \<Longrightarrow> x \<in> set xs \<Longrightarrow> \<exists>ys zs. xs = zs @ ys \<and> flow log x ys"
proof (induction rule: flow.induct)
  case (flow_end i)
  then have "[i] = [] @ [i] \<and> flow log x [i]" using flow.flow_end by auto
  then show ?case by blast
next
  case (flow_next i xs)
  show ?case
  proof (cases "x = i")
    case True
    then have "i # xs = [] @ (i # xs) \<and> flow log x (i # xs)" using flow.flow_next [OF flow_next.hyps] by simp
    then show ?thesis by blast
  next
    case False
    then obtain ys zs where "xs = zs @ ys" "flow log x ys" using flow_next by auto
    then have "i # xs = (i # zs) @ ys \<and> flow log x ys" by simp
    then show ?thesis by blast
  qed
qed

lemma flow_distinct: "flow log i xs \<Longrightarrow> distinct xs"
proof (induction rule: flow.induct)
  case (flow_next i xs)
  have "i \<notin> set xs"
  proof
    assume "i \<in> set xs"
    then obtain ys zs where "xs = zs @ ys" "flow log i ys" using flow_suffix [OF flow_next.hyps(2)] by blast
    moreover from this have "ys = i # xs" using flow_det flow.flow_next [OF flow_next.hyps] by blast
    ultimately show False by simp
  qed
  then show ?case using flow_next.IH by simp
qed simp

lemma flow_range:
  assumes "graph_log log m"
  shows "flow log i xs \<Longrightarrow> 1 \<le> i \<Longrightarrow> i < int m \<Longrightarrow>
    set xs \<subseteq> {1 ..< int m} \<and> (\<forall>x \<in> set (tl xs). \<not> starts_at log x)"
proof (induction rule: flow.induct)
  case (flow_next i xs)
  obtain s where s: "nexts log i = [s]" "1 \<le> s" "s < int m" "\<not> starts_at log s"
    by (rule not_end [OF assms flow_next.prems flow_next.hyps(1)])
  have "xs \<noteq> [] \<and> hd xs = s" using flow_hd [OF flow_next.hyps(2)] s(1) by simp
  then have "set xs = insert s (set (tl xs))" by (metis list.set(2) list.collapse)
  then show ?case using flow_next s by auto
qed simp

lemma distinct_bound: "distinct xs \<Longrightarrow> set xs \<subseteq> {1 ..< int m} \<Longrightarrow> length xs < max 1 m"
  using card_mono [of "{1 ..< int m}" "set xs"] by (auto simp: distinct_card One_nat_def)

section \<open>Numbering a block\<close>

text \<open>What the scan leaves, however the instructions are numbered.\<close>

lemma starts_endsD:
  assumes "starts_ends log m log'"
  shows "length log' = length log" "node_start (log' ! 0) = 0"
    "0 \<le> i \<Longrightarrow> i < int (length log) \<Longrightarrow> prev (log' ! nat i) = prevs log i \<and> next_inst (log' ! nat i) = nexts log i"
    "1 \<le> i \<Longrightarrow> i < int m \<Longrightarrow> node_start (log' ! nat i) \<noteq> 0 \<longleftrightarrow> starts_at log i"
    "1 \<le> i \<Longrightarrow> i < int m \<Longrightarrow> node_end (log' ! nat i) \<noteq> 0 \<longleftrightarrow> ends_at log i"
  using assms by (auto simp: starts_ends_def prevs_def nexts_def)

definition member :: "inst_log_entry_s list \<Rightarrow> int \<Rightarrow> int" where
  "member log i = node_member (log ! nat i)"

text \<open>The instructions \<open>A\<close> got the number of the node.\<close>

definition numbered :: "int set \<Rightarrow> int \<Rightarrow> inst_log_entry_s list \<Rightarrow> inst_log_entry_s list \<Rightarrow> bool" where
  "numbered A node log log' \<longleftrightarrow> length log' = length log \<and>
     (\<forall>i. 0 \<le> i \<and> i < int (length log) \<longrightarrow> log' ! nat i =
        (if i \<in> A then (log ! nat i)\<lparr>node_member := node\<rparr> else log ! nat i))"

lemma numbered_one:
  "0 \<le> i \<Longrightarrow> i < int (length log) \<Longrightarrow> numbered {i} node log (log[nat i := (log ! nat i)\<lparr>node_member := node\<rparr>])"
  by (auto simp: numbered_def nth_list_update)

lemma numbered_trans: "numbered A node a b \<Longrightarrow> numbered B node b c \<Longrightarrow> numbered (A \<union> B) node a c"
  by (auto simp: numbered_def)

lemma numbered_marks:
  assumes "numbered A node a b" "starts_ends log m a" "graph_log log m" shows "starts_ends log m b"
proof -
  have len: "length b = length a" "length a = length log" "m \<le> length log" "0 < length log"
    using assms by (auto simp: numbered_def starts_ends_def graph_log_def)
  have e: "prev (b ! nat i) = prev (a ! nat i) \<and> next_inst (b ! nat i) = next_inst (a ! nat i) \<and>
      node_start (b ! nat i) = node_start (a ! nat i) \<and> node_end (b ! nat i) = node_end (a ! nat i)"
    if "0 \<le> i" "i < int (length log)" for i
    using assms(1) that len by (simp add: numbered_def)
  show ?thesis using assms(2) e len e [of 0] unfolding starts_ends_def nexts_def prevs_def by simp
qed

text \<open>The part of a block walked so far: every instruction but the first has its predecessor before it.\<close>

definition walked :: "inst_log_entry_s list \<Rightarrow> nat \<Rightarrow> int list \<Rightarrow> bool" where
  "walked log m xs \<longleftrightarrow> xs \<noteq> [] \<and> distinct xs \<and> set xs \<subseteq> {1 ..< int m} \<and> starts_at log (hd xs) \<and>
     (\<forall>t \<in> set (tl xs). \<exists>p \<in> set (butlast xs). prevs log t = [p])"

lemma walked_next:
  assumes w: "walked log m xs" and t: "prevs log t = [last xs]" "\<not> starts_at log t" "1 \<le> t" "t < int m"
  shows "walked log m (xs @ [t])"
proof -
  have "t \<notin> set xs"
  proof
    assume "t \<in> set xs"
    moreover have "t \<noteq> hd xs" using w t(2) by (auto simp: walked_def)
    ultimately have "t \<in> set (tl xs)" using w by (cases xs) (auto simp: walked_def)
    then have "last xs \<in> set (butlast xs)" using w t(1) by (auto simp: walked_def)
    then show False using w by (auto simp: walked_def dest: not_distinct_conv_prefix [THEN iffD2])
      (metis append_butlast_last_id distinct_append disjoint_iff list.set_intros(1))
  qed
  moreover have "last xs \<in> set xs" "\<And>p. p \<in> set (butlast xs) \<Longrightarrow> p \<in> set xs"
    using w by (auto simp: walked_def dest: in_set_butlastD)
  ultimately show ?thesis using w t unfolding walked_def by (auto simp: butlast_append)
qed

lemma walked_bound: "walked log m xs \<Longrightarrow> m \<le> length log \<Longrightarrow> length xs \<le> length log"
  using distinct_bound [of xs m] by (auto simp: walked_def)

lemma number_walk_numbers:
  assumes g: "graph_log log m"
  shows "walked log m xs \<Longrightarrow> starts_ends log m L \<Longrightarrow> \<not> ends_at log (last xs) \<Longrightarrow> length log < k + length xs \<Longrightarrow>
    safe (number_walk k node (last xs) L) (\<lambda>(e, L'). \<exists>ys. flow log (last xs) ys \<and> e = last ys \<and>
      numbered (set (tl ys)) node L L')"
proof (induction k arbitrary: xs L)
  case 0
  then show ?case using walked_bound [OF "0.prems"(1)] g by (simp add: graph_log_def)
next
  case (Suc k)
  let ?i = "last xs"
  have m: "m \<le> length log" using g by (simp add: graph_log_def)
  have "?i \<in> {1 ..< int m}" using Suc.prems(1) last_in_set [of xs] unfolding walked_def by blast
  then have i: "1 \<le> ?i" "?i < int m" by simp_all
  obtain t where t: "nexts log ?i = [t]" "1 \<le> t" "t < int m" "prevs log t = [?i]" "\<not> starts_at log t"
    by (rule not_end [OF g i Suc.prems(3)])
  note s = starts_endsD [OF Suc.prems(2)]
  have next_t: "next_inst (L ! nat ?i) = [t]" using s(3) [of ?i] i m t(1) by simp
  let ?L = "L[nat t := (L ! nat t)\<lparr>node_member := node\<rparr>]"
  have n: "numbered {t} node L ?L" by (rule numbered_one) (use t m s(1) in auto)
  have s': "starts_ends log m ?L" by (rule numbered_marks [OF n Suc.prems(2) g])
  have end_t: "node_end (L ! nat t) \<noteq> 0 \<longleftrightarrow> ends_at log t" by (rule s(5) [OF t(2,3)])
  have w: "walked log m (xs @ [t])" by (rule walked_next [OF Suc.prems(1) t(4,5,2,3)])
  have run: "number_walk (Suc k) node ?i L =
      (if ends_at log t then Inr (t, ?L) else number_walk k node t ?L)"
    using i m t s(1) next_t end_t by (simp add: at_int_def Let_def)
  show ?case
  proof (cases "ends_at log t")
    case True
    then have "flow log ?i [?i, t]" using flow.intros t(1) Suc.prems(3) by simp
    then have "\<exists>ys. flow log ?i ys \<and> t = last ys \<and> numbered (set (tl ys)) node L ?L"
      using n by (intro exI [of _ "[?i, t]"]) simp
    then show ?thesis unfolding run using True by simp
  next
    case False
    have "safe (number_walk k node (last (xs @ [t])) ?L) (\<lambda>(e, L'). \<exists>ys. flow log (last (xs @ [t])) ys \<and> e = last ys \<and>
      numbered (set (tl ys)) node ?L L')"
      by (rule Suc.IH [OF w s']) (use False Suc.prems(4) in simp_all)
    then show ?thesis unfolding run
    proof (simp add: False, elim safe_mono, clarify)
      fix ys L' assume y: "flow log t ys" "numbered (set (tl ys)) node ?L L'"
      have f: "flow log ?i (?i # ys)" using flow.flow_next [OF Suc.prems(3)] t(1) y(1) by simp
      have "set ys = insert t (set (tl ys))" using flow_hd [OF y(1)] by (cases ys) auto
      then have "numbered (set (tl (?i # ys))) node L L'" using numbered_trans [OF n y(2)] by simp
      moreover have "last ys = last (?i # ys)" using flow_hd [OF y(1)] by simp
      ultimately show "\<exists>zs. flow log ?i zs \<and> last ys = last zs \<and> numbered (set (tl zs)) node L L'" using f by blast
    qed
  qed
qed

lemma number_node_numbers:
  assumes g: "graph_log log m" and L: "starts_ends log m L" and n: "1 \<le> int n" "int n < int m" "starts_at log (int n)"
  shows "safe (number_node n node L) (\<lambda>(e, L'). \<exists>ys. flow log (int n) ys \<and> e = last ys \<and> numbered (set ys) node L L')"
proof -
  have m: "m \<le> length log" using g by (simp add: graph_log_def)
  note s = starts_endsD [OF L]
  let ?L = "L[n := (L ! n)\<lparr>node_member := node\<rparr>]"
  have k: "numbered {int n} node L ?L" using numbered_one [of "int n" L node] n m s(1) by simp
  have L': "starts_ends log m ?L" by (rule numbered_marks [OF k L g])
  have e: "node_end (L ! n) \<noteq> 0 \<longleftrightarrow> ends_at log (int n)" using s(5) [OF n(1,2)] by simp
  have run: "number_node n node L =
      (if ends_at log (int n) then Inr (int n, ?L) else number_walk (Suc (length log)) node (int n) ?L)"
    using n m s(1) e by (cases "ends_at log (int n)") (simp_all add: number_node_def Let_def del: number_walk.simps)
  show ?thesis
  proof (cases "ends_at log (int n)")
    case True
    then have "flow log (int n) [int n]" by (rule flow.flow_end)
    then have "\<exists>ys. flow log (int n) ys \<and> int n = last ys \<and> numbered (set ys) node L ?L"
      using k by (intro exI [of _ "[int n]"]) simp
    then show ?thesis using True by (simp add: run)
  next
    case False
    have w: "walked log m [int n]" using n by (simp add: walked_def)
    have "safe (number_walk (Suc (length log)) node (int n) ?L) (\<lambda>(e, L'). \<exists>ys. flow log (int n) ys \<and> e = last ys \<and>
      numbered (set (tl ys)) node ?L L')"
      using number_walk_numbers [OF g w L', of "Suc (length log)" node] False by simp
    then show ?thesis unfolding run
    proof (simp only: False if_False, elim safe_mono, clarify)
      fix ys L' assume y: "flow log (int n) ys" "numbered (set (tl ys)) node ?L L'"
      have "set ys = insert (int n) (set (tl ys))" using flow_hd [OF y(1)] by (cases ys) auto
      then have "numbered (set ys) node L L'" using numbered_trans [OF k y(2)] by simp
      then show "\<exists>zs. flow log (int n) zs \<and> last ys = last zs \<and> numbered (set zs) node L L'" using y(1) by blast
    qed
  qed
qed

text \<open>The nodes from \<open>node\<close> on are the blocks that start at \<open>ss\<close>.\<close>

definition node_of :: "inst_log_entry_s list \<Rightarrow> int \<Rightarrow> control_flow_node_s \<Rightarrow> control_flow_node_s \<Rightarrow> bool" where
  "node_of log s a b \<longleftrightarrow> (\<exists>ys. flow log s ys \<and> b = a\<lparr>inst_start := s, inst_end := last ys, node_valid := 1\<rparr>)"

definition blocks :: "inst_log_entry_s list \<Rightarrow> nat \<Rightarrow> nat \<Rightarrow> int list \<Rightarrow> control_flow_node_s list \<Rightarrow>
    control_flow_node_s list \<Rightarrow> inst_log_entry_s list \<Rightarrow> inst_log_entry_s list \<Rightarrow> bool" where
  "blocks log m node ss nodes nodes' L L' \<longleftrightarrow> length nodes' = length nodes \<and> starts_ends log m L' \<and>
     (\<forall>i. i < node \<or> node + length ss \<le> i \<longrightarrow> nodes' ! i = nodes ! i) \<and>
     (\<forall>j < length ss. node + j < length nodes \<and> node_of log (ss ! j) (nodes ! (node + j)) (nodes' ! (node + j)) \<and>
        member L' (ss ! j) = int (node + j)) \<and>
     (\<forall>s. 1 \<le> s \<and> s < int m \<and> starts_at log s \<and> s \<notin> set ss \<longrightarrow> member L' s = member L s)"

lemma blocks_Cons:
  assumes g: "graph_log log m" and L: "starts_ends log m L" and s: "1 \<le> s" "s < int m" "starts_at log s"
    and one: "flow log s ys" "numbered (set ys) (int node) L L1" "node < length nodes"
    and rest: "blocks log m (Suc node) ss (nodes[node := (nodes ! node)\<lparr>inst_start := s, inst_end := last ys, node_valid := 1\<rparr>]) nodes' L1 L'"
    and new: "s \<notin> set ss" "set ss \<subseteq> {x. 1 \<le> x \<and> x < int m \<and> starts_at log x}"
  shows "blocks log m node (s # ss) nodes nodes' L L'"
proof -
  let ?n = "(nodes ! node)\<lparr>inst_start := s, inst_end := last ys, node_valid := 1\<rparr>"
  have m: "m \<le> length log" using g by (simp add: graph_log_def)
  have mine: "member L1 s = int node"
    using one(2) s m starts_endsD(1) [OF L] flow_hd [OF one(1)] by (cases ys) (auto simp: numbered_def member_def)
  have others: "member L1 t = member L t" if "1 \<le> t" "t < int m" "starts_at log t" "t \<noteq> s" for t
  proof -
    have "t \<notin> set ys" using flow_range [OF g one(1) s(1,2)] flow_hd [OF one(1)] that by (cases ys) auto
    then show ?thesis using one(2) that m starts_endsD(1) [OF L] by (auto simp: numbered_def member_def)
  qed
  note r = rest [unfolded blocks_def]
  have "nodes' ! node = ?n" using r one(3) by simp
  then have "node_of log s (nodes ! node) (nodes' ! node)" using one(1) by (auto simp: node_of_def)
  moreover have "member L' s = int node" using r s new(1) mine by simp
  ultimately have all: "node + j < length nodes \<and> node_of log ((s # ss) ! j) (nodes ! (node + j)) (nodes' ! (node + j)) \<and>
      member L' ((s # ss) ! j) = int (node + j)" if "j < length (s # ss)" for j
    using r that one(3) by (cases j) auto
  have keep: "nodes' ! i = nodes ! i" if "i < node \<or> node + length (s # ss) \<le> i" for i using r that by auto
  have "member L' t = member L t" if "1 \<le> t" "t < int m" "starts_at log t" "t \<notin> set (s # ss)" for t
    using r that others by simp
  then show ?thesis using r all keep unfolding blocks_def by simp
qed

lemma number_nodes_blocks:
  assumes g: "graph_log log m"
  shows "distinct ns \<Longrightarrow> set ns \<subseteq> {1 ..< m} \<Longrightarrow> starts_ends log m L \<Longrightarrow>
    safe (number_nodes ns node nodes L) (\<lambda>(node', nodes', L').
      node' = node + length (filter (starts_at log) (map int ns)) \<and>
      blocks log m node (filter (starts_at log) (map int ns)) nodes nodes' L L')"
proof (induction ns arbitrary: node nodes L)
  case Nil
  then show ?case by (simp add: blocks_def)
next
  case (Cons n ns)
  let ?ss = "filter (starts_at log) (map int ns)"
  have m: "m \<le> length log" using g by (simp add: graph_log_def)
  have n: "1 \<le> int n" "int n < int m" using Cons.prems(2) by (simp_all add: One_nat_def)
  have len: "n < length L" "length L = length log" using n m starts_endsD(1) [OF Cons.prems(3)] by auto
  have st: "node_start (L ! n) \<noteq> 0 \<longleftrightarrow> starts_at log (int n)"
    using starts_endsD(4) [OF Cons.prems(3) n] by simp
  have ns: "distinct ns" "set ns \<subseteq> {1 ..< m}" using Cons.prems by auto
  show ?case
  proof (cases "starts_at log (int n)")
    case False
    then show ?thesis using Cons.IH [OF ns Cons.prems(3), of node nodes] st len(1) by simp
  next
    case True
    have run: "number_nodes (n # ns) node nodes L = bindE (number_node n (int node) L) (\<lambda>(last, log).
            bindE (at nodes node) (\<lambda>r. number_nodes ns (Suc node)
                (nodes[node := r\<lparr>inst_start := int n, inst_end := last, node_valid := 1\<rparr>]) log))"
      using True st len(1) by simp
    show ?thesis unfolding run
    proof (rule safe_step [OF number_node_numbers [OF g Cons.prems(3) n True]], clarify)
      fix ys L1 assume y: "flow log (int n) ys" "numbered (set ys) (int node) L L1"
      let ?nodes = "nodes[node := (nodes ! node)\<lparr>inst_start := int n, inst_end := last ys, node_valid := 1\<rparr>]"
      have L1: "starts_ends log m L1" by (rule numbered_marks [OF y(2) Cons.prems(3) g])
      have new: "int n \<notin> set ?ss" "set ?ss \<subseteq> {x. 1 \<le> x \<and> x < int m \<and> starts_at log x}"
        using Cons.prems(1,2) by (auto simp: One_nat_def)
      show "safe (bindE (at nodes node) (\<lambda>r. number_nodes ns (Suc node)
                (nodes[node := r\<lparr>inst_start := int n, inst_end := last ys, node_valid := 1\<rparr>]) L1))
        (\<lambda>(node', nodes', L'). node' = node + length (filter (starts_at log) (map int (n # ns))) \<and>
          blocks log m node (filter (starts_at log) (map int (n # ns))) nodes nodes' L L')"
      proof (cases "node < length nodes")
        case in_table: True
        have "safe (number_nodes ns (Suc node) ?nodes L1) (\<lambda>(node', nodes', L').
            node' = node + length (filter (starts_at log) (map int (n # ns))) \<and>
            blocks log m node (filter (starts_at log) (map int (n # ns))) nodes nodes' L L')"
          by (rule safe_mono [OF Cons.IH [OF ns L1]])
            (use True blocks_Cons [OF g Cons.prems(3) n True y in_table _ new] in auto)
        then show ?thesis using in_table by simp
      qed simp
    qed
  qed
qed

end
