(* ===== verification/Frame.thy ===== *)
theory Frame
  imports Execute
begin

text \<open>
  What executing an instruction can never do, whatever the state: run forever, touch the map
  of used bytes or change the links of its log entry.
\<close>

section \<open>What the executor cannot touch\<close>

text \<open>
  Whatever the operands are, an instruction comes to an end, the used map stays as it is and
  so do the links of the log entry.
\<close>

lemma scan_table_safe: "(\<And>r. Q r) \<Longrightarrow> safe (scan_table mem n a) Q"
  by (induction mem arbitrary: n) simp_all

lemma search_store_safe: "(\<And>r. Q r) \<Longrightarrow> safe (search_store mem a s) Q"
  unfolding search_store_def by (rule safe_bind, rule scan_table_safe) (simp split: sum.splits)

lemma find_or_add_safe:
  assumes "\<And>mem' v. safe (init mem' v) (\<lambda>_. True)"
  shows "safe (find_or_add mem a s init) (\<lambda>_. True)"
proof -
  have add: "safe (add_new_store mem a s) (\<lambda>_. True)"
    unfolding add_new_store_def by (rule safe_bind, rule scan_table_safe) (simp split: sum.splits)
  show ?thesis unfolding find_or_add_def
    by (rule safe_bind, rule search_store_safe)
      (auto split: option.splits intro!: safe_step [OF add] safe_step [OF assms])
qed

lemma print_store_safe: "safe (print_store mem) (\<lambda>_. True)"
  by (induction mem) simp_all

lemma set_fields_safe: "safe (set_fields f mem v) (\<lambda>_. True)" "safe (set_fields_checked f mem v) (\<lambda>_. True)"
  by (simp_all add: set_fields_def set_fields_checked_def split: option.splits)

lemma read_data_safe: "safe (read_data self a bits) (\<lambda>_. True)"
proof -
  have "safe (read_data_loop self a n t) (\<lambda>_. True)" for n t
    by (induction n arbitrary: t) (auto intro: safe_bind)
  then show ?thesis by (simp add: read_data_def Let_def)
qed

lemma init_data_safe: "safe (init_data self a mem v) (\<lambda>_. True)"
  by (auto simp: init_data_def split: option.splits intro!: safe_step [OF read_data_safe])

lemma get_done_safe: "Q (0, ps, v) \<Longrightarrow> safe (get_done ps v) Q"
  unfolding get_done_def by (auto intro!: safe_step [OF print_store_safe])

lemmas table_safe = safe_step [OF find_or_add_safe] set_fields_safe init_data_safe get_done_safe

lemma get_memory_at_safe:
  "safe (get_memory_at self ps source dest v a) (\<lambda>(_, ps', _). memory_used ps' = memory_used ps)"
  unfolding get_memory_at_def
  by (auto simp: Let_def intro!: table_safe split: option.splits)

lemma get_value_safe:
  "safe (get_value_RTL_instruction self ps source dest info) (\<lambda>(_, ps', _). memory_used ps' = memory_used ps)"
  unfolding get_value_RTL_instruction_def get_register_def get_memory_def get_stack_def
  by (auto simp: Let_def intro!: table_safe safe_mono [OF get_memory_at_safe]
      split: option.splits indirect_kind.splits store_kind.splits)

lemma put_memory_at_safe:
  "safe (put_memory_at ps inst a) (\<lambda>(_, ps'). memory_used ps' = memory_used ps)"
  unfolding put_memory_at_def
  by (auto simp: Let_def intro!: table_safe split: option.splits)

lemma put_value_safe:
  "safe (put_value_RTL_instruction ps inst) (\<lambda>(_, ps'). memory_used ps' = memory_used ps)"
  unfolding put_value_RTL_instruction_def
proof (rule safe_step [where P = "\<lambda>(_, ps'). memory_used ps' = memory_used ps"])
  show "safe (case indirect (dstA (instruction inst)) of
        IND_DIRECT \<Rightarrow> (case store (dstA (instruction inst)) of STORE_DIRECT \<Rightarrow> Inr (1, ps)
          | STORE_REG \<Rightarrow> put_register ps inst | STORE_PTR \<Rightarrow> Inr (1, ps))
      | IND_MEM \<Rightarrow> put_memory ps inst | IND_STACK \<Rightarrow> put_stack ps inst | IND_IO \<Rightarrow> Inr (1, ps))
    (\<lambda>(_, ps'). memory_used ps' = memory_used ps)"
    unfolding put_register_def put_memory_def put_stack_def
    by (auto simp: Let_def intro!: table_safe safe_mono [OF put_memory_at_safe]
        safe_bind [OF search_store_safe]
        split: option.splits indirect_kind.splits store_kind.splits)
qed (auto intro!: safe_step [OF print_store_safe])

text \<open>\<open>frame ps inst\<close>: what holds of every result of executing \<open>inst\<close> in \<open>ps\<close>.\<close>

definition frame :: "process_state_s \<Rightarrow> inst_log_entry_s \<Rightarrow> exec \<Rightarrow> bool" where
  "frame ps inst e \<longleftrightarrow> (case e of (_, ps', inst') \<Rightarrow> memory_used ps' = memory_used ps \<and>
     prev inst' = prev inst \<and> next_inst inst' = next_inst inst)"

lemma frame_iff [simp]: "frame ps inst (r, ps', inst') \<longleftrightarrow>
    memory_used ps' = memory_used ps \<and> prev inst' = prev inst \<and> next_inst inst' = next_inst inst"
  by (simp add: frame_def)

lemma get_value1_safe:
  assumes "\<And>r ps' inst'. frame ps inst (r, ps', inst') \<Longrightarrow> safe (k (r, ps', inst')) Q"
  shows "safe (bindE (get_value1 self ps inst info) k) Q"
  unfolding get_value1_def bindE_assoc
  by (rule safe_step [OF get_value_safe]) (auto intro!: assms)

lemma with_operands_safe:
  assumes "\<And>r ps' inst'. frame ps inst (r, ps', inst') \<Longrightarrow> safe (k (r, ps', inst')) Q"
  shows "safe (with_operands self ps inst source info1 info2 k) Q"
  unfolding with_operands_def
  by (rule get_value1_safe) (auto simp: get_value2_def bindE_assoc intro!: safe_step [OF get_value_safe] assms)

lemma exec_put_safe:
  assumes "frame ps inst (r, p, i)"
  shows "safe (exec_put (r, p, i)) (frame ps inst)"
  unfolding exec_put_def prod.case
  by (rule safe_step [OF put_value_safe]) (use assms in auto)

lemma alu_result_frame [simp]:
  "prev (alu_result i x y) = prev i" "next_inst (alu_result i x y) = next_inst i"
  by (simp_all add: alu_result_def Let_def)

lemma mul_result_frame [simp]:
  "prev (mul_result i x y) = prev i" "next_inst (mul_result i x y) = next_inst i"
  by (simp_all add: mul_result_def Let_def)

lemma resize_result_frame [simp]:
  "prev (resize_result i f) = prev i" "next_inst (resize_result i f) = next_inst i"
  "prev (resize_failed i) = prev i" "next_inst (resize_failed i) = next_inst i"
  "prev (jump_target i ip rel) = prev i" "next_inst (jump_target i ip rel) = next_inst i"
  by (simp_all add: resize_result_def resize_failed_def jump_target_def Let_def)

lemma shift_safe: "safe (shift_left x n) (\<lambda>_. True)" "safe (shift_right x n) (\<lambda>_. True)"
  by (simp_all add: shift_left_def shift_right_def)

lemma with_ip_safe:
  assumes "\<And>n m. safe (k n m) Q"
  shows "safe (with_ip ps k) Q"
  unfolding with_ip_def by (rule safe_bind, rule search_store_safe) (simp add: assms split: option.splits)

lemma find_entry_point_safe: "safe (find_entry_point P es n k) (\<lambda>_. True)"
  by (induction k arbitrary: n) (auto intro!: safe_bind)

lemma link_safe: "safe (link_relocated_call self ins) (\<lambda>_. True)" "safe (link_direct_call self a ins) (\<lambda>_. True)"
  unfolding link_relocated_call_def link_direct_call_def
  by (auto intro!: safe_step [OF find_entry_point_safe])

lemmas exec_safe = get_value1_safe with_operands_safe exec_put_safe with_ip_safe
  safe_step [OF shift_safe(1)] safe_step [OF shift_safe(2)]
  safe_step [OF link_safe(1)] safe_step [OF link_safe(2)]

lemma exec_break_safe:
  "safe m (frame ps inst) \<Longrightarrow> safe (exec_break m) (\<lambda>f. case f of Break e \<Rightarrow> frame ps inst e | Return e \<Rightarrow> frame ps inst e)"
  unfolding exec_break_def by (rule safe_step) simp_all

lemma set_dst_length_safe: "safe (set_dst_length ps d) (\<lambda>ps'. memory_used ps' = memory_used ps)"
  unfolding set_dst_length_def by (rule safe_bind, rule search_store_safe) (simp split: option.splits)

lemma exec_put_flow_safe:
  "frame ps inst (r, p, i) \<Longrightarrow> safe (bindE (exec_put (r, p, i)) (\<lambda>e. Inr (Break e)))
     (\<lambda>f. case f of Break e \<Rightarrow> frame ps inst e | Return e \<Rightarrow> frame ps inst e)"
  by (rule safe_step [OF exec_put_safe]) simp_all

lemma execute_case_safe:
  "safe (execute_case self ps inst) (\<lambda>f. case f of Break e \<Rightarrow> frame ps inst e | Return e \<Rightarrow> frame ps inst e)"
proof -
  have alu: "safe (m self ps inst) (frame ps inst)"
    if "m \<in> {exec_cmp, exec_mov, exec_load, exec_store, exec_add, exec_adc, exec_mul, exec_sub,
      exec_sbb, exec_test, exec_and, exec_or, exec_xor, exec_neg, exec_not, exec_shl, exec_shr,
      exec_sal, exec_sar}" for m
    using that unfolding exec_cmp_def exec_mov_def exec_load_def exec_store_def exec_add_def
      exec_adc_def exec_mul_def exec_sub_def exec_sbb_def exec_test_def exec_and_def exec_or_def
      exec_xor_def exec_neg_def exec_not_def exec_shl_def exec_shr_def exec_sal_def exec_sar_def
    by (auto simp: Let_def intro!: exec_safe)
  have jumps: "safe (m self ps inst) (frame ps inst)"
    if "m \<in> {exec_if, exec_jmpt, exec_jmp, exec_call}" for m
    using that unfolding exec_if_def exec_jmpt_def exec_jmp_def exec_call_def
    by (auto simp: Let_def intro!: exec_safe)
  have resize: "safe (exec_sex self ps inst) (\<lambda>f. case f of Break e \<Rightarrow> frame ps inst e | Return e \<Rightarrow> frame ps inst e)"
    "safe (exec_trunc self ps inst) (\<lambda>f. case f of Break e \<Rightarrow> frame ps inst e | Return e \<Rightarrow> frame ps inst e)"
    unfolding exec_sex_def exec_trunc_def Let_def
    by (auto intro!: get_value1_safe safe_step [OF set_dst_length_safe] exec_put_flow_safe)
  show ?thesis unfolding execute_case_def
    using alu jumps resize by (auto split: opcode.splits intro!: exec_break_safe)
qed

lemma execute_instruction_safe: "safe (execute_instruction self ps inst) (frame ps inst)"
proof -
  have check: "safe (print_inst_short i) (\<lambda>_. True)" "safe (check_value_sizes i) (\<lambda>_. True)" for i
    by (simp_all add: print_inst_short_def check_value_sizes_def Let_def)
  have scp: "frame ps inst e \<Longrightarrow> safe (check_scope e) (frame ps inst)" for e
    by (cases e) (simp add: check_scope_def)
  show ?thesis unfolding execute_instruction_def
    by (auto intro!: safe_step [OF check(1)] safe_step [OF check(2)] safe_step [OF execute_case_safe] scp
        split: flow.splits)
qed

end
