(* ===== verification/Format.thy ===== *)
theory Format
  imports GlobalStruct "HOL-Library.Sublist"
begin

text \<open>
  The conversions of the \<open>printf\<close> family the output code uses (\<open>%x\<close>, \<open>%04x\<close>, \<open>%d\<close>,
  \<open>%u\<close>), with the functions that read them back.
\<close>

section \<open>Digits\<close>

definition digit_char :: "nat \<Rightarrow> char" where
  "digit_char d = (if d < 10 then char_of (48 + d) else char_of (87 + d))"

definition char_digit :: "char \<Rightarrow> nat" where
  "char_digit c = (if of_char c < (58 :: nat) then of_char c - 48 else of_char c - 87)"

fun digits_of :: "nat \<Rightarrow> nat \<Rightarrow> string" where
  "digits_of b n =
     (if b < 2 \<or> n < b then [digit_char n] else digits_of b (n div b) @ [digit_char (n mod b)])"

declare digits_of.simps [simp del]

definition read_digits :: "nat \<Rightarrow> string \<Rightarrow> nat" where
  "read_digits b s = foldl (\<lambda>a c. a * b + char_digit c) 0 s"

lemma char_digit_char: "d < 16 \<Longrightarrow> char_digit (digit_char d) = d"
  by (auto simp: char_digit_def digit_char_def of_char_of)

lemma read_digits_of:
  assumes "2 \<le> b" "b \<le> 16"
  shows "read_digits b (digits_of b n) = n"
  using assms
proof (induction b n rule: digits_of.induct)
  case (1 b n)
  have "n mod b < 16" using "1.prems" by (metis mod_less_divisor less_le_trans zero_less_numeral)
  with 1 show ?case
    by (subst digits_of.simps) (auto simp: read_digits_def char_digit_char)
qed

definition pad :: "nat \<Rightarrow> string \<Rightarrow> string" where
  "pad w s = replicate (w - length s) CHR ''0'' @ s"

lemma read_digits_pad: "read_digits b (pad w s) = read_digits b s"
proof -
  have "foldl (\<lambda>a c. a * b + char_digit c) 0 (replicate k CHR ''0'') = 0" for k
    by (induction k) (simp_all add: char_digit_def)
  then show ?thesis by (simp add: read_digits_def pad_def)
qed

section \<open>Conversions\<close>

definition hex64 :: "u64 \<Rightarrow> string" where
  "hex64 x = digits_of 16 (unat x)"

definition hex64_04 :: "u64 \<Rightarrow> string" where
  "hex64_04 x = pad 4 (hex64 x)"

definition hex_int :: "int \<Rightarrow> string" where
  "hex_int i = digits_of 16 (unat (word_of_int i :: u32))"

definition dec_int :: "int \<Rightarrow> string" where
  "dec_int i = (if i < 0 then CHR ''-'' # digits_of 10 (nat (- i)) else digits_of 10 (nat i))"

definition dec_u64 :: "u64 \<Rightarrow> string" where
  "dec_u64 x = digits_of 10 (unat x)"

text \<open>\<open>snprintf\<close> into a buffer of \<open>size\<close> bytes keeps \<open>size - 1\<close> characters.\<close>

definition snprintf :: "nat \<Rightarrow> string \<Rightarrow> string" where
  "snprintf n s = take (n - 1) s"

lemma hex64_read: "read_digits 16 (hex64 x) = unat x"
  by (simp add: hex64_def read_digits_of)

lemma hex64_04_read: "read_digits 16 (hex64_04 x) = unat x"
  by (simp add: hex64_04_def read_digits_pad hex64_read)

lemma hex64_04_inject: "hex64_04 x = hex64_04 y \<longleftrightarrow> x = y"
  by (metis hex64_04_read word_unat_eq_iff)

end
