(* ===== verification/PrintInst.thy ===== *)
theory PrintInst
  imports Format
begin

text \<open>
  The textual form of an RTL instruction: \<open>label_to_string\<close> of
  \<open>src/output/cfg/output_label.c\<close> and \<open>string_cat\<close>, \<open>write_inst\<close>, \<open>print_inst\<close> of
  \<open>src/output/cfg/print_inst.c\<close>. The return code of \<open>print_inst\<close> also decides whether the
  executor goes on with an instruction.
\<close>

section \<open>Label names\<close>

text \<open>
  The text a label prints as, or nothing for a type the scope does not have: then the
  function returns 1 and leaves the buffer as it was.
\<close>

definition label_text :: "label_s \<Rightarrow> string option" where
  "label_text l =
     (if scope l = 3 then
        (if label_type l = 1 then Some (''data'' @ hex64_04 (label_value l))
         else if label_type l = 2 then Some (''&data'' @ hex64_04 (label_value l))
         else if label_type l = 3 then Some (''0x'' @ hex64 (label_value l))
         else None)
      else if scope l = 2 then
        (if label_type l = 2 then Some (''param_stack'' @ hex64_04 (label_value l))
         else if label_type l = 1 then Some (''param_reg'' @ hex64_04 (label_value l))
         else None)
      else if scope l = 1 then
        (if label_type l = 2 then Some (''local_stack'' @ hex64_04 (label_value l))
         else if label_type l = 1 then Some (''local_reg'' @ hex64_04 (label_value l))
         else None)
      else if scope l = 4 then Some (''xxxlocal_reg'' @ hex64_04 (label_value l))
      else if scope l = 6 then Some (''constant'' @ hex64_04 (label_value l))
      else Some (''unknown'' @ hex64_04 (scope l) @ hex64_04 (label_value l)))"

definition label_to_string :: "label_s \<Rightarrow> string \<Rightarrow> nat \<Rightarrow> int \<times> string" where
  "label_to_string l buffer n =
     (case label_text l of
        None \<Rightarrow> (1, buffer)
      | Some t \<Rightarrow> (if n \<le> length t then 1 else 0, snprintf n t))"

section \<open>The bounded string\<close>

text \<open>\<open>len\<close> is the length of \<open>chars\<close>; the terminating NUL is left out.\<close>

record string_s =
  chars :: string
  str_max :: nat

definition string_cat :: "string_s \<Rightarrow> string \<Rightarrow> string_s \<times> int" where
  "string_cat s src =
     (if length (chars s) + length src < str_max s then (s\<lparr>chars := chars s @ src\<rparr>, 0) else (s, 1))"

text \<open>\<open>write_inst\<close> formats each piece into a buffer and ignores the result of \<open>string_cat\<close>.\<close>

definition put_text :: "string \<Rightarrow> string_s \<Rightarrow> string_s" where
  "put_text t s = fst (string_cat s (snprintf 1023 t))"

section \<open>The pieces of an instruction\<close>

fun opcode_text :: "opcode \<Rightarrow> string" where
  "opcode_text OP_NONE = ''NONE''" | "opcode_text OP_MOV = ''MOV''"
| "opcode_text OP_ADD = ''ADD''" | "opcode_text OP_ADC = ''ADC''"
| "opcode_text OP_SUB = ''SUB''" | "opcode_text OP_SBB = ''SBB''"
| "opcode_text OP_OR = ''OR ''" | "opcode_text OP_XOR = ''XOR''"
| "opcode_text OP_AND = ''AND''" | "opcode_text OP_NOT = ''NOT''"
| "opcode_text OP_TEST = ''TEST''" | "opcode_text OP_NEG = ''NEG''"
| "opcode_text OP_CMP = ''CMP''" | "opcode_text OP_MUL = ''MUL''"
| "opcode_text OP_IMUL = ''IMUL''" | "opcode_text OP_DIV = ''DIV''"
| "opcode_text OP_IDIV = ''IDIV''" | "opcode_text OP_JMP = ''JMP''"
| "opcode_text OP_CALL = ''CALL''" | "opcode_text OP_IF = ''IF ''"
| "opcode_text OP_ROL = ''ROL''" | "opcode_text OP_ROR = ''ROR''"
| "opcode_text OP_RCL = ''RCL''" | "opcode_text OP_RCR = ''RCR''"
| "opcode_text OP_SHL = ''SHL''" | "opcode_text OP_SHR = ''SHR''"
| "opcode_text OP_SAL = ''SAL''" | "opcode_text OP_SAR = ''SAR''"
| "opcode_text OP_IN = ''IN ''" | "opcode_text OP_OUT = ''OUT''"
| "opcode_text OP_RET = ''RET''" | "opcode_text OP_SEX = ''SEX''"
| "opcode_text OP_JMPT = ''JMPT''" | "opcode_text OP_CALLT = ''CALLT''"
| "opcode_text OP_PHI = ''PHI''" | "opcode_text OP_ICMP = ''ICMP''"
| "opcode_text OP_BC = ''BC''" | "opcode_text OP_LOAD = ''LOAD''"
| "opcode_text OP_STORE = ''STORE''" | "opcode_text OP_LEA = ''LEA''"
| "opcode_text OP_CMOV = ''CMOV''" | "opcode_text OP_DEC = ''DEC''"
| "opcode_text OP_INC = ''INC''" | "opcode_text OP_POP = ''POP''"
| "opcode_text OP_PUSH = ''PUSH''" | "opcode_text OP_LEAVE = ''LEAVE''"
| "opcode_text OP_NOP = ''NOP''" | "opcode_text OP_GEP1 = ''GEP1''"
| "opcode_text OP_CALLM = ''CALLM''" | "opcode_text OP_SETCC = ''SETCC''"
| "opcode_text OP_JMPM = ''JMPM''" | "opcode_text OP_MOVS = ''MOVS''"
| "opcode_text OP_IMULD = ''IMULD''" | "opcode_text OP_MULD = ''MULD''"
| "opcode_text OP_TRUNC = ''TRUNC''" | "opcode_text OP_ZEXT = ''ZEXT''"

fun store_text :: "store_kind \<Rightarrow> string" where
  "store_text STORE_DIRECT = ''i''"
| "store_text STORE_REG = ''r''"
| "store_text STORE_PTR = ''m''"

fun indirect_text :: "indirect_kind \<Rightarrow> string" where
  "indirect_text IND_DIRECT = ''''"
| "indirect_text IND_MEM = ''m''"
| "indirect_text IND_STACK = ''s''"
| "indirect_text IND_IO = ''p''"

text \<open>The order of the registers that carry parameters, as register numbers.\<close>

definition reg_params_order :: "int list" where
  "reg_params_order = [0x48, 0x28, 0x30, 0x40, 0x38, 0x18, 0x10, 0x50, 0x58]"

definition operand_text :: "operand_s \<Rightarrow> string \<Rightarrow> string" where
  "operand_text opr end_text = '' '' @ store_text (store opr) @ ''0x'' @ hex64 (index opr) @ ''/'' @
     dec_int (value_size opr) @ end_text"

definition operand_indirect_text :: "operand_s \<Rightarrow> string \<Rightarrow> string" where
  "operand_indirect_text opr end_text = '' '' @ indirect_text (indirect opr) @ ''['' @
     store_text (store opr) @ ''0x'' @ hex64 (index opr) @ '']/'' @ dec_int (value_size opr) @ end_text"

definition operand_any_text :: "operand_s \<Rightarrow> string \<Rightarrow> string" where
  "operand_any_text opr end_text =
     (if indirect opr \<noteq> IND_DIRECT then operand_indirect_text opr end_text
      else operand_text opr end_text)"

text \<open>The displacement of \<open>GEP1\<close> prints with its sign.\<close>

definition displacement_text :: "operand_s \<Rightarrow> string" where
  "displacement_text opr =
     (if index opr > 0x7fffffffffffffff then
        '' '' @ store_text (store opr) @ ''-0x'' @ hex64 (- index opr) @ ''/'' @ dec_int (value_size opr) @ '',''
      else operand_text opr '','')"

text \<open>
  The parameters of a linked call: first those in registers of the callee, then the others.
  \<open>tmp_state\<close> counts the parameters printed; \<open>buffer\<close> still holds the type when
  \<open>label_to_string\<close> fails.
\<close>

definition param_label :: "label_s list option \<Rightarrow> external_entry_point_s \<Rightarrow> nat \<Rightarrow> label_s c" where
  "param_label labs eep n =
     bindE (at reg_params_order n) (\<lambda>r.
     bindE (at_int (param_reg_label eep) r) (\<lambda>l.
       case labs of None \<Rightarrow> Inl NullDeref | Some ls \<Rightarrow> at_int ls l))"

definition param_text :: "label_s \<Rightarrow> int \<Rightarrow> string_s \<Rightarrow> string_s" where
  "param_text lab state s =
     (let s = (if state > 0 then put_text '', '' s else s);
          type_text = ''int'' @ dec_int (sint (size_bits lab)) @ ''_t '';
          s = put_text type_text s;
          name = snd (label_to_string lab (snprintf 1023 type_text) 1023)
      in fst (string_cat s name))"

fun params_loop ::
  "(label_s \<Rightarrow> bool) \<Rightarrow> label_s list option \<Rightarrow> external_entry_point_s \<Rightarrow> nat \<Rightarrow> nat \<Rightarrow> int \<Rightarrow> string_s \<Rightarrow>
     (int \<times> string_s) c" where
  "params_loop P labs eep n 0 state s = Inr (state, s)"
| "params_loop P labs eep n (Suc k) state s =
     bindE (param_label labs eep n) (\<lambda>lab.
       if P lab then params_loop P labs eep (Suc n) k (state + 1) (param_text lab state s)
       else params_loop P labs eep (Suc n) k state s)"

definition call_text ::
  "self_s \<Rightarrow> instruction_s \<Rightarrow> label_s list option \<Rightarrow> string_s \<Rightarrow> string_s c" where
  "call_text self ins labs s =
     (let a = srcA ins in
      if indirect a = IND_DIRECT \<and> relocated a = 1 then
        bindE (at (external_entry_points self) (unat (index a))) (\<lambda>eep.
          let s = put_text ('' CALL2 0x'' @ hex64 (index a) @ '':'' @ eep_name eep @ ''('') s;
              k = nat (reg_params_size eep);
              in_reg = (\<lambda>lab. scope lab = 2 \<and> label_type lab = 1)
          in bindE (params_loop in_reg labs eep 0 k 0 s) (\<lambda>(state, s).
             bindE (params_loop (\<lambda>lab. \<not> in_reg lab) labs eep 0 k state s) (\<lambda>(_, s).
               Inr (put_text '');'' s))))
      else if indirect a = IND_MEM then Inr (put_text (''(*r0x'' @ hex64 (index a) @ '') ();'') s)
      else if store a = STORE_REG then
        Inr (put_text ('' ('' @ store_text (store a) @ ''0x'' @ hex64 (index a) @ ''/'' @
          dec_int (value_size a) @ '') ();'') s)
      else Inr (put_text ('' CALL FAILED index=0x'' @ hex64 (index a)) s))"

section \<open>The function\<close>

text \<open>Each case: whether the operands are of the kind it prints, and the pieces.\<close>

definition pieces :: "bool \<Rightarrow> string list \<Rightarrow> string_s \<Rightarrow> (int \<times> string_s) c" where
  "pieces ok ts s = Inr (if ok then (0, fold put_text ts s) else (1, s))"

definition plain :: "operand_s \<Rightarrow> bool" where
  "plain opr \<longleftrightarrow> indirect opr = IND_DIRECT"

definition mov_text :: "instruction_s \<Rightarrow> string_s \<Rightarrow> (int \<times> string_s) c" where
  "mov_text ins = pieces (plain (srcA ins) \<and> plain (dstA ins))
     [operand_text (srcA ins) '','', operand_text (dstA ins) '''']"

definition trunc_text :: "instruction_s \<Rightarrow> string_s \<Rightarrow> (int \<times> string_s) c" where
  "trunc_text ins = pieces (plain (srcA ins) \<and> plain (dstA ins))
     [operand_text (srcA ins) '','', operand_text (dstA ins) '''']"

definition load_text :: "instruction_s \<Rightarrow> string_s \<Rightarrow> (int \<times> string_s) c" where
  "load_text ins = pieces (\<not> plain (srcA ins) \<and> plain (srcB ins) \<and> plain (dstA ins))
     [operand_indirect_text (srcA ins) '','', operand_text (srcB ins) '','', operand_text (dstA ins) '''']"

definition store_inst_text :: "instruction_s \<Rightarrow> string_s \<Rightarrow> (int \<times> string_s) c" where
  "store_inst_text ins = pieces (plain (srcA ins) \<and> plain (srcB ins) \<and> \<not> plain (dstA ins))
     [operand_text (srcA ins) '','', operand_text (srcB ins) '','', operand_indirect_text (dstA ins) '''']"

definition alu_text :: "instruction_s \<Rightarrow> string_s \<Rightarrow> (int \<times> string_s) c" where
  "alu_text ins = pieces (plain (srcA ins) \<and> plain (srcB ins) \<and> plain (dstA ins))
     [operand_text (srcA ins) '','', operand_text (srcB ins) '','', operand_text (dstA ins) '''']"

definition gep_text :: "instruction_s \<Rightarrow> string_s \<Rightarrow> (int \<times> string_s) c" where
  "gep_text ins = pieces (plain (srcA ins) \<and> plain (srcB ins) \<and> plain (dstA ins))
     [operand_text (srcA ins) '','', displacement_text (srcB ins), operand_text (dstA ins) '''']"

definition cmp_text :: "instruction_s \<Rightarrow> string_s \<Rightarrow> (int \<times> string_s) c" where
  "cmp_text ins = pieces (plain (srcA ins) \<and> plain (srcB ins))
     [operand_text (srcA ins) '','', operand_text (srcB ins) '''']"

definition icmp_text :: "instruction_s \<Rightarrow> string_s \<Rightarrow> (int \<times> string_s) c" where
  "icmp_text ins = pieces (plain (srcA ins) \<and> plain (srcB ins) \<and> plain (dstA ins))
     ['' COND 0x'' @ hex_int (predicate ins) @ '','', operand_text (srcA ins) '','',
      operand_text (srcB ins) '','', operand_text (dstA ins) '''']"

definition jmp_text :: "instruction_s \<Rightarrow> string_s \<Rightarrow> (int \<times> string_s) c" where
  "jmp_text ins = pieces True [operand_any_text (srcA ins) '','', operand_any_text (dstA ins) '''']"

text \<open>The case first resets tags of \<open>srcA\<close> outside the tables, which the enums do not have.\<close>

definition jmpt_text :: "instruction_s \<Rightarrow> string_s \<Rightarrow> (int \<times> string_s) c" where
  "jmpt_text ins = pieces True [operand_any_text (srcA ins) '','', operand_any_text (dstA ins) '''']"

definition bc_text :: "instruction_s \<Rightarrow> string_s \<Rightarrow> (int \<times> string_s) c" where
  "bc_text ins = pieces True [operand_any_text (srcA ins) '','']"

definition if_text :: "instruction_s \<Rightarrow> string_s \<Rightarrow> (int \<times> string_s) c" where
  "if_text ins = pieces True ['' cond='' @ dec_u64 (index (srcA ins)), '' JMP-REL=0x'' @ hex64 (index (dstA ins))]"

lemmas case_text_defs = mov_text_def trunc_text_def load_text_def store_inst_text_def alu_text_def
  gep_text_def cmp_text_def icmp_text_def jmp_text_def jmpt_text_def bc_text_def if_text_def

definition write_inst ::
  "self_s \<Rightarrow> string_s \<Rightarrow> instruction_s \<Rightarrow> int \<Rightarrow> label_s list option \<Rightarrow> (int \<times> string_s) c" where
  "write_inst self s ins number labs =
     (if flags ins \<notin> {0, 1} then Inl OutOfBounds
      else
        let s = put_text (''// 0x'' @ pad 4 (hex_int number) @ '':'' @ opcode_text (opcode ins) @
                  (if flags ins = 0 then '' '' else ''f'')) s
        in if opcode ins \<in> {OP_MOV, OP_SEX, OP_ZEXT} then mov_text ins s
           else if opcode ins \<in> {OP_ADD, OP_ADC, OP_SUB, OP_SBB, OP_MUL, OP_IMUL, OP_AND, OP_OR,
                                 OP_XOR, OP_SHL, OP_SHR, OP_SAL, OP_SAR, OP_NOT, OP_NEG}
                then alu_text ins s
           else if opcode ins \<in> {OP_CMP, OP_TEST} then cmp_text ins s
           else case opcode ins of
                  OP_LOAD \<Rightarrow> load_text ins s
                | OP_STORE \<Rightarrow> store_inst_text ins s
                | OP_GEP1 \<Rightarrow> gep_text ins s
                | OP_ICMP \<Rightarrow> icmp_text ins s
                | OP_JMP \<Rightarrow> jmp_text ins s
                | OP_BC \<Rightarrow> bc_text ins s
                | OP_JMPT \<Rightarrow> jmpt_text ins s
                | OP_IF \<Rightarrow> if_text ins s
                | OP_CALL \<Rightarrow> bindE (call_text self ins labs s) (\<lambda>s. Inr (0, s))
                | OP_NOP \<Rightarrow> Inr (0, s)
                | OP_RET \<Rightarrow> Inr (0, s)
                | OP_TRUNC \<Rightarrow> trunc_text ins s
                | _ \<Rightarrow> Inl (Exit 1))"

text \<open>\<open>print_inst\<close> prints the string and returns the code.\<close>

definition print_inst ::
  "self_s \<Rightarrow> instruction_s \<Rightarrow> int \<Rightarrow> label_s list option \<Rightarrow> (int \<times> string) c" where
  "print_inst self ins number labs =
     bindE (write_inst self \<lparr>chars = '''', str_max = 1023\<rparr> ins number labs)
       (\<lambda>(ret, s). Inr (ret, chars s))"


section \<open>Bounds\<close>

definition fits :: "string_s \<Rightarrow> bool" where
  "fits s \<longleftrightarrow> length (chars s) < str_max s"

definition extends :: "string_s \<Rightarrow> string_s \<Rightarrow> bool" where
  "extends s s' \<longleftrightarrow> str_max s' = str_max s \<and> prefix (chars s) (chars s') \<and> (fits s \<longrightarrow> fits s')"

lemma extends_refl: "extends s s"
  by (simp add: extends_def)

lemma extends_trans: "extends s t \<Longrightarrow> extends t u \<Longrightarrow> extends s u"
  by (auto simp: extends_def dest: prefix_order.order_trans)

lemma string_cat_extends: "extends s (fst (string_cat s t))"
  by (simp add: extends_def string_cat_def fits_def)

lemma put_text_extends: "extends s (put_text t s)"
  by (simp add: put_text_def string_cat_extends)

text \<open>One more piece.\<close>

lemma extends_more:
  "extends s t \<Longrightarrow> extends s (fst (string_cat t u))"
  "extends s t \<Longrightarrow> extends s (put_text u t)"
  by (blast intro: extends_trans string_cat_extends put_text_extends)+

lemma fold_put_text_extends: "extends s (fold put_text ts s)"
  by (induction ts arbitrary: s) (auto simp: extends_refl intro: extends_trans put_text_extends)

lemma param_text_extends: "extends s (param_text lab state s)"
  by (simp add: param_text_def Let_def extends_more extends_refl)

lemma params_loop_extends: "yields (params_loop P labs eep n k state s) (\<lambda>(_, s'). extends s s')"
proof (induction k arbitrary: n state s)
  case 0
  then show ?case by (simp add: extends_refl)
next
  case (Suc k)
  have "yields (params_loop P labs eep m k i (param_text lab state s)) (\<lambda>(_, s'). extends s s')" for m i lab
    by (rule yields_mono [OF Suc]) (auto intro: extends_trans [OF param_text_extends])
  then show ?case using Suc by (auto intro!: bind_yields)
qed

lemma call_text_extends: "yields (call_text self ins labs s) (extends s)"
proof -
  have two: "yields (bindE (params_loop P labs eep n k i t) (\<lambda>(j, t).
      bindE (params_loop R labs eep n k j t) (\<lambda>(_, t). Inr (put_text u t)))) (extends t)" for P R eep n k i t u
  proof (rule yields_bind, rule yields_mono [OF params_loop_extends], clarify)
    fix j t' assume t: "extends t t'"
    show "yields (bindE (params_loop R labs eep n k j t') (\<lambda>(_, t). Inr (put_text u t))) (extends t)"
      by (rule yields_bind, rule yields_mono [OF params_loop_extends])
        (auto intro!: extends_more(2) elim!: extends_trans [OF t])
  qed
  show ?thesis unfolding call_text_def Let_def
    by (auto intro!: bind_yields put_text_extends yields_mono [OF two] intro: extends_trans [OF put_text_extends])
qed

lemma pieces_extends: "yields (pieces ok ts s) (\<lambda>(_, s'). extends s s')"
  by (simp add: pieces_def fold_put_text_extends extends_refl)

lemma write_inst_extends: "yields (write_inst self s ins number labs) (\<lambda>(_, s'). extends s s')"
proof -
  have step: "extends s s'" if "extends (put_text t s) s'" for t s'
    by (rule extends_trans [OF put_text_extends that])
  have call: "yields (bindE (call_text self ins labs (put_text t s)) (\<lambda>s. Inr (0 :: int, s)))
      (\<lambda>(_, s'). extends s s')" for t
    by (rule yields_bind, rule yields_mono [OF call_text_extends]) (simp add: step)
  have pcs: "yields (pieces ok ts (put_text t s)) (\<lambda>(_, s'). extends s s')" for ok ts t
    by (rule yields_mono [OF pieces_extends]) (auto intro: step)
  show ?thesis unfolding write_inst_def Let_def case_text_defs
    by (auto simp: call pcs put_text_extends split: opcode.splits)
qed

text \<open>
  C7. write_inst never writes past the string buffer: the text only grows, keeps what was
  there as a prefix, and stays below max characters, whatever the instruction, labels and
  names.
\<close>
theorem write_inst_bounded:
  assumes "write_inst self s ins number labs = Inr (ret, s')" "length (chars s) < str_max s"
  shows "length (chars s') < str_max s \<and> prefix (chars s) (chars s')"
  using yieldsD [OF write_inst_extends assms(1)] assms(2) by (auto simp: extends_def fits_def)

section \<open>What is accepted\<close>

text \<open>
  The shape the operands must have for a return code of 0: memory operands are confined to
  \<open>LOAD\<close> and \<open>STORE\<close>; the branches and calls are free.
\<close>

definition printable :: "instruction_s \<Rightarrow> bool" where
  "printable ins \<longleftrightarrow>
     (opcode ins = OP_LOAD \<longrightarrow> indirect (srcA ins) \<noteq> IND_DIRECT) \<and>
     (opcode ins = OP_STORE \<longrightarrow> indirect (dstA ins) \<noteq> IND_DIRECT) \<and>
     (opcode ins \<notin> {OP_LOAD, OP_JMP, OP_JMPT, OP_BC, OP_IF, OP_CALL, OP_NOP, OP_RET} \<longrightarrow>
        indirect (srcA ins) = IND_DIRECT) \<and>
     (opcode ins \<notin> {OP_MOV, OP_SEX, OP_ZEXT, OP_TRUNC, OP_JMP, OP_JMPT, OP_BC, OP_IF, OP_CALL,
        OP_NOP, OP_RET} \<longrightarrow> indirect (srcB ins) = IND_DIRECT) \<and>
     (opcode ins \<notin> {OP_STORE, OP_CMP, OP_TEST, OP_JMP, OP_JMPT, OP_BC, OP_IF, OP_CALL, OP_NOP,
        OP_RET} \<longrightarrow> indirect (dstA ins) = IND_DIRECT)"

lemma pieces_Inr_iff: "pieces ok ts s = Inr (r, s') \<longleftrightarrow>
    r = (if ok then 0 else 1) \<and> s' = (if ok then fold put_text ts s else s)"
  by (auto simp: pieces_def)

text \<open>
  print_inst returns 0 exactly for the instructions whose operands are direct where the
  case of their opcode prints them as such, with LOAD and STORE the only memory accesses,
  and 1 otherwise.
\<close>
theorem print_inst_accepts:
  assumes "print_inst self ins number labs = Inr (ret, t)"
  shows "ret = (if printable ins then 0 else 1)"
proof -
  obtain s s' where "write_inst self s ins number labs = Inr (ret, s')"
    using assms by (auto simp: print_inst_def bindE_Inr_iff)
  then show ?thesis
    by (cases "opcode ins")
      (simp_all add: write_inst_def printable_def Let_def case_text_defs plain_def pieces_Inr_iff bindE_Inr_iff split: if_splits)
qed

section \<open>Label names\<close>

text \<open>The labels the analyser makes: their scope and type have a name of their own.\<close>

definition proper_label :: "label_s \<Rightarrow> bool" where
  "proper_label l \<longleftrightarrow> (scope l = 3 \<and> label_type l \<in> {1, 2, 3}) \<or>
     (scope l \<in> {1, 2} \<and> label_type l \<in> {1, 2}) \<or> scope l = 4 \<or> scope l = 6"

text \<open>
  Reading a name back: the leading letters tell the kind, the digits after them the value.
\<close>

lemma hex64_nonempty: "hex64 x \<noteq> []"
  unfolding hex64_def by (subst digits_of.simps) simp

definition hex_chars :: "char set" where
  "hex_chars = {c. of_char c \<in> {48 ..< 58 :: nat} \<union> {97 ..< 103}}"

lemma digits_of_all:
  assumes "2 \<le> b" "\<And>d. d < b \<Longrightarrow> digit_char d \<in> D"
  shows "set (digits_of b n) \<subseteq> D"
  using assms
proof (induction b n rule: digits_of.induct)
  case (1 b n)
  have "n mod b < b" using "1.prems"(1) by simp
  with 1 show ?case by (subst digits_of.simps) auto
qed

lemma hex64_chars: "set (hex64 x) \<subseteq> hex_chars"
  unfolding hex64_def
  by (rule digits_of_all) (auto simp: hex_chars_def digit_char_def of_char_of)

lemma hex64_04_chars: "set (hex64_04 x) \<subseteq> hex_chars"
  using hex64_chars [of x] by (auto simp: hex64_04_def pad_def hex_chars_def)

text \<open>
  Two names are equal only when what follows the common start is: after the last character
  that is no digit the values decide.
\<close>

lemma append_stop:
  assumes "p @ c # xs = q @ d # ys" "c \<notin> D" "d \<notin> D" "set xs \<subseteq> D" "set ys \<subseteq> D"
  shows "p = q \<and> c = d \<and> xs = ys"
  using assms(1)
proof (induction p arbitrary: q)
  case Nil
  then show ?case using assms(3,4) by (cases q) auto
next
  case (Cons a p)
  then show ?case using assms(2,5) by (cases q) auto
qed

text \<open>The start of a name up to its last letter outside the digits, and the digits.\<close>

definition label_start :: "label_s \<Rightarrow> string \<times> char \<times> string" where
  "label_start l =
     (if scope l = 3 then
        (if label_type l = 1 then (''da'', CHR ''t'', ''a'')
         else if label_type l = 2 then (''&da'', CHR ''t'', ''a'')
         else (''0'', CHR ''x'', ''''))
      else if scope l = 2 then
        (if label_type l = 2 then (''param_stac'', CHR ''k'', '''') else (''param_re'', CHR ''g'', ''''))
      else if scope l = 1 then
        (if label_type l = 2 then (''local_stac'', CHR ''k'', '''') else (''local_re'', CHR ''g'', ''''))
      else if scope l = 4 then (''xxxlocal_re'', CHR ''g'', '''')
      else (''constan'', CHR ''t'', ''''))"

lemma label_text_start:
  assumes "proper_label l" "label_start l = (p, c, e)"
  shows "label_text l = Some (p @ c # e @ (if scope l = 3 \<and> label_type l = 3 then hex64 (label_value l)
    else hex64_04 (label_value l)))"
  using assms by (auto simp: proper_label_def label_start_def label_text_def)

lemma label_start_inject:
  assumes "proper_label l" "proper_label k"
  shows "fst (label_start l) = fst (label_start k) \<Longrightarrow> fst (snd (label_start l)) = fst (snd (label_start k)) \<Longrightarrow>
    scope l = scope k \<and> (scope l \<in> {1, 2, 3} \<longrightarrow> label_type l = label_type k)"
  using assms unfolding proper_label_def
  by (elim disjE conjE insertE emptyE; simp add: label_start_def)

text \<open>
  The names label_to_string gives to proper labels identify them: equal names come from
  labels of the same scope, value and, where the scope has several, type.
\<close>
theorem label_text_injective:
  assumes "proper_label l" "proper_label k" "label_text l = label_text k"
  shows "scope l = scope k \<and> label_value l = label_value k \<and>
    (scope l \<in> {1, 2, 3} \<longrightarrow> label_type l = label_type k)"
proof -
  define dig :: "label_s \<Rightarrow> string" where "dig l = (if scope l = 3 \<and> label_type l = 3 then hex64 (label_value l)
    else hex64_04 (label_value l))" for l
  obtain p c e where l: "label_start l = (p, c, e)" by (metis prod_cases3)
  obtain q d f where k: "label_start k = (q, d, f)" by (metis prod_cases3)
  have eq: "p @ c # (e @ dig l) = q @ d # (f @ dig k)"
    using assms(3) label_text_start [OF assms(1) l] label_text_start [OF assms(2) k] by (simp add: dig_def)
  have D: "set (dig x) \<subseteq> hex_chars" for x
    using hex64_chars hex64_04_chars by (auto simp: dig_def)
  have stop: "c \<notin> hex_chars \<and> set e \<subseteq> hex_chars" "d \<notin> hex_chars \<and> set f \<subseteq> hex_chars"
    using l k by (auto simp: label_start_def hex_chars_def split: if_splits)
  have "p = q \<and> c = d \<and> e @ dig l = f @ dig k"
    by (rule append_stop [OF eq]) (use stop D in auto)
  moreover from this have kind: "scope l = scope k \<and> (scope l \<in> {1, 2, 3} \<longrightarrow> label_type l = label_type k)"
    using label_start_inject [OF assms(1,2)] l k by simp
  moreover from kind have "e = f" using l k by (auto simp: label_start_def split: if_splits)
  ultimately have "dig l = dig k" by simp
  then have "label_value l = label_value k"
    using kind by (auto simp: dig_def hex64_04_inject dest: arg_cong [of _ _ "read_digits 16"]
        simp: hex64_read word_unat_eq_iff split: if_splits)
  with kind show ?thesis by blast
qed

end
