(* ===== verification/Block.thy ===== *)
theory Block
  imports Frame PrintInst
begin

text \<open>
  \<open>src/execute/process_block.c\<close>: the instructions of a block are decoded and executed one
  after the other, starting at the instruction pointer, until a jump table, the end of the
  function or code that was already executed. Each RTL instruction gets an entry of the
  instruction log, linked to the entry before it; a conditional jump and a jump table leave
  entry points for the blocks still to be processed.
\<close>

section \<open>The surroundings of a block\<close>

text \<open>
  The decoder is a callback (``the calling program must define this function''): its result
  code, the RTL instructions and the number of bytes used, at an offset. \<open>env_octets\<close> is
  the number of bytes the disassembler of libbfd reports there. \<open>env_limit\<close> is the
  parameter \<open>eip_offset_limit\<close>.
\<close>

record reloc_s =
  rel_address :: u64
  rel_addend :: u64
  rel_area :: u64
  rel_symbol_value :: u64
  rel_external_functions_index :: u64

record env =
  env_disassemble :: "u64 \<Rightarrow> int \<times> instruction_s list \<times> int"
  env_octets :: "u64 \<Rightarrow> int"
  env_relocs :: "reloc_s list"
  env_limit :: u64

text \<open>
  What the function changes: the program (its log and entry points), the process state, the
  global \<open>inst_log\<close> (the next free log entry), \<open>inst_log_prev\<close> and \<open>instruction_offset\<close>.
\<close>

record block =
  bself :: self_s
  bps :: process_state_s
  binst_log :: u64
  bprev :: u64
  boffset :: int

text \<open>An \<open>int\<close> that is assigned a \<open>uint64_t\<close>.\<close>

definition to_int :: "u64 \<Rightarrow> int" where
  "to_int x = sint (ucast x :: u32)"

section \<open>The jump table\<close>

definition is_add :: "self_s \<Rightarrow> u64 \<Rightarrow> bool c" where
  "is_add self i = bindE (at (inst_log_entry self) (unat i)) (\<lambda>e. Inr (opcode (instruction e) = OP_ADD))"

definition search_for_jump_table_base :: "self_s \<Rightarrow> u64 \<Rightarrow> u64 option c" where
  "search_for_jump_table_base self i =
     bindE (is_add self (i - 1)) (\<lambda>b. if b then Inr (Some (i - 1)) else
     bindE (is_add self (i - 2)) (\<lambda>b. if b then Inr (Some (i - 2)) else
     bindE (is_add self (i - 3)) (\<lambda>b. if b then Inr (Some (i - 3)) else Inr None)))"

definition bf_find_relocation_rodata :: "reloc_s list \<Rightarrow> u64 \<Rightarrow> (int \<times> u64) option" where
  "bf_find_relocation_rodata relocs ix =
     map_option (\<lambda>r. (to_int (rel_area r), rel_addend r)) (find (\<lambda>r. rel_address r = ix) relocs)"

text \<open>The targets of the table, 8 bytes apart, up to the first address without relocation.\<close>

fun jump_table :: "reloc_s list \<Rightarrow> nat \<Rightarrow> u64 \<Rightarrow> u64 list c" where
  "jump_table relocs 0 ix = Inl Diverge"
| "jump_table relocs (Suc k) ix =
     (case bf_find_relocation_rodata relocs ix of
        None \<Rightarrow> Inr []
      | Some (area, target) \<Rightarrow>
          if area \<noteq> 1 then Inl (Exit 1)
          else bindE (jump_table relocs k (ix + 8)) (\<lambda>ts. Inr (target # ts)))"

section \<open>Entry points\<close>

text \<open>The first entry point that is not used is filled; without one nothing happens.\<close>

fun add_entry :: "entry_point_s \<Rightarrow> entry_point_s list \<Rightarrow> entry_point_s list" where
  "add_entry e [] = []"
| "add_entry e (x # xs) = (if used x = 0 then e # xs else x # add_entry e xs)"

definition new_entry :: "process_state_s \<Rightarrow> u64 \<Rightarrow> u64 \<Rightarrow> u64 \<Rightarrow> entry_point_s c" where
  "new_entry ps eip_init eip_offset i =
     bindE (at (memory_reg ps) 0) (\<lambda>sp.
     bindE (at (memory_reg ps) 1) (\<lambda>bp.
       Inr \<lparr>used = 1, esp_init_value = init_value sp, esp_offset_value = offset_value sp,
            ebp_init_value = init_value bp, ebp_offset_value = offset_value bp,
            eip_init_value = eip_init, eip_offset_value = eip_offset,
            previous_instuction = i\<rparr>))"

definition push_entry :: "u64 \<Rightarrow> u64 \<Rightarrow> block \<Rightarrow> block c" where
  "push_entry eip_init eip_offset b =
     bindE (new_entry (bps b) eip_init eip_offset (binst_log b)) (\<lambda>e.
       Inr (b\<lparr>bself := (bself b)\<lparr>entry_point := add_entry e (entry_point (bself b))\<rparr>\<rparr>))"

fun push_entries :: "u64 list \<Rightarrow> block \<Rightarrow> block c" where
  "push_entries [] b = Inr b"
| "push_entries (t # ts) b = bindE (push_entry 0 t b) (push_entries ts)"

text \<open>Both ways out of a conditional jump: the next instruction, then the target.\<close>

definition push_if :: "inst_log_entry_s \<Rightarrow> block \<Rightarrow> block c" where
  "push_if e b =
     bindE (at (memory_reg (bps b)) 2) (\<lambda>ip.
     bindE (push_entry (init_value ip) (offset_value ip) b) (\<lambda>b.
       push_entry (init_value (value3 e)) (offset_value (value3 e)) b))"

definition push_jump_table :: "env \<Rightarrow> block \<Rightarrow> block c" where
  "push_jump_table env b =
     bindE (search_for_jump_table_base (bself b) (binst_log b)) (\<lambda>base.
       case base of
         None \<Rightarrow> Inl (Exit 1)
       | Some i \<Rightarrow>
           bindE (at (inst_log_entry (bself b)) (unat i)) (\<lambda>e.
             let src = srcB (instruction e) in
             if relocated_area src = 2 then
               bindE (jump_table (env_relocs env) (Suc (length (env_relocs env)))
                        (word_of_int (relocated_index src)))
                 (\<lambda>ts. push_entries ts b)
             else Inr b))"

section \<open>The instruction log\<close>

definition set_log :: "block \<Rightarrow> nat \<Rightarrow> inst_log_entry_s \<Rightarrow> block" where
  "set_log b n e = b\<lparr>bself := (bself b)\<lparr>inst_log_entry := (inst_log_entry (bself b))[n := e]\<rparr>\<rparr>"

definition log_at :: "block \<Rightarrow> u64 \<Rightarrow> inst_log_entry_s c" where
  "log_at b i = at (inst_log_entry (bself b)) (unat i)"

definition add_prev :: "int \<Rightarrow> inst_log_entry_s \<Rightarrow> inst_log_entry_s" where
  "add_prev i e = e\<lparr>prev := prev e @ [i]\<rparr>"

definition add_next :: "int \<Rightarrow> inst_log_entry_s \<Rightarrow> inst_log_entry_s" where
  "add_next i e = e\<lparr>next_inst := next_inst e @ [i]\<rparr>"

text \<open>
  Code that was executed before: the log entry at its first byte becomes a successor. The
  loop over the successors compares the last one each time.
\<close>

definition link_known :: "int \<Rightarrow> block \<Rightarrow> block c" where
  "link_known inst_this b =
     bindE (at_int (inst_log_entry (bself b)) inst_this) (\<lambda>e.
       let b = set_log b (nat inst_this) (add_prev (to_int (bprev b)) e) in
       bindE (log_at b (bprev b)) (\<lambda>p.
         Inr (if next_inst p \<noteq> [] \<and> last (next_inst p) = inst_this then b
              else set_log b (unat (bprev b)) (add_next inst_this p))))"

definition link_new :: "block \<Rightarrow> block c" where
  "link_new b =
     bindE (log_at b (binst_log b)) (\<lambda>e.
       let b = set_log b (unat (binst_log b)) (add_prev (to_int (bprev b)) e) in
       bindE (log_at b (bprev b)) (\<lambda>p.
         Inr (set_log b (unat (bprev b)) (add_next (to_int (binst_log b)) p))))"

section \<open>One RTL instruction\<close>

text \<open>\<open>ReturnB\<close> is a return from the function, \<open>StopB\<close> leaves the loop, \<open>NextB\<close> goes on.\<close>

datatype 'a bflow = ReturnB int 'a | StopB 'a | NextB 'a

definition execute_log :: "instruction_s \<Rightarrow> block \<Rightarrow> (int \<times> block) c" where
  "execute_log ins b =
     bindE (log_at b (binst_log b)) (\<lambda>e.
     bindE (execute_instruction (bself b) (bps b) (e\<lparr>instruction := ins\<rparr>)) (\<lambda>(err, ps, e).
       Inr (err, (set_log b (unat (binst_log b)) e)\<lparr>bps := ps\<rparr>)))"

definition leave_function :: "block \<Rightarrow> u64 \<Rightarrow> block c" where
  "leave_function b p =
     bindE (log_at b p) (\<lambda>e.
       Inr (if opcode (instruction e) = OP_NOP
            then set_log b (unat p) (e\<lparr>instruction := (instruction e)\<lparr>opcode := OP_RET\<rparr>\<rparr>)
            else b))"

text \<open>The entry points a conditional jump and a jump table leave.\<close>

definition branch_entries :: "env \<Rightarrow> instruction_s \<Rightarrow> block \<Rightarrow> block c" where
  "branch_entries env ins b =
     bindE (log_at b (binst_log b)) (\<lambda>e.
     bindE (if opcode ins = OP_IF then push_if e b else Inr b) (\<lambda>b.
       if opcode ins = OP_JMPT then push_jump_table env b else Inr b))"

text \<open>The next log entry; the end of the function, a jump table or a conditional jump stop.\<close>

definition next_log :: "block \<Rightarrow> block" where
  "next_log b = b\<lparr>bprev := binst_log b, binst_log := binst_log b + 1\<rparr>"

definition finish_inst :: "instruction_s \<Rightarrow> block \<Rightarrow> block bflow c" where
  "finish_inst ins b =
     bindE (at (memory_reg (bps b)) 2) (\<lambda>ip.
       if offset_value ip = 0 then bindE (leave_function (next_log b) (bprev b)) (\<lambda>b. Inr (StopB b))
       else if opcode ins = OP_JMPT \<or> opcode ins = OP_IF then Inr (StopB (next_log b))
       else Inr (NextB (next_log b)))"

definition run_one :: "env \<Rightarrow> instruction_s \<Rightarrow> int \<Rightarrow> block \<Rightarrow> block bflow c" where
  "run_one env ins number b =
     bindE (print_inst (bself b) ins number None) (\<lambda>(err, _).
     if err \<noteq> 0 then Inr (ReturnB err b) else
     bindE (execute_log ins b) (\<lambda>(err, b).
     if err \<noteq> 0 then Inr (ReturnB err b) else
     bindE (link_new b) (\<lambda>b.
     bindE (branch_entries env ins b) (finish_inst ins))))"

text \<open>The RTL instructions of a machine instruction; \<open>StopB\<close> leaves this loop only.\<close>

fun run_all :: "env \<Rightarrow> instruction_s list \<Rightarrow> int \<Rightarrow> opcode \<Rightarrow> block \<Rightarrow> (opcode \<times> block) bflow c" where
  "run_all env [] n opc b = Inr (NextB (opc, b))"
| "run_all env (ins # rest) n opc b =
     bindE (run_one env ins (boffset b + n + 1) b) (\<lambda>r.
       case r of
         ReturnB err b \<Rightarrow> Inr (ReturnB err (opcode ins, b))
       | StopB b \<Rightarrow> Inr (StopB (opcode ins, b))
       | NextB b \<Rightarrow> run_all env rest (n + 1) (opcode ins) b)"

section \<open>One machine instruction\<close>

text \<open>The bytes of the instruction are taken: the first holds the log entry, the others \<open>- n\<close>.\<close>

fun mark_bytes :: "u64 \<Rightarrow> int \<Rightarrow> nat \<Rightarrow> int list \<Rightarrow> int list c" where
  "mark_bytes offset n 0 us = Inr us"
| "mark_bytes offset n (Suc k) us =
     bindE (put_at us (unat (offset + word_of_int n)) (- n)) (mark_bytes offset (n + 1) k)"

definition mark_used :: "u64 \<Rightarrow> int \<Rightarrow> u64 \<Rightarrow> int list \<Rightarrow> int list c" where
  "mark_used offset bytes i us =
     bindE (mark_bytes offset 0 (nat bytes) us) (\<lambda>us. put_at us (unat offset) (to_int i))"

definition advance_ip :: "int \<Rightarrow> process_state_s \<Rightarrow> process_state_s c" where
  "advance_ip octets ps =
     bindE (at (memory_reg ps) 2) (\<lambda>ip.
       Inr (ps\<lparr>memory_reg := (memory_reg ps)[2 :=
              ip\<lparr>offset_value := offset_value ip + word_of_int octets\<rparr>]\<rparr>))"

definition after_insts :: "nat \<Rightarrow> opcode \<Rightarrow> block \<Rightarrow> block bflow c" where
  "after_insts k opc b =
     (let b = b\<lparr>boffset := boffset b + int k\<rparr> in
      bindE (at (memory_reg (bps b)) 2) (\<lambda>ip.
        if offset_value ip = 0 \<or> opc = OP_JMPT then Inr (StopB b) else Inr (NextB b)))"

definition block_step :: "env \<Rightarrow> block \<Rightarrow> block bflow c" where
  "block_step env b =
     bindE (at (memory_reg (bps b)) 2) (\<lambda>ip.
     let offset = offset_value ip in
     if env_limit env \<le> offset then Inr (ReturnB 1 b) else
     let (result, insts, bytes) = env_disassemble env offset in
     bindE (at (memory_used (bps b)) (unat offset)) (\<lambda>u.
     if u \<noteq> 0 then bindE (link_known u b) (\<lambda>b. Inr (StopB b)) else
     bindE (mark_used offset bytes (binst_log b) (memory_used (bps b))) (\<lambda>us.
     let b = b\<lparr>bps := (bps b)\<lparr>memory_used := us\<rparr>\<rparr> in
     if bytes \<noteq> env_octets env offset then Inr (ReturnB 1 b) else
     bindE (advance_ip (env_octets env offset) (bps b)) (\<lambda>ps.
     let b = b\<lparr>bps := ps\<rparr> in
     if result \<noteq> 0 then Inr (ReturnB 1 b)
     else if insts = [] then Inr (NextB b)
     else
       bindE (run_all env insts 0 OP_NONE b) (\<lambda>r.
         case r of
           ReturnB err (_, b) \<Rightarrow> Inr (ReturnB err b)
         | StopB (opc, b) \<Rightarrow> after_insts (length insts) opc b
         | NextB (opc, b) \<Rightarrow> after_insts (length insts) opc b)))))"

section \<open>The function\<close>

fun process_block :: "env \<Rightarrow> nat \<Rightarrow> block \<Rightarrow> (int \<times> block) c" where
  "process_block env 0 b = Inl Diverge"
| "process_block env (Suc fuel) b =
     bindE (block_step env b) (\<lambda>r.
       case r of
         ReturnB err b \<Rightarrow> Inr (err, b)
       | StopB b \<Rightarrow> Inr (0, b)
       | NextB b \<Rightarrow> process_block env fuel b)"

section \<open>The links of the log\<close>

text \<open>\<open>j\<close> is a successor of \<open>i\<close> exactly when \<open>i\<close> is a predecessor of \<open>j\<close>.\<close>

definition linked :: "inst_log_entry_s list \<Rightarrow> bool" where
  "linked log \<longleftrightarrow> (\<forall>i < length log. \<forall>j < length log.
     (int j \<in> set (next_inst (log ! i))) = (int i \<in> set (prev (log ! j))))"

lemma linkedD:
  "linked log \<Longrightarrow> i < length log \<Longrightarrow> j < length log \<Longrightarrow>
     (int j \<in> set (next_inst (log ! i))) = (int i \<in> set (prev (log ! j)))"
  unfolding linked_def by blast

lemma linked_same:
  assumes "linked log" "length log' = length log"
    and "\<And>k. k < length log \<Longrightarrow> set (next_inst (log' ! k)) = set (next_inst (log ! k)) \<and>
      set (prev (log' ! k)) = set (prev (log ! k))"
  shows "linked log'"
  using assms by (simp add: linked_def)

lemma linked_update:
  assumes "linked log" "n < length log" "prev e = prev (log ! n)" "next_inst e = next_inst (log ! n)"
  shows "linked (log[n := e])"
  by (rule linked_same [OF assms(1)]) (auto simp: nth_list_update assms)

lemma linked_edge:
  assumes "linked log" "i < length log" "j < length log" "length log' = length log"
    and "\<And>k. k < length log \<Longrightarrow> set (next_inst (log' ! k)) =
      (if k = i then insert (int j) (set (next_inst (log ! k))) else set (next_inst (log ! k)))"
    and "\<And>k. k < length log \<Longrightarrow> set (prev (log' ! k)) =
      (if k = j then insert (int i) (set (prev (log ! k))) else set (prev (log ! k)))"
  shows "linked log'"
  unfolding linked_def
proof (intro allI impI)
  fix k l
  assume k: "k < length log'" "l < length log'"
  have "(int l \<in> set (next_inst (log ! k))) = (int k \<in> set (prev (log ! l)))"
    by (rule linkedD [OF assms(1)]) (use k assms(4) in simp_all)
  moreover have "set (next_inst (log' ! k)) =
      (if k = i then insert (int j) (set (next_inst (log ! k))) else set (next_inst (log ! k)))"
    by (rule assms(5)) (use k assms(4) in simp)
  moreover have "set (prev (log' ! l)) =
      (if l = j then insert (int i) (set (prev (log ! l))) else set (prev (log ! l)))"
    by (rule assms(6)) (use k assms(4) in simp)
  ultimately show "(int l \<in> set (next_inst (log' ! k))) = (int k \<in> set (prev (log' ! l)))"
    by (cases "k = i"; cases "l = j") (simp_all only: if_True if_False simp_thms insert_iff of_nat_eq_iff)
qed

lemma add_prev_simps [simp]: "prev (add_prev i e) = prev e @ [i]" "next_inst (add_prev i e) = next_inst e"
  by (simp_all add: add_prev_def)

lemma add_next_simps [simp]: "next_inst (add_next i e) = next_inst e @ [i]" "prev (add_next i e) = prev e"
  by (simp_all add: add_next_def)

lemma set_log_simps [simp]:
  "inst_log_entry (bself (set_log b n e)) = (inst_log_entry (bself b))[n := e]"
  "bps (set_log b n e) = bps b" "binst_log (set_log b n e) = binst_log b"
  "bprev (set_log b n e) = bprev b"
  by (simp_all add: set_log_def)

lemma to_int_nat:
  assumes "unat x < 2 ^ 31"
  shows "to_int x = int (unat x)"
proof -
  have "int (unat x) < int (2 ^ 31)" using assms by (simp only: of_nat_less_iff)
  then have lt: "uint x < 2 ^ 31" by simp
  have "uint (ucast x :: u32) = uint x"
    using lt by (simp add: unsigned_ucast_eq take_bit_int_eq_self)
  moreover have "signed_take_bit 31 (uint x) = uint x"
    by (rule signed_take_bit_int_eq_self) (use lt uint_nonnegative [of x] in linarith)+
  ultimately have "sint (ucast x :: u32) = uint x" by (simp add: sint_uint)
  then show ?thesis by (simp add: to_int_def)
qed

text \<open>
  The invariant of a block: links are mutual, \<open>inst_log\<close> starts at 1 and stays within the
  log, which has at most \<open>2 ^ 31\<close> entries (its indices are held in an \<open>int\<close>).
\<close>

definition block_inv :: "block \<Rightarrow> bool" where
  "block_inv b \<longleftrightarrow> linked (inst_log_entry (bself b)) \<and> length (inst_log_entry (bself b)) \<le> 2 ^ 31 \<and>
     1 \<le> unat (binst_log b) \<and> unat (binst_log b) \<le> length (inst_log_entry (bself b))"

text \<open>An operation on blocks that keeps the invariant, the used map and \<open>inst_log\<close>.\<close>

definition block_keeps :: "block \<Rightarrow> block \<Rightarrow> bool" where
  "block_keeps b b' \<longleftrightarrow> block_inv b' \<and> memory_used (bps b') = memory_used (bps b) \<and>
     binst_log b' = binst_log b \<and> length (inst_log_entry (bself b')) = length (inst_log_entry (bself b))"

lemma block_keeps_trans: "block_keeps a b \<Longrightarrow> block_keeps b c \<Longrightarrow> block_keeps a c"
  by (simp add: block_keeps_def)

lemma block_keeps_refl: "block_inv b \<Longrightarrow> block_keeps b b"
  by (simp add: block_keeps_def)

lemma log_at_safe: "safe (log_at b i) Q \<longleftrightarrow>
    (unat i < length (inst_log_entry (bself b)) \<longrightarrow> Q (inst_log_entry (bself b) ! unat i))"
  by (simp add: log_at_def)

lemma link_known_keeps:
  assumes "block_inv b"
  shows "safe (link_known t b) (block_keeps b)"
proof -
  let ?log = "inst_log_entry (bself b)" and ?i = "unat (bprev b)" and ?j = "nat t"
  have "linked (?log[?j := add_prev (to_int (bprev b)) (?log ! ?j)])"
    if "?i < length ?log" "0 \<le> t" "t < int (length ?log)"
      "next_inst (?log ! ?i) \<noteq> [] \<and> last (next_inst (?log ! ?i)) = t"
  proof (rule linked_edge [where i = ?i and j = ?j and log = ?log])
    have "t \<in> set (next_inst (?log ! ?i))" using that(4) by (metis last_in_set)
    then show "set (next_inst (?log[?j := add_prev (to_int (bprev b)) (?log ! ?j)] ! k)) =
      (if k = ?i then insert (int ?j) (set (next_inst (?log ! k))) else set (next_inst (?log ! k)))" for k
      using that by (auto simp: nth_list_update)
  qed (use that assms in \<open>auto simp: block_inv_def nth_list_update to_int_nat\<close>)
  moreover have "linked (?log[?j := add_prev (to_int (bprev b)) (?log ! ?j),
      ?i := add_next t (?log[?j := add_prev (to_int (bprev b)) (?log ! ?j)] ! ?i)])"
    if "?i < length ?log" "0 \<le> t" "t < int (length ?log)"
    by (rule linked_edge [where i = ?i and j = ?j and log = ?log])
      (use that assms in \<open>auto simp: block_inv_def nth_list_update to_int_nat\<close>)
  moreover have same: "next_inst (?log[?j := add_prev p (?log ! ?j)] ! ?i) = next_inst (?log ! ?i)" for p
    by (cases "?j < length ?log") (auto simp: nth_list_update list_update_beyond)
  ultimately show ?thesis using assms unfolding link_known_def Let_def
    by (auto intro!: safe_bind simp: log_at_safe block_keeps_def block_inv_def)
qed

lemma link_new_keeps:
  assumes "block_inv b"
  shows "safe (link_new b) (block_keeps b)"
proof -
  let ?log = "inst_log_entry (bself b)" and ?i = "unat (bprev b)" and ?j = "unat (binst_log b)"
  have "linked (?log[?j := add_prev (to_int (bprev b)) (?log ! ?j),
      ?i := add_next (to_int (binst_log b)) (?log[?j := add_prev (to_int (bprev b)) (?log ! ?j)] ! ?i)])"
    if "?i < length ?log" "?j < length ?log"
    by (rule linked_edge [where i = ?i and j = ?j and log = ?log])
      (use that assms in \<open>auto simp: block_inv_def nth_list_update to_int_nat\<close>)
  then show ?thesis using assms unfolding link_new_def Let_def
    by (auto intro!: safe_bind simp: log_at_safe block_keeps_def block_inv_def)
qed

lemma execute_log_keeps:
  assumes "block_inv b"
  shows "safe (execute_log ins b) (\<lambda>(_, b'). block_keeps b b' \<and> unat (binst_log b) < length (inst_log_entry (bself b)))"
  unfolding execute_log_def
  by (rule safe_bind) (use assms in \<open>auto simp: log_at_safe block_keeps_def block_inv_def
      intro!: safe_step [OF execute_instruction_safe] linked_update\<close>)

lemma push_entry_keeps: "block_inv b \<Longrightarrow> safe (push_entry x y b) (block_keeps b)"
  by (auto simp: push_entry_def new_entry_def bindE_assoc block_keeps_def block_inv_def intro!: safe_bind)

lemma push_entries_keeps: "block_inv b \<Longrightarrow> safe (push_entries ts b) (block_keeps b)"
proof (induction ts arbitrary: b)
  case (Cons t ts)
  have "safe (push_entries ts b') (block_keeps b)" if "block_keeps b b'" for b'
    by (rule safe_mono [OF Cons.IH]) (use that in \<open>auto simp: block_keeps_def\<close>)
  then show ?case by (auto intro!: safe_step [OF push_entry_keeps [OF Cons.prems]])
qed (simp add: block_keeps_refl)

lemma push_if_keeps:
  assumes "block_inv b"
  shows "safe (push_if e b) (block_keeps b)"
proof -
  have "safe (push_entry x y b') (block_keeps b)" if "block_keeps b b'" for b' x y
    by (rule safe_mono [OF push_entry_keeps]) (use that in \<open>auto simp: block_keeps_def\<close>)
  then show ?thesis unfolding push_if_def
    by (auto intro!: safe_bind safe_step [OF push_entry_keeps [OF assms]])
qed

lemma block_inv_of: "block_keeps a b \<Longrightarrow> block_inv b"
  by (simp add: block_keeps_def)

lemma block_keeps_step:
  assumes "block_keeps a b" "block_inv b \<Longrightarrow> safe (f b) (block_keeps b)"
  shows "safe (f b) (block_keeps a)"
  by (rule safe_mono [OF assms(2)]) (use assms(1) in \<open>auto dest: block_inv_of block_keeps_trans\<close>)

section \<open>The jump table ends\<close>

lemma jump_table_diverge:
  "jump_table relocs k ix = Inl Diverge \<Longrightarrow> j < k \<Longrightarrow> ix + 8 * of_nat j \<in> rel_address ` set relocs"
proof (induction k arbitrary: ix j)
  case (Suc k)
  obtain area t where hit: "bf_find_relocation_rodata relocs ix = Some (area, t)" "area = 1"
    "jump_table relocs k (ix + 8) = Inl Diverge"
    using Suc.prems(1) by (auto simp: bindE_Inl_iff split: option.splits prod.splits if_splits)
  show ?case
  proof (cases j)
    case 0
    obtain r where "find (\<lambda>r. rel_address r = ix) relocs = Some r"
      using hit(1) by (auto simp: bf_find_relocation_rodata_def)
    then have "r \<in> set relocs" "rel_address r = ix" by (auto simp: find_Some_iff)
    then show ?thesis using 0 by auto
  next
    case (Suc j')
    with Suc.IH [OF hit(3), of j'] Suc.prems(2) show ?thesis by (simp add: algebra_simps)
  qed
qed simp

lemma of_nat_8_inj:
  assumes "8 * (of_nat i :: u64) = 8 * of_nat j" "i < 2 ^ 61" "j < 2 ^ 61"
  shows "i = j"
proof -
  have "of_nat (8 * i) = (of_nat (8 * j) :: u64)" using assms(1) by simp
  then have "take_bit 64 (8 * i) = take_bit 64 (8 * j)" by (simp only: word_of_nat_eq_iff) simp
  then show ?thesis using assms(2,3) by (simp add: take_bit_nat_eq_self)
qed

lemma jump_table_ends:
  assumes "length relocs < 2 ^ 61"
  shows "jump_table relocs (Suc (length relocs)) ix \<noteq> Inl Diverge"
proof
  assume d: "jump_table relocs (Suc (length relocs)) ix = Inl Diverge"
  let ?J = "{0 ..< Suc (length relocs)}" and ?f = "\<lambda>j. ix + 8 * of_nat j"
  have "inj_on ?f ?J" by (rule inj_onI, rule of_nat_8_inj) (use assms in auto)
  then have "card (?f ` ?J) = Suc (length relocs)" by (simp add: card_image)
  moreover have "?f ` ?J \<subseteq> rel_address ` set relocs" using jump_table_diverge [OF d] by auto
  then have "card (?f ` ?J) \<le> card (rel_address ` set relocs)" by (rule card_mono [rotated]) simp
  moreover have "card (rel_address ` set relocs) \<le> length relocs"
    by (metis card_image_le card_length finite_set le_trans)
  ultimately show False by simp
qed

lemma jump_table_safe:
  "length relocs < 2 ^ 61 \<Longrightarrow> safe (jump_table relocs (Suc (length relocs)) ix) (\<lambda>_. True)"
  using jump_table_ends by (simp add: safe_def yields_def)

lemma push_jump_table_keeps:
  assumes "block_inv b" "length (env_relocs env) < 2 ^ 61"
  shows "safe (push_jump_table env b) (block_keeps b)"
proof -
  have base: "safe (search_for_jump_table_base self i) (\<lambda>_. True)" for self i
    by (auto simp: search_for_jump_table_base_def is_add_def intro!: safe_bind)
  have step: "safe (bindE (at (inst_log_entry (bself b)) (unat i)) (\<lambda>e.
             let src = srcB (instruction e) in
             if relocated_area src = 2 then
               bindE (jump_table (env_relocs env) (Suc (length (env_relocs env)))
                        (word_of_int (relocated_index src))) (\<lambda>ts. push_entries ts b)
             else Inr b)) (block_keeps b)" for i
    unfolding Let_def
    by (auto intro!: safe_bind safe_step [OF jump_table_safe [OF assms(2)]] push_entries_keeps assms
        block_keeps_refl simp del: jump_table.simps)
  show ?thesis unfolding push_jump_table_def
    by (rule safe_step [OF base]) (auto intro: step simp del: jump_table.simps split: option.split)
qed

section \<open>Printing comes to an end\<close>

lemma print_inst_safe: "safe (print_inst self ins n labs) (\<lambda>_. True)"
proof -
  have params: "safe (params_loop P labs e k m st s) (\<lambda>_. True)" for P e k m st s
    by (induction m arbitrary: k st s) (auto simp: param_label_def intro!: safe_bind split: option.splits)
  have call: "safe (call_text self ins labs s) (\<lambda>_. True)" for s
    unfolding call_text_def Let_def by (auto intro!: safe_bind safe_step [OF params])
  show ?thesis unfolding print_inst_def write_inst_def case_text_defs Let_def
    by (auto simp: pieces_def intro!: safe_bind safe_step [OF call] split: opcode.splits)
qed

section \<open>One instruction keeps the invariant\<close>

lemma leave_function_keeps: "block_inv b \<Longrightarrow> safe (leave_function b p) (block_keeps b)"
  by (auto simp: leave_function_def log_at_safe block_keeps_def block_inv_def
      intro!: safe_bind linked_update)

text \<open>After an RTL instruction \<open>inst_log\<close> may have moved on.\<close>

definition block_goes :: "block \<Rightarrow> block \<Rightarrow> bool" where
  "block_goes b b' \<longleftrightarrow> block_inv b' \<and> memory_used (bps b') = memory_used (bps b)"

definition flow_all :: "('a \<Rightarrow> bool) \<Rightarrow> 'a bflow \<Rightarrow> bool" where
  "flow_all P r = (case r of ReturnB _ b \<Rightarrow> P b | StopB b \<Rightarrow> P b | NextB b \<Rightarrow> P b)"

lemma flow_all_simps [simp]: "flow_all P (ReturnB e b) = P b" "flow_all P (StopB b) = P b"
  "flow_all P (NextB b) = P b"
  by (simp_all add: flow_all_def)

lemma branch_entries_keeps:
  assumes "block_inv b" "length (env_relocs env) < 2 ^ 61"
  shows "safe (branch_entries env ins b) (block_keeps b)"
  unfolding branch_entries_def
proof (rule safe_bind, unfold log_at_safe, intro impI)
  let ?e = "inst_log_entry (bself b) ! unat (binst_log b)"
  have first: "safe (if opcode ins = OP_IF then push_if ?e b else Inr b) (block_keeps b)"
    by (simp add: push_if_keeps block_keeps_refl assms)
  show "safe (bindE (if opcode ins = OP_IF then push_if ?e b else Inr b)
      (\<lambda>b. if opcode ins = OP_JMPT then push_jump_table env b else Inr b)) (block_keeps b)"
    by (rule safe_step [OF first], erule block_keeps_step)
      (auto intro: push_jump_table_keeps [OF _ assms(2)] block_keeps_refl)
qed

lemma next_log_goes:
  assumes "block_inv b" "unat (binst_log b) < length (inst_log_entry (bself b))"
  shows "block_inv (next_log b)" "memory_used (bps (next_log b)) = memory_used (bps b)"
proof -
  have "unat (binst_log b + 1) = unat (binst_log b) + 1"
    using assms by (simp add: unat_word_ariths block_inv_def)
  then show "block_inv (next_log b)" using assms by (simp add: block_inv_def next_log_def)
qed (simp add: next_log_def)

lemma finish_inst_goes:
  assumes "block_inv b" "unat (binst_log b) < length (inst_log_entry (bself b))"
  shows "safe (finish_inst ins b) (flow_all (block_goes b))"
proof -
  note nl = next_log_goes [OF assms]
  have "safe (leave_function (next_log b) p) (block_goes b)" for p
    by (rule safe_mono [OF leave_function_keeps [OF nl(1)]])
      (use nl(2) in \<open>auto simp: block_keeps_def block_goes_def\<close>)
  moreover have "block_goes b (next_log b)" using nl by (simp add: block_goes_def)
  ultimately show ?thesis unfolding finish_inst_def
    by (auto intro!: safe_bind [of "at _ _"] safe_step [of "leave_function _ _"])
qed

lemma block_goes_keeps: "block_keeps b c \<Longrightarrow> block_goes c d \<Longrightarrow> block_goes b d"
  by (simp add: block_keeps_def block_goes_def)

lemma flow_all_mono: "flow_all P r \<Longrightarrow> (\<And>b. P b \<Longrightarrow> Q b) \<Longrightarrow> flow_all Q r"
  by (cases r) simp_all

lemma run_one_goes:
  assumes inv: "block_inv b" and sz: "length (env_relocs env) < 2 ^ 61"
  shows "safe (run_one env ins n b) (flow_all (block_goes b))"
  unfolding run_one_def
proof (rule safe_step [OF print_inst_safe], clarsimp, intro conjI impI)
  show "block_goes b b" using inv by (simp add: block_goes_def)
  let ?in = "\<lambda>c. block_keeps b c \<and> unat (binst_log b) < length (inst_log_entry (bself b))"
  have finish: "safe (finish_inst ins c) (flow_all (block_goes b))" if "?in c" for c
  proof (rule safe_mono [OF finish_inst_goes])
    show "block_inv c" "unat (binst_log c) < length (inst_log_entry (bself c))"
      using that by (auto simp: block_keeps_def)
  qed (use that in \<open>auto elim: flow_all_mono intro: block_goes_keeps\<close>)
  have branch: "safe (bindE (branch_entries env ins c) (finish_inst ins)) (flow_all (block_goes b))"
    if c: "?in c" for c
    by (rule safe_step [OF branch_entries_keeps [OF block_inv_of sz]])
      (use c in \<open>auto intro!: finish intro: block_keeps_trans\<close>)
  have link: "safe (bindE (link_new c) (\<lambda>b. bindE (branch_entries env ins b) (finish_inst ins)))
      (flow_all (block_goes b))" if c: "?in c" for c
    by (rule safe_step [OF link_new_keeps [OF block_inv_of]])
      (use c in \<open>auto intro!: branch intro: block_keeps_trans\<close>)
  show "safe (bindE (execute_log ins b) (\<lambda>(err, b).
     if err \<noteq> 0 then Inr (ReturnB err b) else
     bindE (link_new b) (\<lambda>b. bindE (branch_entries env ins b) (finish_inst ins))))
     (flow_all (block_goes b))"
    by (rule safe_step [OF execute_log_keeps [OF inv]])
      (auto intro!: link simp: block_goes_def block_keeps_def)
qed

lemma block_goes_trans: "block_goes a b \<Longrightarrow> block_goes b c \<Longrightarrow> block_goes a c"
  by (simp add: block_goes_def)

lemma run_all_goes:
  assumes "length (env_relocs env) < 2 ^ 61"
  shows "block_inv b \<Longrightarrow> safe (run_all env insts n opc b) (flow_all (\<lambda>(_, b'). block_goes b b'))"
proof (induction insts arbitrary: n opc b)
  case Nil
  then show ?case by (simp add: block_goes_def)
next
  case (Cons ins rest)
  have rest: "safe (run_all env rest m opc' c) (flow_all (\<lambda>(_, b'). block_goes b b'))"
    if "block_goes b c" for m opc' c
    by (rule safe_mono [OF Cons.IH])
      (use that in \<open>auto simp: block_goes_def [of b c] elim!: flow_all_mono intro: block_goes_trans [OF that]\<close>)
  show ?case unfolding run_all.simps
    by (rule safe_step [OF run_one_goes [OF Cons.prems assms]]) (auto intro: rest split: bflow.splits)
qed

section \<open>The used map fills up\<close>

definition unused :: "int list \<Rightarrow> nat set" where
  "unused us = {n. n < length us \<and> us ! n = 0}"

definition fills :: "int list \<Rightarrow> int list \<Rightarrow> bool" where
  "fills us us' \<longleftrightarrow> unused us' \<subset> unused us"

lemma unused_finite [simp]: "finite (unused us)"
  by (simp add: unused_def)

lemma mark_bytes_unused:
  "1 \<le> n \<Longrightarrow> safe (mark_bytes offset n k us) (\<lambda>us'. unused us' \<subseteq> unused us \<and> length us' = length us)"
proof (induction k arbitrary: n us)
  case 0
  then show ?case by simp
next
  case (Suc k)
  let ?i = "unat (offset + word_of_int n)"
  have sub: "unused (us[?i := - n]) \<subseteq> unused us"
    using Suc.prems by (cases "?i < length us") (auto simp: unused_def nth_list_update split: if_splits)
  have "safe (mark_bytes offset (n + 1) k (us[?i := - n]))
      (\<lambda>us'. unused us' \<subseteq> unused us \<and> length us' = length us)"
    by (rule safe_mono [OF Suc.IH]) (use Suc.prems sub in auto)
  then show ?case by (auto intro!: safe_bind)
qed

lemma mark_used_unused:
  assumes "us ! unat offset = 0" "to_int i \<noteq> 0"
  shows "safe (mark_used offset bytes i us)
    (\<lambda>us'. unused us' \<subseteq> unused us - {unat offset} \<and> length us' = length us)"
proof -
  have first: "safe (mark_bytes offset 0 k us) (\<lambda>us'. unused us' \<subseteq> unused us \<and> length us' = length us)" for k
  proof (cases k)
    case (Suc k')
    have "us[unat offset := 0] = us"
      using assms(1) by (metis list_update_id)
    then show ?thesis using Suc mark_bytes_unused [of 1 offset k' us] by (auto intro!: safe_bind)
  qed simp
  show ?thesis unfolding mark_used_def
    by (rule safe_step [OF first])
      (use assms(2) in \<open>auto simp: unused_def nth_list_update split: if_splits\<close>)
qed

section \<open>The function comes to an end\<close>

text \<open>
  A machine instruction that lets the loop go on takes an unused byte; whatever happens, the
  links stay mutual.
\<close>

lemma block_inv_process_state: "block_inv (b\<lparr>bps := ps\<rparr>) = block_inv b"
  "block_inv (b\<lparr>boffset := n\<rparr>) = block_inv b"
  by (simp_all add: block_inv_def)

lemma after_insts_safe:
  "block_inv b \<Longrightarrow> safe (after_insts k opc b)
     (flow_all (\<lambda>b'. block_inv b' \<and> memory_used (bps b') = memory_used (bps b)))"
  unfolding after_insts_def Let_def
  by (rule safe_bind) (simp add: block_inv_process_state)

definition block_progress :: "block \<Rightarrow> block bflow \<Rightarrow> bool" where
  "block_progress b r \<longleftrightarrow> flow_all block_inv r \<and>
     (\<forall>b'. r = NextB b' \<longrightarrow> fills (memory_used (bps b)) (memory_used (bps b')))"

lemma block_progressI:
  "block_inv b' \<Longrightarrow> block_progress b (ReturnB e b')"
  "block_inv b' \<Longrightarrow> block_progress b (StopB b')"
  "block_inv b' \<Longrightarrow> fills (memory_used (bps b)) (memory_used (bps b')) \<Longrightarrow> block_progress b (NextB b')"
  by (simp_all add: block_progress_def)

lemma run_insts_progress:
  assumes inv: "block_inv c" and sz: "length (env_relocs env) < 2 ^ 61"
    and sub: "fills (memory_used (bps b)) (memory_used (bps c))"
  shows "safe (bindE (run_all env insts 0 OP_NONE c) (\<lambda>r.
         case r of
           ReturnB err (_, b) \<Rightarrow> Inr (ReturnB err b)
         | StopB (opc, b) \<Rightarrow> after_insts (length insts) opc b
         | NextB (opc, b) \<Rightarrow> after_insts (length insts) opc b)) (block_progress b)"
proof -
  have after: "safe (after_insts k opc d) (block_progress b)" if "block_goes c d" for k opc d
  proof -
    have d: "block_inv d" "memory_used (bps d) = memory_used (bps c)"
      using that by (auto simp: block_goes_def)
    show ?thesis
      by (rule safe_mono [OF after_insts_safe [OF d(1)]])
        (use d(2) sub in \<open>auto simp: flow_all_def block_progress_def split: bflow.splits\<close>)
  qed
  show ?thesis
    by (rule safe_step [OF run_all_goes [OF sz inv]])
      (auto intro!: after block_progressI simp: block_goes_def sub split: bflow.splits prod.splits)
qed

lemma to_int_nonzero:
  assumes "1 \<le> unat x" "unat x \<le> 2 ^ 31"
  shows "to_int x \<noteq> 0"
proof
  assume "to_int x = 0"
  then have "(ucast x :: u32) = 0" by (simp only: to_int_def signed_eq_0_iff)
  then have "unat (ucast x :: u32) = 0" by (simp only: unsigned_0)
  moreover have "unat (ucast x :: u32) = unat x"
    using assms(2) by (simp add: unsigned_ucast_eq take_bit_nat_eq_self)
  ultimately show False using assms(1) by simp
qed

lemma advance_ip_safe: "safe (advance_ip k ps) (\<lambda>ps'. memory_used ps' = memory_used ps)"
  unfolding advance_ip_def by (rule safe_bind) simp

lemma block_step_progress:
  assumes inv: "block_inv b" and sz: "length (env_relocs env) < 2 ^ 61"
  shows "safe (block_step env b) (block_progress b)"
proof -
  let ?us = "memory_used (bps b)"
  have i: "to_int (binst_log b) \<noteq> 0"
    by (rule to_int_nonzero) (use inv in \<open>auto simp: block_inv_def\<close>)
  have known: "safe (bindE (link_known u b) (\<lambda>b. Inr (StopB b))) (block_progress b)" for u
    by (rule safe_step [OF link_known_keeps [OF inv]]) (auto simp: block_progress_def dest: block_inv_of)
  have mark: "safe (bindE (mark_used off bytes (binst_log b) ?us) k) (block_progress b)"
    if "?us ! unat off = 0" "unat off < length ?us"
      and k: "\<And>us'. fills ?us us' \<Longrightarrow> safe (k us') (block_progress b)" for off bytes k
  proof (rule safe_step [OF mark_used_unused [OF that(1) i]])
    fix us' assume "unused us' \<subseteq> unused ?us - {unat off} \<and> length us' = length ?us"
    moreover have "unat off \<in> unused ?us" using that by (simp add: unused_def)
    ultimately show "safe (k us') (block_progress b)" by (intro k) (auto simp: fills_def)
  qed
  have rest: "safe (bindE (advance_ip oct (bps b\<lparr>memory_used := us\<rparr>)) (\<lambda>ps.
     if result \<noteq> 0 then Inr (ReturnB 1 (b\<lparr>bps := ps\<rparr>))
     else if insts = [] then Inr (NextB (b\<lparr>bps := ps\<rparr>))
     else
       bindE (run_all env insts 0 OP_NONE (b\<lparr>bps := ps\<rparr>)) (\<lambda>r.
         case r of
           ReturnB err (_, b) \<Rightarrow> Inr (ReturnB err b)
         | StopB (opc, b) \<Rightarrow> after_insts (length insts) opc b
         | NextB (opc, b) \<Rightarrow> after_insts (length insts) opc b))) (block_progress b)"
    if us: "fills ?us us" for us oct result insts
    by (rule safe_step [OF advance_ip_safe])
      (use us in \<open>auto intro!: block_progressI run_insts_progress [OF _ sz]
        simp: inv block_inv_process_state\<close>)
  show ?thesis unfolding block_step_def
    by (rule safe_bind)
      (auto simp: Let_def inv block_inv_process_state split: prod.splits
        intro!: safe_bind [of "at _ _"] known mark block_progressI rest)
qed

lemma process_block_safe:
  assumes "length (env_relocs env) < 2 ^ 61"
  shows "block_inv b \<Longrightarrow> card (unused (memory_used (bps b))) < fuel \<Longrightarrow>
    safe (process_block env fuel b) (\<lambda>(_, b'). block_inv b')"
proof (induction fuel arbitrary: b)
  case 0
  then show ?case by simp
next
  case (Suc fuel)
  have rest: "safe (process_block env fuel c) (\<lambda>(_, b'). block_inv b')"
    if "block_inv c" "fills (memory_used (bps b)) (memory_used (bps c))" for c
  proof (rule Suc.IH [OF that(1)])
    have "card (unused (memory_used (bps c))) < card (unused (memory_used (bps b)))"
      by (rule psubset_card_mono) (use that(2) in \<open>simp_all add: fills_def\<close>)
    then show "card (unused (memory_used (bps c))) < fuel" using Suc.prems(2) by simp
  qed
  show ?case unfolding process_block.simps
    by (rule safe_step [OF block_step_progress [OF Suc.prems(1) assms]])
      (auto simp: block_progress_def intro: rest split: bflow.splits)
qed

text \<open>
  C4. process_block ends: with fuel above the size of the map of executed bytes the model
  never runs out, because every machine instruction that continues the loop takes a byte
  that was free, and the jump table loop ends for a relocation table below 2 ^ 61 entries.
\<close>
theorem process_block_terminates:
  assumes "block_inv b" "length (env_relocs env) < 2 ^ 61"
    and "length (memory_used (bps b)) < fuel"
  shows "process_block env fuel b \<noteq> Inl Diverge"
proof -
  have "unused (memory_used (bps b)) \<subseteq> {0 ..< length (memory_used (bps b))}"
    by (auto simp: unused_def)
  then have "card (unused (memory_used (bps b))) \<le> length (memory_used (bps b))"
    using card_mono [of "{0 ..< length (memory_used (bps b))}"] by fastforce
  then show ?thesis using process_block_safe [OF assms(2,1), of fuel] assms(3) by (simp add: safe_def)
qed

text \<open>
  C3. When process_block returns, the links of the instruction log are mutual: an entry is a
  successor of another exactly when that one is its predecessor, whatever the decoder and
  the relocation table deliver.
\<close>
theorem process_block_links_mutual:
  assumes "block_inv b" "length (env_relocs env) < 2 ^ 61"
    and "length (memory_used (bps b)) < fuel"
    and "process_block env fuel b = Inr (err, b')"
    and "i < length (inst_log_entry (bself b'))" "j < length (inst_log_entry (bself b'))"
  shows "int j \<in> set (next_inst (inst_log_entry (bself b') ! i)) \<longleftrightarrow>
    int i \<in> set (prev (inst_log_entry (bself b') ! j))"
proof -
  have "unused (memory_used (bps b)) \<subseteq> {0 ..< length (memory_used (bps b))}"
    by (auto simp: unused_def)
  then have "card (unused (memory_used (bps b))) \<le> length (memory_used (bps b))"
    using card_mono [of "{0 ..< length (memory_used (bps b))}"] by fastforce
  then have "block_inv b'"
    using process_block_safe [OF assms(2,1), of fuel] assms(3,4) by (simp add: safe_def yields_def)
  then show ?thesis using linkedD assms(5,6) by (simp add: block_inv_def)
qed

text \<open>
  The search for an existing successor compares the last one only: a target that is an
  earlier successor is appended again.
\<close>
theorem link_known_repeats:
  assumes "block_inv b" "unat (bprev b) < length (inst_log_entry (bself b))"
    and "0 \<le> t" "t < int (length (inst_log_entry (bself b)))"
    and "nat t \<noteq> unat (bprev b)"
    and "next_inst (inst_log_entry (bself b) ! unat (bprev b)) = xs @ [t, u]" "u \<noteq> t"
  shows "\<exists>b'. link_known t b = Inr b' \<and>
    next_inst (inst_log_entry (bself b') ! unat (bprev b)) = xs @ [t, u, t]"
  using assms by (simp add: link_known_def log_at_def at_int_def Let_def nth_list_update add_next_def)

end
