(* ===== verification/NodeGraph.thy ===== *)
theory NodeGraph
  imports NodeBlocks Block
begin

text \<open>
  The last loops of \<open>build_control_flow_nodes\<close>: links and predecessors of the nodes follow the
  links of the instructions, and each predecessor has the place of its link. The log of
  \<open>process_block\<close>, tidied, is one these facts are about.
\<close>


section \<open>The node of an instruction\<close>

lemma find_start_finds:
  assumes g: "graph_log log m" and L: "starts_ends log m L"
  shows "flow log i xs \<Longrightarrow> 1 \<le> i \<Longrightarrow> i < int m \<Longrightarrow> m \<le> k + length xs \<Longrightarrow>
    \<exists>s ys. find_start k L i = Inr (member L s) \<and> flow log s ys \<and> last ys = last xs \<and>
      1 \<le> s \<and> s < int m \<and> starts_at log s \<and> (starts_at log i \<longrightarrow> s = i)"
proof (induction k arbitrary: i xs)
  case 0
  have "length xs < max 1 m"
    by (rule distinct_bound) (use flow_distinct [OF 0(1)] flow_range [OF g 0(1,2,3)] in auto)
  then show ?case using 0 flow_hd [OF 0(1)] by (cases xs) (auto simp: One_nat_def)
next
  case (Suc k)
  have m: "m \<le> length log" using g by (simp add: graph_log_def)
  note s = starts_endsD [OF L]
  have e: "at_int L i = Inr (L ! nat i)" "prev (L ! nat i) = prevs log i" using Suc.prems m s(1,3) by (simp_all add: at_int_def)
  show ?case
  proof (cases "starts_at log i")
    case True
    then show ?thesis using e s(4) [OF Suc.prems(2,3)] Suc.prems by (auto simp: member_def)
  next
    case False
    obtain p where p: "prevs log i = [p]" "1 \<le> p" "p < int m" "nexts log p = [i]" "\<not> ends_at log p"
      by (rule not_start [OF g Suc.prems(2,3) False])
    have "flow log p (p # xs)" using flow.flow_next [OF p(5)] p(4) Suc.prems(1) by simp
    then have "\<exists>s ys. find_start k L p = Inr (member L s) \<and> flow log s ys \<and> last ys = last (p # xs) \<and>
      1 \<le> s \<and> s < int m \<and> starts_at log s \<and> (starts_at log p \<longrightarrow> s = p)"
      by (rule Suc.IH) (use p Suc.prems in simp_all)
    moreover have "last (p # xs) = last xs" using flow_hd [OF Suc.prems(1)] by simp
    ultimately show ?thesis using False e p s(4) [OF Suc.prems(2,3)] by auto
  qed
qed

lemma find_node_finds:
  assumes g: "graph_log log m" and L: "starts_ends log m L" and i: "1 \<le> i" "i < int m"
  shows "ends_at log i \<Longrightarrow> \<exists>s ys. find_node_from_inst L i = Inr (member L s) \<and> flow log s ys \<and> last ys = i \<and>
      1 \<le> s \<and> s < int m \<and> starts_at log s"
    and "starts_at log i \<Longrightarrow> find_node_from_inst L i = Inr (member L i)"
    and "find_node_from_inst L 0 = Inr 0"
proof -
  have m: "m \<le> length log" "0 < m" using g by (simp_all add: graph_log_def)
  then have "0 < length log" by linarith
  note m = m(1) this
  note s = starts_endsD [OF L]
  show "\<exists>s ys. find_node_from_inst L i = Inr (member L s) \<and> flow log s ys \<and> last ys = i \<and>
      1 \<le> s \<and> s < int m \<and> starts_at log s" if "ends_at log i"
    using find_start_finds [OF g L flow.flow_end [OF that] i, of "Suc (length L)"] m s(1) by (auto simp: find_node_from_inst_def)
  show "find_node_from_inst L i = Inr (member L i)" if "starts_at log i"
    using that i m s(1) s(4) [OF i] by (simp add: find_node_from_inst_def at_int_def member_def)
  have "prevs log 0 = []" using g by (simp add: graph_log_def prevs_def)
  moreover have "prev (L ! nat 0) = prevs log 0" using s(3) [of 0] m(2) by simp
  ultimately show "find_node_from_inst L 0 = Inr 0"
    using m s(1,2) by (simp add: find_node_from_inst_def at_int_def)
qed

text \<open>The first pass over the node table: \<open>ss\<close> are the instructions the nodes start with.\<close>

definition node_table :: "inst_log_entry_s list \<Rightarrow> int list \<Rightarrow> control_flow_node_s list \<Rightarrow> bool" where
  "node_table log ss nodes \<longleftrightarrow> (\<forall>j < length ss. Suc j < length nodes \<and> inst_start (nodes ! Suc j) = ss ! j \<and>
     node_valid (nodes ! Suc j) = 1 \<and> (\<exists>ys. flow log (ss ! j) ys \<and> inst_end (nodes ! Suc j) = last ys))"

definition starts :: "inst_log_entry_s list \<Rightarrow> nat \<Rightarrow> int list" where
  "starts log m = filter (starts_at log) (map int [1 ..< m])"

lemma starts_iff: "s \<in> set (starts log m) \<longleftrightarrow> 1 \<le> s \<and> s < int m \<and> starts_at log s"
proof -
  have "s \<in> int ` {1 ..< m} \<longleftrightarrow> 1 \<le> s \<and> s < int m"
  proof
    assume "1 \<le> s \<and> s < int m"
    then have "s = int (nat s)" "nat s \<in> {1 ..< m}" by (auto simp: One_nat_def)
    then show "s \<in> int ` {1 ..< m}" by (metis imageI)
  qed (auto simp: One_nat_def)
  then show ?thesis by (auto simp: starts_def)
qed

text \<open>The numbers of the nodes that start with \<open>t\<close> and that end with \<open>p\<close>.\<close>

definition leads_to :: "nat \<Rightarrow> control_flow_node_s list \<Rightarrow> int \<Rightarrow> int \<Rightarrow> bool" where
  "leads_to sz nodes t x \<longleftrightarrow> 1 \<le> x \<and> x \<le> int sz \<and> inst_start (nodes ! nat x) = t"

definition comes_from :: "nat \<Rightarrow> control_flow_node_s list \<Rightarrow> int \<Rightarrow> int \<Rightarrow> bool" where
  "comes_from sz nodes p x \<longleftrightarrow> p = 0 \<and> x = 0 \<or> 1 \<le> p \<and> 1 \<le> x \<and> x \<le> int sz \<and> inst_end (nodes ! nat x) = p"

lemma find_nodes_all:
  assumes "\<And>i. i \<in> set is \<Longrightarrow> \<exists>x. find_node_from_inst L i = Inr x \<and> P i x"
  shows "\<exists>xs. find_nodes L is = Inr xs \<and> list_all2 P is xs"
  using assms by (induction "is") fastforce+

lemma member_node:
  assumes t: "node_table log (starts log m) nodes" and k: "\<And>j. j < length (starts log m) \<Longrightarrow> member L (starts log m ! j) = int (Suc j)"
    and s: "1 \<le> s" "s < int m" "starts_at log s"
  shows "leads_to (length (starts log m)) nodes s (member L s)"
    and "flow log s ys \<Longrightarrow> 1 \<le> last ys \<Longrightarrow> comes_from (length (starts log m)) nodes (last ys) (member L s)"
proof -
  obtain j where j: "j < length (starts log m)" "starts log m ! j = s" using starts_iff s by (metis in_set_conv_nth)
  then have x: "member L s = int (Suc j)" using k by blast
  then have n: "nat (member L s) = Suc j" and r: "1 \<le> member L s" "member L s \<le> int (length (starts log m))"
    using j by simp_all
  show "leads_to (length (starts log m)) nodes s (member L s)"
    using t j r unfolding leads_to_def n node_table_def by simp
  assume f: "flow log s ys" "1 \<le> last ys"
  obtain zs where zs: "flow log (starts log m ! j) zs" "inst_end (nodes ! Suc j) = last zs"
    using t j(1) by (auto simp: node_table_def)
  have "zs = ys" by (rule flow_det [OF _ f(1)]) (use zs(1) j(2) in simp)
  then show "comes_from (length (starts log m)) nodes (last ys) (member L s)"
    using zs(2) f(2) r unfolding comes_from_def n by simp
qed

section \<open>The graph\<close>

text \<open>What links and predecessors of a node must be, for the blocks of the table.\<close>

definition linked_node :: "inst_log_entry_s list \<Rightarrow> nat \<Rightarrow> control_flow_node_s list \<Rightarrow> control_flow_node_s \<Rightarrow> bool" where
  "linked_node log sz nodes node \<longleftrightarrow>
     list_all2 (leads_to sz nodes) (nexts log (inst_end node)) (map link_node (link_next node)) \<and>
     list_all2 (comes_from sz nodes) (prevs log (inst_start node)) (prev_node node) \<and>
     length (prev_link_index node) = length (prev_node node)"

definition no_links :: "control_flow_node_s \<Rightarrow> bool" where
  "no_links node \<longleftrightarrow> prev_node node = [] \<and> prev_link_index node = [] \<and> link_next node = []"

lemma link_new_link [simp]: "link_node (new_link x) = x"
  by (simp add: new_link_def)

lemma link_one_links:
  assumes g: "graph_log log m" and L: "starts_ends log m L"
    and t: "node_table log (starts log m) nodes" and k: "\<And>j. j < length (starts log m) \<Longrightarrow> member L (starts log m ! j) = int (Suc j)"
    and j: "j < length (starts log m)" and n: "no_links (nodes ! Suc j)"
  shows "safe (link_one L (nodes ! Suc j)) (\<lambda>node. linked_node log (length (starts log m)) nodes node \<and>
    inst_start node = inst_start (nodes ! Suc j) \<and> inst_end node = inst_end (nodes ! Suc j) \<and>
    node_valid node = node_valid (nodes ! Suc j))"
proof -
  let ?n = "nodes ! Suc j" and ?sz = "length (starts log m)"
  have m: "m \<le> length log" using g by (simp add: graph_log_def)
  note s = starts_endsD [OF L] and finds = find_node_finds [OF g L]
  have start: "1 \<le> inst_start ?n" "inst_start ?n < int m" "starts_at log (inst_start ?n)"
    using t j starts_iff [of "starts log m ! j" log m] by (auto simp: node_table_def)
  obtain ys where ys: "flow log (inst_start ?n) ys" "inst_end ?n = last ys" using t j by (auto simp: node_table_def)
  have "last ys \<in> set ys" using flow_hd [OF ys(1)] by simp
  then have last: "1 \<le> inst_end ?n" "inst_end ?n < int m" using flow_range [OF g ys(1) start(1,2)] ys(2) by auto
  have ends: "ends_at log (inst_end ?n)" using flow_last [OF ys(1)] ys(2) by simp
  have "\<exists>x. find_node_from_inst L p = Inr x \<and> comes_from ?sz nodes p x" if p: "p \<in> set (prevs log (inst_start ?n))" for p
  proof (cases "p = 0")
    case True
    then show ?thesis using finds(3) [OF start(1,2)] by (simp add: comes_from_def)
  next
    case False
    then have r: "1 \<le> p" "p < int m" using graph_logD(3) [OF g start(1,2) p] by simp_all
    obtain s zs where "find_node_from_inst L p = Inr (member L s)" "flow log s zs" "last zs = p" "1 \<le> s" "s < int m" "starts_at log s"
      using finds(1) [OF r prev_ends [OF g start(1,2,3) p r(1)]] by blast
    then show ?thesis using member_node(2) [OF t k] r by blast
  qed
  then obtain ps where ps: "find_nodes L (prevs log (inst_start ?n)) = Inr ps"
    "list_all2 (comes_from ?sz nodes) (prevs log (inst_start ?n)) ps" using find_nodes_all by metis
  have "\<exists>x. find_node_from_inst L i = Inr x \<and> leads_to ?sz nodes i x" if i: "i \<in> set (nexts log (inst_end ?n))" for i
  proof -
    have r: "1 \<le> i" "i < int m" using graph_logD(2) [OF g last i] by simp_all
    have "starts_at log i" by (rule next_starts [OF g last ends i])
    then show ?thesis using finds(2) [OF r] member_node(1) [OF t k r] by blast
  qed
  then obtain ns where ns: "find_nodes L (nexts log (inst_end ?n)) = Inr ns"
    "list_all2 (leads_to ?sz nodes) (nexts log (inst_end ?n)) ns" using find_nodes_all by metis
  have at: "at_int L (inst_start ?n) = Inr (L ! nat (inst_start ?n))" "at_int L (inst_end ?n) = Inr (L ! nat (inst_end ?n))"
    "prev (L ! nat (inst_start ?n)) = prevs log (inst_start ?n)" "next_inst (L ! nat (inst_end ?n)) = nexts log (inst_end ?n)"
    using start last m s(1,3) by (simp_all add: at_int_def)
  have "link_one L ?n = Inr (?n\<lparr>prev_node := ps, prev_link_index := map (\<lambda>_. 0) ps, link_next := map new_link ns\<rparr>)"
    using ps ns at n by (cases "prevs log (inst_start ?n)"; cases "nexts log (inst_end ?n)")
      (auto simp: link_one_def Let_def no_links_def intro: control_flow_node_s.equality)
  then show ?thesis using ps(2) ns(2) by (simp add: linked_node_def comp_def)
qed

section \<open>The places of the links\<close>

definition even_prevs :: "control_flow_node_s list \<Rightarrow> bool" where
  "even_prevs nodes \<longleftrightarrow> (\<forall>k < length nodes. length (prev_link_index (nodes ! k)) = length (prev_node (nodes ! k)))"

text \<open>The link \<open>i\<close> of some list leads to \<open>k\<close> and has its place, counted from \<open>m\<close>, entered as \<open>v\<close>.\<close>

definition place_of :: "node_link_s list \<Rightarrow> int \<Rightarrow> nat \<Rightarrow> int \<Rightarrow> bool" where
  "place_of ls m k v \<longleftrightarrow> (\<exists>i < length ls. link_node (ls ! i) = int k \<and> v = m + int i)"

text \<open>Only the places change, and only where the node \<open>n\<close> is the predecessor.\<close>

definition reindexed :: "(nat \<Rightarrow> int \<Rightarrow> int \<Rightarrow> int \<Rightarrow> bool) \<Rightarrow> control_flow_node_s list \<Rightarrow> control_flow_node_s list \<Rightarrow> bool" where
  "reindexed P nodes nodes' \<longleftrightarrow> length nodes' = length nodes \<and>
     (\<forall>k < length nodes. (\<exists>ix. nodes' ! k = (nodes ! k)\<lparr>prev_link_index := ix\<rparr> \<and> length ix = length (prev_node (nodes ! k)) \<and>
        (\<forall>l < length ix. P k (prev_node (nodes ! k) ! l) (prev_link_index (nodes ! k) ! l) (ix ! l))))"

lemma reindexed_even: "reindexed P nodes nodes' \<Longrightarrow> even_prevs nodes'"
  unfolding even_prevs_def
proof (intro allI impI)
  fix k assume r: "reindexed P nodes nodes'" and k: "k < length nodes'"
  then obtain ix where "nodes' ! k = (nodes ! k)\<lparr>prev_link_index := ix\<rparr>" "length ix = length (prev_node (nodes ! k))"
    unfolding reindexed_def by auto
  then show "length (prev_link_index (nodes' ! k)) = length (prev_node (nodes' ! k))" by simp
qed

lemma reindexed_trans:
  assumes a: "reindexed P x y" and b: "reindexed Q y z"
    and "\<And>k p u v w. P k p u v \<Longrightarrow> Q k p v w \<Longrightarrow> R k p u w"
  shows "reindexed R x z"
  unfolding reindexed_def
proof (intro conjI allI impI)
  show "length z = length x" using a b by (simp add: reindexed_def)
  fix k assume k: "k < length x"
  then obtain ix where ix: "y ! k = (x ! k)\<lparr>prev_link_index := ix\<rparr>" "length ix = length (prev_node (x ! k))"
    "\<forall>l < length ix. P k (prev_node (x ! k) ! l) (prev_link_index (x ! k) ! l) (ix ! l)"
    using a unfolding reindexed_def by blast
  have "k < length y" using a k by (simp add: reindexed_def)
  then obtain iy where iy: "z ! k = (y ! k)\<lparr>prev_link_index := iy\<rparr>" "length iy = length (prev_node (y ! k))"
    "\<forall>l < length iy. Q k (prev_node (y ! k) ! l) (prev_link_index (y ! k) ! l) (iy ! l)"
    using b unfolding reindexed_def by blast
  have "z ! k = (x ! k)\<lparr>prev_link_index := iy\<rparr>" using iy(1) ix(1) by simp
  moreover have "length iy = length (prev_node (x ! k))" using iy(2) ix(1) by simp
  moreover have "R k (prev_node (x ! k) ! l) (prev_link_index (x ! k) ! l) (iy ! l)" if l: "l < length iy" for l
    by (rule assms(3) [of k _ _ "ix ! l"]) (use ix iy l calculation(2) in auto)
  ultimately show "\<exists>ix. z ! k = (x ! k)\<lparr>prev_link_index := ix\<rparr> \<and> length ix = length (prev_node (x ! k)) \<and>
      (\<forall>l < length ix. R k (prev_node (x ! k) ! l) (prev_link_index (x ! k) ! l) (ix ! l))" by blast
qed

lemma reindexed_refl:
  assumes "even_prevs nodes" "\<And>k p u. P k p u u" shows "reindexed P nodes nodes"
  unfolding reindexed_def
proof (intro conjI allI impI)
  fix k assume "k < length nodes"
  then show "\<exists>ix. nodes ! k = (nodes ! k)\<lparr>prev_link_index := ix\<rparr> \<and> length ix = length (prev_node (nodes ! k)) \<and>
      (\<forall>l < length ix. P k (prev_node (nodes ! k) ! l) (prev_link_index (nodes ! k) ! l) (ix ! l))"
    using assms by (intro exI [of _ "prev_link_index (nodes ! k)"]) (simp add: even_prevs_def)
qed simp

lemma index_prev_reindexed:
  assumes "even_prevs nodes" "j < length nodes"
  shows "reindexed (\<lambda>k p u v. v = (if k = j \<and> p = n then m else u)) nodes (nodes[j := index_prev n m (nodes ! j)])"
  unfolding reindexed_def
proof (intro conjI allI impI)
  fix k assume k: "k < length nodes"
  then have len: "length (prev_link_index (nodes ! k)) = length (prev_node (nodes ! k))" using assms(1) by (simp add: even_prevs_def)
  let ?ix = "if k = j then map (\<lambda>(p, ix). if p = n then m else ix) (zip (prev_node (nodes ! k)) (prev_link_index (nodes ! k)))
    else prev_link_index (nodes ! k)"
  show "\<exists>ix. nodes[j := index_prev n m (nodes ! j)] ! k = (nodes ! k)\<lparr>prev_link_index := ix\<rparr> \<and>
      length ix = length (prev_node (nodes ! k)) \<and>
      (\<forall>l < length ix. ix ! l = (if k = j \<and> prev_node (nodes ! k) ! l = n then m else prev_link_index (nodes ! k) ! l))"
    using assms(2) len by (intro exI [of _ ?ix]) (auto simp: index_prev_def)
qed simp

lemma index_links_places:
  "even_prevs nodes \<Longrightarrow> safe (index_links n m ls nodes) (reindexed (\<lambda>k p u v.
     if p = n \<and> int k \<in> set (map link_node ls) then place_of ls m k v else v = u) nodes)"
proof (induction ls arbitrary: m nodes)
  case Nil
  then show ?case by (simp add: reindexed_refl)
next
  case (Cons l ls)
  show ?case
  proof (cases "0 \<le> link_node l \<and> link_node l < int (length nodes)")
    case True
    let ?j = "nat (link_node l)"
    let ?nodes = "nodes[?j := index_prev n m (nodes ! ?j)]"
    have j: "?j < length nodes" "int ?j = link_node l" using True by auto
    note one = index_prev_reindexed [OF Cons.prems j(1), of n m]
    have "safe (index_links n (m + 1) ls ?nodes) (reindexed (\<lambda>k p u v.
        if p = n \<and> int k \<in> set (map link_node (l # ls)) then place_of (l # ls) m k v else v = u) nodes)"
    proof (rule safe_mono [OF Cons.IH [OF reindexed_even [OF one]]], rule reindexed_trans [OF one], assumption)
      fix k p and u v w :: int
      assume v: "v = (if k = ?j \<and> p = n then m else u)"
        and w: "if p = n \<and> int k \<in> set (map link_node ls) then place_of ls (m + 1) k w else w = v"
      have "place_of (l # ls) m k w" if "place_of ls (m + 1) k w"
      proof -
        from that obtain i where "i < length ls" "link_node (ls ! i) = int k" "w = m + 1 + int i" by (auto simp: place_of_def)
        then show ?thesis unfolding place_of_def by (intro exI [of _ "Suc i"]) simp
      qed
      moreover have "place_of (l # ls) m k m" if "k = ?j"
        using that j(2) unfolding place_of_def by (intro exI [of _ 0]) simp
      ultimately show "if p = n \<and> int k \<in> set (map link_node (l # ls)) then place_of (l # ls) m k w else w = u"
        using v w j(2) by (auto split: if_splits)
    qed
    then show ?thesis using True by (simp add: at_int_def)
  qed (auto simp: at_int_def)
qed

lemma index_nodes_places:
  "even_prevs nodes \<Longrightarrow> distinct ns \<Longrightarrow> set ns \<subseteq> {..< length nodes} \<Longrightarrow> safe (index_nodes ns nodes) (reindexed (\<lambda>k p u v.
     (\<forall>n \<in> set ns. p = int n \<and> int k \<in> set (map link_node (link_next (nodes ! n))) \<longrightarrow> place_of (link_next (nodes ! n)) 0 k v) \<and>
     ((\<forall>n \<in> set ns. p \<noteq> int n) \<longrightarrow> v = u)) nodes)"
proof (induction ns arbitrary: nodes)
  case Nil
  then show ?case by (simp add: reindexed_refl)
next
  case (Cons n ns)
  note one = index_links_places [OF Cons.prems(1), of "int n" 0 "link_next (nodes ! n)"]
  have run: "index_nodes (n # ns) nodes = bindE (index_links (int n) 0 (link_next (nodes ! n)) nodes) (index_nodes ns)"
    using Cons.prems(3) by simp
  show ?case unfolding run
  proof (rule safe_step [OF one])
    fix nodes1 assume r: "reindexed (\<lambda>k p u v. if p = int n \<and> int k \<in> set (map link_node (link_next (nodes ! n)))
       then place_of (link_next (nodes ! n)) 0 k v else v = u) nodes nodes1"
    have same: "link_next (nodes1 ! i) = link_next (nodes ! i)" if "i \<in> set ns" for i
      using r that Cons.prems(3) unfolding reindexed_def by fastforce
    have "set ns \<subseteq> {..< length nodes1}" using r Cons.prems(3) by (auto simp: reindexed_def)
    note rest = Cons.IH [OF reindexed_even [OF r] _ this]
    show "safe (index_nodes ns nodes1) (reindexed (\<lambda>k p u v.
       (\<forall>i \<in> set (n # ns). p = int i \<and> int k \<in> set (map link_node (link_next (nodes ! i))) \<longrightarrow> place_of (link_next (nodes ! i)) 0 k v) \<and>
       ((\<forall>i \<in> set (n # ns). p \<noteq> int i) \<longrightarrow> v = u)) nodes)"
    proof (rule safe_mono [OF rest])
      show "distinct ns" using Cons.prems(2) by simp
      fix nodes2 assume q: "reindexed (\<lambda>k p u v.
         (\<forall>i \<in> set ns. p = int i \<and> int k \<in> set (map link_node (link_next (nodes1 ! i))) \<longrightarrow> place_of (link_next (nodes1 ! i)) 0 k v) \<and>
         ((\<forall>i \<in> set ns. p \<noteq> int i) \<longrightarrow> v = u)) nodes1 nodes2"
      show "reindexed (\<lambda>k p u v.
         (\<forall>i \<in> set (n # ns). p = int i \<and> int k \<in> set (map link_node (link_next (nodes ! i))) \<longrightarrow> place_of (link_next (nodes ! i)) 0 k v) \<and>
         ((\<forall>i \<in> set (n # ns). p \<noteq> int i) \<longrightarrow> v = u)) nodes nodes2"
      proof (rule reindexed_trans [OF r q])
        fix k p u v w
        assume v: "if p = int n \<and> int k \<in> set (map link_node (link_next (nodes ! n)))
           then place_of (link_next (nodes ! n)) 0 k v else v = u"
          and w: "(\<forall>i \<in> set ns. p = int i \<and> int k \<in> set (map link_node (link_next (nodes1 ! i))) \<longrightarrow> place_of (link_next (nodes1 ! i)) 0 k w) \<and>
             ((\<forall>i \<in> set ns. p \<noteq> int i) \<longrightarrow> w = v)"
        show "(\<forall>i \<in> set (n # ns). p = int i \<and> int k \<in> set (map link_node (link_next (nodes ! i))) \<longrightarrow> place_of (link_next (nodes ! i)) 0 k w) \<and>
             ((\<forall>i \<in> set (n # ns). p \<noteq> int i) \<longrightarrow> w = u)"
        proof (cases "p = int n")
          case True
          then have "\<forall>i \<in> set ns. p \<noteq> int i" using Cons.prems(2) by auto
          then have "w = v" using w by blast
          then show ?thesis using v True \<open>\<forall>i \<in> set ns. p \<noteq> int i\<close> by simp
        next
          case False
          then have "v = u" using v by simp
          moreover have "place_of (link_next (nodes ! i)) 0 k w"
            if "i \<in> set ns" "p = int i" "int k \<in> set (map link_node (link_next (nodes ! i)))" for i
            using w that same [OF that(1)] by metis
          ultimately show ?thesis using w False by simp
        qed
      qed
    qed
  qed
qed

section \<open>The whole construction\<close>

text \<open>The node table as a graph of the blocks, with the places of the links in the nodes they come from.\<close>

definition cfg :: "inst_log_entry_s list \<Rightarrow> nat \<Rightarrow> control_flow_node_s list \<Rightarrow> bool" where
  "cfg log m nodes \<longleftrightarrow> node_table log (starts log m) nodes \<and>
     (\<forall>j < length (starts log m). linked_node log (length (starts log m)) nodes (nodes ! Suc j) \<and>
        (\<forall>l < length (prev_node (nodes ! Suc j)). prev_node (nodes ! Suc j) ! l \<noteq> 0 \<longrightarrow>
           place_of (link_next (nodes ! nat (prev_node (nodes ! Suc j) ! l))) 0 (Suc j) (prev_link_index (nodes ! Suc j) ! l)))"

lemma starts_distinct: "distinct (starts log m)"
  by (auto simp: starts_def distinct_map inj_on_def)

lemma one_up: "1 \<le> x \<Longrightarrow> x \<le> int n \<Longrightarrow> \<exists>i. x = int (Suc i) \<and> i < n"
  by (rule exI [of _ "nat x - 1"]) (auto simp: One_nat_def)

lemma linked_link:
  assumes g: "graph_log log m" and t: "node_table log (starts log m) nodes"
    and k: "\<And>j. j < length (starts log m) \<Longrightarrow> linked_node log (length (starts log m)) nodes (nodes ! Suc j)"
    and j: "j < length (starts log m)" and l: "l < length (prev_node (nodes ! Suc j))" "prev_node (nodes ! Suc j) ! l \<noteq> 0"
  shows "\<exists>n. 1 \<le> n \<and> n \<le> length (starts log m) \<and> prev_node (nodes ! Suc j) ! l = int n \<and>
    int (Suc j) \<in> set (map link_node (link_next (nodes ! n)))"
proof -
  let ?ss = "starts log m"
  let ?n = "nodes ! Suc j" and ?q = "prev_node (nodes ! Suc j) ! l"
  let ?p = "prevs log (inst_start ?n) ! l"
  have start: "inst_start ?n = ?ss ! j" using t j by (simp add: node_table_def)
  then have r: "1 \<le> inst_start ?n" "inst_start ?n < int m" using starts_iff [of "?ss ! j" log m] j by auto
  have ps: "list_all2 (comes_from (length ?ss) nodes) (prevs log (inst_start ?n)) (prev_node ?n)"
    using k [OF j] by (simp add: linked_node_def)
  have "l < length (prevs log (inst_start ?n))" using list_all2_lengthD [OF ps] l(1) by simp
  then have p: "?p \<in> set (prevs log (inst_start ?n))" "comes_from (length ?ss) nodes ?p ?q"
    using list_all2_nthD2 [OF ps l(1)] by simp_all
  then have q: "1 \<le> ?p" "1 \<le> ?q" "?q \<le> int (length ?ss)" "inst_end (nodes ! nat ?q) = ?p"
    using l(2) by (auto simp: comes_from_def)
  obtain i where i: "?q = int (Suc i)" "i < length ?ss"
    using one_up [OF q(2,3)] by blast
  have "?p < int m" using graph_logD(3) [OF g r p(1)] by simp
  then have "inst_start ?n \<in> set (nexts log ?p)" using graph_logD(4) [OF g q(1) _ r] p(1) by simp
  moreover have "list_all2 (leads_to (length ?ss) nodes) (nexts log ?p) (map link_node (link_next (nodes ! Suc i)))"
  proof -
    have "nat ?q = Suc i" using i(1) by simp
    then show ?thesis using k [OF i(2)] q(4) by (simp add: linked_node_def)
  qed
  ultimately obtain y where y: "y \<in> set (map link_node (link_next (nodes ! Suc i)))" "leads_to (length ?ss) nodes (inst_start ?n) y"
    by (metis (no_types, lifting) in_set_conv_nth list_all2_conv_all_nth)
  then obtain h where h: "y = int (Suc h)" "h < length ?ss"
    using one_up [of y "length ?ss"] by (auto simp: leads_to_def)
  then have "?ss ! h = ?ss ! j" using y(2) t start h(2) unfolding leads_to_def h(1) nat_int node_table_def by simp
  then have "h = j" using starts_distinct h(2) j by (simp add: nth_eq_iff_index_eq)
  then show ?thesis using y(1) h(1) i by (intro exI [of _ "Suc i"]) (simp add: One_nat_def)
qed

lemma reindexed_at:
  assumes "reindexed P nodes nodes'" "k < length nodes"
  shows "inst_start (nodes' ! k) = inst_start (nodes ! k)" "inst_end (nodes' ! k) = inst_end (nodes ! k)"
    "node_valid (nodes' ! k) = node_valid (nodes ! k)" "link_next (nodes' ! k) = link_next (nodes ! k)"
    "prev_node (nodes' ! k) = prev_node (nodes ! k)" "length (prev_link_index (nodes' ! k)) = length (prev_node (nodes ! k))"
    "l < length (prev_node (nodes ! k)) \<Longrightarrow> P k (prev_node (nodes ! k) ! l) (prev_link_index (nodes ! k) ! l) (prev_link_index (nodes' ! k) ! l)"
proof -
  obtain ix where ix: "nodes' ! k = (nodes ! k)\<lparr>prev_link_index := ix\<rparr>" "length ix = length (prev_node (nodes ! k))"
    "\<forall>l < length ix. P k (prev_node (nodes ! k) ! l) (prev_link_index (nodes ! k) ! l) (ix ! l)"
    using assms unfolding reindexed_def by blast
  show "inst_start (nodes' ! k) = inst_start (nodes ! k)" "inst_end (nodes' ! k) = inst_end (nodes ! k)"
    "node_valid (nodes' ! k) = node_valid (nodes ! k)" "link_next (nodes' ! k) = link_next (nodes ! k)"
    "prev_node (nodes' ! k) = prev_node (nodes ! k)" "length (prev_link_index (nodes' ! k)) = length (prev_node (nodes ! k))"
    using ix(1,2) by simp_all
  show "P k (prev_node (nodes ! k) ! l) (prev_link_index (nodes ! k) ! l) (prev_link_index (nodes' ! k) ! l)"
    if "l < length (prev_node (nodes ! k))" using ix that by simp
qed

text \<open>The tables of the passes agree on what the links are stated with.\<close>

lemma linked_node_cong:
  assumes "\<And>i. 1 \<le> i \<Longrightarrow> i \<le> sz \<Longrightarrow> inst_start (b ! i) = inst_start (a ! i) \<and> inst_end (b ! i) = inst_end (a ! i)"
    and "linked_node log sz a x" "inst_start y = inst_start x" "inst_end y = inst_end x" "link_next y = link_next x"
    "prev_node y = prev_node x" "length (prev_link_index y) = length (prev_link_index x)"
  shows "linked_node log sz b y"
proof -
  have n: "1 \<le> nat x \<and> nat x \<le> sz" if "1 \<le> x" "x \<le> int sz" for x using that by (auto simp: One_nat_def)
  have "leads_to sz b t x = leads_to sz a t x" "comes_from sz b t x = comes_from sz a t x" for t x
    using assms(1) n by (auto simp: leads_to_def comes_from_def)
  then have "leads_to sz b = leads_to sz a" "comes_from sz b = comes_from sz a" by (intro ext; simp)+
  then show ?thesis using assms(2-) by (simp add: linked_node_def)
qed

lemma each_node_safe:
  assumes "distinct ns" "\<And>i. i \<in> set ns \<Longrightarrow> safe (f (nodes ! i)) (R i (nodes ! i))"
  shows "safe (each_node (\<lambda>_ _ r. f r) ns nodes) (pass_over R ns nodes)"
  using assms
proof (induction ns arbitrary: nodes)
  case Nil
  then show ?case by (simp add: pass_over_def)
next
  case (Cons n ns)
  show ?case
  proof (cases "n < length nodes")
    case True
    have run: "each_node (\<lambda>_ _ r. f r) (n # ns) nodes =
        bindE (f (nodes ! n)) (\<lambda>node. each_node (\<lambda>_ _ r. f r) ns (nodes[n := node]))" using True by simp
    show ?thesis unfolding run
    proof (rule safe_step)
      show "safe (f (nodes ! n)) (R n (nodes ! n))" using Cons.prems(2) by simp
      fix node assume R: "R n (nodes ! n) node"
      have "safe (each_node (\<lambda>_ _ r. f r) ns (nodes[n := node])) (pass_over R ns (nodes[n := node]))"
      proof (rule Cons.IH)
        fix i assume i: "i \<in> set ns"
        then have "i \<noteq> n" using Cons.prems(1) by auto
        then show "safe (f (nodes[n := node] ! i)) (R i (nodes[n := node] ! i))" using Cons.prems(2) i by simp
      qed (use Cons.prems(1) in simp)
      then show "safe (each_node (\<lambda>_ _ r. f r) ns (nodes[n := node])) (pass_over R (n # ns) nodes)"
        by (rule safe_mono) (rule pass_over_step, use Cons.prems(1) R in auto)
    qed
  qed simp
qed

lemma build_nodes_cfg:
  assumes g: "graph_log log m" and c: "list_all no_links nodes"
  shows "safe (build_control_flow_nodes m log nodes) (\<lambda>(n, nodes', log'). n = length (starts log m) \<and> cfg log m nodes')"
proof -
  let ?ss = "starts log m"
  have ones: "set [1 ..< m] \<subseteq> {1 ..< m}" "distinct [1 ..< m]" by simp_all
  show ?thesis unfolding build_control_flow_nodes_def
  proof (rule safe_step [OF scan_marks [OF g]])
    fix L assume L: "starts_ends log m L"
    show "safe (bindE (number_nodes [1 ..< m] 1 nodes L) (\<lambda>(node, nodes, log).
        bindE (each_node (\<lambda>_ _ r. link_one log r) [1 ..< node] nodes) (\<lambda>nodes.
        bindE (index_nodes [1 ..< node] nodes) (\<lambda>nodes. Inr (node - 1, nodes, log)))))
      (\<lambda>(n, nodes', log'). n = length ?ss \<and> cfg log m nodes')"
    proof (rule safe_step [OF number_nodes_blocks [OF g ones(2,1) L]], clarify, fold starts_def)
      fix a and nodes1 :: "control_flow_node_s list" and L1 :: "inst_log_entry_s list"
      assume b: "blocks log m 1 ?ss nodes nodes1 L L1"
      let ?node = "1 + length ?ss"
      have L1: "starts_ends log m L1" using b by (simp add: blocks_def)
      have b1: "Suc j < length nodes \<and> node_of log (?ss ! j) (nodes ! Suc j) (nodes1 ! Suc j) \<and> member L1 (?ss ! j) = int (Suc j)"
        if "j < length ?ss" for j using b that by (simp add: blocks_def One_nat_def)
      have len: "length nodes1 = length nodes" using b by (simp add: blocks_def)
      have clear: "no_links (nodes1 ! i)" if i: "i < length nodes" for i
      proof (cases "1 \<le> i \<and> i < ?node")
        case True
        then have "i - 1 < length ?ss" "Suc (i - 1) = i" by (auto simp: One_nat_def)
        then show ?thesis using b1 [of "i - 1"] c i by (auto simp: node_of_def no_links_def list_all_length)
      next
        case False
        then have "nodes1 ! i = nodes ! i" using b by (auto simp: blocks_def not_le)
        then show ?thesis using c i by (simp add: list_all_length)
      qed
      have t1: "node_table log ?ss nodes1" using b1 len by (fastforce simp: node_table_def node_of_def)
      have mem: "member L1 (?ss ! j) = int (Suc j)" if "j < length ?ss" for j using b1 that by blast
      let ?R = "\<lambda>i a b. a = nodes1 ! i \<longrightarrow> i < ?node \<longrightarrow> linked_node log (length ?ss) nodes1 b \<and>
        inst_start b = inst_start a \<and> inst_end b = inst_end a \<and> node_valid b = node_valid a"
      have pass: "safe (each_node (\<lambda>_ _ r. link_one L1 r) [1 ..< ?node] nodes1)
          (\<lambda>nodes2. pass_over (\<lambda>i a b. linked_node log (length ?ss) nodes1 b \<and>
        inst_start b = inst_start a \<and> inst_end b = inst_end a \<and> node_valid b = node_valid a) [1 ..< ?node] nodes1 nodes2)"
      proof (rule each_node_safe)
        show "distinct [1 ..< ?node]" by simp
        fix i assume "i \<in> set [1 ..< ?node]"
        then have i: "i - 1 < length ?ss" "Suc (i - 1) = i" by (auto simp: One_nat_def)
        have "no_links (nodes1 ! Suc (i - 1))" using clear [of i] b1 [OF i(1)] i(2) by simp
        then show "safe (link_one L1 (nodes1 ! i)) (\<lambda>b. linked_node log (length ?ss) nodes1 b \<and>
            inst_start b = inst_start (nodes1 ! i) \<and> inst_end b = inst_end (nodes1 ! i) \<and> node_valid b = node_valid (nodes1 ! i))"
          using link_one_links [OF g L1 t1 mem i(1)] i(2) by simp
      qed
      show "safe (bindE (each_node (\<lambda>_ _ r. link_one L1 r) [1 ..< ?node] nodes1) (\<lambda>nodes.
          bindE (index_nodes [1 ..< ?node] nodes) (\<lambda>nodes. Inr (?node - 1, nodes, L1))))
        (\<lambda>(n, nodes', log'). n = length ?ss \<and> cfg log m nodes')"
      proof (rule safe_step [OF pass])
        fix nodes2 assume p: "pass_over (\<lambda>i a b. linked_node log (length ?ss) nodes1 b \<and> inst_start b = inst_start a \<and>
            inst_end b = inst_end a \<and> node_valid b = node_valid a) [1 ..< ?node] nodes1 nodes2"
        have len2: "length nodes2 = length nodes" using pass_overD(1) [OF p] len by simp
        have n2: "linked_node log (length ?ss) nodes1 (nodes2 ! Suc j) \<and> inst_start (nodes2 ! Suc j) = inst_start (nodes1 ! Suc j) \<and>
            inst_end (nodes2 ! Suc j) = inst_end (nodes1 ! Suc j) \<and> node_valid (nodes2 ! Suc j) = node_valid (nodes1 ! Suc j)"
          if "j < length ?ss" for j
        proof -
          have "Suc j \<in> set [1 ..< ?node]" "Suc j < length nodes1" using that b1 [OF that] len by (auto simp: One_nat_def)
          from pass_overD(2) [OF p this(2,1)] show ?thesis .
        qed
        have same: "inst_start (nodes2 ! i) = inst_start (nodes1 ! i) \<and> inst_end (nodes2 ! i) = inst_end (nodes1 ! i)"
          if "1 \<le> i" "i \<le> length ?ss" for i using n2 [of "i - 1"] that by (simp add: One_nat_def)
        have l2: "linked_node log (length ?ss) nodes2 (nodes2 ! Suc j)" if "j < length ?ss" for j
          by (rule linked_node_cong [OF same]) (use n2 [OF that] in auto)
        have t2: "node_table log ?ss nodes2" using t1 n2 len2 len by (auto simp: node_table_def)
        have "even_prevs nodes2" unfolding even_prevs_def
        proof (intro allI impI)
          fix i assume i: "i < length nodes2"
          show "length (prev_link_index (nodes2 ! i)) = length (prev_node (nodes2 ! i))"
          proof (cases "1 \<le> i \<and> i < ?node")
            case True
            then have "i - 1 < length ?ss" "Suc (i - 1) = i" by (auto simp: One_nat_def)
            then show ?thesis using n2 [of "i - 1"] by (simp add: linked_node_def)
          next
            case False
            then have "nodes2 ! i = nodes1 ! i" using pass_overD(3) [OF p] i len len2 by (auto simp: not_le)
            then show ?thesis using clear [of i] i len2 by (simp add: no_links_def)
          qed
        qed
        moreover have "set [1 ..< ?node] \<subseteq> {..< length nodes2}"
        proof
          fix i assume "i \<in> set [1 ..< ?node]"
          then have "i - 1 < length ?ss" "Suc (i - 1) = i" by (auto simp: One_nat_def)
          then show "i \<in> {..< length nodes2}" using b1 [of "i - 1"] len2 by simp
        qed
        ultimately have places: "safe (index_nodes [1 ..< ?node] nodes2) (reindexed (\<lambda>k p u v.
           (\<forall>n \<in> set [1 ..< ?node]. p = int n \<and> int k \<in> set (map link_node (link_next (nodes2 ! n))) \<longrightarrow>
              place_of (link_next (nodes2 ! n)) 0 k v) \<and> ((\<forall>n \<in> set [1 ..< ?node]. p \<noteq> int n) \<longrightarrow> v = u)) nodes2)"
          by (intro index_nodes_places) simp_all
        show "safe (bindE (index_nodes [1 ..< ?node] nodes2) (\<lambda>nodes. Inr (?node - 1, nodes, L1)))
          (\<lambda>(n, nodes', log'). n = length ?ss \<and> cfg log m nodes')"
        proof (rule safe_step [OF places])
          fix nodes3 assume r: "reindexed (\<lambda>k p u v.
           (\<forall>n \<in> set [1 ..< ?node]. p = int n \<and> int k \<in> set (map link_node (link_next (nodes2 ! n))) \<longrightarrow>
              place_of (link_next (nodes2 ! n)) 0 k v) \<and> ((\<forall>n \<in> set [1 ..< ?node]. p \<noteq> int n) \<longrightarrow> v = u)) nodes2 nodes3"
          note at = reindexed_at [OF r]
          have in2: "Suc j < length nodes2" if "j < length ?ss" for j using b1 [OF that] len2 by simp
          have t3: "node_table log ?ss nodes3" using t2 at(1-3) r by (simp add: node_table_def reindexed_def)
          have same3: "inst_start (nodes3 ! i) = inst_start (nodes2 ! i) \<and> inst_end (nodes3 ! i) = inst_end (nodes2 ! i)"
            if "1 \<le> i" "i \<le> length ?ss" for i using at(1,2) [of i] in2 [of "i - 1"] that by (simp add: One_nat_def)
          have l3: "linked_node log (length ?ss) nodes3 (nodes3 ! Suc j)" if "j < length ?ss" for j
            by (rule linked_node_cong [OF same3 l2 [OF that]])
              (use at [OF in2 [OF that]] l2 [OF that] in \<open>auto simp: linked_node_def\<close>)
          have "place_of (link_next (nodes3 ! nat (prev_node (nodes3 ! Suc j) ! l))) 0 (Suc j) (prev_link_index (nodes3 ! Suc j) ! l)"
            if j: "j < length ?ss" and l: "l < length (prev_node (nodes3 ! Suc j))" "prev_node (nodes3 ! Suc j) ! l \<noteq> 0" for j l
          proof -
            have l': "l < length (prev_node (nodes2 ! Suc j))" "prev_node (nodes2 ! Suc j) ! l \<noteq> 0"
              using l at(5) [OF in2 [OF j]] by simp_all
            obtain n where n: "1 \<le> n" "n \<le> length ?ss" "prev_node (nodes2 ! Suc j) ! l = int n"
              "int (Suc j) \<in> set (map link_node (link_next (nodes2 ! n)))" using linked_link [OF g t2 l2 j l'] by blast
            have "n \<in> set [1 ..< ?node]" using n(1,2) by (auto simp: One_nat_def)
            then have "place_of (link_next (nodes2 ! n)) 0 (Suc j) (prev_link_index (nodes3 ! Suc j) ! l)"
              using at(7) [OF in2 [OF j] l'(1)] n(3,4) by blast
            moreover have "n < length nodes2" using in2 [of "n - 1"] n(1,2) by (simp add: One_nat_def)
            ultimately show ?thesis using at(4,5) n(3) in2 [OF j] by simp
          qed
          then have "cfg log m nodes3" using t3 l3 unfolding cfg_def by blast
          then show "safe (Inr (?node - 1, nodes3, L1)) (\<lambda>(n, nodes', log'). n = length ?ss \<and> cfg log m nodes')" by simp
        qed
      qed
    qed
  qed
qed

text \<open>
  C10. On a log with mutual links build_control_flow_nodes ends, and its nodes are the
  blocks of the log: one for every place where the flow starts, joins or splits, each from
  there along the only successors to its end, with links and predecessors to the nodes of
  the linked instructions and, for each predecessor, the place of the link it stands for.
\<close>
theorem build_control_flow_nodes_graph:
  assumes "graph_log log m" "list_all no_links nodes"
  shows "safe (build_control_flow_nodes m log nodes) (\<lambda>(n, nodes', log'). n = length (starts log m) \<and> cfg log m nodes')"
  by (rule build_nodes_cfg [OF assms])

text \<open>
  The links of a node lead, in order, to the nodes that start with the successors of
  its last instruction, and its predecessors are the nodes that end with the predecessors of
  its first.
\<close>
theorem links_follow_successors:
  assumes "graph_log log m" "list_all no_links nodes"
    and "build_control_flow_nodes m log nodes = Inr (n, nodes', log')" "1 \<le> k" "k \<le> n"
  shows "map (\<lambda>l. inst_start (nodes' ! nat (link_node l))) (link_next (nodes' ! k)) = nexts log (inst_end (nodes' ! k)) \<and>
    map (\<lambda>p. if p = 0 then 0 else inst_end (nodes' ! nat p)) (prev_node (nodes' ! k)) = prevs log (inst_start (nodes' ! k))"
proof -
  have c: "n = length (starts log m)" "cfg log m nodes'" using build_nodes_cfg [OF assms(1,2)] assms(3) by auto
  then have "k - 1 < length (starts log m)" "Suc (k - 1) = k" using assms(4,5) by (auto simp: One_nat_def)
  then have l: "linked_node log n nodes' (nodes' ! k)" using c by (auto simp: cfg_def)
  have "map (\<lambda>x. inst_start (nodes' ! nat x)) xs = ts" if "list_all2 (leads_to n nodes') ts xs" for ts xs
    using that by (induction rule: list_all2_induct) (auto simp: leads_to_def)
  moreover have "map (\<lambda>x. if x = 0 then 0 else inst_end (nodes' ! nat x)) xs = ps" if "list_all2 (comes_from n nodes') ps xs" for ps xs
    using that by (induction rule: list_all2_induct) (auto simp: comes_from_def)
  ultimately have "map (\<lambda>x. inst_start (nodes' ! nat x)) (map link_node (link_next (nodes' ! k))) = nexts log (inst_end (nodes' ! k))"
    "map (\<lambda>p. if p = 0 then 0 else inst_end (nodes' ! nat p)) (prev_node (nodes' ! k)) = prevs log (inst_start (nodes' ! k))"
    using l unfolding linked_node_def by blast+
  then show ?thesis by (simp add: comp_def)
qed

section \<open>From the executed instructions to the graph\<close>

text \<open>
  The log of \<open>process_block\<close>, with mutual links, a caller entry without predecessors and no
  jump back to it.
\<close>

definition block_log :: "inst_log_entry_s list \<Rightarrow> nat \<Rightarrow> bool" where
  "block_log log m \<longleftrightarrow> linked log \<and> 0 < m \<and> m \<le> length log \<and> prev (log ! 0) = [] \<and>
     (\<forall>i < length log. node_start (log ! i) = 0 \<and> node_end (log ! i) = 0) \<and>
     (\<forall>i. 1 \<le> i \<and> i < m \<longrightarrow> set (next_inst (log ! i)) \<subseteq> {1 ..< int m} \<and> set (prev (log ! i)) \<subseteq> {0 ..< int m} \<and>
        \<not> neighbours_repeat (next_inst (log ! i)) \<and> \<not> neighbours_repeat (prev (log ! i)))"

lemma tidy_entries_all:
  "distinct ns \<Longrightarrow> set ns \<subseteq> {..< length log} \<Longrightarrow> \<exists>log'. tidy_entries ns log = Inr log' \<and> length log' = length log \<and>
     (\<forall>i < length log. log' ! i = (if i \<in> set ns then tidy_entry (log ! i) else log ! i))"
proof (induction ns arbitrary: log)
  case (Cons n ns)
  have "\<exists>log'. tidy_entries ns (log[n := tidy_entry (log ! n)]) = Inr log' \<and> length log' = length (log[n := tidy_entry (log ! n)]) \<and>
     (\<forall>i < length (log[n := tidy_entry (log ! n)]). log' ! i =
        (if i \<in> set ns then tidy_entry (log[n := tidy_entry (log ! n)] ! i) else log[n := tidy_entry (log ! n)] ! i))"
    by (rule Cons.IH) (use Cons.prems in auto)
  then obtain log' where l: "tidy_entries ns (log[n := tidy_entry (log ! n)]) = Inr log'" "length log' = length log"
     "\<And>i. i < length log \<Longrightarrow> log' ! i =
        (if i \<in> set ns then tidy_entry (log[n := tidy_entry (log ! n)] ! i) else log[n := tidy_entry (log ! n)] ! i)" by auto
  have n: "n < length log" "n \<notin> set ns" using Cons.prems by auto
  have "log' ! i = (if i \<in> set (n # ns) then tidy_entry (log ! i) else log ! i)" if "i < length log" for i
    using l(3) [OF that] n by (cases "i = n") auto
  then show ?case using l(1,2) n(1) by auto
qed simp

lemma tidy_next: "0 \<notin> set xs \<Longrightarrow> \<not> neighbours_repeat xs \<Longrightarrow> set (tidy_links xs) = set xs"
  using drop_zeros_remdups [of xs] by (auto simp: tidy_links_def)

lemma tidied_log_graph:
  assumes b: "block_log log m"
  shows "\<exists>log'. tidy_inst_log m log = Inr log' \<and> graph_log log' m"
proof -
  note d = b [unfolded block_log_def]
  have "set [1 ..< m] \<subseteq> {..< length log}" using d by auto
  then obtain log' where l: "tidy_inst_log m log = Inr log'" "length log' = length log"
    "\<And>i. i < length log \<Longrightarrow> log' ! i = (if i \<in> set [1 ..< m] then tidy_entry (log ! i) else log ! i)"
    using tidy_entries_all [of "[1 ..< m]" log] unfolding tidy_inst_log_def by auto
  have e: "log' ! i = tidy_entry (log ! i)" if "1 \<le> i" "i < m" for i using l(3) [of i] that d by simp
  have l0: "log' ! 0 = log ! 0" using l(3) [of 0] d by (cases "length log") auto
  have di: "set (next_inst (log ! i)) \<subseteq> {1 ..< int m}" "set (prev (log ! i)) \<subseteq> {0 ..< int m}"
    "\<not> neighbours_repeat (next_inst (log ! i))" "\<not> neighbours_repeat (prev (log ! i))" if "1 \<le> i" "i < m" for i
    using d that by blast+
  have tidy: "prev (log' ! i) = (if tidy_links (prev (log ! i)) = [0] then [] else tidy_links (prev (log ! i)))"
    "next_inst (log' ! i) = tidy_links (next_inst (log ! i))" if "1 \<le> i" "i < m" for i
    using e [OF that] by (simp_all add: tidy_entry_def Let_def)
  have nx: "set (next_inst (log' ! i)) = set (next_inst (log ! i))" if i: "1 \<le> i" "i < m" for i
  proof -
    have "0 \<notin> set (next_inst (log ! i))" using di(1) [OF i] by force
    then show ?thesis using tidy_next di(3) [OF i] tidy(2) [OF i] by simp
  qed
  have pv: "x \<in> set (prev (log' ! i)) \<longleftrightarrow> x \<in> set (prev (log ! i))" if i: "1 \<le> i" "i < m" "x \<noteq> 0" for i x
  proof -
    have "x \<in> set (tidy_links (prev (log ! i))) \<longleftrightarrow> x \<in> set (prev (log ! i))"
      using tidy_links_set [of "prev (log ! i)"] i(3) by blast
    then show ?thesis using tidy(1) [OF i(1,2)] i(3) by auto
  qed
  have zero: "0 \<in> set (prev (log ! i))" if i: "1 \<le> i" "i < m" and z: "0 \<in> set (prev (log' ! i))" for i
  proof (rule ccontr)
    assume n: "0 \<notin> set (prev (log ! i))"
    have "set (tidy_links (prev (log ! i))) = set (prev (log ! i))" by (rule tidy_next [OF n di(4) [OF i]])
    then show False using z n tidy(1) [OF i] by (auto split: if_splits)
  qed
  have sub: "set (prev (log' ! i)) \<subseteq> {0 ..< int m}" if i: "1 \<le> i" "i < m" for i
  proof
    fix x assume x: "x \<in> set (prev (log' ! i))"
    then have "x \<in> set (prev (log ! i))" using zero [OF i] pv [OF i] by (cases "x = 0") auto
    then show "x \<in> {0 ..< int m}" using di(2) [OF i] by blast
  qed
  have marks: "node_start (log' ! i) = 0 \<and> node_end (log' ! i) = 0" if "i < length log'" for i
    using l(2) l(3) [of i] d that by (auto simp: tidy_entry_def Let_def)
  have link: "int j \<in> set (next_inst (log ! i)) \<longleftrightarrow> int i \<in> set (prev (log ! j))" if "i < m" "j < m" for i j
    using linkedD [of log i j] d that by simp
  have "graph_log log' m"
    unfolding graph_log_def
  proof (intro conjI allI impI; (elim conjE)?)
    show "0 < m" "m \<le> length log'" "prev (log' ! 0) = []" using d l(2) l0 by simp_all
    fix i show "node_start (log' ! i) = 0" "node_end (log' ! i) = 0" if "i < length log'" using marks [OF that] by simp_all
    assume i: "1 \<le> i" "i < m"
    show "prev (log' ! i) \<noteq> [0]" using tidy(1) [OF i] by simp
    show "set (next_inst (log' ! i)) \<subseteq> {1 ..< int m}" using nx [OF i] di(1) [OF i] by simp
    show "set (prev (log' ! i)) \<subseteq> {0 ..< int m}" by (rule sub [OF i])
    show "int i \<in> set (next_inst (log' ! 0))" if "0 \<in> set (prev (log' ! i))"
      using zero [OF i that] link [of 0 i] i(2) d l0 by simp
    fix j assume j: "1 \<le> j" "j < m"
    show "int j \<in> set (next_inst (log' ! i)) \<longleftrightarrow> int i \<in> set (prev (log' ! j))"
      using link [OF i(2) j(2)] nx [OF i] pv [OF j, of "int i"] i(1) by simp
  qed
  then show ?thesis using l(1) by blast
qed

text \<open>
  C11. A log with mutual links, as process_block leaves it, becomes through tidy_inst_log
  one that build_control_flow_nodes turns into the graph of its blocks, as long as no two
  neighbouring links of an entry are repeated.
\<close>
theorem log_to_graph:
  assumes "block_log log m" "list_all no_links nodes"
  shows "safe (bindE (tidy_inst_log m log) (\<lambda>log. build_control_flow_nodes m log nodes))
    (\<lambda>(n, nodes', log'). \<exists>tidied. tidy_inst_log m log = Inr tidied \<and> n = length (starts tidied m) \<and> cfg tidied m nodes')"
proof -
  obtain tidied where t: "tidy_inst_log m log = Inr tidied" "graph_log tidied m"
    using tidied_log_graph [OF assms(1)] by blast
  then show ?thesis using build_nodes_cfg [OF t(2) assms(2)] by simp
qed

end
