(* ===== verification/Examples.thy ===== *)
theory Examples
  imports Block Jumps
begin

text \<open>
  The properties at concrete inputs: a small machine (six registers, four bytes of data),
  one RTL instruction per property, and a block of two moves.
\<close>

section \<open>A small machine\<close>

definition ex_record :: "u64 \<Rightarrow> u64 \<Rightarrow> u64 \<Rightarrow> memory_s" where
  "ex_record a i d = zero_memory\<lparr>start_address := a, init_value := i, offset_value := d,
     value_scope := 2, mem_valid := 1\<rparr>"

definition ex_state :: process_state_s where
  "ex_state = \<lparr>memory_text = [], memory_stack = replicate 6 zero_memory,
     memory_reg = [ex_record 0x28 0x10000 0, ex_record 0x30 0x20000 0, ex_record 0x48 0 1,
       ex_record 8 5 2] @ replicate 6 zero_memory,
     memory_data = replicate 6 zero_memory, memory_used = replicate 8 0\<rparr>"

definition ex_reg :: "u64 \<Rightarrow> operand_s" where
  "ex_reg r = \<lparr>store = STORE_REG, relocated = 0, relocated_area = 0, relocated_index = 0,
     indirect = IND_DIRECT, indirect_size = 64, index = r, op_value = 0, value_size = 64\<rparr>"

definition ex_number :: "u64 \<Rightarrow> operand_s" where
  "ex_number n = (ex_reg n)\<lparr>store := STORE_DIRECT\<rparr>"

definition ex_inst :: "opcode \<Rightarrow> operand_s \<Rightarrow> operand_s \<Rightarrow> operand_s \<Rightarrow> instruction_s" where
  "ex_inst opc a b d = \<lparr>opcode = opc, flags = 0, predicate = 0, srcA = a, srcB = b, dstA = d\<rparr>"

definition ex_entry :: "instruction_s \<Rightarrow> inst_log_entry_s" where
  "ex_entry ins = \<lparr>instruction = ins, prev = [], next_inst = [], value1 = zero_memory,
     value2 = zero_memory, value3 = zero_memory, node_start = 0, node_member = 0, node_end = 0\<rparr>"

definition ex_self :: self_s where
  "ex_self = \<lparr>data_size = 4, data = [1, 2, 3, 4], inst_log_entry = [], external_entry_points = [],
     entry_point = []\<rparr>"

lemma ex_state_wf: "wf_state ex_state" "has_room ex_state 4" "has_room ex_state 2"
  by code_simp+

text \<open>\<open>register 16 := register 8 opc 3\<close>, where register 8 holds 5 with offset 2.\<close>

definition ex_alu :: "opcode \<Rightarrow> inst_log_entry_s" where
  "ex_alu opc = ex_entry (ex_inst opc (ex_reg 8) (ex_number 3) (ex_reg 16))"

lemma ex_alu_simps [simp]: "instruction (ex_alu opc) = ex_inst opc (ex_reg 8) (ex_number 3) (ex_reg 16)"
  "opcode (ex_inst opc a b d) = opc" "flags (ex_inst opc a b d) = 0"
  "srcA (ex_inst opc a b d) = a" "srcB (ex_inst opc a b d) = b" "dstA (ex_inst opc a b d) = d"
  "index (ex_reg r) = r" "store (ex_reg r) = STORE_REG" "instruction (ex_entry ins) = ins"
  by (simp_all add: ex_alu_def ex_entry_def ex_inst_def ex_reg_def)

lemma ex_alu_form: "register_form (instruction (ex_alu opc))"
  by (simp add: register_form_def direct_def ex_reg_def ex_number_def)

lemma ex_alu_scope: "scope_of ex_state 0 (srcA (instruction (ex_alu opc))) \<noteq> 0"
proof -
  have "scope_of ex_state 0 (ex_reg 8) \<noteq> 0" by code_simp
  then show ?thesis by simp
qed

lemma ex_operands: "operand_abs ex_state (ex_reg 8) = 7" "operand_init ex_state (ex_number 3) = 3"
  "operand_abs ex_state (ex_number 3) = 3" "operand_init ex_state (ex_reg 8) = 5"
  by code_simp+

lemma execute_instruction_alu_witness:
  "\<exists>ps' inst'. execute_instruction ex_self ex_state (ex_alu OP_ADD) = Inr (0, ps', inst') \<and>
     reg_abs ps' 16 = 10"
  using execute_instruction_alu [OF ex_state_wf(1,2) ex_alu_form ex_alu_scope, of OP_ADD "\<lambda>a b. a + b" ex_self]
  by (auto simp: alu_value_def ex_operands)

lemma execute_instruction_shift_witness:
  "\<exists>ps' inst'. execute_instruction ex_self ex_state (ex_alu OP_SHL) = Inr (0, ps', inst') \<and>
     reg_abs ps' 16 = 56"
  using execute_instruction_shift [OF ex_state_wf(1,2) ex_alu_form ex_alu_scope, of OP_SHL ex_self]
  by (auto simp: ex_operands push_bit_eq_mult)

lemma execute_instruction_mul_witness:
  "\<exists>ps' inst'. execute_instruction ex_self ex_state (ex_alu OP_MUL) = Inr (0, ps', inst') \<and>
     reg_abs ps' 16 = 21"
proof -
  have "scope_of ex_state 1 (srcB (instruction (ex_alu OP_MUL))) \<noteq> 0" by code_simp
  from execute_instruction_mul [OF ex_state_wf(1,2) ex_alu_form _ ex_alu_scope this, of ex_self]
  show ?thesis by (auto simp: ex_operands)
qed

lemma execute_instruction_trunc_witness:
  "\<exists>ps' inst' x. execute_instruction ex_self ex_state
     (ex_entry (ex_inst OP_TRUNC (ex_reg 8) (ex_number 3) ((ex_reg 16)\<lparr>value_size := 32\<rparr>))) = Inr (0, ps', inst') \<and>
     reg_abs ps' 16 = x \<and> take_bit 32 x = 7"
proof -
  let ?e = "ex_entry (ex_inst OP_TRUNC (ex_reg 8) (ex_number 3) ((ex_reg 16)\<lparr>value_size := 32\<rparr>))"
  have "register_form (instruction ?e)" "scope_of ex_state 0 (srcA (instruction ?e)) \<noteq> 0" by code_simp+
  from execute_instruction_trunc [OF ex_state_wf(1,2) this(1) _ this(2), of ex_self]
  show ?thesis by (auto simp: ex_operands)
qed

lemma execute_instruction_unknown_witness:
  "execute_instruction ex_self ex_state (ex_alu OP_SEX) = Inl (Exit 1)"
  by (rule execute_instruction_unknown) (simp_all add: executable_opcodes_def)

lemma execute_instruction_adc_witness:
  "execute_instruction ex_self ex_state (ex_alu OP_ADC) = Inl (Exit 1)"
  by (rule execute_instruction_adc [OF ex_state_wf(1,2) ex_alu_form])
    (simp_all add: ex_alu_def ex_entry_def zero_memory_def)

lemma execute_add_loses_offset_witness:
  "\<exists>ps' inst'. execute_instruction ex_self ex_state
     (ex_entry (ex_inst OP_ADD (ex_reg 8) (ex_reg 8) (ex_reg 16))) = Inr (0, ps', inst') \<and> reg_abs ps' 16 \<noteq> 14"
proof -
  let ?e = "ex_entry (ex_inst OP_ADD (ex_reg 8) (ex_reg 8) (ex_reg 16))"
  have h: "register_form (instruction ?e)" "scope_of ex_state 0 (srcA (instruction ?e)) \<noteq> 0"
    "snd (reg_pair ex_state (index (srcB (instruction ?e)))) \<noteq> 0" by code_simp+
  have "case execute_instruction ex_self ex_state ?e of Inl _ \<Rightarrow> False | Inr (r, _) \<Rightarrow> r = 0" by code_simp
  then obtain ps' inst' where run: "execute_instruction ex_self ex_state ?e = Inr (0, ps', inst')"
    by (auto split: sum.splits)
  from execute_add_loses_offset [OF ex_state_wf(1,2) h(1,2) _ _ h(3) run] run
  show ?thesis by (auto simp: ex_operands)
qed

lemma execute_instruction_wf_witness:
  "\<exists>ps' inst'. execute_instruction ex_self ex_state (ex_alu OP_ADD) = Inr (0, ps', inst') \<and> wf_state ps'"
proof -
  have "case execute_instruction ex_self ex_state (ex_alu OP_ADD) of Inl _ \<Rightarrow> False | Inr (r, _) \<Rightarrow> r = 0" by code_simp
  then obtain ps' inst' where run: "execute_instruction ex_self ex_state (ex_alu OP_ADD) = Inr (0, ps', inst')"
    by (auto split: sum.splits)
  from evolves_wf [OF execute_instruction_wf [OF ex_state_wf(1,2) run]] run show ?thesis by blast
qed

text \<open>\<open>value3\<close> is written to register 16 and read back.\<close>

definition ex_put :: inst_log_entry_s where
  "ex_put = (ex_alu OP_MOV)\<lparr>value3 := ex_record 16 7 1\<rparr>"


section \<open>Jumps\<close>

definition ex_ip :: memory_s where
  "ex_ip = ex_record 0x48 0 1"

lemma ex_ip: "table_map (memory_reg ex_state) REG_IP = Some ex_ip" "value_scope ex_ip \<noteq> 0"
  by code_simp+

definition ex_jump :: "opcode \<Rightarrow> inst_log_entry_s" where
  "ex_jump opc = ex_entry (ex_inst opc (ex_number 0x10) (ex_number 0) (ex_number 0x20))"

lemma execute_jmp_witness:
  "\<exists>ps' inst'. execute_instruction ex_self ex_state (ex_jump OP_JMP) = Inr (0, ps', inst') \<and>
     reg_pair ps' REG_IP = (0, 0x11)"
proof -
  have "indirect (srcA (instruction (ex_jump OP_JMP))) = IND_DIRECT"
    "store (srcA (instruction (ex_jump OP_JMP))) = STORE_DIRECT"
    "opcode (instruction (ex_jump OP_JMP)) = OP_JMP" "flags (instruction (ex_jump OP_JMP)) \<in> {0, 1}"
    by code_simp+
  from execute_jmp [OF ex_state_wf(1) this(3,4,1,2) ex_ip, of ex_self]
  show ?thesis by (auto simp: ex_ip_def ex_record_def ex_jump_def ex_number_def)
qed

lemma execute_cmp_witness:
  "\<exists>ps' inst'. execute_instruction ex_self ex_state (ex_alu OP_CMP) = Inr (0, ps', inst') \<and>
     abs_value (value1 inst') = 7 \<and> abs_value (value2 inst') = 3"
  using execute_cmp [OF ex_state_wf(1,2) ex_alu_form, of OP_CMP ex_self] by (auto simp: ex_operands)

lemma execute_if_witness:
  "\<exists>ps' inst'. execute_instruction ex_self ex_state (ex_jump OP_IF) = Inr (0, ps', inst') \<and>
     abs_value (value3 inst') = 0x21"
proof -
  have "direct (srcA (instruction (ex_jump OP_IF)))" "indirect (dstA (instruction (ex_jump OP_IF))) = IND_DIRECT"
    "store (dstA (instruction (ex_jump OP_IF))) = STORE_DIRECT"
    "opcode (instruction (ex_jump OP_IF)) = OP_IF" "flags (instruction (ex_jump OP_IF)) \<in> {0, 1}"
    by code_simp+
  note run = execute_if [OF ex_state_wf(1,2) this(4,5,1,2,3) ex_ip, of ex_self]
  have "reg_abs ex_state REG_IP = 1" by code_simp
  with run show ?thesis by (auto simp: ex_jump_def ex_number_def)
qed

definition ex_callee :: "u64 \<Rightarrow> external_entry_point_s" where
  "ex_callee a = \<lparr>eep_valid = 1, eep_type = 1, eep_value = a, eep_name = ''f'', reg_params_size = 0,
     param_reg_label = [], params = [], locals = [], eep_nodes = [], eep_paths = [], eep_loops = [],
     label_redirect = [], labels = []\<rparr>"

text \<open>Two entry points have the address \<open>0x40\<close>: number 1 is taken.\<close>

lemma link_direct_call_first_witness:
  "\<exists>ins'. link_direct_call (ex_self\<lparr>external_entry_points := ex_callee 8 # replicate 999 (ex_callee 0x40)\<rparr>)
     0x40 (ex_inst OP_CALL (ex_number 4) (ex_number 0) (ex_number 0)) = Inr ins' \<and> index (srcA ins') = 1"
proof -
  let ?self = "ex_self\<lparr>external_entry_points := ex_callee 8 # replicate 999 (ex_callee 0x40)\<rparr>"
  let ?ins = "ex_inst OP_CALL (ex_number 4) (ex_number 0) (ex_number 0)"
  have t: "call_target 0x40 (external_entry_points ?self ! n) \<longleftrightarrow> n \<noteq> 0" if "n < EXTERNAL_ENTRY_POINTS_MAX" for n
    using that by (cases n) (simp_all add: call_target_def ex_callee_def EXTERNAL_ENTRY_POINTS_MAX_def)
  have hyp: "EXTERNAL_ENTRY_POINTS_MAX \<le> length (external_entry_points ?self)"
    "relocated (srcA ?ins) = 0" "indirect (srcA ?ins) = IND_DIRECT"
    by (simp_all add: EXTERNAL_ENTRY_POINTS_MAX_def ex_number_def ex_reg_def)
  have some: "\<exists>n < EXTERNAL_ENTRY_POINTS_MAX. call_target 0x40 (external_entry_points ?self ! n)"
    by (rule exI [of _ 1]) (use t [of 1] in \<open>simp add: EXTERNAL_ENTRY_POINTS_MAX_def\<close>)
  obtain ins' where run: "link_direct_call ?self 0x40 ?ins = Inr ins'" and
    n: "\<exists>n < EXTERNAL_ENTRY_POINTS_MAX. call_target 0x40 (external_entry_points ?self ! n) \<and>
       (\<forall>m < n. \<not> call_target 0x40 (external_entry_points ?self ! m)) \<and> index (srcA ins') = of_nat n"
    using link_direct_call_first [OF hyp, of "0x40"] unfolding if_P [OF some] by blast
  from n obtain n where n: "n < EXTERNAL_ENTRY_POINTS_MAX" "call_target 0x40 (external_entry_points ?self ! n)"
    "\<forall>m < n. \<not> call_target 0x40 (external_entry_points ?self ! m)" "index (srcA ins') = of_nat n" by blast
  have "n \<noteq> 0" using t [OF n(1)] n(2) by blast
  moreover have "\<not> 1 < n" using t [of 1] n(3) by (auto simp: EXTERNAL_ENTRY_POINTS_MAX_def)
  ultimately have "n = 1" by linarith
  then have "index (srcA ins') = 1" using n(4) by simp
  with run show ?thesis by blast
qed

section \<open>Data and text\<close>

lemma read_data_little_endian_witness: "read_data ex_self 1 16 = Inr 0x302"
  by (subst read_data_little_endian) (simp_all add: ex_self_def bytes_of_bits_def)

lemma read_data_one_past_witness: "read_data ex_self 3 16 = Inl OutOfBounds"
  by (rule read_data_one_past) (simp_all add: ex_self_def bytes_of_bits_def)

lemma write_inst_bounded_witness:
  "\<exists>s'. write_inst ex_self \<lparr>chars = ''> '', str_max = 20\<rparr> (ex_inst OP_MOV (ex_reg 8) (ex_number 0) (ex_reg 16)) 1 None
     = Inr (0, s') \<and> length (chars s') < 20 \<and> prefix ''> '' (chars s')"
proof -
  let ?s = "\<lparr>chars = ''> '', str_max = 20\<rparr>" and ?i = "ex_inst OP_MOV (ex_reg 8) (ex_number 0) (ex_reg 16)"
  have "case write_inst ex_self ?s ?i 1 None of Inl _ \<Rightarrow> False | Inr (r, s') \<Rightarrow> r = 0 \<and> str_max s' = 20"
    by code_simp
  then obtain s' where run: "write_inst ex_self ?s ?i 1 None = Inr (0, s')" "str_max s' = 20"
    by (auto split: sum.splits)
  with write_inst_bounded [OF run(1)] show ?thesis by auto
qed

lemma print_inst_accepts_witness:
  "\<exists>t. print_inst ex_self (ex_inst OP_ADD ((ex_reg 8)\<lparr>indirect := IND_MEM\<rparr>) (ex_number 0) (ex_reg 16)) 1 None = Inr (1, t)"
proof -
  let ?i = "ex_inst OP_ADD ((ex_reg 8)\<lparr>indirect := IND_MEM\<rparr>) (ex_number 0) (ex_reg 16)"
  have "\<not> printable ?i" "\<not> isl (print_inst ex_self ?i 1 None)" by code_simp+
  then obtain r t where run: "print_inst ex_self ?i 1 None = Inr (r, t)"
    by (metis sum.collapse(2) surj_pair)
  with print_inst_accepts [OF run] \<open>\<not> printable ?i\<close> show ?thesis by simp
qed

definition ex_label :: "u64 \<Rightarrow> u64 \<Rightarrow> u64 \<Rightarrow> label_s" where
  "ex_label s t v = \<lparr>scope = s, label_type = t, label_value = v, size_bits = 64, lab_pointer = 0, tip_size = 0\<rparr>"

lemma label_text_injective_witness: "label_text (ex_label 2 1 3) \<noteq> label_text (ex_label 2 2 3)"
  using label_text_injective [of "ex_label 2 1 3" "ex_label 2 2 3"]
  by (auto simp: proper_label_def ex_label_def)

section \<open>A block\<close>

text \<open>The same move is decoded at every offset below 3.\<close>

definition ex_env :: env where
  "ex_env = \<lparr>env_disassemble = (\<lambda>_. (0, [ex_inst OP_MOV (ex_reg 8) (ex_number 0) (ex_reg 16)], 1)),
     env_octets = (\<lambda>_. 1), env_relocs = [], env_limit = 3\<rparr>"

definition ex_block :: block where
  "ex_block = \<lparr>bself = ex_self\<lparr>inst_log_entry := replicate 4 (ex_alu OP_NOP)\<rparr>, bps = ex_state,
     binst_log = 1, bprev = 0, boffset = 0\<rparr>"

lemma ex_block_inv: "block_inv ex_block"
  by (simp add: block_inv_def linked_def ex_block_def ex_alu_def ex_entry_def)

lemma ex_env_relocs: "length (env_relocs ex_env) < 2 ^ 61"
  by (simp add: ex_env_def)

lemma ex_block_used: "length (memory_used (bps ex_block)) < 9"
  by (simp add: ex_block_def ex_state_def)

lemma process_block_terminates_witness: "process_block ex_env 9 ex_block \<noteq> Inl Diverge"
  by (rule process_block_terminates [OF ex_block_inv ex_env_relocs ex_block_used])

lemma ex_block_run:
  "case process_block ex_env 9 ex_block of Inl _ \<Rightarrow> False
   | Inr (r, b) \<Rightarrow> r = 1 \<and> length (inst_log_entry (bself b)) = 4 \<and> next_inst (inst_log_entry (bself b) ! 1) = [2]"
  by code_simp

lemma process_block_links_mutual_witness:
  "\<exists>b. process_block ex_env 9 ex_block = Inr (1, b) \<and> 1 \<in> set (prev (inst_log_entry (bself b) ! 2))"
proof -
  obtain b where b: "process_block ex_env 9 ex_block = Inr (1, b)" "length (inst_log_entry (bself b)) = 4"
    "next_inst (inst_log_entry (bself b) ! 1) = [2]"
    using ex_block_run by (auto split: sum.splits)
  from process_block_links_mutual [OF ex_block_inv ex_env_relocs ex_block_used b(1), of 1 2] b
  show ?thesis by simp
qed

definition ex_known :: block where
  "ex_known = set_log (set_log (set_log ex_block 0 ((ex_alu OP_NOP)\<lparr>next_inst := [2, 3]\<rparr>))
     2 ((ex_alu OP_NOP)\<lparr>prev := [0]\<rparr>)) 3 ((ex_alu OP_NOP)\<lparr>prev := [0]\<rparr>)"

lemma link_known_repeats_witness:
  "\<exists>b'. link_known 2 ex_known = Inr b' \<and> next_inst (inst_log_entry (bself b') ! 0) = [2, 3, 2]"
proof -
  have "linked (inst_log_entry (bself ex_known))" by code_simp
  then have inv: "block_inv ex_known"
    by (simp add: block_inv_def ex_known_def ex_block_def set_log_def)
  have hyp: "unat (bprev ex_known) = 0" "length (inst_log_entry (bself ex_known)) = 4"
    "next_inst (inst_log_entry (bself ex_known) ! 0) = [] @ [2, 3]"
    by (simp_all add: ex_known_def ex_block_def set_log_def)
  show ?thesis
    using link_known_repeats [OF inv, of 2 "[]" 3] hyp by simp
qed

end
