(* ===== verification/GraphExamples.thy ===== *)
theory GraphExamples
  imports Enumerate NodeGraph Examples
begin

text \<open>
  A function with one loop, taken through the passes of \<open>src/analyse/analyse.c\<close>: the properties
  of these passes at concrete logs and tables.
\<close>

section \<open>A function with a loop\<close>

text \<open>Node 1 leads to 2, node 2 to 3 and 4, node 3 back to 2; node 4 is the exit.\<close>

definition ex_link :: "int \<Rightarrow> node_link_s" where
  "ex_link n = \<lparr>link_node = n, is_normal = 0, is_loop_edge = 0, is_loop_exit = 0, is_loop_entry = 0\<rparr>"

definition ex_node :: "(int \<times> int) list \<Rightarrow> int list \<Rightarrow> control_flow_node_s" where
  "ex_node ps ns = \<lparr>node_valid = 1, entry_point_of = 0, inst_start = 0, inst_end = 0, prev_node = map fst ps,
     prev_link_index = map snd ps, link_next = map ex_link ns, dominator = 0, node_type = 0, loop_head = 0,
     if_tail = 0, node_path = [], looped_path = [], member_of_loop = [], depth = 0, multi_exit = 0\<rparr>"

definition ex_graph :: "control_flow_node_s list" where
  "ex_graph = [ex_node [] [], ex_node [] [2], ex_node [(1, 0), (3, 0)] [3, 4], ex_node [(2, 0)] [2], ex_node [(2, 1)] []]"

definition ex_path :: path_s where
  "ex_path = \<lparr>path_used = 0, path_prev = 0, path_prev_index = 0, path_size = 0, path_type = 0,
     path_loop_head = 0, path = replicate 6 0\<rparr>"

definition ex_table :: "path_s list" where
  "ex_table = [ex_path, ex_path, ex_path]"

definition ex_walk :: path_walk where
  "ex_walk = projr (bindE (build_control_flow_paths ex_graph 5 ex_table 3 1) (\<lambda>(_, _, w). Inr w))"

definition ex_loop :: loop_s where
  "ex_loop = \<lparr>head = 0, nest = 0, loop_multi_exit = 0, loop_list = []\<rparr>"

text \<open>The tables the passes leave, one after the other.\<close>

definition ex_row :: "int \<Rightarrow> int \<Rightarrow> int \<Rightarrow> int \<Rightarrow> int list \<Rightarrow> path_s" where
  "ex_row ix n t h xs = \<lparr>path_used = 1, path_prev = 0, path_prev_index = ix, path_size = n,
     path_type = t, path_loop_head = h, path = xs\<rparr>"

definition ex_paths :: "path_s list" where
  "ex_paths = [ex_row 0 4 1 2 [1, 2, 3, 2, 0, 0], ex_row 1 1 0 0 [4, 0, 0, 0, 0, 0], ex_path]"

definition ex_loops :: "loop_s list" where
  "ex_loops = [ex_loop\<lparr>head := 2, nest := 2, loop_list := [3, 2]\<rparr>, ex_loop]"

lemma ex_wf: "wf_paths ex_paths"
  by code_simp

lemma ex_loop_path:
  assumes "n < length ex_paths" "path_loop_head (ex_paths ! n) \<noteq> 0"
  shows "loop_path ex_paths n"
proof -
  have "n = 0 \<or> n = 1 \<or> n = 2" using assms(1) by (auto simp: ex_paths_def)
  moreover have "loop_path ex_paths 0" "path_loop_head (ex_paths ! 1) = 0" "path_loop_head (ex_paths ! 2) = 0"
    by code_simp+
  ultimately show ?thesis using assms(2) by auto
qed

lemma ex_walked: "build_control_flow_paths ex_graph 5 ex_table 3 1 = Inr (0, 2, ex_walk)" "wpaths ex_walk = ex_paths"
proof -
  have "case build_control_flow_paths ex_graph 5 ex_table 3 1 of Inr (c, n, w) \<Rightarrow> c = 0 \<and> n = 2 \<and> wpaths w = ex_paths
    | Inl e \<Rightarrow> False" by code_simp
  then show "build_control_flow_paths ex_graph 5 ex_table 3 1 = Inr (0, 2, ex_walk)" "wpaths ex_walk = ex_paths"
    unfolding ex_walk_def by (auto split: sum.splits)
qed

lemma ex_no_loops: "i < length [ex_loop, ex_loop] \<Longrightarrow> head ([ex_loop, ex_loop] ! i) = 0 \<and> loop_list ([ex_loop, ex_loop] ! i) = []"
  by (cases i; cases "i - 1") (auto simp: ex_loop_def)

lemma ex_collected: "build_control_flow_loops ex_paths 2 [ex_loop, ex_loop] = Inr (0, ex_loops)"
  by code_simp

lemma find_node_round_trip_witness:
  "\<exists>k. find_node_in_path ex_paths 0 2 = Inr (Some k) \<and> find_node_at_index_in_path ex_paths 0 k = Inr (Some 2)"
proof -
  have "2 \<in> set (whole_path ex_paths 0)" by code_simp
  from find_node_round_trip [OF ex_wf _ this] show ?thesis by (auto simp: ex_paths_def)
qed

lemma path_loop_check_finds_witness: "\<exists>ps. path_loop_check ex_paths 0 3 2 5 = Inr (1, ps)"
proof -
  have hyp: "0 < length ex_paths" "3 \<le> length (path (ex_paths ! 0))" "int (length (trail ex_paths 0 3)) < 5"
    "2 \<in> set (trail ex_paths 0 3)" by code_simp+
  from path_loop_check_finds [OF ex_wf hyp(1,2,3), of 2] hyp(4) show ?thesis by simp
qed

lemma build_control_flow_loops_collects_witness:
  "\<exists>r ls. build_control_flow_loops ex_paths 2 [ex_loop, ex_loop] = Inr (r, ls) \<and> collected ex_paths {0 ..< 2} ls"
  using build_control_flow_loops_collects [OF ex_wf ex_loop_path ex_no_loops ex_collected] ex_collected by simp

lemma paths_then_loops_witness: "collected ex_paths {0 ..< 2} ex_loops"
proof -
  have "cleared ex_table" by code_simp
  from paths_then_loops [OF this ex_walked(1) ex_no_loops, of 0 ex_loops] ex_collected
  show ?thesis by (simp add: ex_walked(2))
qed

lemma build_control_flow_paths_ends_witness: "paths_done 5 ex_paths 2"
proof -
  have "cleared ex_table" by code_simp
  from build_control_flow_paths_ends [OF this, of ex_graph 5 3 1] show ?thesis
    by (simp add: ex_walked)
qed

section \<open>The passes over its nodes\<close>

text \<open>The graph with the marks the enumeration sets: 2 is a loop head, the link back to it a loop edge.\<close>

definition ex_marked :: "control_flow_node_s list" where
  "ex_marked = ex_graph[2 := (ex_graph ! 2)\<lparr>node_type := NODE_TYPE_LOOP, loop_head := 1\<rparr>,
     3 := (ex_graph ! 3)\<lparr>link_next := [(ex_link 2)\<lparr>is_loop_edge := 1\<rparr>]\<rparr>]"

definition ex_pathed :: "control_flow_node_s list" where
  "ex_pathed = projr (build_node_paths ex_marked ex_paths 2 1)"

definition ex_dominated :: "control_flow_node_s list" where
  "ex_dominated = projr (build_node_dominance ex_pathed 5)"

definition ex_members :: "control_flow_node_s list" where
  "ex_members = projr (build_control_flow_loops_node_members ex_loops ex_marked)"

definition ex_linked :: "control_flow_node_s list" where
  "ex_linked = projr (analyse_control_flow_node_links ex_members 5)"

lemma ex_passes:
  "build_node_paths ex_marked ex_paths 2 1 = Inr ex_pathed"
  "build_node_dominance ex_pathed 5 = Inr ex_dominated"
  "build_control_flow_loops_node_members ex_loops ex_marked = Inr ex_members"
  "analyse_control_flow_node_links ex_members 5 = Inr ex_linked"
  by code_simp+

lemma ex_fresh: "i < length ex_marked \<Longrightarrow> node_path (ex_marked ! i) = [] \<and> looped_path (ex_marked ! i) = []"
proof -
  have "list_all (\<lambda>n. node_path n = [] \<and> looped_path n = []) ex_marked" by code_simp
  then show "i < length ex_marked \<Longrightarrow> node_path (ex_marked ! i) = [] \<and> looped_path (ex_marked ! i) = []"
    by (simp add: list_all_length)
qed

lemma build_node_paths_exact_witness: "node_path (ex_pathed ! 2) = [1] \<and> looped_path (ex_pathed ! 2) = [0]"
proof -
  have len: "2 < length ex_marked" by code_simp
  have "paths_through ex_paths False [0 ..< nat 2] 2 = [1]" "paths_through ex_paths True [0 ..< nat 2] 2 = [0]"
    by code_simp+
  with build_node_paths_exact [OF ex_wf ex_passes(1) len] ex_fresh [OF len] show ?thesis by simp
qed

lemma is_subset_of_subsequences_witness: "is_subset [1, 3] [1, 2, 3] \<noteq> 0"
  using is_subset_of_subsequences [of "[1, 2, 3]" "[1, 3]" "\<lambda>x. x \<noteq> 2" "[1, 2, 3]" "\<lambda>_. True"] by simp

lemma dominator_on_every_path_witness: "dominator (ex_dominated ! 4) \<in> {1, 2} \<and> dominator (ex_dominated ! 4) \<noteq> 0"
proof -
  have hyp: "4 < length ex_marked" "dominator (ex_dominated ! 4) \<noteq> dominator (ex_pathed ! 4)" "1 < nat 2"
    "path_type (ex_paths ! 1) \<noteq> PATH_TYPE_LOOP" "0 < path_size (ex_paths ! 1)"
    "int 4 \<in> set (whole_path ex_paths 1)" by code_simp+
  from dominator_on_every_path [OF ex_wf ex_fresh ex_passes(1,2) hyp]
  have "dominator (ex_dominated ! 4) \<in> set (whole_path ex_paths 1)" .
  moreover have "whole_path ex_paths 1 = [1, 2, 4]" "dominator (ex_dominated ! 4) = 2" by code_simp+
  ultimately show ?thesis by simp
qed

lemma node_members_are_loops_witness: "member_of_loop (ex_members ! 3) = [2]"
proof -
  have "list_all (\<lambda>l. distinct (loop_list l)) ex_loops" by code_simp
  then have d: "distinct (loop_list l)" if "l \<in> set ex_loops" for l using that by (simp add: list_all_iff)
  have len: "3 < length ex_marked" by code_simp
  have "member_of_loop (ex_marked ! 3) @ map head (filter (\<lambda>l. int 3 \<in> set (loop_list l)) ex_loops) = [2]" by code_simp
  with node_members_are_loops [OF d ex_passes(3) len] show ?thesis by simp
qed

lemma node_links_settled_witness: "is_normal (hd (link_next (ex_linked ! 3))) = 0"
proof -
  have hyp: "1 \<le> (3 :: nat)" "3 < nat 5" "3 < length ex_members"
    "hd (link_next (ex_linked ! 3)) \<in> set (link_next (ex_linked ! 3))"
    "is_loop_edge (hd (link_next (ex_linked ! 3))) = 1" by code_simp+
  from node_links_settled [OF ex_passes(4) hyp(1-4)] hyp(5) show ?thesis by simp
qed

lemma build_node_dominance_ends_witness: "build_node_dominance ex_pathed 5 \<noteq> Inl Diverge"
proof (rule build_node_dominance_ends [where rank = "\<lambda>b. nat (min b 5)"])
  have len: "length ex_pathed = 5" by code_simp
  have preds: "forward_pred ex_pathed 0 = Inr 0" "forward_pred ex_pathed 1 = Inr 0" "forward_pred ex_pathed 2 = Inr 1"
    "forward_pred ex_pathed 3 = Inr 2" "forward_pred ex_pathed 4 = Inr 2" by code_simp+
  show "nat (min p 5) < nat (min b 5)" if p: "forward_pred ex_pathed b = Inr p" "p \<noteq> 0" for b p
  proof -
    have "0 \<le> b \<and> b < 5" using p(1) len by (auto simp: forward_pred_def bindE_Inr_iff at_int_Inr_iff)
    then have "b = 0 \<or> b = 1 \<or> b = 2 \<or> b = 3 \<or> b = 4" by linarith
    then show ?thesis using p preds by auto
  qed
  show "nat (min b 5) \<le> length ex_pathed" for b by (simp add: len)
qed

definition ex_exit :: "control_flow_node_s list" where
  "ex_exit = ex_members[3 := (ex_members ! 3)\<lparr>link_next := link_next (ex_members ! 3) @ [ex_link 4]\<rparr>]"

lemma node_links_exit_witness:
  "\<exists>nodes. analyse_control_flow_node_links ex_exit 5 = Inr nodes \<and> is_loop_exit (link_next (nodes ! 3) ! 1) \<noteq> 0"
proof -
  define nodes where "nodes = projr (analyse_control_flow_node_links ex_exit 5)"
  have run: "analyse_control_flow_node_links ex_exit 5 = Inr nodes" unfolding nodes_def by code_simp
  have hyp: "1 \<le> (3 :: nat)" "3 < nat 5" "3 < length ex_exit" "1 < length (link_next (ex_exit ! 3))"
    "loop_head (ex_exit ! 3) = 0" "is_loop_edge (link_next (ex_exit ! 3) ! 1) = 0"
    "is_loop_exit (link_next (ex_exit ! 3) ! 1) = 0" "distinct [2 :: int]"
    "set (member_of_loop (ex_exit ! nat (link_node (link_next (ex_exit ! 3) ! 1)))) \<subset> set (member_of_loop (ex_exit ! 3))"
    by code_simp+
  have "\<exists>P. member_of_loop (ex_exit ! n) = filter P [2]" if "n < length ex_exit" for n
  proof -
    have "list_all (\<lambda>x. member_of_loop x = [] \<or> member_of_loop x = [2]) ex_exit" by code_simp
    then have "member_of_loop (ex_exit ! n) = [] \<or> member_of_loop (ex_exit ! n) = [2]" using that by (simp add: list_all_length)
    then show ?thesis
    proof
      assume "member_of_loop (ex_exit ! n) = []"
      then show ?thesis by (intro exI [of _ "\<lambda>_. False"]) simp
    next
      assume "member_of_loop (ex_exit ! n) = [2]"
      then show ?thesis by (intro exI [of _ "\<lambda>_. True"]) simp
    qed
  qed
  from node_links_exit [OF run hyp(1-8) this] hyp(9) run show ?thesis by simp
qed

section \<open>Its instructions\<close>

text \<open>
  Entry 0 stands for the caller. Instruction 2 is a branch to 3 and 4, 3 jumps back to 2 through
  two equal links, as the executor may leave them.
\<close>

definition ex_step :: "int list \<Rightarrow> int list \<Rightarrow> inst_log_entry_s" where
  "ex_step ps ns = (ex_alu OP_NOP)\<lparr>prev := ps, next_inst := ns\<rparr>"

definition ex_log :: "inst_log_entry_s list" where
  "ex_log = [ex_step [] [1], ex_step [0] [2], ex_step [1, 3, 3] [3, 4], ex_step [2] [2, 2], ex_step [2] []]"

definition ex_blank :: "control_flow_node_s list" where
  "ex_blank = replicate 6 ((ex_node [] [])\<lparr>node_valid := 0\<rparr>)"

lemma ex_block_log: "block_log ex_log 5"
proof -
  have "linked ex_log" "length ex_log = 5" "prev (ex_log ! 0) = []" by code_simp+
  moreover have "list_all (\<lambda>e. node_start e = 0 \<and> node_end e = 0) ex_log" by code_simp
  moreover have "\<forall>i \<in> {1 ..< 5}. set (next_inst (ex_log ! i)) \<subseteq> {1 ..< int 5} \<and> set (prev (ex_log ! i)) \<subseteq> {0 ..< int 5} \<and>
      \<not> neighbours_repeat (next_inst (ex_log ! i)) \<and> \<not> neighbours_repeat (prev (ex_log ! i))" by code_simp
  ultimately show ?thesis unfolding block_log_def by (simp add: list_all_length)
qed

lemma ex_blank_clear: "list_all no_links ex_blank"
  by code_simp

definition ex_tidied :: "inst_log_entry_s list" where
  "ex_tidied = projr (tidy_inst_log 5 ex_log)"

lemma ex_tidied: "tidy_inst_log 5 ex_log = Inr ex_tidied" "graph_log ex_tidied 5"
proof -
  obtain log where "tidy_inst_log 5 ex_log = Inr log" "graph_log log 5" using tidied_log_graph [OF ex_block_log] by blast
  then show "tidy_inst_log 5 ex_log = Inr ex_tidied" "graph_log ex_tidied 5" by (simp_all add: ex_tidied_def)
qed

definition ex_built :: "nat \<times> control_flow_node_s list \<times> inst_log_entry_s list" where
  "ex_built = projr (build_control_flow_nodes 5 ex_tidied ex_blank)"

lemma ex_built: "build_control_flow_nodes 5 ex_tidied ex_blank = Inr ex_built"
  by code_simp

lemma tidy_links_remdups_witness: "tidy_links [3, 5, 3] = [5, 3] \<and> set (tidy_links [5, 5, 5]) = {0, 5}"
  using tidy_links_remdups [of "[3, 5, 3]"] tidy_links_remdups [of "[5, 5, 5]"] by simp

lemma build_control_flow_nodes_graph_witness: "fst ex_built = 4 \<and> cfg ex_tidied 5 (fst (snd ex_built))"
proof -
  have "length (starts ex_tidied 5) = 4" by code_simp
  with build_control_flow_nodes_graph [OF ex_tidied(2) ex_blank_clear] show ?thesis
    by (simp add: ex_built case_prod_beta)
qed

lemma links_follow_successors_witness:
  "map (\<lambda>l. inst_start (fst (snd ex_built) ! nat (link_node l))) (link_next (fst (snd ex_built) ! 2)) = [3, 4]"
proof -
  have run: "build_control_flow_nodes 5 ex_tidied ex_blank = Inr (fst ex_built, fst (snd ex_built), snd (snd ex_built))"
    using ex_built by simp
  have "2 \<le> fst ex_built" "nexts ex_tidied (inst_end (fst (snd ex_built) ! 2)) = [3, 4]" by code_simp+
  with links_follow_successors [OF ex_tidied(2) ex_blank_clear run, of 2] show ?thesis by (simp add: One_nat_def)
qed

lemma log_to_graph_witness: "cfg ex_tidied 5 (fst (snd ex_built))"
  using log_to_graph [OF ex_block_log ex_blank_clear] by (simp add: ex_tidied(1) ex_built case_prod_beta)

end
