(* ===== verification/IfTail.thy ===== *)
theory IfTail
  imports Links
begin

text \<open>
  \<open>src/analyse/analyse.c\<close>, \<open>build_node_if_tail\<close>: for each branch the node where its ways meet
  again. The type of the branch says whether its first path or its links are followed; the walk
  stops at the first node that all paths of the branch go through, and the program ends after
  1000 steps. A tail shares the paths of its branch (\<open>build_node_if_tail_shares\<close>).
\<close>

section \<open>The way to follow\<close>

text \<open>
  For each type of branch: whether the tail is looked for by the loop paths of the nodes rather
  than their other paths, whether exit links are followed, and whether the nodes of a path are
  followed rather than links. Other types end the program.
\<close>

definition tail_mode :: "control_flow_node_s \<Rightarrow> (bool \<times> bool \<times> bool) c" where
  "tail_mode node =
     (let t = node_type node in
      if t = NODE_TYPE_IF_THEN_ELSE \<or> t = NODE_TYPE_JMPT then
        Inr (if 2 \<le> length (node_path node) then (False, False, True) else (True, False, True))
      else if t = NODE_TYPE_IF_THEN_GOTO then Inr (False, True, False)
      else if t = NODE_TYPE_LOOP then
        Inr (if 1 < multi_exit node then (False, False, True) else (False, True, False))
      else if t = NODE_TYPE_LOOP_THEN_ELSE then
        Inr (if 1 < multi_exit node then (False, False, True) else (True, False, False))
      else Inl (Exit 1))"

text \<open>The node after \<open>b\<close> on the first path of the start node; its index is not set when \<open>b\<close> is not there.\<close>

definition next_on_path :: "path_s list \<Rightarrow> control_flow_node_s \<Rightarrow> int \<Rightarrow> int c" where
  "next_on_path ps start b =
     (case node_path start of
        [] \<Rightarrow> Inl (Exit 1)
      | p # _ \<Rightarrow> bindE (find_node_in_path ps p b) (\<lambda>r.
          case r of
            None \<Rightarrow> Inl Uninit
          | Some ix \<Rightarrow> bindE (find_node_at_index_in_path ps p (ix + 1)) (\<lambda>x.
              Inr (case x of None \<Rightarrow> 0 | Some y \<Rightarrow> y))))"

text \<open>
  The node after the first \<open>b\<close> among the first \<open>k\<close> of a buffer; the program ends when \<open>b\<close> is the
  last of them.
\<close>

fun node_after :: "int \<Rightarrow> nat \<Rightarrow> int list \<Rightarrow> int c" where
  "node_after b 0 xs = Inr 0"
| "node_after b (Suc k) [] = Inl OutOfBounds"
| "node_after b (Suc k) (x # xs) =
     (if x \<noteq> b then node_after b k xs
      else if k = 0 then Inl (Exit 1)
      else case xs of [] \<Rightarrow> Inl OutOfBounds | y # _ \<Rightarrow> Inr y)"

definition next_on_looped :: "path_s list \<Rightarrow> control_flow_node_s \<Rightarrow> int \<Rightarrow> int c" where
  "next_on_looped ps start b =
     (case looped_path start of
        p # q # _ \<Rightarrow> bindE (at_int ps p) (\<lambda>r. node_after b (nat (path_size r)) (path r))
      | _ \<Rightarrow> Inl (Exit 1))"

text \<open>
  The link to follow from a node; 0 ends the walk. A node with one link ends it too: its link is
  looked at, but the next node is not set.
\<close>

definition link_with :: "(node_link_s \<Rightarrow> int) \<Rightarrow> node_link_s \<Rightarrow> node_link_s \<Rightarrow> node_link_s option" where
  "link_with flag l m = (if flag l = 1 then Some l else if flag m = 1 then Some m else None)"

definition next_by_link :: "bool \<Rightarrow> control_flow_node_s \<Rightarrow> int" where
  "next_by_link follow_exit node =
     (case link_next node of
        [l, m] \<Rightarrow>
          (if is_loop_exit l = 1 \<and> is_loop_exit m = 1 then 0
           else case (if follow_exit then link_with is_loop_exit l m else link_with is_normal l m) of
                  None \<Rightarrow> 0
                | Some k \<Rightarrow> if is_loop_edge k \<noteq> 0 then 0 else link_node k)
      | _ \<Rightarrow> 0)"

definition next_tail :: "path_s list \<Rightarrow> control_flow_node_s list \<Rightarrow> bool \<times> bool \<times> bool \<Rightarrow> control_flow_node_s \<Rightarrow> int \<Rightarrow> int c" where
  "next_tail ps nodes mode start b =
     (case mode of (subset_method, follow_exit, follow_path) \<Rightarrow>
        if follow_path then (if subset_method then next_on_looped ps start b else next_on_path ps start b)
        else bindE (at_int nodes b) (\<lambda>node. Inr (next_by_link follow_exit node)))"

section \<open>The tail of a branch\<close>

text \<open>All paths of the first node, of the kind looked at, are paths of the second.\<close>

definition shares_paths :: "bool \<Rightarrow> control_flow_node_s \<Rightarrow> control_flow_node_s \<Rightarrow> bool" where
  "shares_paths subset_method start node \<longleftrightarrow>
     (if subset_method then is_subset (looped_path start) (looped_path node) \<noteq> 0
      else is_subset (node_path start) (node_path node) \<noteq> 0)"

text \<open>The count runs over all branches of the function; above 1000 the program ends.\<close>

fun find_tail :: "nat \<Rightarrow> path_s list \<Rightarrow> control_flow_node_s list \<Rightarrow> bool \<times> bool \<times> bool \<Rightarrow> control_flow_node_s \<Rightarrow>
    int \<Rightarrow> int \<Rightarrow> (int \<times> int option) c" where
  "find_tail 0 ps nodes mode start count b = Inl Diverge"
| "find_tail (Suc k) ps nodes mode start count b =
     bindE (next_tail ps nodes mode start b) (\<lambda>x.
       if x = 0 then Inr (count, None)
       else bindE (at_int nodes x) (\<lambda>node.
         if 1000 < count + 1 then Inl (Exit 1)
         else if shares_paths (fst mode) start node then Inr (count + 1, Some x)
         else find_tail k ps nodes mode start (count + 1) x))"

definition if_tail_of :: "external_entry_point_s list \<Rightarrow> control_flow_node_s list \<Rightarrow> nat \<Rightarrow> int \<Rightarrow> (int \<times> control_flow_node_s list) c" where
  "if_tail_of eps nodes n count =
     bindE (at nodes n) (\<lambda>start.
       if node_valid start = 0 then Inr (count, nodes)
       else bindE (at_int eps (entry_point_of start - 1)) (\<lambda>ep.
         if length (link_next start) < 2 then Inr (count, nodes)
         else bindE (tail_mode start) (\<lambda>mode.
           bindE (find_tail 1001 (eep_paths ep) nodes mode start count (int n)) (\<lambda>(count, r).
             Inr (count, case r of None \<Rightarrow> nodes | Some x \<Rightarrow> nodes[n := start\<lparr>if_tail := x\<rparr>])))))"

fun if_tails :: "external_entry_point_s list \<Rightarrow> nat list \<Rightarrow> int \<Rightarrow> control_flow_node_s list \<Rightarrow> control_flow_node_s list c" where
  "if_tails eps [] count nodes = Inr nodes"
| "if_tails eps (n # ns) count nodes =
     bindE (if_tail_of eps nodes n count) (\<lambda>(count, nodes). if_tails eps ns count nodes)"

definition build_node_if_tail :: "external_entry_point_s list \<Rightarrow> control_flow_node_s list \<Rightarrow> int \<Rightarrow> control_flow_node_s list c" where
  "build_node_if_tail eps nodes nodes_size = if_tails eps [1 ..< nat nodes_size] 0 nodes"

section \<open>What the tail is\<close>

lemma subset_from_is:
  assumes "is_subset a b \<noteq> 0" shows "set a \<subseteq> set b"
proof (rule ccontr)
  assume n: "\<not> set a \<subseteq> set b"
  then have "\<not> subset_from a b" "a \<noteq> b" using subset_from_set by blast+
  then have "is_subset a b = 0" unfolding is_subset_def by (simp only: simp_thms if_False if_cancel)
  then show False using assms by contradiction
qed

lemma find_walks:
  assumes "wf_paths ps"
  shows "safe (find_node_in_path ps p b) (\<lambda>_. True)" "safe (find_node_at_index_in_path ps p ix) (\<lambda>_. True)"
proof -
  have out: "find_node_in_path ps p b = Inl OutOfBounds \<and> find_node_at_index_in_path ps p ix = Inl OutOfBounds"
    if "\<not> (0 \<le> p \<and> p < int (length ps))"
  proof -
    have "at_int ps p = Inl OutOfBounds" using that by (simp add: at_int_def)
    then show ?thesis unfolding find_node_in_path_def find_node_at_index_in_path_def by simp
  qed
  have inr: "\<exists>x. find_node_in_path ps p b = Inr x" "\<exists>x. find_node_at_index_in_path ps p ix = Inr x"
    if "0 \<le> p \<and> p < int (length ps)"
  proof -
    have q: "p = int (nat p)" "nat p < length ps" using that by auto
    show "\<exists>x. find_node_in_path ps p b = Inr x" using find_node_in_path_trail [OF assms q(2)] q(1) by metis
    show "\<exists>x. find_node_at_index_in_path ps p ix = Inr x"
      using find_node_at_index_trail [OF assms q(2)] q(1) by (metis (no_types))
  qed
  show "safe (find_node_in_path ps p b) (\<lambda>_. True)" "safe (find_node_at_index_in_path ps p ix) (\<lambda>_. True)"
    using out inr by (cases "0 \<le> p \<and> p < int (length ps)"; force)+
qed

lemma next_tail_ends:
  assumes "wf_paths ps" shows "safe (next_tail ps nodes mode start b) (\<lambda>_. True)"
proof -
  have path: "safe (next_on_path ps start b) (\<lambda>_. True)" for b
    using find_walks [OF assms] by (auto simp: next_on_path_def split: list.split option.split intro!: safe_step)
  have after: "safe (node_after b k xs) (\<lambda>_. True)" for b k xs
    by (induction b k xs rule: node_after.induct) (auto split: list.split)
  have looped: "safe (next_on_looped ps start b) (\<lambda>_. True)" for b
    using after by (auto simp: next_on_looped_def at_int_def split: list.split)
  show ?thesis using path looped by (cases mode) (auto simp: next_tail_def at_int_def)
qed

lemma find_tail_finds:
  assumes "wf_paths ps"
  shows "0 \<le> count \<Longrightarrow> count \<le> 1000 \<Longrightarrow> 1001 \<le> int k + count \<Longrightarrow> safe (find_tail k ps nodes mode start count b)
    (\<lambda>(count', r). 0 \<le> count' \<and> count' \<le> 1000 \<and> (\<forall>x. r = Some x \<longrightarrow> x \<noteq> 0 \<and> 0 \<le> x \<and> x < int (length nodes) \<and>
      shares_paths (fst mode) start (nodes ! nat x)))"
proof (induction k arbitrary: count b)
  case (Suc k)
  show ?case unfolding find_tail.simps
  proof (rule safe_step [OF next_tail_ends [OF assms]])
    fix x :: int
    have "safe (find_tail k ps nodes mode start (count + 1) x)
      (\<lambda>(count', r). 0 \<le> count' \<and> count' \<le> 1000 \<and> (\<forall>x. r = Some x \<longrightarrow> x \<noteq> 0 \<and> 0 \<le> x \<and> x < int (length nodes) \<and>
        shares_paths (fst mode) start (nodes ! nat x)))" if "\<not> 1000 < count + 1"
      by (rule Suc.IH) (use Suc.prems that in auto)
    then show "safe (if x = 0 then Inr (count, None)
       else bindE (at_int nodes x) (\<lambda>node.
         if 1000 < count + 1 then Inl (Exit 1)
         else if shares_paths (fst mode) start node then Inr (count + 1, Some x)
         else find_tail k ps nodes mode start (count + 1) x))
      (\<lambda>(count', r). 0 \<le> count' \<and> count' \<le> 1000 \<and> (\<forall>x. r = Some x \<longrightarrow> x \<noteq> 0 \<and> 0 \<le> x \<and> x < int (length nodes) \<and>
        shares_paths (fst mode) start (nodes ! nat x)))"
      using Suc.prems by (cases "0 \<le> x \<and> x < int (length nodes)") (auto simp: at_int_def)
  qed
qed simp

text \<open>A node as it was, or with a tail that all its paths go through.\<close>

definition tailed :: "control_flow_node_s list \<Rightarrow> control_flow_node_s \<Rightarrow> control_flow_node_s \<Rightarrow> bool" where
  "tailed nodes a b \<longleftrightarrow> b = a \<or> (\<exists>x s f g. x \<noteq> 0 \<and> 0 \<le> x \<and> x < int (length nodes) \<and> b = a\<lparr>if_tail := x\<rparr> \<and>
     tail_mode a = Inr (s, f, g) \<and> 2 \<le> length (link_next a) \<and>
     (if s then set (looped_path a) \<subseteq> set (looped_path (nodes ! nat x)) else set (node_path a) \<subseteq> set (node_path (nodes ! nat x))))"

lemma tailedI:
  assumes "x \<noteq> 0" "0 \<le> x" "x < int (length nodes)" "tail_mode a = Inr (s, f, g)" "2 \<le> length (link_next a)"
    and "if s then set (looped_path a) \<subseteq> set (looped_path (nodes ! nat x)) else set (node_path a) \<subseteq> set (node_path (nodes ! nat x))"
  shows "tailed nodes a (a\<lparr>if_tail := x\<rparr>)"
  using assms unfolding tailed_def by blast

lemma shares_subset: "shares_paths s a b \<Longrightarrow>
    if s then set (looped_path a) \<subseteq> set (looped_path b) else set (node_path a) \<subseteq> set (node_path b)"
  using subset_from_is by (auto simp: shares_paths_def split: if_splits)

text \<open>The path lists, which the tails are found by, stay as they are.\<close>

definition path_lists :: "control_flow_node_s list \<Rightarrow> (int list \<times> int list) list" where
  "path_lists nodes = map (\<lambda>n. (node_path n, looped_path n)) nodes"

lemma path_lists_tail [simp]:
  "n < length nodes \<Longrightarrow> path_lists (nodes[n := (nodes ! n)\<lparr>if_tail := x\<rparr>]) = path_lists nodes"
  by (auto simp: path_lists_def map_update intro!: nth_equalityI simp: nth_list_update)

lemma path_listsD:
  assumes "path_lists a = path_lists b"
  shows "length a = length b" "i < length a \<Longrightarrow> node_path (a ! i) = node_path (b ! i)"
    "i < length a \<Longrightarrow> looped_path (a ! i) = looped_path (b ! i)"
proof -
  show len: "length a = length b" using assms by (metis path_lists_def length_map)
  assume "i < length a"
  moreover have "path_lists a ! i = path_lists b ! i" by (simp only: assms)
  ultimately have "(node_path (a ! i), looped_path (a ! i)) = (node_path (b ! i), looped_path (b ! i))"
    using len by (simp add: path_lists_def)
  then show "node_path (a ! i) = node_path (b ! i)" "looped_path (a ! i) = looped_path (b ! i)" by simp_all
qed

lemma tailed_mono:
  assumes e: "path_lists a = path_lists b" and t: "tailed a x y" shows "tailed b x y"
proof (cases "y = x")
  case False
  then obtain i s f g where i: "i \<noteq> 0" "0 \<le> i" "i < int (length a)" "y = x\<lparr>if_tail := i\<rparr>" "tail_mode x = Inr (s, f, g)"
    "2 \<le> length (link_next x)"
    "if s then set (looped_path x) \<subseteq> set (looped_path (a ! nat i)) else set (node_path x) \<subseteq> set (node_path (a ! nat i))"
    using t unfolding tailed_def by blast
  have "nat i < length a" using i by linarith
  note same = path_listsD(1) [OF e] path_listsD(2,3) [OF e this]
  show ?thesis unfolding i(4) by (rule tailedI [OF i(1,2) _ i(5,6)]) (use i same in auto)
qed (simp add: tailed_def)

lemma if_tail_of_tails:
  assumes "\<And>e. e \<in> set eps \<Longrightarrow> wf_paths (eep_paths e)" "0 \<le> count" "count \<le> 1000"
  shows "safe (if_tail_of eps nodes n count) (\<lambda>(count', nodes'). 0 \<le> count' \<and> count' \<le> 1000 \<and>
    path_lists nodes' = path_lists nodes \<and> pass_over (\<lambda>_. tailed nodes) [n] nodes nodes')"
proof (cases "n < length nodes")
  case n: True
  let ?s = "nodes ! n"
  have same: "pass_over (\<lambda>_. tailed nodes) [n] nodes nodes" by (simp add: pass_over_def tailed_def)
  have tail: "safe (bindE (find_tail 1001 ps nodes mode ?s count (int n)) (\<lambda>(count, r).
       Inr (count, case r of None \<Rightarrow> nodes | Some x \<Rightarrow> nodes[n := ?s\<lparr>if_tail := x\<rparr>])))
      (\<lambda>(count', nodes'). 0 \<le> count' \<and> count' \<le> 1000 \<and>
        path_lists nodes' = path_lists nodes \<and> pass_over (\<lambda>_. tailed nodes) [n] nodes nodes')"
    if wf: "wf_paths ps" and m: "tail_mode ?s = Inr mode" "\<not> length (link_next ?s) < 2" for ps mode
  proof -
    have f: "safe (find_tail 1001 ps nodes mode ?s count (int n)) (\<lambda>(count', r). 0 \<le> count' \<and> count' \<le> 1000 \<and>
      (\<forall>x. r = Some x \<longrightarrow> x \<noteq> 0 \<and> 0 \<le> x \<and> x < int (length nodes) \<and> shares_paths (fst mode) ?s (nodes ! nat x)))"
      by (rule find_tail_finds [OF wf assms(2,3)]) (use assms(2) in simp)
    show ?thesis
    proof (rule safe_step [OF f], clarify)
    fix count' r assume c: "0 \<le> count'" "count' \<le> 1000" and r: "\<forall>x. r = Some x \<longrightarrow> x \<noteq> 0 \<and> 0 \<le> x \<and> x < int (length nodes) \<and>
        shares_paths (fst mode) ?s (nodes ! nat x)"
    have "pass_over (\<lambda>_. tailed nodes) [n] nodes (nodes[n := ?s\<lparr>if_tail := x\<rparr>])" if x: "r = Some x" for x
    proof -
      obtain s f g where mode: "mode = (s, f, g)" by (cases mode)
      have "shares_paths s ?s (nodes ! nat x)" using r x mode by simp
      note sub = shares_subset [OF this]
      have "tailed nodes ?s (?s\<lparr>if_tail := x\<rparr>)"
        by (rule tailedI [OF _ _ _ _ _ sub]) (use r x m mode in auto)
      then show ?thesis using n by (simp add: pass_over_def nth_list_update)
    qed
    then show "safe (Inr (count', case r of None \<Rightarrow> nodes | Some x \<Rightarrow> nodes[n := ?s\<lparr>if_tail := x\<rparr>]))
      (\<lambda>(count', nodes'). 0 \<le> count' \<and> count' \<le> 1000 \<and>
        path_lists nodes' = path_lists nodes \<and> pass_over (\<lambda>_. tailed nodes) [n] nodes nodes')"
      using c n same by (cases r) simp_all
    qed
  qed
  show ?thesis
  proof (cases "node_valid ?s = 0 \<or> \<not> (0 \<le> entry_point_of ?s - 1 \<and> entry_point_of ?s - 1 < int (length eps)) \<or>
      length (link_next ?s) < 2")
    case True
    then show ?thesis using n same assms(2,3) by (auto simp: if_tail_of_def at_int_def)
  next
    case False
    let ?ep = "eps ! nat (entry_point_of ?s - 1)"
    have run: "if_tail_of eps nodes n count = bindE (tail_mode ?s) (\<lambda>mode.
        bindE (find_tail 1001 (eep_paths ?ep) nodes mode ?s count (int n)) (\<lambda>(count, r).
          Inr (count, case r of None \<Rightarrow> nodes | Some x \<Rightarrow> nodes[n := ?s\<lparr>if_tail := x\<rparr>])))"
      using False n by (simp add: if_tail_of_def at_int_def)
    have "?ep \<in> set eps" using False by auto
    then have wf: "wf_paths (eep_paths ?ep)" by (rule assms(1))
    show ?thesis
    proof (cases "tail_mode ?s")
      case (Inl e)
      then show ?thesis unfolding run by (auto simp: tail_mode_def Let_def split: if_splits)
    next
      case (Inr mode)
      then show ?thesis unfolding run using tail [OF wf Inr] False by simp
    qed
  qed
qed (simp add: if_tail_of_def)

lemma if_tails_tails:
  assumes "\<And>e. e \<in> set eps \<Longrightarrow> wf_paths (eep_paths e)"
  shows "distinct ns \<Longrightarrow> 0 \<le> count \<Longrightarrow> count \<le> 1000 \<Longrightarrow> safe (if_tails eps ns count nodes)
    (\<lambda>nodes'. path_lists nodes' = path_lists nodes \<and> pass_over (\<lambda>_. tailed nodes) ns nodes nodes')"
proof (induction ns arbitrary: count nodes)
  case Nil
  then show ?case by (simp add: pass_over_def)
next
  case (Cons n ns)
  have run: "if_tails eps (n # ns) count nodes =
      bindE (if_tail_of eps nodes n count) (\<lambda>(count, nodes). if_tails eps ns count nodes)" by simp
  show ?case unfolding run
  proof (rule safe_step [OF if_tail_of_tails [OF assms Cons.prems(2,3)]], simp, clarify)
    fix count' :: int and nodes1 assume c: "0 \<le> count'" "count' \<le> 1000" and l: "path_lists nodes1 = path_lists nodes"
      and one: "pass_over (\<lambda>_. tailed nodes) [n] nodes nodes1"
    have len: "length nodes1 = length nodes" by (rule pass_overD(1) [OF one])
    have "safe (if_tails eps ns count' nodes1)
      (\<lambda>nodes'. path_lists nodes' = path_lists nodes1 \<and> pass_over (\<lambda>_. tailed nodes1) ns nodes1 nodes')"
      by (rule Cons.IH) (use Cons.prems(1) c in auto)
    then show "safe (if_tails eps ns count' nodes1)
      (\<lambda>nodes'. path_lists nodes' = path_lists nodes \<and> pass_over (\<lambda>_. tailed nodes) (n # ns) nodes nodes')"
    proof (rule safe_mono, elim conjE, intro conjI)
      fix nodes' assume l': "path_lists nodes' = path_lists nodes1" and p: "pass_over (\<lambda>_. tailed nodes1) ns nodes1 nodes'"
      show "path_lists nodes' = path_lists nodes" using l l' by simp
      show "pass_over (\<lambda>_. tailed nodes) (n # ns) nodes nodes'"
        unfolding pass_over_def
      proof (intro conjI allI impI)
        show "length nodes' = length nodes" using pass_overD(1) [OF p] len by simp
        fix i assume i: "i < length nodes"
        have out: "nodes1 ! i = nodes ! i" if "i \<noteq> n" using pass_overD(3) [OF one i] that by simp
        have n: "n \<notin> set ns" using Cons.prems(1) by simp
        show "tailed nodes (nodes ! i) (nodes' ! i)" if "i \<in> set (n # ns)"
        proof (cases "i = n")
          case True
          then show ?thesis using pass_overD(2) [OF one i] pass_overD(3) [OF p, of i] i len n by simp
        next
          case False
          then have "tailed nodes1 (nodes1 ! i) (nodes' ! i)" using pass_overD(2) [OF p, of i] i len that by simp
          then show ?thesis using tailed_mono [OF l] out [OF False] by simp
        qed
        show "nodes' ! i = nodes ! i" if "i \<notin> set (n # ns)"
          using pass_overD(3) [OF p, of i] out i len that by simp
      qed
    qed
  qed
qed

text \<open>
  C23. build_node_if_tail ends and changes the tails only; the tail it gives a branch is a
  node of the table that all paths of the branch, or all its loop paths, go through.
\<close>
theorem build_node_if_tail_shares:
  assumes "\<And>e. e \<in> set eps \<Longrightarrow> wf_paths (eep_paths e)"
  shows "safe (build_node_if_tail eps nodes nodes_size) (pass_over (\<lambda>_. tailed nodes) [1 ..< nat nodes_size] nodes)"
  unfolding build_node_if_tail_def
  by (rule safe_mono [OF if_tails_tails [OF assms]]) simp_all

end
