(* ===== verification/Merge.thy ===== *)
theory Merge
  imports Loops NodeGraph
begin

text \<open>
  \<open>src/analyse/analyse.c\<close>, \<open>build_control_flow_depth\<close>, \<open>analyse_multi_ret\<close>, \<open>compare_inst\<close> and
  \<open>analyse_merge_nodes\<close>: the depth of the nodes along the paths, the ends of a function, and
  the merging of two nodes with a common tail of instructions. Shown are that a node is at least
  as deep as each of its places on the paths, that the ends are those of the used paths, and that
  the tail found is the longest one whose instructions compare equal.
\<close>

section \<open>The depth of the nodes\<close>

text \<open>
  Along a path the depth goes up by one from node to node, but a node that has a greater depth
  from an earlier path keeps it.
\<close>

fun walk_depth :: "int \<Rightarrow> nat \<Rightarrow> int list \<Rightarrow> control_flow_node_s list \<Rightarrow> control_flow_node_s list c" where
  "walk_depth d 0 xs nodes = Inr nodes"
| "walk_depth d (Suc k) [] nodes = Inl OutOfBounds"
| "walk_depth d (Suc k) (x # xs) nodes =
     bindE (at_int nodes x) (\<lambda>node.
       if depth node < d then walk_depth (d + 1) k xs (nodes[nat x := node\<lparr>depth := d\<rparr>])
       else walk_depth (depth node + 1) k xs nodes)"

definition path_depth :: "path_s list \<Rightarrow> nat \<Rightarrow> control_flow_node_s list \<Rightarrow> control_flow_node_s list c" where
  "path_depth ps n nodes =
     bindE (at ps n) (\<lambda>r.
       if path_used r = 0 \<or> path_type r = 1 then Inr nodes
       else
         bindE (if n = 0 then Inr 1
                else bindE (node_at ps (path_prev r, path_prev_index r)) (\<lambda>x.
                     bindE (at_int nodes x) (\<lambda>node. Inr (depth node + 1)))) (\<lambda>d.
           walk_depth d (nat (path_size r)) (path r) nodes))"

fun path_depths :: "path_s list \<Rightarrow> nat list \<Rightarrow> control_flow_node_s list \<Rightarrow> control_flow_node_s list c" where
  "path_depths ps [] nodes = Inr nodes"
| "path_depths ps (n # ns) nodes = bindE (path_depth ps n nodes) (path_depths ps ns)"

definition build_control_flow_depth :: "control_flow_node_s list \<Rightarrow> path_s list \<Rightarrow> int \<Rightarrow> control_flow_node_s list c" where
  "build_control_flow_depth nodes ps paths_size =
     bindE (node_at ps (0, 0)) (\<lambda>x.
     bindE (at_int nodes x) (\<lambda>node.
       path_depths ps [0 ..< nat paths_size] (nodes[nat x := node\<lparr>depth := 1\<rparr>])))"

section \<open>Several ends\<close>

text \<open>
  The first end seen, and the other ones in the order they are seen, for the used paths that
  are no loops.
\<close>

fun path_ends :: "path_s list \<Rightarrow> nat list \<Rightarrow> int \<Rightarrow> int list \<Rightarrow> (int \<times> int list) c" where
  "path_ends ps [] first rets = Inr (first, rets)"
| "path_ends ps (n # ns) first rets =
     bindE (at ps n) (\<lambda>r.
       if path_used r = 1 \<and> path_loop_head r = 0 then
         bindE (node_at ps (int n, path_size r - 1)) (\<lambda>x.
           if first = 0 then path_ends ps ns x rets
           else if x \<noteq> first \<and> x \<notin> set rets then path_ends ps ns first (rets @ [x])
           else path_ends ps ns first rets)
       else path_ends ps ns first rets)"

definition analyse_multi_ret :: "path_s list \<Rightarrow> int \<Rightarrow> int list c" where
  "analyse_multi_ret ps paths_size =
     bindE (path_ends ps [0 ..< nat paths_size] 0 []) (\<lambda>(first, rets).
       Inr (if rets = [] then [] else rets @ [first]))"

section \<open>Merging two nodes\<close>

definition same_operand :: "operand_s \<Rightarrow> operand_s \<Rightarrow> bool" where
  "same_operand a b \<longleftrightarrow> store a = store b \<and> relocated a = relocated b \<and> indirect a = indirect b \<and>
     indirect_size a = indirect_size b \<and> index a = index b \<and> value_size a = value_size b"

definition compare_inst :: "inst_log_entry_s list \<Rightarrow> int \<Rightarrow> int \<Rightarrow> int c" where
  "compare_inst log a b =
     bindE (at_int log a) (\<lambda>x. bindE (at_int log b) (\<lambda>y.
       let i = instruction x; j = instruction y in
       Inr (if opcode i = opcode j \<and> flags i = flags j \<and> same_operand (srcA i) (srcA j) \<and>
               same_operand (dstA i) (dstA j) then 1 else 0)))"

text \<open>The last instruction before the common tail, or the one before the first of the node.\<close>

fun common_tail :: "nat \<Rightarrow> inst_log_entry_s list \<Rightarrow> int \<Rightarrow> int \<Rightarrow> int c" where
  "common_tail 0 log offset n = Inr n"
| "common_tail (Suc k) log offset n =
     bindE (compare_inst log n (n + offset)) (\<lambda>r.
       if r = 0 then Inr n else common_tail k log offset (n - 1))"

text \<open>The predecessors of \<open>b\<close> become those of \<open>a\<close>, and their links lead to \<open>a\<close>.\<close>

definition move_pred :: "int \<Rightarrow> int \<times> int \<Rightarrow> control_flow_node_s list \<Rightarrow> control_flow_node_s list c" where
  "move_pred a pred nodes =
     bindE (at_int nodes a) (\<lambda>node_a.
     let nodes = nodes[nat a := node_a\<lparr>prev_node := prev_node node_a @ [fst pred],
           prev_link_index := prev_link_index node_a @ [snd pred]\<rparr>] in
     bindE (at_int nodes (fst pred)) (\<lambda>p.
     bindE (at_int (link_next p) (snd pred)) (\<lambda>l.
       Inr (nodes[nat (fst pred) := p\<lparr>link_next := (link_next p)[nat (snd pred) := l\<lparr>link_node := a\<rparr>]\<rparr>]))))"

fun move_preds :: "int \<Rightarrow> (int \<times> int) list \<Rightarrow> control_flow_node_s list \<Rightarrow> control_flow_node_s list c" where
  "move_preds a [] nodes = Inr nodes"
| "move_preds a (p # ps) nodes = bindE (move_pred a p nodes) (move_preds a ps)"

text \<open>
  Both nodes are equal: \<open>b\<close> is no longer used. Its links are freed, but their number and the
  pointer stay, which the model keeps as the old list.
\<close>

definition merge_equal :: "int \<Rightarrow> int \<Rightarrow> int \<Rightarrow> control_flow_node_s list \<Rightarrow> control_flow_node_s list c" where
  "merge_equal a b last_b nodes =
     bindE (at_int nodes b) (\<lambda>node_b.
     bindE (move_preds a (zip (prev_node node_b) (prev_link_index node_b)) nodes) (\<lambda>nodes.
     bindE (at_int nodes b) (\<lambda>node_b.
       Inr (nodes[nat b := node_b\<lparr>inst_end := last_b, prev_node := [], prev_link_index := [], node_valid := 0\<rparr>]))))"

text \<open>The whole of \<open>a\<close> is the tail of \<open>b\<close>: \<open>b\<close> is cut and leads to \<open>a\<close>.\<close>

definition merge_into :: "int \<Rightarrow> int \<Rightarrow> int \<Rightarrow> control_flow_node_s list \<times> inst_log_entry_s list \<Rightarrow>
    (control_flow_node_s list \<times> inst_log_entry_s list) c" where
  "merge_into a b last_b s =
     (case s of (nodes, log) \<Rightarrow>
        bindE (at_int nodes a) (\<lambda>node_a.
        let nodes = nodes[nat a := node_a\<lparr>prev_node := prev_node node_a @ [b], prev_link_index := prev_link_index node_a @ [0]\<rparr>] in
        bindE (at_int nodes b) (\<lambda>node_b.
        bindE (at_int log last_b) (\<lambda>e.
          Inr (nodes[nat b := node_b\<lparr>inst_end := last_b, link_next := [new_link a]\<rparr>],
               log[nat last_b := e\<lparr>node_end := 1\<rparr>])))))"

text \<open>
  A common tail of both: it becomes a new node at the end of the table. The other fields of the
  new node are what \<open>realloc\<close> left there (\<open>fresh\<close>).
\<close>

definition merge_tails :: "control_flow_node_s \<Rightarrow> int \<Rightarrow> int \<Rightarrow> int \<Rightarrow> int \<Rightarrow> control_flow_node_s list \<Rightarrow> control_flow_node_s list c" where
  "merge_tails fresh a b start last_b nodes =
     (let k = int (length nodes) in
      bindE (at_int nodes a) (\<lambda>node_a.
      let nodes = nodes[nat a := node_a\<lparr>inst_end := start - 1, link_next := [new_link k]\<rparr>] in
      bindE (at_int nodes b) (\<lambda>node_b.
        Inr (nodes[nat b := node_b\<lparr>inst_end := last_b, link_next := [new_link k]\<rparr>] @
          [fresh\<lparr>inst_start := start, inst_end := inst_end node_a, prev_node := [a, b], prev_link_index := [0, 0],
            node_valid := 1\<rparr>]))))"

text \<open>
  The node \<open>a\<close> has no more instructions than \<open>b\<close>; \<open>x\<close> and \<open>y\<close> are the two nodes. The result is 0
  when the nodes have no common tail.
\<close>

definition merge_sorted :: "control_flow_node_s \<Rightarrow> int \<times> control_flow_node_s \<Rightarrow> int \<times> control_flow_node_s \<Rightarrow>
    control_flow_node_s list \<Rightarrow> inst_log_entry_s list \<Rightarrow> (int \<times> control_flow_node_s list \<times> inst_log_entry_s list) c" where
  "merge_sorted fresh ax bx nodes log =
     (case ax of (a, x) \<Rightarrow> case bx of (b, y) \<Rightarrow>
        let offset = inst_end y - inst_end x in
        bindE (common_tail (nat (inst_end x - inst_start x + 1)) log offset (inst_end x)) (\<lambda>n.
          let start = n + 1 in
          if n = inst_end x then Inr (0, nodes, log)
          else if start = inst_start x then
            (if inst_end x - inst_start x = inst_end y - inst_start y
             then bindE (merge_equal a b (start + offset - 1) nodes) (\<lambda>nodes. Inr (1, nodes, log))
             else bindE (merge_into a b (start + offset - 1) (nodes, log)) (\<lambda>s. Inr (1, s)))
          else bindE (merge_tails fresh a b start (start + offset - 1) nodes) (\<lambda>nodes. Inr (1, nodes, log))))"

definition analyse_merge_nodes :: "control_flow_node_s \<Rightarrow> int \<Rightarrow> int \<Rightarrow> control_flow_node_s list \<Rightarrow> inst_log_entry_s list \<Rightarrow>
    (int \<times> control_flow_node_s list \<times> inst_log_entry_s list) c" where
  "analyse_merge_nodes fresh a b nodes log =
     bindE (at_int nodes a) (\<lambda>x.
     bindE (at_int nodes b) (\<lambda>y.
       if inst_end y - inst_start y < inst_end x - inst_start x
       then merge_sorted fresh (b, y) (a, x) nodes log
       else merge_sorted fresh (a, x) (b, y) nodes log))"

section \<open>Depths only grow\<close>

definition deeper :: "control_flow_node_s list \<Rightarrow> control_flow_node_s list \<Rightarrow> bool" where
  "deeper a b \<longleftrightarrow> length b = length a \<and> (\<forall>i < length a. depth (a ! i) \<le> depth (b ! i))"

lemma deeper_refl: "deeper a a"
  by (simp add: deeper_def)

lemma deeper_trans: "deeper a b \<Longrightarrow> deeper b c \<Longrightarrow> deeper a c"
  by (force simp: deeper_def)

lemma deeper_update: "n < length a \<Longrightarrow> depth (a ! n) \<le> d \<Longrightarrow> deeper a (a[n := (a ! n)\<lparr>depth := d\<rparr>])"
  by (auto simp: deeper_def nth_list_update)

text \<open>After the walk, the node at position \<open>i\<close> has at least the depth \<open>d + i\<close>.\<close>

definition deep_path :: "control_flow_node_s list \<Rightarrow> int \<Rightarrow> int list \<Rightarrow> bool" where
  "deep_path nodes d xs \<longleftrightarrow> (\<forall>i < length xs. 0 \<le> xs ! i \<and> xs ! i < int (length nodes) \<and> d + int i \<le> depth (nodes ! nat (xs ! i)))"

lemma deep_path_deeper: "deep_path a d xs \<Longrightarrow> deeper a b \<Longrightarrow> deep_path b d xs"
  unfolding deep_path_def
proof (intro allI impI)
  fix i assume d: "\<forall>i < length xs. 0 \<le> xs ! i \<and> xs ! i < int (length a) \<and> d + int i \<le> depth (a ! nat (xs ! i))"
    and ab: "deeper a b" and i: "i < length xs"
  have x: "0 \<le> xs ! i" "xs ! i < int (length a)" "d + int i \<le> depth (a ! nat (xs ! i))" using d i by auto
  then have "nat (xs ! i) < length a" by linarith
  then have "depth (a ! nat (xs ! i)) \<le> depth (b ! nat (xs ! i))" "length b = length a" using ab by (auto simp: deeper_def)
  then show "0 \<le> xs ! i \<and> xs ! i < int (length b) \<and> d + int i \<le> depth (b ! nat (xs ! i))" using x by simp
qed

lemma deep_path_Cons:
  assumes "0 \<le> x" "x < int (length nodes)" "d \<le> depth (nodes ! nat x)" "deep_path nodes e xs" "d + 1 \<le> e"
  shows "deep_path nodes d (x # xs)"
  unfolding deep_path_def
proof (intro allI impI)
  fix i assume "i < length (x # xs)"
  then show "0 \<le> (x # xs) ! i \<and> (x # xs) ! i < int (length nodes) \<and> d + int i \<le> depth (nodes ! nat ((x # xs) ! i))"
    using assms by (cases i) (force simp: deep_path_def)+
qed

lemma walk_depth_deep:
  "yields (walk_depth d k xs nodes) (\<lambda>nodes'. deeper nodes nodes' \<and> k \<le> length xs \<and> deep_path nodes' d (take k xs))"
proof (induction d k xs nodes rule: walk_depth.induct)
  case (1 d xs nodes)
  then show ?case by (simp add: deeper_refl deep_path_def)
next
  case (3 d k x xs nodes)
  show ?case
  proof (cases "0 \<le> x \<and> x < int (length nodes)")
    case True
    let ?node = "nodes ! nat x"
    have x: "at_int nodes x = Inr ?node" "nat x < length nodes" using True by (auto simp: at_int_def)
    show ?thesis
    proof (cases "depth ?node < d")
      case less: True
      let ?nodes = "nodes[nat x := ?node\<lparr>depth := d\<rparr>]"
      have up: "deeper nodes ?nodes" "depth (?nodes ! nat x) = d" using x(2) less by (simp_all add: deeper_update)
      have "yields (walk_depth (d + 1) k xs ?nodes) (\<lambda>nodes'. deeper ?nodes nodes' \<and> k \<le> length xs \<and> deep_path nodes' (d + 1) (take k xs))"
        by (rule "3.IH"(1) [OF x(1) less])
      then show ?thesis using x less
      proof (simp, elim yields_mono, elim conjE, intro conjI)
        fix nodes' assume s: "deeper ?nodes nodes'" "deep_path nodes' (d + 1) (take k xs)"
        show "deeper nodes nodes'" by (rule deeper_trans [OF up(1) s(1)])
        show "deep_path nodes' d (x # take k xs)"
          by (rule deep_path_Cons [OF _ _ _ s(2)]) (use True s(1) up x in \<open>auto simp: deeper_def\<close>)
      qed
    next
      case more: False
      have "yields (walk_depth (depth ?node + 1) k xs nodes)
          (\<lambda>nodes'. deeper nodes nodes' \<and> k \<le> length xs \<and> deep_path nodes' (depth ?node + 1) (take k xs))"
        by (rule "3.IH"(2) [OF x(1) more])
      then show ?thesis using x more
      proof (simp, elim yields_mono, elim conjE, intro conjI)
        fix nodes' assume s: "deeper nodes nodes'" "deep_path nodes' (depth ?node + 1) (take k xs)"
        have "depth ?node \<le> depth (nodes' ! nat x)" using s(1) x(2) by (simp add: deeper_def)
        then show "deep_path nodes' d (x # take k xs)"
          by (intro deep_path_Cons [OF _ _ _ s(2)]) (use True s(1) more in \<open>auto simp: deeper_def\<close>)
      qed
    qed
  next
    case False
    then have "at_int nodes x = Inl OutOfBounds" by (simp add: at_int_def)
    then show ?thesis by simp
  qed
qed simp

text \<open>The nodes of the used paths without a loop, at their positions.\<close>

definition deep :: "path_s list \<Rightarrow> nat set \<Rightarrow> control_flow_node_s list \<Rightarrow> bool" where
  "deep ps A nodes \<longleftrightarrow> (\<forall>n \<in> A. path_used (ps ! n) \<noteq> 0 \<and> path_type (ps ! n) \<noteq> 1 \<longrightarrow>
     deep_path nodes 1 (take (nat (path_size (ps ! n))) (path (ps ! n))))"

lemma path_depth_deep:
  assumes "deeper a b" "list_all (\<lambda>n. 0 \<le> depth n) a"
  shows "yields (path_depth ps n b) (\<lambda>c. deeper b c \<and> deep ps {n} c)"
proof (cases "n < length ps \<and> path_used (ps ! n) \<noteq> 0 \<and> path_type (ps ! n) \<noteq> 1")
  case True
  let ?xs = "take (nat (path_size (ps ! n))) (path (ps ! n))"
  have pos: "0 \<le> depth (b ! i)" if "i < length b" for i using assms that by (force simp: deeper_def list_all_length)
  have walk: "yields (walk_depth d (nat (path_size (ps ! n))) (path (ps ! n)) b) (\<lambda>c. deeper b c \<and> deep ps {n} c)" if d: "1 \<le> d" for d
  proof (rule yields_mono [OF walk_depth_deep])
    fix c assume c: "deeper b c \<and> nat (path_size (ps ! n)) \<le> length (path (ps ! n)) \<and> deep_path c d ?xs"
    then have "deep_path c 1 ?xs" using d unfolding deep_path_def by (meson add_right_mono order_trans)
    then show "deeper b c \<and> deep ps {n} c" using c by (simp add: deep_def)
  qed
  have start: "yields (if n = 0 then Inr 1 else bindE (node_at ps (path_prev (ps ! n), path_prev_index (ps ! n)))
      (\<lambda>x. bindE (at_int b x) (\<lambda>node. Inr (depth node + 1)))) (\<lambda>d. 1 \<le> d)"
  proof (cases "n = 0")
    case False
    have "yields (bindE (at_int b x) (\<lambda>node. Inr (depth node + 1))) (\<lambda>d. 1 \<le> d)" for x
      using pos [of "nat x"] by (auto simp: at_int_def)
    then show ?thesis using False by (simp add: bind_yields)
  qed simp
  have "path_depth ps n b = bindE (if n = 0 then Inr 1 else bindE (node_at ps (path_prev (ps ! n), path_prev_index (ps ! n)))
      (\<lambda>x. bindE (at_int b x) (\<lambda>node. Inr (depth node + 1))))
      (\<lambda>d. walk_depth d (nat (path_size (ps ! n))) (path (ps ! n)) b)"
    using True by (simp add: path_depth_def)
  then show ?thesis by (simp only:, intro yields_bind yields_mono [OF start] walk)
next
  case False
  then show ?thesis by (auto simp: path_depth_def deeper_refl deep_def at_def)
qed

lemma path_depths_deep:
  assumes "list_all (\<lambda>n. 0 \<le> depth n) a"
  shows "deeper a b \<Longrightarrow> yields (path_depths ps ns b) (\<lambda>c. deeper b c \<and> deep ps (set ns) c)"
proof (induction ns arbitrary: b)
  case Nil
  then show ?case by (simp add: deeper_refl deep_def)
next
  case (Cons n ns)
  show ?case unfolding path_depths.simps
  proof (rule yields_bind, rule yields_mono [OF path_depth_deep [OF Cons.prems assms]])
    fix c assume c: "deeper b c \<and> deep ps {n} c"
    then have "yields (path_depths ps ns c) (\<lambda>d. deeper c d \<and> deep ps (set ns) d)"
      by (intro Cons.IH deeper_trans [OF Cons.prems]) simp
    then show "yields (path_depths ps ns c) (\<lambda>d. deeper b d \<and> deep ps (set (n # ns)) d)"
      by (rule yields_mono) (use c in \<open>auto simp: deep_def intro: deeper_trans deep_path_deeper\<close>)
  qed
qed

text \<open>A node is at least as deep as its place on every used path that is no loop.\<close>

lemma depth_of_position:
  assumes "list_all (\<lambda>n. depth n = 0) nodes" "build_control_flow_depth nodes ps paths_size = Inr nodes'"
    and "n < nat paths_size" "path_used (ps ! n) \<noteq> 0" "path_type (ps ! n) \<noteq> 1" "i < nat (path_size (ps ! n))" "i < length (path (ps ! n))"
  shows "1 + int i \<le> depth (nodes' ! nat (path (ps ! n) ! i))"
proof -
  obtain x where x: "node_at ps (0, 0) = Inr x" "0 \<le> x" "x < int (length nodes)"
    "path_depths ps [0 ..< nat paths_size] (nodes[nat x := (nodes ! nat x)\<lparr>depth := 1\<rparr>]) = Inr nodes'"
    using assms(2) by (auto simp: build_control_flow_depth_def bindE_Inr_iff at_int_Inr_iff)
  have n: "list_all (\<lambda>n. 0 \<le> depth n) nodes" using assms(1) by (simp add: list_all_length)
  have "deeper nodes (nodes[nat x := (nodes ! nat x)\<lparr>depth := 1\<rparr>])"
    by (rule deeper_update) (use x assms(1) in \<open>auto simp: list_all_length nat_less_iff\<close>)
  from yieldsD [OF path_depths_deep [OF n this] x(4)]
  have "deep_path nodes' 1 (take (nat (path_size (ps ! n))) (path (ps ! n)))" using assms(3-5) by (simp add: deep_def)
  then show ?thesis using assms(6,7) by (simp add: deep_path_def)
qed

section \<open>The ends of a function\<close>

definition ends_of :: "path_s list \<Rightarrow> nat list \<Rightarrow> int list" where
  "ends_of ps ns = map (\<lambda>n. path (ps ! n) ! nat (path_size (ps ! n) - 1))
     (filter (\<lambda>n. path_used (ps ! n) = 1 \<and> path_loop_head (ps ! n) = 0) ns)"

lemma path_ends_collects:
  "path_ends ps ns first rets = Inr (first', rets') \<Longrightarrow> 0 \<notin> set (ends_of ps ns) \<Longrightarrow> (first = 0 \<longrightarrow> rets = []) \<Longrightarrow>
    distinct rets \<Longrightarrow> first \<notin> set rets \<Longrightarrow> 0 \<notin> set rets \<Longrightarrow>
    distinct rets' \<and> first' \<notin> set rets' \<and> set rets' = (set rets \<union> set (ends_of ps ns)) - {first'} \<and>
      first' = (if first = 0 then (case ends_of ps ns of [] \<Rightarrow> 0 | x # _ \<Rightarrow> x) else first)"
proof (induction ps ns first rets rule: path_ends.induct)
  case (1 ps first rets)
  then show ?case by (auto simp: ends_of_def)
next
  case (2 ps n ns first rets)
  obtain r where r: "at ps n = Inr r" "r = ps ! n" using "2.prems"(1) by (auto simp: bindE_Inr_iff at_Inr_iff)
  show ?case
  proof (cases "path_used r = 1 \<and> path_loop_head r = 0")
    case False
    then have e: "ends_of ps (n # ns) = ends_of ps ns" using r(2) by (simp add: ends_of_def)
    have run: "path_ends ps ns first rets = Inr (first', rets')" using "2.prems"(1) r(1) False by simp
    show ?thesis unfolding e by (rule "2.IH"(4) [OF r(1) False run]) (use "2.prems" e in auto)
  next
    case True
    then obtain x where x: "node_at ps (int n, path_size r - 1) = Inr x" using "2.prems"(1) r(1) by (auto simp: bindE_Inr_iff)
    then have "x = path (ps ! n) ! nat (path_size (ps ! n) - 1)" using r(2)
      by (auto simp: node_at_def bindE_Inr_iff at_int_Inr_iff)
    then have e: "ends_of ps (n # ns) = x # ends_of ps ns" using True r(2) by (simp add: ends_of_def)
    note run = "2.prems"(1) and IH = "2.IH" [OF r(1)]
    have nz: "x \<noteq> 0" "0 \<notin> set (ends_of ps ns)" using "2.prems"(2) e by auto
    consider (first) "first = 0" | (new) "first \<noteq> 0" "x \<noteq> first \<and> x \<notin> set rets" | (old) "first \<noteq> 0" "\<not> (x \<noteq> first \<and> x \<notin> set rets)" by blast
    then show ?thesis
    proof cases
      case first
      have "path_ends ps ns x rets = Inr (first', rets')" using run r(1) True x first by simp
      from "2.IH"(1) [OF r(1) True x first this] show ?thesis using "2.prems" nz first e by auto
    next
      case new
      have "path_ends ps ns first (rets @ [x]) = Inr (first', rets')" using run r(1) True x new by simp
      from "2.IH"(2) [OF r(1) True x new this] show ?thesis using "2.prems" nz new e by auto
    next
      case old
      have "path_ends ps ns first rets = Inr (first', rets')" using run r(1) True x old by auto
      from "2.IH"(3) [OF r(1) True x old this] show ?thesis using "2.prems" nz old e by auto
    qed
  qed
qed

text \<open>
  analyse_multi_ret lists, once each, the last nodes of the used paths that are no
  loops, and nothing when they are all the same node.
\<close>
theorem analyse_multi_ret_ends:
  assumes "analyse_multi_ret ps paths_size = Inr rets" "0 \<notin> set (ends_of ps [0 ..< nat paths_size])"
  shows "distinct rets \<and> set rets = (if \<exists>x. set (ends_of ps [0 ..< nat paths_size]) \<subseteq> {x} then {} else set (ends_of ps [0 ..< nat paths_size]))"
proof -
  let ?E = "ends_of ps [0 ..< nat paths_size]"
  obtain first rs where r: "path_ends ps [0 ..< nat paths_size] 0 [] = Inr (first, rs)" "rets = (if rs = [] then [] else rs @ [first])"
    using assms(1) by (auto simp: analyse_multi_ret_def bindE_Inr_iff)
  from path_ends_collects [OF r(1) assms(2)]
  have e: "distinct rs" "first \<notin> set rs" "set rs = set ?E - {first}" "first = (case ?E of [] \<Rightarrow> 0 | x # _ \<Rightarrow> x)" by auto
  show ?thesis
  proof (cases "rs = []")
    case True
    then have "set ?E \<subseteq> {first}" using e(3) by auto
    then show ?thesis using True r(2) by auto
  next
    case False
    then obtain y where "y \<in> set rs" using hd_in_set by blast
    then have y: "y \<in> set ?E" "y \<noteq> first" unfolding e(3) by simp_all
    then have f: "first \<in> set ?E" using e(4) by (cases ?E) simp_all
    have none: "\<not> (\<exists>x. set ?E \<subseteq> {x})" using f y by blast
    have rets: "rets = rs @ [first]" using False r(2) by simp
    have "set rets = set ?E" unfolding rets using e(3) f by auto
    moreover have "distinct rets" unfolding rets using e(1,2) by simp
    ultimately show ?thesis using none by (simp only: if_False simp_thms)
  qed
qed

section \<open>The common tail\<close>

lemma common_tail_maximal:
  "common_tail k log offset n = Inr r \<Longrightarrow> r \<le> n \<and> n - int k \<le> r \<and>
    (\<forall>i. r < i \<and> i \<le> n \<longrightarrow> (\<exists>c. compare_inst log i (i + offset) = Inr c \<and> c \<noteq> 0)) \<and>
    (n - int k < r \<longrightarrow> compare_inst log r (r + offset) = Inr 0)"
proof (induction k arbitrary: n)
  case (Suc k)
  obtain c where c: "compare_inst log n (n + offset) = Inr c" "(if c = 0 then Inr n else common_tail k log offset (n - 1)) = Inr r"
    using Suc.prems by (auto simp: bindE_Inr_iff)
  show ?case
  proof (cases "c = 0")
    case True
    then show ?thesis using c by auto
  next
    case False
    then have "common_tail k log offset (n - 1) = Inr r" using c(2) by simp
    note IH = Suc.IH [OF this]
    have "\<exists>c. compare_inst log i (i + offset) = Inr c \<and> c \<noteq> 0" if "r < i" "i \<le> n" for i
      using IH that c(1) False by (cases "i = n") auto
    then show ?thesis using IH by auto
  qed
qed simp

lemma compare_inst_values: "compare_inst log a b = Inr c \<Longrightarrow> c = 0 \<or> c = 1"
  by (auto simp: compare_inst_def bindE_Inr_iff Let_def)

lemma move_preds_length: "yields (move_preds a ps nodes) (\<lambda>nodes'. length nodes' = length nodes)"
proof (induction ps arbitrary: nodes)
  case (Cons p ps)
  have "yields (move_pred a p nodes) (\<lambda>nodes'. length nodes' = length nodes)"
    by (auto simp: move_pred_def yields_def bindE_Inr_iff Let_def)
  then show ?case using Cons.IH by (auto simp: yields_def bindE_Inr_iff)
qed simp

lemma merge_equal_length: "yields (merge_equal a b last_b nodes) (\<lambda>nodes'. length nodes' = length nodes)"
  using move_preds_length by (auto simp: merge_equal_def yields_def bindE_Inr_iff)

lemma merge_into_length: "yields (merge_into a b last_b (nodes, log)) (\<lambda>(nodes', _). length nodes' = length nodes)"
  by (auto simp: merge_into_def yields_def bindE_Inr_iff Let_def)

text \<open>The nodes in the order \<open>analyse_merge_nodes\<close> takes them.\<close>

lemma merge_ordered:
  assumes "analyse_merge_nodes fresh a b nodes log = Inr (r, nodes', log')"
  obtains c d n where "{c, d} = {a, b}" "0 \<le> c" "c < int (length nodes)" "0 \<le> d" "d < int (length nodes)"
    "common_tail (nat (inst_end (nodes ! nat c) - inst_start (nodes ! nat c) + 1)) log
       (inst_end (nodes ! nat d) - inst_end (nodes ! nat c)) (inst_end (nodes ! nat c)) = Inr n"
    "n = inst_end (nodes ! nat c) \<Longrightarrow> (r, nodes', log') = (0, nodes, log)"
    "n \<noteq> inst_end (nodes ! nat c) \<Longrightarrow> n + 1 = inst_start (nodes ! nat c) \<Longrightarrow> length nodes' = length nodes \<and> r = 1"
    "n \<noteq> inst_end (nodes ! nat c) \<Longrightarrow> n + 1 \<noteq> inst_start (nodes ! nat c) \<Longrightarrow>
       merge_tails fresh c d (n + 1) (n + inst_end (nodes ! nat d) - inst_end (nodes ! nat c)) nodes = Inr nodes' \<and> r = 1 \<and> log' = log"
proof -
  let ?node = "\<lambda>i. nodes ! nat i"
  have ab: "0 \<le> a" "a < int (length nodes)" "0 \<le> b" "b < int (length nodes)"
    using assms by (auto simp: analyse_merge_nodes_def bindE_Inr_iff at_int_Inr_iff)
  have "merge_sorted fresh (b, ?node b) (a, ?node a) nodes log = Inr (r, nodes', log') \<or>
      merge_sorted fresh (a, ?node a) (b, ?node b) nodes log = Inr (r, nodes', log')"
    using assms ab by (auto simp: analyse_merge_nodes_def at_int_def split: if_splits)
  then obtain c d where cd: "{c, d} = {a, b}" "0 \<le> c" "c < int (length nodes)" "0 \<le> d" "d < int (length nodes)"
      and run: "merge_sorted fresh (c, ?node c) (d, ?node d) nodes log = Inr (r, nodes', log')"
    using ab by blast
  let ?o = "inst_end (?node d) - inst_end (?node c)"
  obtain n where n: "common_tail (nat (inst_end (?node c) - inst_start (?node c) + 1)) log ?o (inst_end (?node c)) = Inr n"
      and rest: "(let start = n + 1 in
          if n = inst_end (?node c) then Inr (0, nodes, log)
          else if start = inst_start (?node c) then
            (if inst_end (?node c) - inst_start (?node c) = inst_end (?node d) - inst_start (?node d)
             then bindE (merge_equal c d (start + ?o - 1) nodes) (\<lambda>nodes. Inr (1, nodes, log))
             else bindE (merge_into c d (start + ?o - 1) (nodes, log)) (\<lambda>s. Inr (1, s)))
          else bindE (merge_tails fresh c d start (start + ?o - 1) nodes) (\<lambda>nodes. Inr (1, nodes, log))) = Inr (r, nodes', log')"
    using run unfolding merge_sorted_def Let_def prod.case bindE_Inr_iff by blast
  show ?thesis
  proof (rule that [OF cd n])
    show "(r, nodes', log') = (0, nodes, log)" if "n = inst_end (?node c)" using rest that by simp
    show "length nodes' = length nodes \<and> r = 1" if "n \<noteq> inst_end (?node c)" "n + 1 = inst_start (?node c)"
      using rest that yieldsD [OF merge_equal_length] yieldsD [OF merge_into_length]
      by (auto simp: bindE_Inr_iff Let_def split: if_splits)
    show "merge_tails fresh c d (n + 1) (n + inst_end (?node d) - inst_end (?node c)) nodes = Inr nodes' \<and> r = 1 \<and> log' = log"
      if "n \<noteq> inst_end (?node c)" "n + 1 \<noteq> inst_start (?node c)"
    proof -
      have "n + 1 + ?o - 1 = n + inst_end (?node d) - inst_end (?node c)" by simp
      from rest [unfolded Let_def this] that show ?thesis by (auto simp: bindE_Inr_iff)
    qed
  qed
qed

text \<open>
  C24. When analyse_merge_nodes makes a new node, it holds the longest common tail of the
  two nodes: its instructions compare equal, the ones before it do not, and its predecessors
  are the two nodes.
\<close>
theorem merge_makes_common_tail:
  assumes "analyse_merge_nodes fresh a b nodes log = Inr (r, nodes', log')" "length nodes' \<noteq> length nodes"
  shows "\<exists>c d start. {c, d} = {a, b} \<and> nodes' ! length nodes = fresh\<lparr>inst_start := start, inst_end := inst_end (nodes ! nat c),
      prev_node := [c, d], prev_link_index := [0, 0], node_valid := 1\<rparr> \<and>
    inst_start (nodes ! nat c) < start \<and> start \<le> inst_end (nodes ! nat c) \<and>
    (\<forall>i. start \<le> i \<and> i \<le> inst_end (nodes ! nat c) \<longrightarrow>
       compare_inst log i (i + inst_end (nodes ! nat d) - inst_end (nodes ! nat c)) = Inr 1) \<and>
    compare_inst log (start - 1) (start - 1 + inst_end (nodes ! nat d) - inst_end (nodes ! nat c)) = Inr 0"
proof -
  obtain c d n where cd: "{c, d} = {a, b}" "0 \<le> c" "c < int (length nodes)" "0 \<le> d" "d < int (length nodes)"
    "common_tail (nat (inst_end (nodes ! nat c) - inst_start (nodes ! nat c) + 1)) log
       (inst_end (nodes ! nat d) - inst_end (nodes ! nat c)) (inst_end (nodes ! nat c)) = Inr n"
    "n \<noteq> inst_end (nodes ! nat c)" "n + 1 \<noteq> inst_start (nodes ! nat c)"
    "merge_tails fresh c d (n + 1) (n + inst_end (nodes ! nat d) - inst_end (nodes ! nat c)) nodes = Inr nodes'"
    by (rule merge_ordered [OF assms(1)]) (use assms(2) in auto)
  let ?c = "nodes ! nat c" and ?d = "nodes ! nat d"
  note t = common_tail_maximal [OF cd(6)]
  have low: "inst_end ?c - int (nat (inst_end ?c - inst_start ?c + 1)) \<le> n" "n \<le> inst_end ?c" using t by blast+
  have r: "n < inst_end ?c" "inst_start ?c < n + 1"
    using low cd(7,8) by (cases "0 \<le> inst_end ?c - inst_start ?c + 1"; linarith)+
  have new: "nodes' ! length nodes = fresh\<lparr>inst_start := n + 1, inst_end := inst_end ?c, prev_node := [c, d],
      prev_link_index := [0, 0], node_valid := 1\<rparr>"
    using cd(2-5,9) by (auto simp: merge_tails_def at_int_def Let_def nth_append)
  have eq: "compare_inst log i (i + inst_end ?d - inst_end ?c) = Inr 1" if "n + 1 \<le> i" "i \<le> inst_end ?c" for i
    using t that compare_inst_values by (smt (verit, ccfv_threshold))
  have last: "compare_inst log n (n + inst_end ?d - inst_end ?c) = Inr 0"
    using t r by (simp add: algebra_simps)
  show ?thesis
    by (rule exI [of _ c], rule exI [of _ d], rule exI [of _ "n + 1"]) (use cd(1) new r eq last in simp)
qed

text \<open>The second source is not compared.\<close>

lemma compare_inst_ignores_srcB:
  assumes "0 \<le> a" "a < int (length log)" "0 \<le> b" "b < int (length log)"
    and "instruction (log ! nat b) = (instruction (log ! nat a))\<lparr>srcB := x\<rparr>"
  shows "compare_inst log a b = Inr 1"
  using assms by (simp add: compare_inst_def at_int_def same_operand_def Let_def)

end
