(* ===== verification/TailExamples.thy ===== *)
theory TailExamples
  imports GraphExamples IfTail Merge
begin

text \<open>
  The tails of branches, the depths, the ends of functions and the merging of nodes at concrete
  functions: a branch that joins again, a function with two ends and two nodes with a common tail.
\<close>

section \<open>A branch that joins again\<close>

text \<open>Node 1 leads to 2 and 3, both lead to 4. The passes give its paths and types.\<close>

definition ex_diamond :: "control_flow_node_s list" where
  "ex_diamond = map (\<lambda>n. n\<lparr>entry_point_of := 1\<rparr>)
     [ex_node [] [], ex_node [] [2, 3], ex_node [(1, 0)] [4], ex_node [(1, 1)] [4], ex_node [(2, 0), (3, 0)] []]"

definition ex_ways :: "path_s list" where
  "ex_ways = [ex_row 0 3 0 0 [1, 2, 4, 0, 0, 0], ex_row 0 2 0 0 [3, 4, 0, 0, 0, 0], ex_path]"

definition ex_typed :: "control_flow_node_s list" where
  "ex_typed = projr (bindE (build_node_paths ex_diamond ex_ways 2 1) (\<lambda>nodes.
     bindE (analyse_control_flow_node_links nodes 5) (\<lambda>nodes. build_node_type nodes 5)))"

definition ex_entries :: "external_entry_point_s list" where
  "ex_entries = [(ex_callee 0)\<lparr>eep_paths := ex_ways\<rparr>]"

definition ex_tails :: "control_flow_node_s list" where
  "ex_tails = projr (build_node_if_tail ex_entries ex_typed 5)"

lemma build_node_if_tail_shares_witness:
  "if_tail (ex_tails ! 1) = 4 \<and> tailed ex_typed (ex_typed ! 1) (ex_tails ! 1)"
proof -
  have run: "build_node_if_tail ex_entries ex_typed 5 = Inr ex_tails" "if_tail (ex_tails ! 1) = 4" "length ex_typed = 5"
    by code_simp+
  have "wf_paths ex_ways" by code_simp
  then have wf: "wf_paths (eep_paths e)" if "e \<in> set ex_entries" for e using that by (auto simp: ex_entries_def)
  have "pass_over (\<lambda>_. tailed ex_typed) [1 ..< nat 5] ex_typed ex_tails"
    using build_node_if_tail_shares [OF wf, of ex_entries ex_typed 5] run(1) by simp
  then show ?thesis using run(2,3) by (simp add: pass_over_def One_nat_def)
qed

definition ex_deep :: "control_flow_node_s list" where
  "ex_deep = projr (build_control_flow_depth ex_diamond ex_ways 2)"

lemma depth_of_position_witness: "3 \<le> depth (ex_deep ! 4)"
proof -
  have hyp: "list_all (\<lambda>n. depth n = 0) ex_diamond" "build_control_flow_depth ex_diamond ex_ways 2 = Inr ex_deep"
    "0 < nat 2" "path_used (ex_ways ! 0) \<noteq> 0" "path_type (ex_ways ! 0) \<noteq> 1" "2 < nat (path_size (ex_ways ! 0))"
    "2 < length (path (ex_ways ! 0))" by code_simp+
  have "path (ex_ways ! 0) ! 2 = 4" by code_simp
  with depth_of_position [OF hyp] show ?thesis by simp
qed

section \<open>A function with two ends\<close>

definition ex_two_ends :: "path_s list" where
  "ex_two_ends = [ex_row 0 2 0 0 [1, 2, 0], ex_row 0 1 0 0 [3, 0, 0], ex_row 0 1 0 0 [3, 0, 0], ex_row 0 2 1 1 [4, 1, 0], ex_path]"

lemma analyse_multi_ret_ends_witness: "set [3, 2 :: int] = set (ends_of ex_two_ends [0 ..< nat 4])"
proof -
  have run: "analyse_multi_ret ex_two_ends 4 = Inr [3, 2]" "ends_of ex_two_ends [0 ..< nat 4] = [2, 3, 3]" by code_simp+
  then have "0 \<notin> set (ends_of ex_two_ends [0 ..< nat 4])" by simp
  from analyse_multi_ret_ends [OF run(1) this] show ?thesis by (simp split: if_splits)
qed

section \<open>Two nodes with a common tail\<close>

text \<open>Instructions 1 and 2, and 3 to 5; 2 and 5 are equal.\<close>

definition ex_tail_log :: "inst_log_entry_s list" where
  "ex_tail_log = map ex_alu [OP_NOP, OP_ADD, OP_RET, OP_XOR, OP_SUB, OP_RET]"

definition ex_tail_nodes :: "control_flow_node_s list" where
  "ex_tail_nodes = [ex_node [] [], (ex_node [] [])\<lparr>inst_start := 3, inst_end := 5\<rparr>, (ex_node [] [])\<lparr>inst_start := 1, inst_end := 2\<rparr>]"

definition ex_merged :: "int \<times> control_flow_node_s list \<times> inst_log_entry_s list" where
  "ex_merged = projr (analyse_merge_nodes (ex_node [] []) 1 2 ex_tail_nodes ex_tail_log)"

lemma merge_makes_common_tail_witness:
  "inst_end (fst (snd ex_merged) ! 3) \<in> {2, 5} \<and> compare_inst ex_tail_log 1 4 = Inr 0"
proof -
  have run: "analyse_merge_nodes (ex_node [] []) 1 2 ex_tail_nodes ex_tail_log = Inr (fst ex_merged, fst (snd ex_merged), snd (snd ex_merged))"
    "length (fst (snd ex_merged)) \<noteq> length ex_tail_nodes" "length ex_tail_nodes = 3"
    "inst_end (ex_tail_nodes ! 1) = 5" "inst_end (ex_tail_nodes ! 2) = 2" "compare_inst ex_tail_log 1 4 = Inr 0"
    by code_simp+
  from merge_makes_common_tail [OF run(1,2)] obtain c d start where
    "{c, d} = {1, 2}" "inst_end (fst (snd ex_merged) ! 3) = inst_end (ex_tail_nodes ! nat c)" using run(3) by auto
  then show ?thesis using run(4-6) by (auto simp: doubleton_eq_iff)
qed

end
