(* ===== verification/Labels.thy ===== *)
theory Labels
  imports Unique Block PrintInst NodeGraph
begin

text \<open>
  \<open>src/analyse/analyse.c\<close>, \<open>log_to_label\<close>, \<open>register_label\<close> and
  \<open>scan_for_labels_in_function_body\<close>: the labels of the values and the parameters and locals of
  a function, collected from the instructions of its nodes. The parameters and the locals are
  two more instances of the lists that take an element once. The scan enters exactly the labels
  of the values its instructions register, keeps parameters and locals labels of their scope,
  and ends on nodes that are runs of the log.
\<close>

section \<open>Making a label\<close>

text \<open>
  The cases that only print a message return 0 too: the label keeps what it held, but for
  \<open>tip_size\<close>.
\<close>

definition set_label :: "label_s \<Rightarrow> u64 \<Rightarrow> u64 \<Rightarrow> u64 \<Rightarrow> u64 \<Rightarrow> u64 \<Rightarrow> label_s" where
  "set_label l s t p v n = l\<lparr>scope := s, label_type := t, lab_pointer := p, label_value := v, size_bits := n\<rparr>"

definition direct_label :: "indirect_kind \<Rightarrow> u64 \<Rightarrow> u64 \<Rightarrow> u64 \<Rightarrow> label_s \<Rightarrow> label_s" where
  "direct_label ind ix n rel l =
     (if ind = IND_MEM then set_label l 3 1 1 ix n
      else if rel \<noteq> 0 then set_label l 3 2 0 ix n
      else set_label l 3 3 0 ix n)"

definition param_label_of :: "indirect_kind \<Rightarrow> u64 \<Rightarrow> u64 \<Rightarrow> u64 \<Rightarrow> label_s \<Rightarrow> label_s" where
  "param_label_of ind ix n off l =
     (if ind = IND_STACK then set_label l 2 2 0 off n
      else if ind = IND_DIRECT then set_label l 2 1 0 ix n
      else l)"

definition local_label_of :: "indirect_kind \<Rightarrow> u64 \<Rightarrow> u64 \<Rightarrow> u64 \<Rightarrow> label_s \<Rightarrow> label_s" where
  "local_label_of ind n ident off l =
     (if ind = IND_STACK then set_label l 1 2 0 (- off) n
      else if ind = IND_DIRECT then set_label l 1 1 0 ident n
      else l)"

definition log_to_label :: "store_kind \<Rightarrow> indirect_kind \<Rightarrow> u64 \<Rightarrow> u64 \<Rightarrow> u64 \<Rightarrow> u64 \<Rightarrow> u64 \<Rightarrow> u64 \<Rightarrow> label_s \<Rightarrow> int \<times> label_s" where
  "log_to_label st ind ix n rel sc ident off label =
     (let l = label\<lparr>tip_size := 0\<rparr> in
      case st of
        STORE_DIRECT \<Rightarrow> (0, direct_label ind ix n rel l)
      | STORE_REG \<Rightarrow>
          (if sc = 1 then (0, param_label_of ind ix n off l)
           else if sc = 2 then (0, local_label_of ind n ident off l)
           else if sc = 3 then (0, set_label l 1 1 1 ident n)
           else if sc = 4 then (0, set_label l 6 1 0 ident n)
           else (1, set_label l 0 sc 0 0 0))
      | _ \<Rightarrow> (1, l))"

section \<open>The parameters and locals of a function\<close>

definition add_param :: "external_entry_point_s \<Rightarrow> int \<Rightarrow> int \<times> external_entry_point_s" where
  "add_param ep x = (if x \<in> set (params ep) then (1, ep) else (0, ep\<lparr>params := params ep @ [x]\<rparr>))"

definition add_local :: "external_entry_point_s \<Rightarrow> int \<Rightarrow> int \<times> external_entry_point_s" where
  "add_local ep x = (if x \<in> set (locals ep) then (1, ep) else (0, ep\<lparr>locals := locals ep @ [x]\<rparr>))"

interpretation pr: unique_list params add_param
  by unfold_locales (simp_all add: add_param_def enter_def)

interpretation loc: unique_list locals add_local
  by unfold_locales (simp_all add: add_local_def enter_def)

text \<open>The label of a value id: its index, and the label itself.\<close>

definition label_of :: "label_redirect_s list \<Rightarrow> label_s list \<Rightarrow> u64 \<Rightarrow> (int \<times> label_s) c" where
  "label_of reds ls ident =
     bindE (at reds (unat ident)) (\<lambda>r.
     bindE (at_int ls (to_int (redirect r))) (\<lambda>l. Inr (to_int (redirect r), l)))"

definition register_label :: "external_entry_point_s \<Rightarrow> inst_log_entry_s list \<Rightarrow> int \<Rightarrow> int \<Rightarrow> u64 \<Rightarrow>
    label_redirect_s list \<Rightarrow> label_s list \<Rightarrow> (int \<times> external_entry_point_s) c" where
  "register_label ep log inst opd ident reds ls =
     (if opd \<notin> {1, 2, 3} then Inr (1, ep)
      else bindE (at_int log inst) (\<lambda>_.
        bindE (label_of reds ls ident) (\<lambda>(x, l).
          if scope l = 2 then Inr (0, snd (add_param ep x))
          else if scope l = 1 then Inr (0, snd (add_local ep x))
          else if scope l = 3 \<or> scope l = 6 then Inr (0, ep)
          else Inl (Exit 1))))"

section \<open>Scanning the instructions of a function\<close>

text \<open>The value of an operand of an instruction is registered; the result of doing so is not looked at.\<close>

definition register_value :: "inst_log_entry_s list \<Rightarrow> int \<Rightarrow> int \<Rightarrow> external_entry_point_s \<Rightarrow> external_entry_point_s c" where
  "register_value log inst opd ep =
     bindE (at_int log inst) (\<lambda>e.
       let v = (if opd = 1 then value1 e else if opd = 2 then value2 e else value3 e) in
       bindE (register_label ep log inst opd (value_id v) (label_redirect ep) (labels ep)) (\<lambda>(_, ep). Inr ep))"

fun register_values :: "inst_log_entry_s list \<Rightarrow> int \<Rightarrow> int list \<Rightarrow> external_entry_point_s \<Rightarrow> external_entry_point_s c" where
  "register_values log inst [] ep = Inr ep"
| "register_values log inst (o1 # os) ep = bindE (register_value log inst o1 ep) (register_values log inst os)"

definition scan_call :: "inst_log_entry_s list \<Rightarrow> int \<Rightarrow> instruction_s \<Rightarrow> external_entry_point_s \<Rightarrow> (int \<times> external_entry_point_s) c" where
  "scan_call log inst ins ep =
     (if indirect (dstA ins) = IND_MEM then Inr (1, ep)
      else bindE (register_value log inst 3 ep) (\<lambda>ep.
        Inr (if indirect (srcA ins) = IND_MEM then 1 else 0, ep)))"

definition scan_compare :: "inst_log_entry_s list \<Rightarrow> int \<Rightarrow> instruction_s \<Rightarrow> external_entry_point_s \<Rightarrow> (int \<times> external_entry_point_s) c" where
  "scan_compare log inst ins ep =
     (if indirect (srcB ins) = IND_MEM then Inr (1, ep)
      else bindE (register_value log inst 2 ep) (\<lambda>ep.
        if indirect (srcA ins) = IND_MEM then Inr (1, ep)
        else bindE (register_value log inst 1 ep) (\<lambda>ep. Inr (0, ep))))"

definition scan_ret :: "inst_log_entry_s list \<Rightarrow> int \<Rightarrow> instruction_s \<Rightarrow> external_entry_point_s \<Rightarrow> (int \<times> external_entry_point_s) c" where
  "scan_ret log inst ins ep =
     (if indirect (srcA ins) = IND_MEM then Inr (1, ep)
      else bindE (register_value log inst 1 ep) (\<lambda>ep. Inr (0, ep)))"

definition scan_inst_labels :: "inst_log_entry_s list \<Rightarrow> int \<Rightarrow> instruction_s \<Rightarrow> external_entry_point_s \<Rightarrow> (int \<times> external_entry_point_s) c" where
  "scan_inst_labels log inst ins ep =
     (let opc = opcode ins in
      if opc \<in> {OP_MOV, OP_SEX, OP_ZEXT, OP_TRUNC, OP_LOAD, OP_STORE} then
        bindE (register_values log inst [1, 3] ep) (\<lambda>ep. Inr (0, ep))
      else if opc \<in> {OP_ADD, OP_GEP1, OP_MUL, OP_IMUL, OP_SUB, OP_SBB, OP_AND, OP_OR, OP_XOR, OP_NOT, OP_NEG,
          OP_SHL, OP_SHR, OP_SAL, OP_SAR, OP_ICMP} then
        bindE (register_values log inst [1, 2, 3] ep) (\<lambda>ep. Inr (0, ep))
      else if opc = OP_CALL then scan_call log inst ins ep
      else if opc \<in> {OP_CMP, OP_TEST} then scan_compare log inst ins ep
      else if opc = OP_RET then scan_ret log inst ins ep
      else if opc \<in> {OP_JMP, OP_JMPT, OP_IF, OP_BC, OP_NOP} then Inr (0, ep)
      else Inr (1, ep))"

text \<open>
  The instructions of a node. The next instruction does not depend on the labels, so that a
  walk longer than the log comes back to an instruction it went through and never ends: the
  fuel is the length of the log.
\<close>

fun scan_node :: "nat \<Rightarrow> inst_log_entry_s list \<Rightarrow> int \<Rightarrow> int \<Rightarrow> external_entry_point_s \<Rightarrow> (int \<times> external_entry_point_s) c" where
  "scan_node 0 log final inst ep = Inl Diverge"
| "scan_node (Suc k) log final inst ep =
     bindE (at_int log inst) (\<lambda>e.
     bindE (scan_inst_labels log inst (instruction e) ep) (\<lambda>(r, ep).
       if r \<noteq> 0 then Inr (1, ep)
       else case next_inst e of
              [x] \<Rightarrow> if inst = final then Inr (0, ep) else scan_node k log final x ep
            | _ \<Rightarrow> Inr (0, ep)))"

fun scan_nodes :: "inst_log_entry_s list \<Rightarrow> control_flow_node_s list \<Rightarrow> external_entry_point_s \<Rightarrow> (int \<times> external_entry_point_s) c" where
  "scan_nodes log [] ep = Inr (0, ep)"
| "scan_nodes log (node # nodes) ep =
     (if node_valid node = 0 then scan_nodes log nodes ep
      else bindE (scan_node (length log) log (inst_end node) (inst_start node) ep) (\<lambda>(r, ep).
        if r \<noteq> 0 then Inr (1, ep) else scan_nodes log nodes ep))"

definition scan_for_labels_in_function_body :: "self_s \<Rightarrow> nat \<Rightarrow> (int \<times> self_s) c" where
  "scan_for_labels_in_function_body self i =
     bindE (at (external_entry_points self) i) (\<lambda>ep.
     bindE (scan_nodes (inst_log_entry self) (drop 1 (eep_nodes ep)) ep) (\<lambda>(r, ep).
       Inr (r, self\<lparr>external_entry_points := (external_entry_points self)[i := ep]\<rparr>)))"

section \<open>What a label can be\<close>

text \<open>
  log_to_label makes a label of a documented scope and type whenever it returns 0, but
  for registers of scope 1 and 2 with another indirection, where it returns 0 and leaves the
  label as it was.
\<close>
theorem log_to_label_proper:
  assumes "log_to_label st ind ix n rel sc ident off l = (0, l')"
  shows "if st = STORE_REG \<and> sc \<in> {1, 2} \<and> ind \<notin> {IND_STACK, IND_DIRECT} then l' = l\<lparr>tip_size := 0\<rparr>
    else proper_label l'"
  using assms
  by (cases st) (auto simp: log_to_label_def Let_def direct_label_def param_label_of_def local_label_of_def set_label_def
    proper_label_def split: if_splits)

section \<open>What a scan adds\<close>

text \<open>The indices of the labels of scope \<open>k\<close> the values have.\<close>

definition offsets :: "external_entry_point_s \<Rightarrow> u64 \<Rightarrow> u64 list \<Rightarrow> int list" where
  "offsets ep k ids = concat (map (\<lambda>v. case label_of (label_redirect ep) (labels ep) v of
     Inl _ \<Rightarrow> [] | Inr (x, l) \<Rightarrow> if scope l = k then [x] else []) ids)"

definition with_values :: "u64 list \<Rightarrow> external_entry_point_s \<Rightarrow> external_entry_point_s" where
  "with_values ids ep = ep\<lparr>params := fold enter (offsets ep 2 ids) (params ep),
     locals := fold enter (offsets ep 1 ids) (locals ep)\<rparr>"

lemma with_values_Nil [simp]: "with_values [] ep = ep"
  by (simp add: with_values_def offsets_def)

lemma with_values_append: "with_values ids' (with_values ids ep) = with_values (ids @ ids') ep"
  by (simp add: with_values_def offsets_def)

lemma with_values_keeps [simp]: "label_redirect (with_values ids ep) = label_redirect ep" "labels (with_values ids ep) = labels ep"
    "eep_nodes (with_values ids ep) = eep_nodes ep" "offsets (with_values ids ep) k = offsets ep k"
  by (simp_all add: with_values_def offsets_def fun_eq_iff)

text \<open>The values an instruction registers.\<close>

definition value_of :: "inst_log_entry_s \<Rightarrow> int \<Rightarrow> u64" where
  "value_of e opd = value_id (if opd = 1 then value1 e else if opd = 2 then value2 e else value3 e)"

definition registered :: "inst_log_entry_s \<Rightarrow> u64 list" where
  "registered e = map (value_of e)
     (let opc = opcode (instruction e) in
      if opc \<in> {OP_MOV, OP_SEX, OP_ZEXT, OP_TRUNC, OP_LOAD, OP_STORE} then [1, 3]
      else if opc \<in> {OP_ADD, OP_GEP1, OP_MUL, OP_IMUL, OP_SUB, OP_SBB, OP_AND, OP_OR, OP_XOR, OP_NOT, OP_NEG,
          OP_SHL, OP_SHR, OP_SAL, OP_SAR, OP_ICMP} then [1, 2, 3]
      else if opc = OP_CALL then [3]
      else if opc \<in> {OP_CMP, OP_TEST} then [2, 1]
      else if opc = OP_RET then [1]
      else [])"

lemma register_value_adds:
  assumes "register_value log inst opd ep = Inr ep'" "opd \<in> {1, 2, 3}"
  shows "ep' = with_values [value_of (log ! nat inst) opd] ep"
proof -
  let ?v = "value_of (log ! nat inst) opd"
  obtain r where r: "register_label ep log inst opd ?v (label_redirect ep) (labels ep) = Inr (r, ep')"
    using assms(1) by (auto simp: register_value_def bindE_Inr_iff at_int_Inr_iff Let_def value_of_def)
  obtain x l where l: "label_of (label_redirect ep) (labels ep) ?v = Inr (x, l)"
      and step: "(if scope l = 2 then Inr (0, snd (add_param ep x)) else if scope l = 1 then Inr (0, snd (add_local ep x))
        else if scope l = 3 \<or> scope l = 6 then Inr (0, ep) else Inl (Exit 1)) = (Inr (r, ep') :: (int \<times> external_entry_point_s) c)"
    using r assms(2) by (auto simp: register_label_def bindE_Inr_iff split: if_splits)
  show ?thesis
    using step l by (cases "scope l = 2"; cases "scope l = 1")
      (auto simp: with_values_def offsets_def add_param_def add_local_def enter_def split: if_splits)
qed

lemma register_values_add:
  "register_values log inst os ep = Inr ep' \<Longrightarrow> set os \<subseteq> {1, 2, 3} \<Longrightarrow>
    ep' = with_values (map (value_of (log ! nat inst)) os) ep"
proof (induction os arbitrary: ep)
  case (Cons o1 os)
  obtain ep1 where e: "register_value log inst o1 ep = Inr ep1" "register_values log inst os ep1 = Inr ep'"
    using Cons.prems(1) by (auto simp: bindE_Inr_iff)
  have "ep1 = with_values [value_of (log ! nat inst) o1] ep" using register_value_adds [OF e(1)] Cons.prems(2) by simp
  with Cons.IH [OF e(2)] Cons.prems(2) show ?case by (simp add: with_values_append)
qed simp

text \<open>The scan of an instruction that gives up has registered some of its values.\<close>

lemma scan_inst_labels_adds:
  assumes "scan_inst_labels log inst (instruction (log ! nat inst)) ep = Inr (r, ep')"
  shows "\<exists>ids. ep' = with_values ids ep \<and> (r = 0 \<longrightarrow> ids = registered (log ! nat inst))"
proof -
  let ?e = "log ! nat inst"
  have none: ?thesis if "ep' = ep" "r \<noteq> 0" using that by (intro exI [of _ "[]"]) simp
  have vals: ?thesis if "register_values log inst os ep = Inr ep'" "set os \<subseteq> {1, 2, 3}"
      "r = 0 \<longrightarrow> registered ?e = map (value_of ?e) os" for os
    using register_values_add [OF that(1,2)] that(3) by auto
  note D = scan_inst_labels_def scan_call_def scan_compare_def scan_ret_def Let_def registered_def
  show ?thesis
  proof (cases "opcode (instruction ?e)")
    case OP_CALL
    then show ?thesis using assms none vals [of "[3]"] by (auto simp: D bindE_Inr_iff split: if_splits)
  next
    case OP_CMP
    then show ?thesis using assms none vals [of "[2]"] vals [of "[2, 1]"] by (auto simp: D bindE_Inr_iff split: if_splits)
  next
    case OP_TEST
    then show ?thesis using assms none vals [of "[2]"] vals [of "[2, 1]"] by (auto simp: D bindE_Inr_iff split: if_splits)
  next
    case OP_RET
    then show ?thesis using assms none vals [of "[1]"] by (auto simp: D bindE_Inr_iff split: if_splits)
  qed (use assms none vals [of "[]"] vals [of "[1, 3]"] vals [of "[1, 2, 3]"] in \<open>simp_all add: D bindE_Inr_iff\<close>)
qed

text \<open>The instructions of a node, in the order of the scan.\<close>

fun node_insts :: "nat \<Rightarrow> inst_log_entry_s list \<Rightarrow> int \<Rightarrow> int \<Rightarrow> int list" where
  "node_insts 0 log final inst = []"
| "node_insts (Suc k) log final inst = inst #
     (case next_inst (log ! nat inst) of
        [x] \<Rightarrow> if inst = final then [] else node_insts k log final x
      | _ \<Rightarrow> [])"

definition node_values :: "inst_log_entry_s list \<Rightarrow> control_flow_node_s \<Rightarrow> u64 list" where
  "node_values log node =
     (if node_valid node = 0 then []
      else concat (map (\<lambda>i. registered (log ! nat i)) (node_insts (length log) log (inst_end node) (inst_start node))))"

lemma scan_node_adds:
  "scan_node k log final inst ep = Inr (r, ep') \<Longrightarrow> \<exists>ids. ep' = with_values ids ep \<and>
    (r = 0 \<longrightarrow> ids = concat (map (\<lambda>i. registered (log ! nat i)) (node_insts k log final inst)))"
proof (induction k arbitrary: inst ep)
  case (Suc k)
  let ?e = "log ! nat inst"
  obtain r1 ep1 where one: "scan_inst_labels log inst (instruction ?e) ep = Inr (r1, ep1)"
    and rest: "(if r1 \<noteq> 0 then Inr (1, ep1) else case next_inst ?e of
              [x] \<Rightarrow> if inst = final then Inr (0, ep1) else scan_node k log final x ep1
            | _ \<Rightarrow> Inr (0, ep1)) = Inr (r, ep')"
    using Suc.prems by (auto simp: bindE_Inr_iff at_int_Inr_iff)
  obtain ids where ids: "ep1 = with_values ids ep" "r1 = 0 \<longrightarrow> ids = registered ?e"
    using scan_inst_labels_adds [OF one] by blast
  show ?case
  proof (cases "r1 = 0 \<and> inst \<noteq> final \<and> length (next_inst ?e) = 1")
    case True
    then obtain x where x: "next_inst ?e = [x]" by (auto simp: One_nat_def length_Suc_conv)
    then have "scan_node k log final x ep1 = Inr (r, ep')" using rest True by simp
    from Suc.IH [OF this] obtain ids' where "ep' = with_values ids' ep1"
      "r = 0 \<longrightarrow> ids' = concat (map (\<lambda>i. registered (log ! nat i)) (node_insts k log final x))" by blast
    then show ?thesis using ids True x by (intro exI [of _ "ids @ ids'"]) (simp add: with_values_append)
  next
    case False
    then have "ep' = ep1" "r = 0 \<longrightarrow> r1 = 0 \<and> (inst = final \<or> length (next_inst ?e) \<noteq> 1)"
      using rest by (auto simp: One_nat_def split: if_splits list.splits)
    moreover have "node_insts (Suc k) log final inst = [inst]" if "inst = final \<or> length (next_inst ?e) \<noteq> 1"
      using that by (cases "next_inst ?e"; cases "tl (next_inst ?e)") (auto simp: One_nat_def)
    ultimately show ?thesis using ids by (intro exI [of _ ids]) (auto simp del: node_insts.simps)
  qed
qed simp

lemma scan_nodes_adds:
  "scan_nodes log nodes ep = Inr (r, ep') \<Longrightarrow> \<exists>ids. ep' = with_values ids ep \<and>
    (r = 0 \<longrightarrow> ids = concat (map (node_values log) nodes))"
proof (induction nodes arbitrary: ep)
  case Nil
  then show ?case by (intro exI [of _ "[]"]) simp
next
  case (Cons node nodes)
  show ?case
  proof (cases "node_valid node = 0")
    case True
    then show ?thesis using Cons by (simp add: node_values_def)
  next
    case False
    obtain r1 ep1 where one: "scan_node (length log) log (inst_end node) (inst_start node) ep = Inr (r1, ep1)"
      and rest: "(if r1 \<noteq> 0 then Inr (1, ep1) else scan_nodes log nodes ep1) = Inr (r, ep')"
      using Cons.prems False by (auto simp: bindE_Inr_iff)
    obtain ids where ids: "ep1 = with_values ids ep" "r1 = 0 \<longrightarrow> ids = node_values log node"
      using scan_node_adds [OF one] False by (auto simp: node_values_def)
    show ?thesis
    proof (cases "r1 = 0")
      case True
      then obtain ids' where "ep' = with_values ids' ep1" "r = 0 \<longrightarrow> ids' = concat (map (node_values log) nodes)"
        using Cons.IH [of ep1] rest by auto
      then show ?thesis using ids True by (intro exI [of _ "ids @ ids'"]) (simp add: with_values_append)
    next
      case False
      then show ?thesis using ids rest by (intro exI [of _ ids]) auto
    qed
  qed
qed

lemma scan_adds:
  assumes "scan_for_labels_in_function_body self i = Inr (r, self')"
  shows "i < length (external_entry_points self)"
    "\<exists>ids. self' = self\<lparr>external_entry_points := (external_entry_points self)[i := with_values ids (external_entry_points self ! i)]\<rparr> \<and>
      (r = 0 \<longrightarrow> ids = concat (map (node_values (inst_log_entry self)) (drop 1 (eep_nodes (external_entry_points self ! i)))))"
  using assms by (auto simp: scan_for_labels_in_function_body_def bindE_Inr_iff at_Inr_iff dest!: scan_nodes_adds)

text \<open>
  C22. A scan that returns 0 enters, in order and once each, exactly the labels of the
  values the instructions of the valid nodes register: those of scope 2 into the parameters,
  those of scope 1 into the locals.
\<close>
theorem scan_for_labels_collects:
  assumes "scan_for_labels_in_function_body self i = Inr (0, self')"
  shows "self' = self\<lparr>external_entry_points := (external_entry_points self)[i :=
    with_values (concat (map (node_values (inst_log_entry self)) (drop 1 (eep_nodes (external_entry_points self ! i)))))
      (external_entry_points self ! i)]\<rparr>"
  using scan_adds(2) [OF assms] by auto

section \<open>Parameters and locals are labels of their kind\<close>

definition labelled :: "external_entry_point_s \<Rightarrow> bool" where
  "labelled ep \<longleftrightarrow> distinct (params ep) \<and> distinct (locals ep) \<and>
     (\<forall>x \<in> set (params ep). 0 \<le> x \<and> x < int (length (labels ep)) \<and> scope (labels ep ! nat x) = 2) \<and>
     (\<forall>x \<in> set (locals ep). 0 \<le> x \<and> x < int (length (labels ep)) \<and> scope (labels ep ! nat x) = 1)"

lemma offsets_scope: "x \<in> set (offsets ep k ids) \<Longrightarrow> 0 \<le> x \<and> x < int (length (labels ep)) \<and> scope (labels ep ! nat x) = k"
  by (auto simp: offsets_def split: sum.splits if_splits dest!: sym [of "Inr _"])
    (auto simp: label_of_def bindE_Inr_iff at_Inr_iff at_int_Inr_iff)

lemma with_values_labelled: "labelled ep \<Longrightarrow> labelled (with_values ids ep)"
  using offsets_scope by (fastforce simp: labelled_def with_values_def)

text \<open>
  Whatever a scan returns, the parameters of the function stay indices of labels of
  scope 2 and its locals of labels of scope 1, without repetitions.
\<close>
theorem scan_for_labels_labelled:
  assumes "scan_for_labels_in_function_body self i = Inr (r, self')" "labelled (external_entry_points self ! i)"
  shows "labelled (external_entry_points self' ! i)"
  using scan_adds [OF assms(1)] assms(2) by (auto simp: with_values_labelled)

section \<open>The scan ends\<close>

text \<open>The valid nodes of a function are runs of the log, as \<open>build_control_flow_nodes\<close> makes them.\<close>

definition function_nodes :: "inst_log_entry_s list \<Rightarrow> control_flow_node_s list \<Rightarrow> bool" where
  "function_nodes log nodes \<longleftrightarrow> (\<forall>node \<in> set nodes. node_valid node \<noteq> 0 \<longrightarrow>
     (\<exists>ys. flow log (inst_start node) ys \<and> inst_end node = last ys \<and> set ys \<subseteq> {0 ..< int (length log)}))"

lemma cfg_function_nodes:
  assumes "graph_log log m" "cfg log m nodes"
  shows "function_nodes log (take (length (starts log m)) (drop 1 nodes))"
  unfolding function_nodes_def
proof (intro ballI impI)
  let ?ss = "starts log m"
  fix node assume "node \<in> set (take (length ?ss) (drop 1 nodes))"
  then obtain j where j: "j < length ?ss" "node = nodes ! Suc j" by (auto simp: in_set_conv_nth One_nat_def)
  have t: "node_table log ?ss nodes" using assms(2) by (simp add: cfg_def)
  have "?ss ! j \<in> set ?ss" using j by simp
  then have s: "1 \<le> ?ss ! j" "?ss ! j < int m" by (simp_all add: starts_iff)
  obtain ys where ys: "flow log (?ss ! j) ys" "inst_start node = ?ss ! j" "inst_end node = last ys"
    using t j by (auto simp: node_table_def)
  have "set ys \<subseteq> {1 ..< int m}" "m \<le> length log"
    using flow_range [OF assms(1) ys(1) s] assms(1) by (simp_all add: graph_log_def)
  then show "\<exists>ys. flow log (inst_start node) ys \<and> inst_end node = last ys \<and> set ys \<subseteq> {0 ..< int (length log)}"
    using ys by (intro exI [of _ ys]) auto
qed

lemma register_values_end: "register_values log inst os ep \<noteq> Inl Diverge"
  by (induction os arbitrary: ep)
    (auto simp: register_value_def register_label_def label_of_def bindE_Inl_iff at_int_def at_def Let_def split: if_splits)

lemma register_value_ends: "register_value log inst opd ep \<noteq> Inl Diverge"
  using register_values_end [of log inst "[opd]" ep] by (auto simp: bindE_Inl_iff)

lemma scan_inst_labels_ends: "scan_inst_labels log inst ins ep \<noteq> Inl Diverge"
  using register_values_end register_value_ends
  by (auto simp: scan_inst_labels_def scan_call_def scan_compare_def scan_ret_def bindE_Inl_iff Let_def)

lemma scan_node_ends:
  "flow log inst ys \<Longrightarrow> length ys \<le> k \<Longrightarrow> scan_node k log (last ys) inst ep \<noteq> Inl Diverge"
proof (induction arbitrary: k ep rule: NodeBlocks.flow.induct)
  case (flow_end i)
  then obtain j where "k = Suc j" by (cases k) auto
  then show ?case using scan_inst_labels_ends by (auto simp: bindE_Inl_iff at_int_def split: list.splits)
next
  case (flow_next i xs)
  then obtain j where k: "k = Suc j" "length xs \<le> j" by (cases k) auto
  have xs: "xs \<noteq> []" "hd xs = hd (nexts log i)" using flow_hd [OF flow_next.hyps(2)] by simp_all
  have n: "\<exists>s. next_inst (log ! nat i) = [s]" using flow_next.hyps(1) by (auto simp: ends_at_def nexts_def split: list.splits)
  then obtain s where s: "next_inst (log ! nat i) = [s]" by blast
  have "scan_node j log (last xs) s ep' \<noteq> Inl Diverge" for ep'
    using flow_next.IH [OF k(2)] s by (simp add: nexts_def)
  then show ?case using scan_inst_labels_ends k(1) xs s by (auto simp: bindE_Inl_iff at_int_def)
qed

lemma scan_nodes_end:
  "function_nodes log nodes \<Longrightarrow> scan_nodes log nodes ep \<noteq> Inl Diverge"
proof (induction nodes arbitrary: ep)
  case (Cons node nodes)
  have "scan_node (length log) log (inst_end node) (inst_start node) ep \<noteq> Inl Diverge" if v: "node_valid node \<noteq> 0"
  proof -
    obtain ys where ys: "flow log (inst_start node) ys" "inst_end node = last ys" "set ys \<subseteq> {0 ..< int (length log)}"
      using bspec [OF Cons.prems [unfolded function_nodes_def], of node] v by auto
    have "length ys = card (set ys)" using flow_distinct [OF ys(1)] by (simp add: distinct_card)
    also have "\<dots> \<le> card {0 ..< int (length log)}" by (rule card_mono [OF _ ys(3)]) simp
    finally have "length ys \<le> length log" by simp
    then show ?thesis using scan_node_ends [OF ys(1)] ys(2) by simp
  qed
  moreover have "scan_nodes log nodes ep' \<noteq> Inl Diverge" for ep'
    by (rule Cons.IH) (use Cons.prems in \<open>simp add: function_nodes_def\<close>)
  ultimately show ?case by (auto simp: bindE_Inl_iff split: if_splits)
qed simp

text \<open>
  The scan comes to an end on nodes that are runs of the log, as
  build_control_flow_nodes makes them.
\<close>
theorem scan_for_labels_ends:
  assumes "function_nodes (inst_log_entry self) (drop 1 (eep_nodes (external_entry_points self ! i)))"
  shows "scan_for_labels_in_function_body self i \<noteq> Inl Diverge"
  using scan_nodes_end [OF assms]
  by (auto simp: scan_for_labels_in_function_body_def bindE_Inl_iff at_def split: if_splits)

end
