(* ===== verification/SearchBack.thy ===== *)
theory SearchBack
  imports GlobalStruct
begin

text \<open>
  \<open>src/analyse/analyse.c\<close>, \<open>search_back_local_reg_stack\<close>: the instructions that may have set a
  register or a stack slot, searched backwards along the predecessors. The work list is a table
  of places with a valid flag whose free places are used again; the termination measure counts
  the instructions not seen and the places left. The search finds exactly the instructions
  a backward walk can come to that write the target (\<open>search_back_finds\<close>).
\<close>

section \<open>The places to go on from\<close>

record mid_start_s =
  mid_start :: u64
  mid_valid :: u64

definition INST_LOG_ENTRY_SIZE :: nat where "INST_LOG_ENTRY_SIZE = 10000"

text \<open>The first valid place is taken out.\<close>

fun take_mid :: "mid_start_s list \<Rightarrow> (u64 \<times> mid_start_s list) option" where
  "take_mid [] = None"
| "take_mid (m # ms) =
     (if mid_valid m = 1 then Some (mid_start m, m\<lparr>mid_valid := 0\<rparr> # ms)
      else map_option (\<lambda>(i, ms). (i, m # ms)) (take_mid ms))"

text \<open>The predecessors take the free places, and the rest is appended.\<close>

fun fill_mids :: "int list \<Rightarrow> mid_start_s list \<Rightarrow> mid_start_s list" where
  "fill_mids [] ms = ms"
| "fill_mids (p # ps) [] = \<lparr>mid_start = word_of_int p, mid_valid = 1\<rparr> # fill_mids ps []"
| "fill_mids (p # ps) (m # ms) =
     (if mid_valid m = 0 then \<lparr>mid_start = word_of_int p, mid_valid = 1\<rparr> # fill_mids ps ms
      else m # fill_mids (p # ps) ms)"

section \<open>The search\<close>

text \<open>The instruction writes the stack slot, or the register, that is looked for.\<close>

definition writes_target :: "int \<Rightarrow> u64 \<Rightarrow> u64 \<Rightarrow> inst_log_entry_s \<Rightarrow> bool" where
  "writes_target reg_stack init off e \<longleftrightarrow>
     (let d = dstA (instruction e); v = value3 e in
      reg_stack = 2 \<and> store d = STORE_REG \<and> value_scope v = 2 \<and> indirect d = IND_STACK \<and>
        indirect_init_value v = init \<and> indirect_offset_value v = off \<or>
      reg_stack = 1 \<and> store d = STORE_REG \<and> indirect d = IND_DIRECT \<and> index d = init)"

text \<open>The predecessors to go on to: none when the first one is 0, whatever the others are.\<close>

definition back_from :: "inst_log_entry_s \<Rightarrow> int list" where
  "back_from e = (case prev e of [] \<Rightarrow> [] | p # ps \<Rightarrow> if p = 0 then [] else p # ps)"

text \<open>
  Each turn of the loop takes a place out, and either it was seen before or one more
  instruction is seen, which can happen as often as there are entries.
\<close>

definition valid_mids :: "mid_start_s list \<Rightarrow> nat" where
  "valid_mids ms = length (filter (\<lambda>m. mid_valid m = 1) ms)"

definition unseen :: "int list \<Rightarrow> nat" where
  "unseen seen = length (filter (\<lambda>x. x = 0) seen)"

lemma take_mid_fewer: "take_mid ms = Some (i, ms') \<Longrightarrow> valid_mids ms = Suc (valid_mids ms')"
  by (induction ms arbitrary: i ms') (auto simp: valid_mids_def split: if_splits)

lemma unseen_fewer: "n < length seen \<Longrightarrow> seen ! n = 0 \<Longrightarrow> unseen (seen[n := 1]) < unseen seen"
proof (induction seen arbitrary: n)
  case (Cons x xs)
  then show ?case by (cases n) (auto simp: unseen_def)
qed simp

function search_loop :: "int \<Rightarrow> u64 \<Rightarrow> u64 \<Rightarrow> inst_log_entry_s list \<Rightarrow> mid_start_s list \<Rightarrow> int list \<Rightarrow> u64 list \<Rightarrow>
    (int list \<times> u64 list) c" where
  "search_loop reg_stack init off log ms seen insts =
     (case take_mid ms of
        None \<Rightarrow> Inr (seen, insts)
      | Some (i, ms) \<Rightarrow> bindE (at seen (unat i)) (\<lambda>s.
          if s \<noteq> 0 then search_loop reg_stack init off log ms seen insts
          else bindE (at log (unat i)) (\<lambda>e.
            let seen = seen[unat i := 1] in
            if writes_target reg_stack init off e then search_loop reg_stack init off log ms seen (insts @ [i])
            else if back_from e = [] then search_loop reg_stack init off log ms seen insts
            else if list_all (\<lambda>m. mid_valid m \<noteq> 0) ms then Inr (seen, insts)
            else search_loop reg_stack init off log (fill_mids (back_from e) ms) seen insts)))"
  by pat_completeness auto
termination
  by (relation "measures [\<lambda>(_, _, _, _, _, seen, _). unseen seen, \<lambda>(_, _, _, _, ms, _, _). valid_mids ms]")
    (auto simp: at_Inr_iff dest: take_mid_fewer intro: unseen_fewer)

text \<open>The result is 1, and there is no list, when there is no place to start from.\<close>

definition search_back_local_reg_stack :: "inst_log_entry_s list \<Rightarrow> mid_start_s list \<Rightarrow> int \<Rightarrow> u64 \<Rightarrow> u64 \<Rightarrow>
    (int \<times> u64 list) c" where
  "search_back_local_reg_stack log ms reg_stack init off =
     (if ms = [] then Inr (1, [])
      else bindE (search_loop reg_stack init off log ms (replicate INST_LOG_ENTRY_SIZE 0) []) (\<lambda>(_, insts). Inr (0, insts)))"

section \<open>What it finds\<close>

declare search_loop.simps [simp del]

text \<open>The instructions a backward walk comes to that stops at those that write the target.\<close>

inductive backward :: "int \<Rightarrow> u64 \<Rightarrow> u64 \<Rightarrow> inst_log_entry_s list \<Rightarrow> u64 set \<Rightarrow> u64 \<Rightarrow> bool"
    for reg_stack and init and off and log and A where
  back_start: "i \<in> A \<Longrightarrow> backward reg_stack init off log A i"
| back_step: "backward reg_stack init off log A i \<Longrightarrow> \<not> writes_target reg_stack init off (log ! unat i) \<Longrightarrow>
    p \<in> set (back_from (log ! unat i)) \<Longrightarrow> backward reg_stack init off log A (word_of_int p)"

definition mids :: "mid_start_s list \<Rightarrow> u64 set" where
  "mids ms = mid_start ` {m \<in> set ms. mid_valid m = 1}"

definition flags_ok :: "mid_start_s list \<Rightarrow> bool" where
  "flags_ok ms \<longleftrightarrow> (\<forall>m \<in> set ms. mid_valid m \<in> {0, 1})"

lemma mids_simps [simp]: "mids [] = {}" "flags_ok []"
    "mids (m # ms) = (if mid_valid m = 1 then insert (mid_start m) (mids ms) else mids ms)"
    "flags_ok (m # ms) \<longleftrightarrow> mid_valid m \<in> {0, 1} \<and> flags_ok ms"
  by (auto simp: mids_def flags_ok_def)

lemma take_mid_None: "take_mid ms = None \<longleftrightarrow> mids ms = {}"
  by (induction ms) auto

lemma take_mid_Some:
  "take_mid ms = Some (i, ms') \<Longrightarrow> mids ms = insert i (mids ms') \<and> (flags_ok ms \<longrightarrow> flags_ok ms') \<and>
    \<not> list_all (\<lambda>m. mid_valid m \<noteq> 0) ms'"
  by (induction ms arbitrary: i ms') (auto split: if_splits)

lemma fill_mids_mids:
  "flags_ok ms \<Longrightarrow> mids (fill_mids ps ms) = word_of_int ` set ps \<union> mids ms \<and> flags_ok (fill_mids ps ms)"
  by (induction ps ms rule: fill_mids.induct) auto

definition seen_set :: "int list \<Rightarrow> u64 set" where
  "seen_set seen = {i. unat i < length seen \<and> seen ! unat i \<noteq> 0}"

lemma seen_set_add:
  "unat i < length seen \<Longrightarrow> seen_set (seen[unat i := 1]) = insert i (seen_set seen)"
  by (auto simp: seen_set_def nth_list_update split: if_splits dest: word_unat_eq_iff [THEN iffD2])

text \<open>
  The state of the search: \<open>S\<close> are the instructions seen. All of them, and all places left, are on
  a backward walk; what follows one that was seen is seen or a place left; the list holds those
  that write the target.
\<close>

definition searching :: "int \<Rightarrow> u64 \<Rightarrow> u64 \<Rightarrow> inst_log_entry_s list \<Rightarrow> u64 set \<Rightarrow> mid_start_s list \<Rightarrow> int list \<Rightarrow> u64 list \<Rightarrow> bool" where
  "searching reg_stack init off log A ms seen insts \<longleftrightarrow>
     (let S = seen_set seen in
      flags_ok ms \<and> S \<union> mids ms \<subseteq> Collect (backward reg_stack init off log A) \<and> A \<subseteq> S \<union> mids ms \<and>
      (\<forall>i \<in> S. \<not> writes_target reg_stack init off (log ! unat i) \<longrightarrow> word_of_int ` set (back_from (log ! unat i)) \<subseteq> S \<union> mids ms) \<and>
      distinct insts \<and> set insts = {i \<in> S. writes_target reg_stack init off (log ! unat i)})"

lemma searching_seen:
  assumes s: "searching reg_stack init off log A ms seen insts" and t: "take_mid ms = Some (i, ms')"
    and i: "unat i < length seen" "seen ! unat i \<noteq> 0"
  shows "searching reg_stack init off log A ms' seen insts"
proof -
  have m: "mids ms = insert i (mids ms')" "flags_ok ms'" using take_mid_Some [OF t] s by (auto simp: searching_def Let_def)
  let ?S = "seen_set seen"
  have e: "?S \<union> mids ms = ?S \<union> mids ms'" using m(1) i by (auto simp: seen_set_def)
  show ?thesis using s m(2) unfolding searching_def Let_def e by blast
qed

lemma searching_step:
  assumes s: "searching reg_stack init off log A ms seen insts" and t: "take_mid ms = Some (i, ms')"
    and i: "unat i < length seen" "seen ! unat i = 0"
    and w: "writes_target reg_stack init off (log ! unat i) \<and> insts' = insts @ [i] \<and> ms'' = ms' \<or>
      \<not> writes_target reg_stack init off (log ! unat i) \<and> insts' = insts \<and> ms'' = fill_mids (back_from (log ! unat i)) ms'"
  shows "searching reg_stack init off log A ms'' (seen[unat i := 1]) insts'"
proof -
  let ?w = "\<lambda>i. writes_target reg_stack init off (log ! unat i)"
  let ?ps = "\<lambda>i. word_of_int ` set (back_from (log ! unat i)) :: u64 set"
  let ?S = "seen_set seen" and ?seen = "seen[unat i := 1]"
  let ?S' = "seen_set ?seen"
  let ?reach = "Collect (backward reg_stack init off log A)"
  have m: "mids ms = insert i (mids ms')" "flags_ok ms'" using take_mid_Some [OF t] s by (auto simp: searching_def Let_def)
  have S: "?S' = insert i ?S" "i \<notin> ?S" using i seen_set_add by (simp_all add: seen_set_def)
  have old: "?S \<union> mids ms \<subseteq> ?reach" "A \<subseteq> ?S \<union> mids ms" "distinct insts" "set insts = {i \<in> ?S. ?w i}"
    "\<And>j. j \<in> ?S \<Longrightarrow> \<not> ?w j \<Longrightarrow> ?ps j \<subseteq> ?S \<union> mids ms" using s by (auto simp: searching_def Let_def)
  have back_i: "i \<in> ?reach" using old(1) m(1) by auto
  have new: "flags_ok ms''" "mids ms'' = mids ms' \<union> (if ?w i then {} else ?ps i)"
    using w m(2) fill_mids_mids by auto
  have "mids ms'' \<subseteq> ?reach" unfolding new(2) using old(1) m(1) back_step [of reg_stack init off log A i] back_i by auto
  then have 1: "?S' \<union> mids ms'' \<subseteq> ?reach" using old(1) back_i S(1) by auto
  have 2: "A \<subseteq> ?S' \<union> mids ms''" using old(2) m(1) S(1) new(2) by auto
  have 3: "?ps j \<subseteq> ?S' \<union> mids ms''" if "j \<in> ?S'" "\<not> ?w j" for j
    using that old(5) [of j] S(1) m(1) new(2) by (cases "j = i") auto
  have 4: "distinct insts' \<and> set insts' = {i \<in> ?S'. ?w i}" using w old(3,4) S by auto
  show ?thesis unfolding searching_def Let_def using new(1) 1 2 3 4 by blast
qed

lemma searching_done:
  assumes "searching reg_stack init off log A ms seen insts" "mids ms = {}"
  shows "distinct insts \<and> set insts = {i. backward reg_stack init off log A i \<and> writes_target reg_stack init off (log ! unat i)}"
proof -
  let ?S = "seen_set seen"
  have s: "?S \<subseteq> Collect (backward reg_stack init off log A)" "A \<subseteq> ?S" "distinct insts"
    "set insts = {i \<in> ?S. writes_target reg_stack init off (log ! unat i)}"
    "\<forall>i \<in> ?S. \<not> writes_target reg_stack init off (log ! unat i) \<longrightarrow> word_of_int ` set (back_from (log ! unat i)) \<subseteq> ?S"
    using assms(1) unfolding searching_def Let_def assms(2) Un_empty_right by blast+
  have "i \<in> ?S" if "backward reg_stack init off log A i" for i
    using that by (induction rule: backward.induct) (use s(2,5) in blast)+
  then have "?S = Collect (backward reg_stack init off log A)" using s(1) by auto
  then show ?thesis using s(3,4) by auto
qed

text \<open>A free place is always left, so that the search does not stop before its end.\<close>

lemma search_loop_finds:
  "searching reg_stack init off log A ms seen insts \<Longrightarrow> length seen \<le> length log \<Longrightarrow>
    (\<And>i. backward reg_stack init off log A i \<Longrightarrow> unat i < length seen) \<Longrightarrow>
    \<exists>seen' insts'. search_loop reg_stack init off log ms seen insts = Inr (seen', insts') \<and> distinct insts' \<and>
      set insts' = {i. backward reg_stack init off log A i \<and> writes_target reg_stack init off (log ! unat i)}"
proof (induction reg_stack init off log ms seen insts rule: search_loop.induct)
  case (1 reg_stack init off log ms seen insts)
  show ?case
  proof (cases "take_mid ms")
    case None
    then have "mids ms = {}" by (simp add: take_mid_None)
    with searching_done [OF "1.prems"(1)] None show ?thesis by (simp add: search_loop.simps [of _ _ _ _ ms])
  next
    case (Some im)
    obtain i ms' where t: "take_mid ms = Some (i, ms')" using Some by (cases im) auto
    have "i \<in> mids ms" using take_mid_Some [OF t] by auto
    then have "backward reg_stack init off log A i" using "1.prems"(1) by (auto simp: searching_def Let_def)
    then have i: "unat i < length seen" "unat i < length log" using "1.prems"(2,3) by fastforce+
    show ?thesis
    proof (cases "seen ! unat i = 0")
      case False
      have "search_loop reg_stack init off log ms seen insts = search_loop reg_stack init off log ms' seen insts"
        using t i False by (simp add: search_loop.simps [of _ _ _ _ ms])
      with "1.IH"(1) [OF t refl, of "seen ! unat i"] searching_seen [OF "1.prems"(1) t i(1) False] "1.prems"(2,3) i False
      show ?thesis by simp
    next
      case new: True
      let ?seen = "seen[unat i := 1]"
      note step = searching_step [OF "1.prems"(1) t i(1) new]
      consider (w) "writes_target reg_stack init off (log ! unat i)"
        | (no) "\<not> writes_target reg_stack init off (log ! unat i)" "back_from (log ! unat i) = []"
        | (go) "\<not> writes_target reg_stack init off (log ! unat i)" "back_from (log ! unat i) \<noteq> []" by blast
      then show ?thesis
      proof cases
        case w
        have "search_loop reg_stack init off log ms seen insts = search_loop reg_stack init off log ms' ?seen (insts @ [i])"
          using t i new w by (simp add: search_loop.simps [of _ _ _ _ ms] Let_def)
        with "1.IH"(2) [OF t refl] step [of "insts @ [i]" ms'] "1.prems"(2,3) i new w show ?thesis by simp
      next
        case no
        have "search_loop reg_stack init off log ms seen insts = search_loop reg_stack init off log ms' ?seen insts"
          using t i new no by (simp add: search_loop.simps [of _ _ _ _ ms] Let_def)
        with "1.IH"(3) [OF t refl] step [of insts ms'] "1.prems"(2,3) i new no show ?thesis by simp
      next
        case go
        have free: "\<not> list_all (\<lambda>m. mid_valid m \<noteq> 0) ms'" using take_mid_Some [OF t] by simp
        have "search_loop reg_stack init off log ms seen insts =
            search_loop reg_stack init off log (fill_mids (back_from (log ! unat i)) ms') ?seen insts"
          using t i new go free by (simp add: search_loop.simps [of _ _ _ _ ms] Let_def)
        with "1.IH"(4) [OF t refl] step [of insts "fill_mids (back_from (log ! unat i)) ms'"] "1.prems"(2,3) i new go free
        show ?thesis by simp
      qed
    qed
  qed
qed

section \<open>The writers a walk along the predecessors comes to\<close>

text \<open>
  What is looked for, apart from the code: the register or the stack slot that an instruction
  writes, and the walk against the links of the log. Entry 0 stands for no predecessor.
\<close>

datatype cell = Register u64 | Stack_slot u64 u64

definition target_cell :: "int \<Rightarrow> u64 \<Rightarrow> u64 \<Rightarrow> cell" where
  "target_cell reg_stack init off = (if reg_stack = 1 then Register init else Stack_slot init off)"

definition written_cell :: "inst_log_entry_s \<Rightarrow> cell option" where
  "written_cell e =
     (case (store (dstA (instruction e)), indirect (dstA (instruction e))) of
        (STORE_REG, IND_DIRECT) \<Rightarrow> Some (Register (index (dstA (instruction e))))
      | (STORE_REG, IND_STACK) \<Rightarrow>
          if value_scope (value3 e) = 2
          then Some (Stack_slot (indirect_init_value (value3 e)) (indirect_offset_value (value3 e))) else None
      | _ \<Rightarrow> None)"

inductive walks_back :: "cell \<Rightarrow> inst_log_entry_s list \<Rightarrow> u64 set \<Rightarrow> u64 \<Rightarrow> bool" for c and log and A where
  walk_start: "i \<in> A \<Longrightarrow> walks_back c log A i"
| walk_step: "walks_back c log A i \<Longrightarrow> written_cell (log ! unat i) \<noteq> Some c \<Longrightarrow>
    p \<in> set (prev (log ! unat i)) \<Longrightarrow> p \<noteq> 0 \<Longrightarrow> walks_back c log A (word_of_int p)"

text \<open>A 0 among the predecessors is not followed by others, and none comes before it.\<close>

definition prev_clear :: "inst_log_entry_s \<Rightarrow> bool" where
  "prev_clear e \<longleftrightarrow> 0 \<notin> set (prev e) \<or> set (prev e) = {0}"

lemma writes_target_cell:
  assumes "reg_stack = 1 \<or> reg_stack = 2"
  shows "writes_target reg_stack init off e \<longleftrightarrow> written_cell e = Some (target_cell reg_stack init off)"
  using assms unfolding writes_target_def Let_def written_cell_def target_cell_def
  by (auto split: store_kind.splits indirect_kind.splits)

lemma back_from_clear: "prev_clear e \<Longrightarrow> set (back_from e) = set (prev e) - {0}"
  by (cases "prev e") (auto simp: prev_clear_def back_from_def)

lemma backward_walks:
  assumes "reg_stack = 1 \<or> reg_stack = 2"
    and "\<And>i. walks_back (target_cell reg_stack init off) log A i \<Longrightarrow> prev_clear (log ! unat i)"
  shows "backward reg_stack init off log A i \<longleftrightarrow> walks_back (target_cell reg_stack init off) log A i"
proof
  assume "backward reg_stack init off log A i"
  then show "walks_back (target_cell reg_stack init off) log A i"
  proof induction
    case (back_step i p)
    then have "p \<in> set (prev (log ! unat i))" "p \<noteq> 0" using back_from_clear [OF assms(2)] by auto
    with back_step show ?case by (intro walk_step) (simp_all add: writes_target_cell [OF assms(1)])
  qed (rule walk_start)
next
  assume "walks_back (target_cell reg_stack init off) log A i"
  then show "backward reg_stack init off log A i"
  proof induction
    case (walk_step i p)
    then have "p \<in> set (back_from (log ! unat i))" using back_from_clear [OF assms(2) [OF walk_step(1)]] by simp
    with walk_step show ?case by (intro back_step) (simp_all add: writes_target_cell [OF assms(1)])
  qed (rule back_start)
qed

text \<open>
  C21. From at least one place to start search_back_local_reg_stack returns, once each,
  exactly the instructions that write the register or the stack slot and that a walk along
  all the predecessors comes to without passing another such write, when the walk stays
  inside the log and meets no list of predecessors that has a 0 beside others.
\<close>
theorem search_back_finds:
  assumes "ms \<noteq> []" "flags_ok ms" "INST_LOG_ENTRY_SIZE \<le> length log" "reg_stack = 1 \<or> reg_stack = 2"
    and "\<And>i. walks_back (target_cell reg_stack init off) log (mids ms) i \<Longrightarrow> unat i < INST_LOG_ENTRY_SIZE \<and> prev_clear (log ! unat i)"
  shows "\<exists>insts. search_back_local_reg_stack log ms reg_stack init off = Inr (0, insts) \<and> distinct insts \<and>
    set insts = {i. walks_back (target_cell reg_stack init off) log (mids ms) i \<and>
      written_cell (log ! unat i) = Some (target_cell reg_stack init off)}"
proof -
  have same: "backward reg_stack init off log (mids ms) i \<longleftrightarrow> walks_back (target_cell reg_stack init off) log (mids ms) i" for i
    using backward_walks [OF assms(4)] assms(5) by simp
  have none: "seen_set (replicate n 0) = {}" for n by (auto simp: seen_set_def)
  have "searching reg_stack init off log (mids ms) ms (replicate INST_LOG_ENTRY_SIZE 0) []"
    using assms(2) by (auto simp: searching_def Let_def none intro: back_start)
  from search_loop_finds [OF this] assms(1,3,5) show ?thesis
    by (auto simp: search_back_local_reg_stack_def same writes_target_cell [OF assms(4)])
qed

end
