(* ===== verification/LabelExamples.thy ===== *)
theory LabelExamples
  imports GraphExamples Labels SearchBack
begin

text \<open>
  The labels of a small function, the scan that collects its parameter and its local, and a
  search backwards for the writes of a register: the properties of \<open>Labels\<close> and \<open>SearchBack\<close> at
  concrete inputs.
\<close>

section \<open>Labels of a function\<close>

text \<open>
  Value 1 is the parameter in register \<open>0x40\<close>, value 2 a local, value 3 a constant. The two
  instructions of the function add value 1 and 2 into 2 and return 2.
\<close>

definition ex_labels :: "label_s list" where
  "ex_labels = [ex_label 0 0 0, ex_label 2 1 0x40, ex_label 1 1 2, ex_label 6 1 3]"

definition ex_value :: "u64 \<Rightarrow> memory_s" where
  "ex_value i = zero_memory\<lparr>value_id := i\<rparr>"

definition ex_scan_log :: "inst_log_entry_s list" where
  "ex_scan_log = [ex_step [] [1],
     (ex_alu OP_ADD)\<lparr>value1 := ex_value 1, value2 := ex_value 3, value3 := ex_value 2, prev := [0], next_inst := [2]\<rparr>,
     (ex_alu OP_RET)\<lparr>value1 := ex_value 2, prev := [1]\<rparr>]"

definition ex_scan_entry :: external_entry_point_s where
  "ex_scan_entry = (ex_callee 0)\<lparr>label_redirect := [\<lparr>redirect = 0\<rparr>, \<lparr>redirect = 1\<rparr>, \<lparr>redirect = 2\<rparr>, \<lparr>redirect = 3\<rparr>],
     labels := ex_labels, eep_nodes := [ex_node [] [], (ex_node [] [])\<lparr>inst_start := 1, inst_end := 2\<rparr>]\<rparr>"

definition ex_scan :: self_s where
  "ex_scan = ex_self\<lparr>inst_log_entry := ex_scan_log, external_entry_points := [ex_scan_entry]\<rparr>"

definition ex_scanned :: self_s where
  "ex_scanned = snd (projr (scan_for_labels_in_function_body ex_scan 0))"

lemma ex_scanned: "scan_for_labels_in_function_body ex_scan 0 = Inr (0, ex_scanned)"
  by code_simp

lemma log_to_label_proper_witness: "proper_label (snd (log_to_label STORE_REG IND_STACK 0 32 0 2 0 (- 8) (ex_label 0 0 0)))"
proof -
  have run: "log_to_label STORE_REG IND_STACK 0 32 0 2 0 (- 8) (ex_label 0 0 0) =
      (0, snd (log_to_label STORE_REG IND_STACK 0 32 0 2 0 (- 8) (ex_label 0 0 0)))" by code_simp
  from log_to_label_proper [OF run] show ?thesis by simp
qed

lemma scan_for_labels_collects_witness:
  "params (external_entry_points ex_scanned ! 0) = [1] \<and> locals (external_entry_points ex_scanned ! 0) = [2]"
proof -
  let ?ids = "concat (map (node_values (inst_log_entry ex_scan)) (drop 1 (eep_nodes (external_entry_points ex_scan ! 0))))"
  have "?ids = [1, 3, 2, 2]" "external_entry_points ex_scan = [ex_scan_entry]"
    "params (with_values [1, 3, 2, 2] ex_scan_entry) = [1]" "locals (with_values [1, 3, 2, 2] ex_scan_entry) = [2]"
    by code_simp+
  moreover from this have "external_entry_points ex_scanned ! 0 = with_values [1, 3, 2, 2] ex_scan_entry"
    using arg_cong [OF scan_for_labels_collects [OF ex_scanned], of external_entry_points] by simp
  ultimately show ?thesis by simp
qed

lemma scan_for_labels_labelled_witness: "labelled (external_entry_points ex_scanned ! 0)"
proof -
  have "labelled (external_entry_points ex_scan ! 0)" by code_simp
  from scan_for_labels_labelled [OF ex_scanned this] show ?thesis .
qed

lemma scan_for_labels_ends_witness: "scan_for_labels_in_function_body ex_scan 0 \<noteq> Inl Diverge"
proof (rule scan_for_labels_ends)
  have log: "inst_log_entry ex_scan = ex_scan_log" "length ex_scan_log = 3"
    "drop 1 (eep_nodes (external_entry_points ex_scan ! 0)) = [(ex_node [] [])\<lparr>inst_start := 1, inst_end := 2\<rparr>]"
    "ends_at ex_scan_log 2" "\<not> ends_at ex_scan_log 1" "nexts ex_scan_log 1 = [2]" by code_simp+
  have "flow ex_scan_log 2 [2]" by (rule flow_end) (rule log)
  then have "flow ex_scan_log 1 [1, 2]" by (intro flow_next) (simp_all add: log)
  then show "function_nodes (inst_log_entry ex_scan) (drop 1 (eep_nodes (external_entry_points ex_scan ! 0)))"
    unfolding log by (auto simp: function_nodes_def log(2) ex_node_def intro!: exI [of _ "[1, 2]"])
qed

section \<open>A search for the writes of a register\<close>

text \<open>Instructions 1 and 3 write register 16, instruction 2 follows both.\<close>

definition ex_other :: "int list \<Rightarrow> inst_log_entry_s" where
  "ex_other ps = (ex_entry (ex_inst OP_NOP (ex_reg 8) (ex_number 3) (ex_reg 24)))\<lparr>prev := ps\<rparr>"

definition ex_back_log :: "inst_log_entry_s list" where
  "ex_back_log = [ex_other [], ex_step [0] [], ex_other [1, 3], ex_step [2] []] @ replicate INST_LOG_ENTRY_SIZE (ex_other [])"

definition ex_places :: "mid_start_s list" where
  "ex_places = [\<lparr>mid_start = 2, mid_valid = 1\<rparr>]"

lemma search_back_finds_witness:
  "\<exists>insts. search_back_local_reg_stack ex_back_log ex_places 1 16 0 = Inr (0, insts) \<and> set insts = {1, 3}"
proof -
  have places: "ex_places \<noteq> []" "flags_ok ex_places" "mids ex_places = {2}" by (simp_all add: ex_places_def)
  have len: "INST_LOG_ENTRY_SIZE \<le> length ex_back_log" by (simp add: ex_back_log_def)
  have at: "ex_back_log ! Suc 0 = ex_step [0] []" "ex_back_log ! 1 = ex_step [0] []" "ex_back_log ! 2 = ex_other [1, 3]" "ex_back_log ! 3 = ex_step [2] []"
    unfolding ex_back_log_def by (simp_all add: nth_append)
  let ?c = "target_cell 1 16 0"
  have w: "written_cell (ex_step [0] []) = Some ?c" "written_cell (ex_step [2] []) = Some ?c"
    "written_cell (ex_other [1, 3]) \<noteq> Some ?c" by code_simp+
  have p: "prev (ex_step [0] []) = [0]" "prev (ex_step [2] []) = [2]" "prev (ex_other [1, 3]) = [1, 3]" by code_simp+
  let ?reach = "walks_back ?c ex_back_log (mids ex_places)"
  have sub: "i \<in> {1, 2, 3}" if "?reach i" for i
    using that by (induction rule: walks_back.induct) (auto simp: places at w p)
  have two: "?reach 2" by (rule walk_start) (simp add: places)
  have "?reach (word_of_int 1)" "?reach (word_of_int 3)" by (rule walk_step [OF two]; simp add: at w p)+
  with two sub have reach: "?reach i \<longleftrightarrow> i \<in> {1, 2, 3}" for i by auto
  have ok: "unat i < INST_LOG_ENTRY_SIZE \<and> prev_clear (ex_back_log ! unat i)" if "?reach i" for i
    using that by (auto simp: reach INST_LOG_ENTRY_SIZE_def at prev_clear_def p)
  have "{i. ?reach i \<and> written_cell (ex_back_log ! unat i) = Some ?c} = {1, 3}"
    by (auto simp: reach at w)
  with search_back_finds [OF places(1,2) len, of 1 16 0] ok show ?thesis by auto
qed

end
