(* ===== verification/Rtl.thy ===== *)
theory Rtl
  imports Block
begin

text \<open>
  \<open>src/input/convert_ll_inst_to_rtl/dis.c\<close>: the conversion of a low level machine instruction, as
  the decoder gives it, into at most ten RTL instructions. An operand in memory is taken apart
  into instructions that work out its address in a temporary register, a \<open>LOAD\<close> and a \<open>STORE\<close>; an
  instruction is filled in by three functions on its old operands, since the array is not
  cleared. The relocation table is a parameter, \<open>None\<close> when there is no binary file.
\<close>

declare One_nat_def [simp del]

section \<open>Low level instructions\<close>

datatype operand_kind = KIND_EMPTY | KIND_REG | KIND_IMM | KIND_SCALE | KIND_IND_REG | KIND_IND_IMM | KIND_IND_SCALE

record sub_operand_low_level_s =
  sub_value :: u64
  sub_size :: int
  sub_offset :: u64

record operand_low_level_s =
  kind :: operand_kind
  ll_size :: int
  ll_operand :: "sub_operand_low_level_s list"

record instruction_low_level_s =
  ll_opcode :: opcode
  ll_address :: u64
  octets :: int
  rep :: int
  ll_predicate :: int
  ll_srcA :: operand_low_level_s
  ll_srcB :: operand_low_level_s
  ll_dstA :: operand_low_level_s

text \<open>
  The RTL instructions of one machine instruction: an array of ten, of which
  \<open>instruction_number\<close> are filled. The array is not cleared between two machine instructions, so that
  a field that is not set keeps what it held.
\<close>

record dis_instructions_s =
  bytes_used :: int
  instruction_number :: nat
  dis_instruction :: "instruction_s list"

definition REG_AX :: u64 where "REG_AX = 0x08"
definition REG_CX :: u64 where "REG_CX = 0x10"
definition REG_SP :: u64 where "REG_SP = 0x28"
definition REG_BP :: u64 where "REG_BP = 0x30"
definition REG_TMP1 :: u64 where "REG_TMP1 = 0x160"
definition REG_TMP2 :: u64 where "REG_TMP2 = 0x180"

section \<open>Operands\<close>

definition set_operand :: "store_kind \<Rightarrow> indirect_kind \<Rightarrow> int \<Rightarrow> u64 \<Rightarrow> int \<Rightarrow> operand_s \<Rightarrow> operand_s" where
  "set_operand st ind isz ix vs opd =
     opd\<lparr>store := st, indirect := ind, indirect_size := isz, index := ix, relocated := 0, value_size := vs\<rparr>"

definition bf_relocated_code :: "reloc_s list \<Rightarrow> u64 \<Rightarrow> reloc_s option" where
  "bf_relocated_code relocs offset = find (\<lambda>r. rel_address r = offset) relocs"

text \<open>The relocation table is there when the program has a handle of the binary file.\<close>

definition relocate_operand :: "reloc_s list option \<Rightarrow> u64 \<Rightarrow> operand_s \<Rightarrow> operand_s" where
  "relocate_operand handle offset opd =
     (case handle of
        None \<Rightarrow> opd
      | Some relocs \<Rightarrow>
          (case bf_relocated_code relocs offset of
             None \<Rightarrow> opd
           | Some r \<Rightarrow> opd\<lparr>relocated := 2, relocated_area := to_int (rel_area r),
               relocated_index := to_int (rel_symbol_value r)\<rparr>))"

definition convert_operand :: "reloc_s list option \<Rightarrow> u64 \<Rightarrow> operand_low_level_s \<Rightarrow> nat \<Rightarrow> operand_s \<Rightarrow> operand_s c" where
  "convert_operand handle base ll n opd =
     (case kind ll of
        KIND_EMPTY \<Rightarrow> Inr (set_operand STORE_DIRECT IND_DIRECT 0 0 0 opd)
      | KIND_REG \<Rightarrow> bindE (at (ll_operand ll) n) (\<lambda>s.
          Inr (set_operand STORE_REG IND_DIRECT (ll_size ll) (sub_value s) (sub_size s) opd))
      | KIND_IMM \<Rightarrow> bindE (at (ll_operand ll) n) (\<lambda>s.
          Inr (relocate_operand handle (base + sub_offset s)
            (set_operand STORE_DIRECT IND_DIRECT (ll_size ll) (sub_value s) (ll_size ll) opd)))
      | k \<Rightarrow>
          if k \<in> {KIND_SCALE, KIND_IND_SCALE} \<and> n \<in> {0, 2, 4} then bindE (at (ll_operand ll) n) (\<lambda>s.
            Inr (set_operand STORE_REG IND_DIRECT (ll_size ll) (sub_value s) (sub_size s) opd))
          else if k \<in> {KIND_SCALE, KIND_IND_SCALE} \<and> n \<in> {1, 3} then bindE (at (ll_operand ll) n) (\<lambda>s.
            Inr (set_operand STORE_DIRECT IND_DIRECT (ll_size ll) (sub_value s) (sub_size s) opd))
          else Inl (Exit 1))"

text \<open>Operands of one part; the other fifteen are never looked at.\<close>

definition one_part :: "operand_kind \<Rightarrow> u64 \<Rightarrow> int \<Rightarrow> u64 \<Rightarrow> operand_low_level_s" where
  "one_part k v bits offset = \<lparr>kind = k, ll_size = 64, ll_operand = [\<lparr>sub_value = v, sub_size = bits, sub_offset = offset\<rparr>]\<rparr>"

definition operand_empty :: operand_low_level_s where
  "operand_empty = \<lparr>kind = KIND_EMPTY, ll_size = 0, ll_operand = []\<rparr>"

definition operand_reg_tmp1 :: operand_low_level_s where
  "operand_reg_tmp1 = one_part KIND_REG REG_TMP1 64 0"

definition operand_reg_tmp2 :: operand_low_level_s where
  "operand_reg_tmp2 = one_part KIND_REG REG_TMP2 64 0"

section \<open>Filling in an instruction\<close>

type_synonym fill = "operand_s \<Rightarrow> operand_s c"

definition fixed :: "store_kind \<Rightarrow> indirect_kind \<Rightarrow> int \<Rightarrow> u64 \<Rightarrow> int \<Rightarrow> fill" where
  "fixed st ind isz ix vs opd = Inr (set_operand st ind isz ix vs opd)"

definition reg64 :: "u64 \<Rightarrow> fill" where
  "reg64 r = fixed STORE_REG IND_DIRECT 64 r 64"

definition imm :: "u64 \<Rightarrow> int \<Rightarrow> fill" where
  "imm v vs = fixed STORE_DIRECT IND_DIRECT 64 v vs"

definition sized :: "int \<Rightarrow> fill \<Rightarrow> fill" where
  "sized n f opd = bindE (f opd) (\<lambda>x. Inr (x\<lparr>value_size := n\<rparr>))"

definition via :: "indirect_kind \<Rightarrow> fill \<Rightarrow> fill" where
  "via ind f opd = bindE (f opd) (\<lambda>x. Inr (x\<lparr>indirect := ind\<rparr>))"

definition via_sized :: "indirect_kind \<Rightarrow> int \<Rightarrow> fill \<Rightarrow> fill" where
  "via_sized ind n f opd = bindE (f opd) (\<lambda>x. Inr (x\<lparr>indirect := ind, indirect_size := n\<rparr>))"

text \<open>
  The next instruction gets its opcode, its flags and its operands; \<open>Inr\<close> as an operand leaves
  it as it is. The predicate is never set.
\<close>

definition emit :: "opcode \<Rightarrow> int \<Rightarrow> fill \<Rightarrow> fill \<Rightarrow> fill \<Rightarrow> dis_instructions_s \<Rightarrow> dis_instructions_s c" where
  "emit opc fl fa fb fd d =
     bindE (at (dis_instruction d) (instruction_number d)) (\<lambda>i.
     bindE (fa (srcA i)) (\<lambda>a.
     bindE (fb (srcB i)) (\<lambda>b.
     bindE (fd (dstA i)) (\<lambda>x.
       Inr (d\<lparr>dis_instruction := (dis_instruction d)[instruction_number d :=
                i\<lparr>opcode := opc, flags := fl, srcA := a, srcB := b, dstA := x\<rparr>],
              instruction_number := Suc (instruction_number d)\<rparr>)))))"

text \<open>The last instruction is changed after all.\<close>

definition patch_last :: "fill \<Rightarrow> fill \<Rightarrow> dis_instructions_s \<Rightarrow> dis_instructions_s c" where
  "patch_last fb fd d =
     (if instruction_number d = 0 then Inl OutOfBounds
      else bindE (at (dis_instruction d) (instruction_number d - 1)) (\<lambda>i.
        bindE (fb (srcB i)) (\<lambda>b.
        bindE (fd (dstA i)) (\<lambda>x.
          Inr (d\<lparr>dis_instruction := (dis_instruction d)[instruction_number d - 1 := i\<lparr>srcB := b, dstA := x\<rparr>]\<rparr>)))))"

section \<open>The address of a scaled operand\<close>

text \<open>
  A scaled operand has five parts: base register, factor, index register, displacement, segment.
  The value worked out so far is the operand \<open>prev\<close>, \<open>None\<close> standing for \<open>operand_empty\<close>.
\<close>

definition part :: "operand_low_level_s \<Rightarrow> nat \<Rightarrow> sub_operand_low_level_s c" where
  "part ll n = at (ll_operand ll) n"

definition as_reg :: "sub_operand_low_level_s \<Rightarrow> operand_low_level_s" where
  "as_reg s = one_part KIND_REG (sub_value s) (sub_size s) (sub_offset s)"

text \<open>The absolute value of a displacement, and whether it is negative.\<close>

definition displacement :: "sub_operand_low_level_s \<Rightarrow> bool \<times> operand_low_level_s" where
  "displacement s =
     (sint (sub_value s) < 0,
      one_part KIND_IMM (if sint (sub_value s) < 0 then - sub_value s else sub_value s) (sub_size s) (sub_offset s))"

type_synonym address = "operand_low_level_s option \<times> dis_instructions_s"

definition prev_operand :: "operand_low_level_s option \<Rightarrow> operand_low_level_s" where
  "prev_operand p = (case p of None \<Rightarrow> operand_empty | Some x \<Rightarrow> x)"

text \<open>Index times factor. A factor of 0 is an error in a memory operand only.\<close>

definition scale_index :: "reloc_s list option \<Rightarrow> instruction_low_level_s \<Rightarrow> bool \<Rightarrow> operand_low_level_s \<Rightarrow> dis_instructions_s \<Rightarrow> address c" where
  "scale_index handle ll memory sc d =
     bindE (part sc 2) (\<lambda>ix. bindE (part sc 1) (\<lambda>factor.
       if sub_value ix = 0 then Inr (None, d)
       else if sub_value factor = 1 then Inr (Some (as_reg ix), d)
       else if 1 < sub_value factor then
         bindE (emit OP_IMUL 0 (convert_operand handle (ll_address ll) sc 2)
           ((if memory then sized 64 else id) (convert_operand handle (ll_address ll) sc 1))
           (convert_operand handle (ll_address ll) operand_reg_tmp1 0) d) (\<lambda>d. Inr (Some operand_reg_tmp1, d))
       else if memory then Inl (Exit 1) else Inr (None, d)))"

text \<open>The operand of \<open>LEA\<close>: the displacement is added to the index, and the result to the base.\<close>

definition lea_displacement :: "reloc_s list option \<Rightarrow> instruction_low_level_s \<Rightarrow> operand_low_level_s \<Rightarrow> address \<Rightarrow> (bool \<times> address) c" where
  "lea_displacement handle ll sc s =
     (case s of (p, d) \<Rightarrow>
        bindE (part sc 3) (\<lambda>disp.
          let (neg, opd) = displacement disp in
          if sub_value disp = 0 then Inr (False, p, d)
          else case p of
                 None \<Rightarrow> Inr (neg, Some opd, d)
               | Some x \<Rightarrow>
                   bindE (emit (if neg then OP_SUB else OP_ADD) 0 (convert_operand handle (ll_address ll) x 0)
                     (convert_operand handle (ll_address ll) opd 0)
                     (convert_operand handle (ll_address ll) operand_reg_tmp1 0) d) (\<lambda>d.
                   Inr (neg, Some operand_reg_tmp1, d))))"

definition lea_base :: "reloc_s list option \<Rightarrow> instruction_low_level_s \<Rightarrow> operand_low_level_s \<Rightarrow> bool \<times> address \<Rightarrow> dis_instructions_s c" where
  "lea_base handle ll sc s =
     (case s of (neg, p, d) \<Rightarrow>
        emit (case p of None \<Rightarrow> OP_MOV | Some _ \<Rightarrow> if neg then OP_SUB else OP_ADD) 0
          (convert_operand handle (ll_address ll) sc 0) (convert_operand handle (ll_address ll) (prev_operand p) 0)
          (convert_operand handle (ll_address ll) operand_reg_tmp1 0) d)"

definition lea_address :: "reloc_s list option \<Rightarrow> instruction_low_level_s \<Rightarrow> operand_low_level_s \<Rightarrow> dis_instructions_s \<Rightarrow> dis_instructions_s c" where
  "lea_address handle ll sc d =
     bindE (scale_index handle ll False sc d) (\<lambda>s. bindE (lea_displacement handle ll sc s) (lea_base handle ll sc))"

text \<open>A memory operand: the base is added to the index, and the displacement to the result.\<close>

definition memory_base :: "reloc_s list option \<Rightarrow> instruction_low_level_s \<Rightarrow> operand_low_level_s \<Rightarrow> address \<Rightarrow> address c" where
  "memory_base handle ll sc s =
     (case s of (p, d) \<Rightarrow>
        bindE (part sc 0) (\<lambda>b.
          if sub_value b = 0 then Inr (p, d)
          else case p of
                 None \<Rightarrow> Inr (Some (as_reg b), d)
               | Some x \<Rightarrow>
                   bindE (emit OP_ADD 0 (convert_operand handle (ll_address ll) x 0) (convert_operand handle (ll_address ll) sc 0)
                     (convert_operand handle (ll_address ll) operand_reg_tmp1 0) d) (\<lambda>d.
                   Inr (Some operand_reg_tmp1, d))))"

definition memory_displacement :: "reloc_s list option \<Rightarrow> instruction_low_level_s \<Rightarrow> operand_low_level_s \<Rightarrow> address \<Rightarrow> dis_instructions_s c" where
  "memory_displacement handle ll sc s =
     (case s of (p, d) \<Rightarrow>
        bindE (part sc 3) (\<lambda>disp.
          let (neg, opd) = displacement disp in
          emit (if neg then OP_SUB else OP_ADD) 0
            (convert_operand handle (ll_address ll) (case p of None \<Rightarrow> one_part KIND_IMM 0 0 0 | Some x \<Rightarrow> x) 0)
            (convert_operand handle (ll_address ll) opd 0)
            (convert_operand handle (ll_address ll) operand_reg_tmp1 0) d))"

definition memory_address :: "reloc_s list option \<Rightarrow> instruction_low_level_s \<Rightarrow> operand_low_level_s \<Rightarrow> dis_instructions_s \<Rightarrow> dis_instructions_s c" where
  "memory_address handle ll sc d =
     bindE (scale_index handle ll True sc d) (\<lambda>s. bindE (memory_base handle ll sc s) (memory_displacement handle ll sc))"

section \<open>The operation itself\<close>

definition is_ind :: "operand_low_level_s \<Rightarrow> bool" where
  "is_ind ll \<longleftrightarrow> kind ll \<in> {KIND_IND_REG, KIND_IND_IMM, KIND_IND_SCALE}"

definition convert_direct :: "reloc_s list option \<Rightarrow> instruction_low_level_s \<Rightarrow> int \<Rightarrow> dis_instructions_s \<Rightarrow> dis_instructions_s c" where
  "convert_direct handle ll fl d =
     (if kind (ll_dstA ll) = KIND_SCALE \<or> kind (ll_srcA ll) = KIND_SCALE \<and> kind (ll_srcB ll) = KIND_SCALE then Inl (Exit 1)
      else if kind (ll_srcB ll) = KIND_SCALE then
        bindE (lea_address handle ll (ll_srcB ll) d)
          (emit OP_MOV fl (convert_operand handle (ll_address ll) operand_reg_tmp1 0)
            (convert_operand handle (ll_address ll) (ll_srcB ll) 0) (convert_operand handle (ll_address ll) (ll_dstA ll) 0))
      else if kind (ll_srcA ll) = KIND_SCALE then Inl (Exit 1)
      else emit (ll_opcode ll) fl (convert_operand handle (ll_address ll) (ll_srcA ll) 0)
             (convert_operand handle (ll_address ll) (ll_srcB ll) 0) (convert_operand handle (ll_address ll) (ll_dstA ll) 0) d)"

text \<open>
  The memory operand is the second source, or the first, or the destination. Without a scaled
  operand \<open>scale_operand\<close> is not set.
\<close>

definition scale_operand :: "instruction_low_level_s \<Rightarrow> operand_low_level_s c" where
  "scale_operand ll =
     (if kind (ll_srcB ll) = KIND_IND_SCALE then Inr (ll_srcB ll)
      else if kind (ll_srcA ll) = KIND_IND_SCALE then Inr (ll_srcA ll)
      else if kind (ll_dstA ll) = KIND_IND_SCALE then Inr (ll_dstA ll)
      else Inl Uninit)"

definition memory_kind :: "operand_low_level_s \<Rightarrow> indirect_kind c" where
  "memory_kind sc = bindE (part sc 0) (\<lambda>b.
     Inr (if REG_SP \<le> sub_value b \<and> sub_value b \<le> REG_BP then IND_STACK else IND_MEM))"

definition load_operand :: "reloc_s list option \<Rightarrow> instruction_low_level_s \<Rightarrow> indirect_kind \<Rightarrow> dis_instructions_s \<Rightarrow> dis_instructions_s c" where
  "load_operand handle ll ind d =
     (if kind (ll_srcA ll) = KIND_IND_SCALE \<or> kind (ll_srcB ll) = KIND_IND_SCALE then
        emit OP_LOAD 0
          (via ind (sized (ll_size (ll_srcA ll)) (convert_operand handle (ll_address ll) operand_reg_tmp1 0)))
          (sized 64 (convert_operand handle (ll_address ll) operand_reg_tmp1 0))
          (sized (ll_size (ll_srcA ll)) (convert_operand handle (ll_address ll) operand_reg_tmp2 0)) d
      else Inr d)"

text \<open>A memory operand is replaced by the second temporary register.\<close>

definition or_tmp2 :: "operand_low_level_s \<Rightarrow> operand_low_level_s" where
  "or_tmp2 ll = (if kind ll = KIND_IND_SCALE then operand_reg_tmp2 else ll)"

definition memory_operation :: "reloc_s list option \<Rightarrow> instruction_low_level_s \<Rightarrow> int \<Rightarrow> dis_instructions_s \<Rightarrow> dis_instructions_s c" where
  "memory_operation handle ll fl =
     emit (ll_opcode ll) fl
       (sized (ll_size (ll_srcA ll)) (convert_operand handle (ll_address ll) (or_tmp2 (ll_srcA ll)) 0))
       (sized (ll_size (ll_srcB ll)) (convert_operand handle (ll_address ll) (or_tmp2 (ll_srcB ll)) 0))
       (if kind (ll_dstA ll) = KIND_IND_SCALE
        then sized (ll_size (ll_dstA ll)) (convert_operand handle (ll_address ll) operand_reg_tmp2 0)
        else convert_operand handle (ll_address ll) (ll_dstA ll) 0)"

definition store_operand :: "reloc_s list option \<Rightarrow> instruction_low_level_s \<Rightarrow> indirect_kind \<Rightarrow> dis_instructions_s \<Rightarrow> dis_instructions_s c" where
  "store_operand handle ll ind d =
     (if kind (ll_dstA ll) = KIND_IND_SCALE then
        emit OP_STORE 0
          (sized (ll_size (ll_srcA ll)) (convert_operand handle (ll_address ll) operand_reg_tmp2 0))
          (convert_operand handle (ll_address ll) operand_reg_tmp1 0)
          (via ind (sized (ll_size (ll_dstA ll)) (convert_operand handle (ll_address ll) operand_reg_tmp1 0))) d
      else Inr d)"

definition convert_indirect :: "reloc_s list option \<Rightarrow> instruction_low_level_s \<Rightarrow> int \<Rightarrow> dis_instructions_s \<Rightarrow> dis_instructions_s c" where
  "convert_indirect handle ll fl d =
     bindE (scale_operand ll) (\<lambda>sc.
     bindE (memory_kind sc) (\<lambda>ind.
     bindE (memory_address handle ll sc d) (\<lambda>d.
     bindE (load_operand handle ll ind d) (\<lambda>d.
     bindE (memory_operation handle ll fl d) (store_operand handle ll ind)))))"

text \<open>At the start the next instruction becomes a \<open>NOP\<close>.\<close>

definition convert_base :: "reloc_s list option \<Rightarrow> instruction_low_level_s \<Rightarrow> int \<Rightarrow> dis_instructions_s \<Rightarrow> dis_instructions_s c" where
  "convert_base handle ll fl d =
     bindE (at (dis_instruction d) (instruction_number d)) (\<lambda>i.
       let d = d\<lparr>dis_instruction := (dis_instruction d)[instruction_number d := i\<lparr>opcode := OP_NOP, flags := 0\<rparr>]\<rparr> in
       if is_ind (ll_srcA ll) \<or> is_ind (ll_srcB ll) \<or> is_ind (ll_dstA ll) then convert_indirect handle ll fl d
       else convert_direct handle ll fl d)"

section \<open>The opcodes\<close>

definition converted :: "dis_instructions_s c \<Rightarrow> (int \<times> dis_instructions_s) c" where
  "converted m = bindE m (\<lambda>d. Inr (0, d))"

text \<open>The relative jump of \<open>size\<close> bits, extended to 64.\<close>

definition relative :: "int \<Rightarrow> u64 \<Rightarrow> u64" where
  "relative bits v =
     (if bits = 8 then scast (ucast v :: u8)
      else if bits = 16 then scast (ucast v :: u16)
      else if bits = 32 then scast (ucast v :: u32)
      else v)"

definition emit_if :: "u64 \<Rightarrow> u64 \<Rightarrow> dis_instructions_s \<Rightarrow> dis_instructions_s c" where
  "emit_if cond target = emit OP_IF 0 (imm cond 32) Inr (imm target 32)"

definition with_opcode :: "opcode \<Rightarrow> instruction_low_level_s \<Rightarrow> instruction_low_level_s" where
  "with_opcode opc ll = ll\<lparr>ll_opcode := opc\<rparr>"

definition clear_srcB :: "instruction_low_level_s \<Rightarrow> instruction_low_level_s" where
  "clear_srcB ll = ll\<lparr>ll_srcB := (ll_srcB ll)\<lparr>kind := KIND_EMPTY\<rparr>\<rparr>"

text \<open>The first part of an operand becomes an immediate value.\<close>

definition as_imm :: "u64 \<Rightarrow> int \<Rightarrow> operand_low_level_s \<Rightarrow> operand_low_level_s" where
  "as_imm v bits ll =
     ll\<lparr>kind := KIND_IMM, ll_size := bits,
        ll_operand := (ll_operand ll)[0 := \<lparr>sub_value = v, sub_size = bits, sub_offset = 0\<rparr>]\<rparr>"

definition convert_mov :: "reloc_s list option \<Rightarrow> instruction_low_level_s \<Rightarrow> dis_instructions_s \<Rightarrow> dis_instructions_s c" where
  "convert_mov handle ll = convert_base handle (clear_srcB (ll\<lparr>ll_srcA := ll_srcB ll\<rparr>)) 0"

definition convert_cmov :: "reloc_s list option \<Rightarrow> instruction_low_level_s \<Rightarrow> dis_instructions_s \<Rightarrow> dis_instructions_s c" where
  "convert_cmov handle ll d =
     bindE (emit_if (word_of_int (ll_predicate ll)) 0 d) (convert_base handle (clear_srcB (with_opcode OP_MOV ll)) 0)"

definition convert_setcc :: "reloc_s list option \<Rightarrow> instruction_low_level_s \<Rightarrow> dis_instructions_s \<Rightarrow> dis_instructions_s c" where
  "convert_setcc handle ll d =
     (let set_to = (\<lambda>v. with_opcode OP_MOV (ll\<lparr>ll_dstA := ll_srcA ll, ll_srcA := as_imm v 8 (ll_srcA ll)\<rparr>)) in
      bindE (emit_if (word_of_int (ll_predicate ll)) 0 d) (\<lambda>d.
      bindE (convert_base handle (set_to 1) 0 d) (\<lambda>d.
      bindE (emit_if (word_of_int (xor (ll_predicate ll - 1) 1 + 1)) 0 d) (convert_base handle (set_to 0) 0))))"

definition convert_step :: "reloc_s list option \<Rightarrow> opcode \<Rightarrow> instruction_low_level_s \<Rightarrow> dis_instructions_s \<Rightarrow> dis_instructions_s c" where
  "convert_step handle opc ll =
     (if ll_size (ll_dstA ll) = 0 then (\<lambda>_. Inl (Exit 1))
      else convert_base handle (with_opcode opc (ll\<lparr>ll_srcA := ll_dstA ll,
             ll_srcB := as_imm 1 (ll_size (ll_dstA ll)) (ll_srcB ll)\<rparr>)) 1)"

definition convert_jmpt :: "reloc_s list option \<Rightarrow> instruction_low_level_s \<Rightarrow> dis_instructions_s \<Rightarrow> dis_instructions_s c" where
  "convert_jmpt handle ll d = bindE (convert_base handle (with_opcode OP_JMPT ll) 0 d) (patch_last Inr (reg64 REG_IP))"

definition convert_jmp :: "instruction_low_level_s \<Rightarrow> dis_instructions_s \<Rightarrow> dis_instructions_s c" where
  "convert_jmp ll d = bindE (part (ll_srcB ll) 0) (\<lambda>s.
     emit OP_JMP 0 (imm (relative (sub_size s) (sub_value s)) 64) Inr (reg64 REG_IP) d)"

definition convert_call :: "reloc_s list option \<Rightarrow> instruction_low_level_s \<Rightarrow> dis_instructions_s \<Rightarrow> dis_instructions_s c" where
  "convert_call handle ll =
     emit OP_CALL 0 (convert_operand handle (ll_address ll) (ll_srcB ll) 0) (reg64 REG_SP) (reg64 REG_AX)"

definition convert_callm :: "reloc_s list option \<Rightarrow> instruction_low_level_s \<Rightarrow> dis_instructions_s \<Rightarrow> dis_instructions_s c" where
  "convert_callm handle ll d =
     bindE (convert_base handle (with_opcode OP_CALL ll) 0 d) (patch_last (reg64 REG_SP) (reg64 REG_AX))"

definition convert_if :: "instruction_low_level_s \<Rightarrow> dis_instructions_s \<Rightarrow> dis_instructions_s c" where
  "convert_if ll d = bindE (part (ll_srcB ll) 0) (\<lambda>s.
     emit_if (word_of_int (ll_predicate ll)) (relative (sub_size s) (sub_value s)) d)"

text \<open>\<open>CDQE\<close> has no operands: it extends the accumulator.\<close>

definition accumulator :: "operand_low_level_s \<Rightarrow> operand_low_level_s" where
  "accumulator ll = ll\<lparr>kind := KIND_REG,
     ll_operand := (case ll_operand ll of [] \<Rightarrow> [] | s # ss \<Rightarrow> s\<lparr>sub_value := REG_AX, sub_size := ll_size ll\<rparr> # ss)\<rparr>"

definition convert_sex :: "reloc_s list option \<Rightarrow> instruction_low_level_s \<Rightarrow> dis_instructions_s \<Rightarrow> dis_instructions_s c" where
  "convert_sex handle ll =
     (let ll = (if kind (ll_srcA ll) = KIND_EMPTY \<and> kind (ll_srcB ll) = KIND_EMPTY \<and> kind (ll_dstA ll) = KIND_EMPTY
                then ll\<lparr>ll_srcB := accumulator (ll_srcB ll), ll_dstA := accumulator (ll_dstA ll)\<rparr> else ll)
      in convert_base handle (clear_srcB (ll\<lparr>ll_srcA := ll_srcB ll\<rparr>)) 0)"

definition convert_test :: "reloc_s list option \<Rightarrow> instruction_low_level_s \<Rightarrow> dis_instructions_s \<Rightarrow> dis_instructions_s c" where
  "convert_test handle ll =
     convert_base handle
       (if kind (ll_srcA ll) = KIND_EMPTY \<and> kind (ll_srcB ll) \<noteq> KIND_EMPTY \<and> kind (ll_dstA ll) \<noteq> KIND_EMPTY
        then ll\<lparr>ll_srcA := ll_dstA ll, ll_dstA := (ll_dstA ll)\<lparr>kind := KIND_EMPTY\<rparr>\<rparr> else ll) 1"

section \<open>Instructions with a stack pointer of their own\<close>

fun emits :: "(dis_instructions_s \<Rightarrow> dis_instructions_s c) list \<Rightarrow> dis_instructions_s \<Rightarrow> dis_instructions_s c" where
  "emits [] d = Inr d"
| "emits (f # fs) d = bindE (f d) (emits fs)"

definition load_stack :: "int \<Rightarrow> int \<Rightarrow> fill \<Rightarrow> dis_instructions_s \<Rightarrow> dis_instructions_s c" where
  "load_stack n m dst = emit OP_LOAD 0 (fixed STORE_REG IND_STACK 64 REG_SP n) (fixed STORE_REG IND_DIRECT 64 REG_SP m) dst"

definition move_stack :: "opcode \<Rightarrow> u64 \<Rightarrow> dis_instructions_s \<Rightarrow> dis_instructions_s c" where
  "move_stack opc n = emit opc 0 (reg64 REG_SP) (imm n 64) (reg64 REG_SP)"

definition convert_ret :: "dis_instructions_s \<Rightarrow> dis_instructions_s c" where
  "convert_ret = emits
     [load_stack 64 64 (reg64 REG_TMP1), move_stack OP_ADD 8,
      emit OP_NOP 0 (reg64 REG_AX) (reg64 REG_AX) (reg64 REG_AX),
      emit OP_MOV 0 (reg64 REG_TMP1) (reg64 REG_TMP1) (reg64 REG_IP)]"

definition convert_leave :: "dis_instructions_s \<Rightarrow> dis_instructions_s c" where
  "convert_leave = emits
     [emit OP_MOV 0 (reg64 REG_BP) Inr (reg64 REG_SP), load_stack 64 64 (reg64 REG_BP), move_stack OP_ADD 8]"

definition bytes_of_size :: "int \<Rightarrow> u64" where
  "bytes_of_size n = word_of_int (n div 8)"

definition convert_push :: "reloc_s list option \<Rightarrow> instruction_low_level_s \<Rightarrow> dis_instructions_s \<Rightarrow> dis_instructions_s c" where
  "convert_push handle ll =
     (let n = ll_size (ll_srcA ll) in emits
       [move_stack OP_SUB (bytes_of_size n),
        emit OP_STORE 0 (convert_operand handle (ll_address ll) (ll_srcA ll) 0) (reg64 REG_SP)
          (fixed STORE_REG IND_STACK 64 REG_SP n)])"

definition convert_pop :: "reloc_s list option \<Rightarrow> instruction_low_level_s \<Rightarrow> dis_instructions_s \<Rightarrow> dis_instructions_s c" where
  "convert_pop handle ll =
     (let n = ll_size (ll_srcA ll) in emits
       [load_stack n n (convert_operand handle (ll_address ll) (ll_srcA ll) 0), move_stack OP_ADD (bytes_of_size n)])"

section \<open>String moves and double multiplications\<close>

definition reg_of :: "u64 \<Rightarrow> int \<Rightarrow> int \<Rightarrow> fill" where
  "reg_of r isz vs = fixed STORE_REG IND_DIRECT isz r vs"

text \<open>
  With the \<open>REP\<close> prefix: leave when the counter is 0, and count down. The operands of \<open>SUB\<close> are 1
  and the counter, in this order.
\<close>

definition movs_count :: "instruction_low_level_s \<Rightarrow> dis_instructions_s \<Rightarrow> dis_instructions_s c" where
  "movs_count ll =
     (let n = ll_size (ll_srcA ll) in emits
       [emit OP_CMP 1 (reg_of REG_CX 64 n) (imm 0 n) (imm 0 32),
        emit_if 4 0,
        emit OP_SUB 0 (imm 1 n) (reg_of REG_CX 64 n) (reg_of REG_CX 64 n)])"

definition movs_copy :: "reloc_s list option \<Rightarrow> instruction_low_level_s \<Rightarrow> dis_instructions_s \<Rightarrow> dis_instructions_s c" where
  "movs_copy handle ll =
     (let from = convert_operand handle (ll_address ll) (ll_srcA ll) 0;
          dest = convert_operand handle (ll_address ll) (ll_dstA ll) 0;
          tmp = convert_operand handle (ll_address ll) operand_reg_tmp2 0;
          n = ll_size (ll_srcA ll); m = ll_size (ll_dstA ll) in emits
       [emit OP_LOAD 0 (via_sized IND_MEM n from) (via_sized IND_DIRECT 64 from) tmp,
        emit OP_STORE 0 tmp dest (via_sized IND_MEM m dest),
        emit OP_ADD 0 (imm (bytes_of_size n) n) from from,
        emit OP_ADD 0 (imm (bytes_of_size m) m) dest dest])"

definition convert_movs :: "reloc_s list option \<Rightarrow> instruction_low_level_s \<Rightarrow> dis_instructions_s \<Rightarrow> dis_instructions_s c" where
  "convert_movs handle ll d =
     bindE (if rep ll = 1 then movs_count ll d else Inr d) (\<lambda>d.
     bindE (movs_copy handle ll d) (\<lambda>d.
       if rep ll = 1 then emit OP_JMP 0 (imm (word_of_int (- bytes_used d)) 64) Inr (reg64 REG_IP) d else Inr d))"

text \<open>
  Both operands are widened in place (\<open>SEX\<close> or \<open>MOV\<close>) and multiplied; the high half goes to the
  operand and the low half to the accumulator.
\<close>

definition convert_muld :: "opcode \<Rightarrow> reloc_s list option \<Rightarrow> instruction_low_level_s \<Rightarrow> dis_instructions_s \<Rightarrow> dis_instructions_s c" where
  "convert_muld widen handle ll =
     (let opd = (\<lambda>n. sized n (convert_operand handle (ll_address ll) (ll_srcA ll) 0)) in emits
       [emit widen 0 (opd 32) Inr (opd 64),
        emit widen 0 (reg_of REG_AX 32 32) Inr (reg64 REG_AX),
        emit OP_MUL 1 (reg64 REG_AX) (opd 64) (reg64 REG_AX),
        emit OP_SAR 0 (reg64 REG_AX) (imm 32 64) (opd 64),
        emit OP_TRUNC 0 (reg64 REG_AX) Inr (reg_of REG_AX 32 32),
        emit OP_TRUNC 0 (opd 64) Inr (opd 32)])"

section \<open>The conversion\<close>

text \<open>The operations that set the flags.\<close>

definition sets_flags :: "opcode \<Rightarrow> bool" where
  "sets_flags opc \<longleftrightarrow> opc \<in> {OP_ADD, OP_ADC, OP_SUB, OP_SBB, OP_OR, OP_XOR, OP_AND, OP_NOT, OP_NEG, OP_MUL, OP_IMUL,
     OP_DIV, OP_IDIV, OP_ROL, OP_ROR, OP_RCL, OP_RCR, OP_SHL, OP_SHR, OP_SAL, OP_SAR}"

definition convert_case :: "reloc_s list option \<Rightarrow> instruction_low_level_s \<Rightarrow> dis_instructions_s \<Rightarrow> (int \<times> dis_instructions_s) c" where
  "convert_case handle ll d =
     (let opc = ll_opcode ll in
      if opc = OP_NOP then Inr (0, d)
      else if opc = OP_MOV then converted (convert_mov handle ll d)
      else if opc = OP_CMOV then converted (convert_cmov handle ll d)
      else if opc = OP_SETCC then converted (convert_setcc handle ll d)
      else if opc = OP_DEC then converted (convert_step handle OP_SUB ll d)
      else if opc = OP_INC then converted (convert_step handle OP_ADD ll d)
      else if opc \<in> {OP_LEA, OP_LOAD, OP_STORE} then converted (convert_base handle ll 0 d)
      else if opc \<in> {OP_JMPT, OP_JMPM} then converted (convert_jmpt handle ll d)
      else if opc = OP_JMP then converted (convert_jmp ll d)
      else if opc = OP_CALL then converted (convert_call handle ll d)
      else if opc = OP_CALLM then converted (convert_callm handle ll d)
      else if opc = OP_IF then converted (convert_if ll d)
      else if opc = OP_SEX then converted (convert_sex handle ll d)
      else if opc = OP_RET then converted (convert_ret d)
      else if sets_flags opc then converted (convert_base handle ll 1 d)
      else if opc = OP_TEST then converted (convert_test handle ll d)
      else if opc = OP_CMP then converted (convert_base handle (ll\<lparr>ll_dstA := (ll_dstA ll)\<lparr>kind := KIND_EMPTY\<rparr>\<rparr>) 1 d)
      else if opc = OP_LEAVE then converted (convert_leave d)
      else if opc = OP_PUSH then converted (convert_push handle ll d)
      else if opc = OP_POP then converted (convert_pop handle ll d)
      else if opc = OP_MOVS then converted (convert_movs handle ll d)
      else if opc = OP_IMULD then converted (convert_muld OP_SEX handle ll d)
      else if opc = OP_MULD then converted (convert_muld OP_MOV handle ll d)
      else Inr (1, d))"

text \<open>The result is 1 for an opcode without a conversion, some of which have a case that does nothing.\<close>

definition convert_ll_inst_to_rtl :: "reloc_s list option \<Rightarrow> instruction_low_level_s \<Rightarrow> dis_instructions_s \<Rightarrow>
    (int \<times> dis_instructions_s) c" where
  "convert_ll_inst_to_rtl handle ll d = convert_case handle ll (d\<lparr>instruction_number := 0, bytes_used := octets ll\<rparr>)"

end
