(* ===== verification/RtlArray.thy ===== *)
theory RtlArray
  imports Rtl
begin

text \<open>
  How many RTL instructions a conversion fills: never more than eight, but for \<open>SETCC\<close>, which
  writes past the end of the array when its operand has a scaled index.
\<close>

declare One_nat_def [simp del]

lemma bindE_Inr [simp]: "bindE m Inr = m"
  by (cases m) simp_all

section \<open>Room for the instructions\<close>

text \<open>
  \<open>takes k f\<close>: with room for \<open>k\<close> more instructions \<open>f\<close> writes inside the array and fills at most
  \<open>k\<close> of them. \<open>adds k f\<close>: \<open>f\<close> fills exactly \<open>k\<close>, or runs out of the array.
\<close>

definition room :: "dis_instructions_s \<Rightarrow> nat" where
  "room d = length (dis_instruction d) - instruction_number d"

definition in_array :: "dis_instructions_s \<Rightarrow> bool" where
  "in_array d \<longleftrightarrow> instruction_number d \<le> length (dis_instruction d)"

definition takes :: "nat \<Rightarrow> (dis_instructions_s \<Rightarrow> dis_instructions_s c) \<Rightarrow> bool" where
  "takes k f \<longleftrightarrow> (\<forall>d. in_array d \<and> k \<le> room d \<longrightarrow> f d \<noteq> Inl OutOfBounds \<and>
     yields (f d) (\<lambda>e. in_array e \<and> length (dis_instruction e) = length (dis_instruction d) \<and>
       instruction_number d \<le> instruction_number e \<and> instruction_number e \<le> instruction_number d + k))"

definition adds :: "nat \<Rightarrow> (dis_instructions_s \<Rightarrow> dis_instructions_s c) \<Rightarrow> bool" where
  "adds k f \<longleftrightarrow> (\<forall>d. in_array d \<longrightarrow>
     (if k \<le> room d then \<exists>e. f d = Inr e \<and> length (dis_instruction e) = length (dis_instruction d) \<and>
        instruction_number e = instruction_number d + k
      else f d = Inl OutOfBounds))"

definition fill_fits :: "fill \<Rightarrow> bool" where
  "fill_fits f \<longleftrightarrow> (\<forall>x. f x \<noteq> Inl OutOfBounds)"

definition fill_ok :: "fill \<Rightarrow> bool" where
  "fill_ok f \<longleftrightarrow> (\<forall>x. \<exists>y. f x = Inr y)"

named_theorems takes_intros \<open>how many instructions a conversion fills\<close>

lemma fill_fits_rules [takes_intros]: "fill_fits Inr" "fill_fits (fixed st ind isz ix vs)" "fill_fits (reg64 r)"
    "fill_fits (imm v vs)" "fill_fits (reg_of r isz vs)"
    "fill_fits f \<Longrightarrow> fill_fits (sized n f)" "fill_fits f \<Longrightarrow> fill_fits (via ind f)" "fill_fits f \<Longrightarrow> fill_fits (via_sized ind n f)"
  by (auto simp: fill_fits_def fixed_def reg64_def imm_def reg_of_def sized_def via_def via_sized_def bindE_Inl_iff)

lemma fill_ok_rules [takes_intros]: "fill_ok Inr" "fill_ok (fixed st ind isz ix vs)" "fill_ok (reg64 r)"
    "fill_ok (imm v vs)" "fill_ok f \<Longrightarrow> fill_ok (sized n f)" "fill_ok f \<Longrightarrow> fill_ok (via ind f)"
  by (auto simp: fill_ok_def fixed_def reg64_def imm_def sized_def via_def bindE_Inr_iff)

lemma convert_operand_fits: "n < length (ll_operand ll) \<Longrightarrow> fill_fits (convert_operand handle base ll n)"
  by (auto simp: fill_fits_def convert_operand_def bindE_Inl_iff at_def split: operand_kind.split)

lemma first_part_fits [takes_intros]: "ll_operand ll \<noteq> [] \<Longrightarrow> fill_fits (convert_operand handle base ll 0)"
  by (rule convert_operand_fits) simp

lemma operand_empty_fits [takes_intros]: "fill_fits (convert_operand handle base operand_empty n)"
  by (auto simp: fill_fits_def convert_operand_def operand_empty_def)

lemma one_part_fits [takes_intros]: "fill_fits (convert_operand handle base (one_part k v b off) 0)"
  by (rule convert_operand_fits) (simp add: one_part_def)

lemma tmp_fits [takes_intros]: "fill_fits (convert_operand handle base operand_reg_tmp1 0)"
    "fill_fits (convert_operand handle base operand_reg_tmp2 0)"
  unfolding operand_reg_tmp1_def operand_reg_tmp2_def by (rule one_part_fits)+

lemma emit_fits [takes_intros]: "fill_fits fa \<Longrightarrow> fill_fits fb \<Longrightarrow> fill_fits fd \<Longrightarrow> takes 1 (emit opc fl fa fb fd)"
  by (auto simp: takes_def fill_fits_def emit_def in_array_def room_def yields_def bindE_Inl_iff bindE_Inr_iff at_def One_nat_def
    split: if_splits)

lemma fits_mono: "takes k f \<Longrightarrow> k \<le> l \<Longrightarrow> takes l f"
  unfolding takes_def yields_def by (meson add_left_mono order_trans)

lemma fits_same: "takes 0 Inr"
  by (simp add: takes_def)

lemma fits_fault: "e \<noteq> OutOfBounds \<Longrightarrow> takes k (\<lambda>_. Inl e)"
  by (simp add: takes_def)

lemma fits_bind:
  assumes f: "takes k f" and g: "takes l g" shows "takes (k + l) (\<lambda>d. bindE (f d) g)"
  unfolding takes_def
proof (intro allI impI)
  fix d assume d: "in_array d \<and> k + l \<le> room d"
  then have fd: "f d \<noteq> Inl OutOfBounds" "yields (f d) (\<lambda>e. in_array e \<and> length (dis_instruction e) = length (dis_instruction d) \<and>
       instruction_number d \<le> instruction_number e \<and> instruction_number e \<le> instruction_number d + k)"
    using f by (auto simp: takes_def)
  show "bindE (f d) g \<noteq> Inl OutOfBounds \<and> yields (bindE (f d) g) (\<lambda>e. in_array e \<and>
      length (dis_instruction e) = length (dis_instruction d) \<and>
      instruction_number d \<le> instruction_number e \<and> instruction_number e \<le> instruction_number d + (k + l))"
  proof (cases "f d")
    case (Inr e)
    then have e: "in_array e" "length (dis_instruction e) = length (dis_instruction d)"
      "instruction_number d \<le> instruction_number e" "instruction_number e \<le> instruction_number d + k" using fd(2) by auto
    then have "l \<le> room e" using d by (auto simp: room_def)
    then have "g e \<noteq> Inl OutOfBounds" "yields (g e) (\<lambda>x. in_array x \<and> length (dis_instruction x) = length (dis_instruction e) \<and>
       instruction_number e \<le> instruction_number x \<and> instruction_number x \<le> instruction_number e + l)"
      using g e(1) by (auto simp: takes_def)
    then show ?thesis using Inr e by (auto simp: yields_def)
  qed (use fd(1) in simp)
qed

lemma fits_emits: "list_all (takes 1) fs \<Longrightarrow> takes (length fs) (emits fs)"
proof (induction fs)
  case Nil
  show ?case by (simp add: takes_def)
next
  case (Cons f fs)
  then have "takes (1 + length fs) (\<lambda>d. bindE (f d) (emits fs))" by (intro fits_bind) simp_all
  moreover have "emits (f # fs) = (\<lambda>d. bindE (f d) (emits fs))" by (rule ext) simp
  ultimately show ?case by (simp add: One_nat_def)
qed

lemma emits_fit: "list_all (takes 1) fs \<Longrightarrow> length fs \<le> k \<Longrightarrow> takes k (emits fs)"
  using fits_mono [OF fits_emits] .

text \<open>An operand as the decoder makes it has sixteen parts.\<close>

definition ll_parts :: "operand_low_level_s \<Rightarrow> bool" where
  "ll_parts ll \<longleftrightarrow> length (ll_operand ll) = 16"

definition ll_form :: "instruction_low_level_s \<Rightarrow> bool" where
  "ll_form ll \<longleftrightarrow> ll_parts (ll_srcA ll) \<and> ll_parts (ll_srcB ll) \<and> ll_parts (ll_dstA ll)"

lemma parts_fit [takes_intros]: "ll_parts ll \<Longrightarrow> n < 16 \<Longrightarrow> fill_fits (convert_operand handle base ll n)"
  by (rule convert_operand_fits) (simp add: ll_parts_def)

lemma part_of: "ll_parts ll \<Longrightarrow> n < 16 \<Longrightarrow> part ll n = Inr (ll_operand ll ! n)"
  by (simp add: part_def ll_parts_def)

text \<open>The steps of an address hand on the operand worked out so far, which has a part.\<close>

definition address_fits :: "nat \<Rightarrow> (dis_instructions_s \<Rightarrow> address c) \<Rightarrow> bool" where
  "address_fits k f \<longleftrightarrow> takes k (\<lambda>d. bindE (f d) (\<lambda>s. Inr (snd s))) \<and>
     (\<forall>d. yields (f d) (\<lambda>s. fst s \<noteq> None \<longrightarrow> ll_operand (the (fst s)) \<noteq> []))"

lemma fits_address:
  assumes f: "address_fits k f" and g: "\<And>p. (p \<noteq> None \<longrightarrow> ll_operand (the p) \<noteq> []) \<Longrightarrow> takes l (\<lambda>d. g (p, d))"
  shows "takes (k + l) (\<lambda>d. bindE (f d) g)"
  unfolding takes_def
proof (intro allI impI)
  fix d assume d: "in_array d \<and> k + l \<le> room d"
  show "bindE (f d) g \<noteq> Inl OutOfBounds \<and> yields (bindE (f d) g) (\<lambda>e. in_array e \<and>
      length (dis_instruction e) = length (dis_instruction d) \<and>
      instruction_number d \<le> instruction_number e \<and> instruction_number e \<le> instruction_number d + (k + l))"
  proof (cases "f d")
    case (Inl e)
    then have "e \<noteq> OutOfBounds" using f d by (auto simp: address_fits_def takes_def)
    then show ?thesis using Inl by simp
  next
    case (Inr s)
    obtain p e where s: "s = (p, e)" by (cases s)
    have len: "p \<noteq> None \<longrightarrow> ll_operand (the p) \<noteq> []" using f Inr s by (auto simp: address_fits_def yields_def)
    have e: "in_array e" "length (dis_instruction e) = length (dis_instruction d)"
      "instruction_number d \<le> instruction_number e" "instruction_number e \<le> instruction_number d + k"
      using f d Inr s by (auto simp: address_fits_def takes_def)
    then have "l \<le> room e" using d by (auto simp: room_def)
    then have "g (p, e) \<noteq> Inl OutOfBounds" "yields (g (p, e)) (\<lambda>x. in_array x \<and> length (dis_instruction x) = length (dis_instruction e) \<and>
       instruction_number e \<le> instruction_number x \<and> instruction_number x \<le> instruction_number e + l)"
      using g [OF len] e(1) by (auto simp: takes_def)
    then show ?thesis using Inr s e by (auto simp: yields_def)
  qed
qed

lemma address_same: "p \<noteq> None \<longrightarrow> ll_operand (the p) \<noteq> [] \<Longrightarrow> address_fits 0 (\<lambda>d. Inr (p, d))"
  by (simp add: address_fits_def fits_same)

lemma address_emit:
  assumes "takes k f" "ll_operand x \<noteq> []"
  shows "address_fits k (\<lambda>d. bindE (f d) (\<lambda>d. Inr (Some x, d)))"
  using assms by (simp add: address_fits_def bindE_assoc yields_def bindE_Inr_iff)

lemma address_mono: "address_fits k f \<Longrightarrow> k \<le> l \<Longrightarrow> address_fits l f"
  by (auto simp: address_fits_def intro: fits_mono)

lemma address_fault: "e \<noteq> OutOfBounds \<Longrightarrow> address_fits k (\<lambda>_. Inl e)"
  by (simp add: address_fits_def fits_fault)

lemma parts_length [simp]: "ll_operand (as_reg s) \<noteq> []" "ll_operand (one_part k v b off) \<noteq> []"
    "ll_operand operand_reg_tmp1 \<noteq> []" "ll_operand operand_reg_tmp2 \<noteq> []"
    "ll_operand (snd (displacement s)) \<noteq> []"
  by (simp_all add: as_reg_def one_part_def operand_reg_tmp1_def operand_reg_tmp2_def displacement_def)

lemma prev_fits [takes_intros]:
  "(p \<noteq> None \<longrightarrow> ll_operand (the p) \<noteq> []) \<Longrightarrow> fill_fits (convert_operand handle base (prev_operand p) 0)"
  by (cases p) (simp_all add: prev_operand_def takes_intros)

lemma scale_index_fits:
  assumes "ll_parts sc" shows "address_fits 1 (scale_index handle ll memory sc)"
proof -
  have same: "address_fits 1 (\<lambda>d. Inr (p, d))" if "p \<noteq> None \<longrightarrow> ll_operand (the p) \<noteq> []" for p
    by (rule address_mono [OF address_same [OF that]]) simp
  have mul: "address_fits 1 (\<lambda>d. bindE (emit OP_IMUL 0 (convert_operand handle (ll_address ll) sc 2)
           ((if memory then sized 64 else id) (convert_operand handle (ll_address ll) sc 1))
           (convert_operand handle (ll_address ll) operand_reg_tmp1 0) d) (\<lambda>d. Inr (Some operand_reg_tmp1, d)))"
    by (rule address_emit) (use assms in \<open>simp_all add: takes_intros\<close>)
  have none: "address_fits 1 (\<lambda>_. Inl (Exit 1))" by (rule address_fault) simp
  show ?thesis
    unfolding scale_index_def using mul same none
    by (cases "sub_value (ll_operand sc ! 2) = 0"; cases "sub_value (ll_operand sc ! 1) = 1"; cases "1 < sub_value (ll_operand sc ! 1)";
      cases memory) (simp_all add: part_of [OF assms])
qed

lemma lea_fits:
  assumes sc: "ll_parts sc" shows "takes 3 (lea_address handle ll sc)"
proof -
  let ?neg = "fst (displacement (ll_operand sc ! 3))" and ?opd = "snd (displacement (ll_operand sc ! 3))"
  have base: "takes 1 (\<lambda>d. lea_base handle ll sc (neg, p, d))" if "p \<noteq> None \<longrightarrow> ll_operand (the p) \<noteq> []" for neg p
    unfolding lea_base_def prod.case by (rule emit_fits) (use sc that in \<open>simp_all add: takes_intros\<close>)
  have "takes 2 (\<lambda>d. bindE (lea_displacement handle ll sc (p, d)) (lea_base handle ll sc))"
    if p: "p \<noteq> None \<longrightarrow> ll_operand (the p) \<noteq> []" for p
  proof -
    have one: "takes 2 (\<lambda>d. lea_base handle ll sc (neg, q, d))" if "q \<noteq> None \<longrightarrow> ll_operand (the q) \<noteq> []" for neg q
      by (rule fits_mono [OF base [OF that]]) simp_all
    consider (zero) "sub_value (ll_operand sc ! 3) = 0" | (none) "sub_value (ll_operand sc ! 3) \<noteq> 0" "p = None"
      | (some) x where "sub_value (ll_operand sc ! 3) \<noteq> 0" "p = Some x" by (cases p) auto
    then show ?thesis
    proof cases
      case zero
      then show ?thesis using one [OF p] sc by (simp add: lea_displacement_def part_of case_prod_beta)
    next
      case none
      then show ?thesis using one [of "Some ?opd"] sc by (simp add: lea_displacement_def part_of case_prod_beta)
    next
      case some
      have "takes (1 + 1) (\<lambda>d. bindE (emit (if ?neg then OP_SUB else OP_ADD) 0 (convert_operand handle (ll_address ll) x 0)
          (convert_operand handle (ll_address ll) ?opd 0) (convert_operand handle (ll_address ll) operand_reg_tmp1 0) d)
          (\<lambda>d. lea_base handle ll sc (?neg, Some operand_reg_tmp1, d)))"
        by (intro fits_bind emit_fits base) (use p some in \<open>simp_all add: takes_intros\<close>)
      then show ?thesis using some sc by (simp add: lea_displacement_def part_of case_prod_beta bindE_assoc)
    qed
  qed
  then have "takes (1 + 2) (\<lambda>d. bindE (scale_index handle ll False sc d) (\<lambda>s. bindE (lea_displacement handle ll sc s) (lea_base handle ll sc)))"
    by (rule fits_address [OF scale_index_fits [OF sc]])
  then show ?thesis by (simp add: lea_address_def [abs_def])
qed

lemma memory_fits:
  assumes sc: "ll_parts sc" shows "takes 3 (memory_address handle ll sc)"
proof -
  let ?neg = "fst (displacement (ll_operand sc ! 3))" and ?opd = "snd (displacement (ll_operand sc ! 3))"
  have disp: "takes 1 (\<lambda>d. memory_displacement handle ll sc (p, d))" if "p \<noteq> None \<longrightarrow> ll_operand (the p) \<noteq> []" for p
    using that sc unfolding memory_displacement_def
    by (cases p) (simp_all add: part_of case_prod_beta takes_intros)
  have "takes 2 (\<lambda>d. bindE (memory_base handle ll sc (p, d)) (memory_displacement handle ll sc))"
    if p: "p \<noteq> None \<longrightarrow> ll_operand (the p) \<noteq> []" for p
  proof -
    have one: "takes 2 (\<lambda>d. memory_displacement handle ll sc (q, d))" if "q \<noteq> None \<longrightarrow> ll_operand (the q) \<noteq> []" for q
      by (rule fits_mono [OF disp [OF that]]) simp_all
    consider (zero) "sub_value (ll_operand sc ! 0) = 0" | (none) "sub_value (ll_operand sc ! 0) \<noteq> 0" "p = None"
      | (some) x where "sub_value (ll_operand sc ! 0) \<noteq> 0" "p = Some x" by (cases p) auto
    then show ?thesis
    proof cases
      case zero
      then show ?thesis using one [OF p] sc by (simp add: memory_base_def part_of)
    next
      case none
      then show ?thesis using one [of "Some (as_reg (ll_operand sc ! 0))"] sc by (simp add: memory_base_def part_of)
    next
      case some
      have "takes (1 + 1) (\<lambda>d. bindE (emit OP_ADD 0 (convert_operand handle (ll_address ll) x 0)
          (convert_operand handle (ll_address ll) sc 0) (convert_operand handle (ll_address ll) operand_reg_tmp1 0) d)
          (\<lambda>d. memory_displacement handle ll sc (Some operand_reg_tmp1, d)))"
        by (intro fits_bind emit_fits disp) (use p some sc in \<open>simp_all add: takes_intros\<close>)
      then show ?thesis using some sc by (simp add: memory_base_def part_of bindE_assoc)
    qed
  qed
  then have "takes (1 + 2) (\<lambda>d. bindE (scale_index handle ll True sc d) (\<lambda>s. bindE (memory_base handle ll sc s) (memory_displacement handle ll sc)))"
    by (rule fits_address [OF scale_index_fits [OF sc]])
  then show ?thesis by (simp add: memory_address_def [abs_def])
qed

lemma convert_direct_fits:
  assumes "ll_form ll" shows "takes 6 (convert_direct handle ll fl)"
proof -
  have p: "ll_parts (ll_srcA ll)" "ll_parts (ll_srcB ll)" "ll_parts (ll_dstA ll)" using assms by (simp_all add: ll_form_def)
  have stop: "takes 6 (\<lambda>_. Inl (Exit 1))" by (rule fits_fault) simp
  have lea: "takes 6 (\<lambda>d. bindE (lea_address handle ll (ll_srcB ll) d)
          (emit OP_MOV fl (convert_operand handle (ll_address ll) operand_reg_tmp1 0)
            (convert_operand handle (ll_address ll) (ll_srcB ll) 0) (convert_operand handle (ll_address ll) (ll_dstA ll) 0)))"
    by (rule fits_mono [OF fits_bind [OF lea_fits [OF p(2)]]], rule emit_fits) (simp_all add: takes_intros p)
  have one: "takes 6 (emit (ll_opcode ll) fl (convert_operand handle (ll_address ll) (ll_srcA ll) 0)
             (convert_operand handle (ll_address ll) (ll_srcB ll) 0) (convert_operand handle (ll_address ll) (ll_dstA ll) 0))"
    by (rule fits_mono [OF emit_fits]) (simp_all add: takes_intros p)
  show ?thesis
    unfolding convert_direct_def using stop lea one
    by (cases "kind (ll_dstA ll) = KIND_SCALE"; cases "kind (ll_srcA ll) = KIND_SCALE"; cases "kind (ll_srcB ll) = KIND_SCALE") simp_all
qed

lemma load_store_fit:
  assumes "ll_form ll"
  shows "takes 1 (load_operand handle ll ind)" "takes 1 (store_operand handle ll ind)" "takes 1 (memory_operation handle ll fl)"
proof -
  have p: "ll_parts (ll_srcA ll)" "ll_parts (ll_srcB ll)" "ll_parts (ll_dstA ll)" using assms by (simp_all add: ll_form_def)
  have same: "takes 1 Inr" by (rule fits_mono [OF fits_same]) simp
  have tmp: "fill_fits (convert_operand handle (ll_address ll) (or_tmp2 x) 0)" if "ll_parts x" for x
    using that by (simp add: or_tmp2_def takes_intros)
  show "takes 1 (load_operand handle ll ind)"
    unfolding load_operand_def using same by (cases "kind (ll_srcA ll) = KIND_IND_SCALE \<or> kind (ll_srcB ll) = KIND_IND_SCALE")
      (simp_all add: takes_intros)
  show "takes 1 (store_operand handle ll ind)"
    unfolding store_operand_def using same by (cases "kind (ll_dstA ll) = KIND_IND_SCALE") (simp_all add: takes_intros)
  show "takes 1 (memory_operation handle ll fl)"
    unfolding memory_operation_def by (rule emit_fits) (simp_all add: takes_intros p tmp)
qed

lemma convert_indirect_fits:
  assumes "ll_form ll" shows "takes 6 (convert_indirect handle ll fl)"
proof (cases "scale_operand ll")
  case (Inl e)
  then have "e \<noteq> OutOfBounds" by (auto simp: scale_operand_def split: if_splits)
  then show ?thesis using fits_fault [of e 6] by (simp add: convert_indirect_def [abs_def] Inl)
next
  case (Inr sc)
  then have sc: "ll_parts sc" using assms by (auto simp: scale_operand_def ll_form_def split: if_splits)
  obtain ind where ind: "memory_kind sc = Inr ind" by (simp add: memory_kind_def part_of [OF sc])
  have "takes (3 + (1 + (1 + 1))) (\<lambda>d. bindE (memory_address handle ll sc d) (\<lambda>d.
     bindE (load_operand handle ll ind d) (\<lambda>d. bindE (memory_operation handle ll fl d) (store_operand handle ll ind))))"
    by (intro fits_bind memory_fits sc load_store_fit assms)
  then show ?thesis by (simp add: convert_indirect_def [abs_def] Inr ind)
qed

lemma convert_base_fits:
  assumes "ll_form ll" shows "takes 6 (convert_base handle ll fl)"
  unfolding takes_def
proof (intro allI impI)
  fix d assume d: "in_array d \<and> 6 \<le> room d"
  let ?i = "dis_instruction d ! instruction_number d"
  let ?d = "d\<lparr>dis_instruction := (dis_instruction d)[instruction_number d := ?i\<lparr>opcode := OP_NOP, flags := 0\<rparr>]\<rparr>"
  have n: "instruction_number d < length (dis_instruction d)" "in_array ?d \<and> 6 \<le> room ?d"
    using d by (auto simp: room_def in_array_def)
  have run: "convert_base handle ll fl d = (if is_ind (ll_srcA ll) \<or> is_ind (ll_srcB ll) \<or> is_ind (ll_dstA ll)
      then convert_indirect handle ll fl ?d else convert_direct handle ll fl ?d)"
    using n(1) by (simp add: convert_base_def Let_def)
  show "convert_base handle ll fl d \<noteq> Inl OutOfBounds \<and> yields (convert_base handle ll fl d) (\<lambda>e. in_array e \<and>
      length (dis_instruction e) = length (dis_instruction d) \<and>
      instruction_number d \<le> instruction_number e \<and> instruction_number e \<le> instruction_number d + 6)"
    using convert_indirect_fits [OF assms, of handle fl] convert_direct_fits [OF assms, of handle fl] n(2)
    unfolding run takes_def by (auto split: if_splits)
qed

lemma patch_last_fits:
  assumes "fill_fits fb" "fill_fits fd" "in_array d" "0 < instruction_number d"
  shows "patch_last fb fd d \<noteq> Inl OutOfBounds \<and> yields (patch_last fb fd d) (\<lambda>e.
    length (dis_instruction e) = length (dis_instruction d) \<and> instruction_number e = instruction_number d)"
  using assms by (auto simp: patch_last_def fill_fits_def in_array_def yields_def bindE_Inl_iff bindE_Inr_iff at_def)

text \<open>A conversion that succeeds fills at least one instruction.\<close>

lemma emit_more: "emit opc fl fa fb fd d = Inr e \<Longrightarrow> instruction_number e = Suc (instruction_number d)"
  by (auto simp: emit_def bindE_Inr_iff)

lemma scale_index_more: "scale_index handle ll memory sc d = Inr (p, e) \<Longrightarrow> instruction_number d \<le> instruction_number e"
  by (auto simp: scale_index_def bindE_Inr_iff dest: emit_more split: if_splits)

lemma memory_address_more: "memory_address handle ll sc d = Inr e \<Longrightarrow> instruction_number d \<le> instruction_number e"
  by (auto simp: memory_address_def memory_base_def memory_displacement_def bindE_Inr_iff case_prod_beta
    dest!: emit_more scale_index_more split: if_splits option.splits)

lemma lea_address_more: "lea_address handle ll sc d = Inr e \<Longrightarrow> instruction_number d \<le> instruction_number e"
  by (auto simp: lea_address_def lea_displacement_def lea_base_def bindE_Inr_iff case_prod_beta
    dest!: emit_more scale_index_more split: if_splits option.splits)

lemma convert_base_more:
  assumes "convert_base handle ll fl d = Inr e" shows "instruction_number d < instruction_number e"
proof -
  have direct: "instruction_number x < instruction_number e" if "convert_direct handle ll fl x = Inr e" for x
    using that by (auto simp: convert_direct_def bindE_Inr_iff dest!: emit_more lea_address_more split: if_splits)
  have indirect: "instruction_number x < instruction_number e" if "convert_indirect handle ll fl x = Inr e" for x
    using that by (auto simp: convert_indirect_def load_operand_def memory_operation_def store_operand_def bindE_Inr_iff
      dest!: emit_more memory_address_more split: if_splits)
  show ?thesis using assms by (auto simp: convert_base_def bindE_Inr_iff Let_def dest!: direct indirect split: if_splits)
qed

lemma patched_fits:
  assumes "ll_form ll" "fill_fits fb" "fill_fits fd"
  shows "takes 6 (\<lambda>d. bindE (convert_base handle ll fl d) (patch_last fb fd))"
  unfolding takes_def
proof (intro allI impI)
  fix d assume d: "in_array d \<and> 6 \<le> room d"
  then have base: "convert_base handle ll fl d \<noteq> Inl OutOfBounds" "yields (convert_base handle ll fl d) (\<lambda>e. in_array e \<and>
      length (dis_instruction e) = length (dis_instruction d) \<and>
      instruction_number d \<le> instruction_number e \<and> instruction_number e \<le> instruction_number d + 6)"
    using convert_base_fits [OF assms(1), of handle fl] by (auto simp: takes_def)
  show "bindE (convert_base handle ll fl d) (patch_last fb fd) \<noteq> Inl OutOfBounds \<and>
      yields (bindE (convert_base handle ll fl d) (patch_last fb fd)) (\<lambda>e. in_array e \<and>
        length (dis_instruction e) = length (dis_instruction d) \<and>
        instruction_number d \<le> instruction_number e \<and> instruction_number e \<le> instruction_number d + 6)"
  proof (cases "convert_base handle ll fl d")
    case (Inr e)
    have "0 < instruction_number e" using convert_base_more [OF Inr] by simp
    moreover have e: "in_array e" "length (dis_instruction e) = length (dis_instruction d)"
        "instruction_number d \<le> instruction_number e" "instruction_number e \<le> instruction_number d + 6"
      using base(2) Inr by auto
    ultimately have "patch_last fb fd e \<noteq> Inl OutOfBounds \<and> yields (patch_last fb fd e) (\<lambda>x.
        length (dis_instruction x) = length (dis_instruction e) \<and> instruction_number x = instruction_number e)"
      using patch_last_fits [OF assms(2,3)] by blast
    then show ?thesis using Inr e by (auto simp: yields_def in_array_def)
  qed (use base(1) in simp)
qed

lemma ll_form_changes [simp]: "ll_form (with_opcode opc ll) \<longleftrightarrow> ll_form ll" "ll_form (clear_srcB ll) \<longleftrightarrow> ll_form ll"
    "ll_parts (as_imm v b x) \<longleftrightarrow> ll_parts x" "ll_parts (accumulator x) \<longleftrightarrow> ll_parts x" "ll_parts (x\<lparr>kind := k\<rparr>) \<longleftrightarrow> ll_parts x"
  by (auto simp: ll_form_def ll_parts_def with_opcode_def clear_srcB_def as_imm_def accumulator_def split: list.split)

lemma emit_if_fits: "takes 1 (emit_if cond target)"
  unfolding emit_if_def by (rule emit_fits) (simp_all add: takes_intros)

lemma load_stack_fits: "fill_fits f \<Longrightarrow> takes 1 (load_stack n m f)"
  unfolding load_stack_def by (rule emit_fits) (simp_all add: takes_intros)

lemma move_stack_fits: "takes 1 (move_stack opc n)"
  unfolding move_stack_def by (rule emit_fits) (simp_all add: takes_intros)

lemma converted_fits:
  assumes f: "takes k f" and d: "k \<le> room d" "in_array d"
  shows "converted (f d) \<noteq> Inl OutOfBounds \<and> yields (converted (f d)) (\<lambda>(r, e).
    length (dis_instruction e) = length (dis_instruction d) \<and> instruction_number e \<le> instruction_number d + k)"
  using f d by (auto simp: takes_def converted_def yields_def bindE_Inl_iff bindE_Inr_iff)

lemma converted_fit_8:
  assumes "takes k f" "k \<le> 8" "8 \<le> room d" "in_array d"
  shows "converted (f d) \<noteq> Inl OutOfBounds \<and> yields (converted (f d)) (\<lambda>(r, e).
    length (dis_instruction e) = length (dis_instruction d) \<and> instruction_number e \<le> instruction_number d + 8)"
  by (rule converted_fits [OF fits_mono [OF assms(1,2)] assms(3,4)])

lemma conversions_fit:
  assumes "ll_form ll"
  shows "takes 6 (convert_mov handle ll)" "takes 7 (convert_cmov handle ll)" "takes 6 (convert_step handle opc ll)"
    "takes 6 (convert_jmpt handle ll)" "takes 1 (convert_jmp ll)" "takes 1 (convert_call handle ll)"
    "takes 6 (convert_callm handle ll)" "takes 1 (convert_if ll)" "takes 6 (convert_sex handle ll)"
    "takes 6 (convert_test handle ll)" "takes 4 convert_ret" "takes 3 convert_leave"
    "takes 2 (convert_push handle ll)" "takes 2 (convert_pop handle ll)" "takes 8 (convert_movs handle ll)"
    "takes 6 (convert_muld opc' handle ll)"
proof -
  have p: "ll_parts (ll_srcA ll)" "ll_parts (ll_srcB ll)" "ll_parts (ll_dstA ll)" using assms by (simp_all add: ll_form_def)
  have set_form: "ll_form (ll\<lparr>ll_srcA := x\<rparr>)" "ll_form (ll\<lparr>ll_srcA := x, ll_srcB := x\<rparr>)" "ll_form (ll\<lparr>ll_srcB := x, ll_dstA := x\<rparr>)"
    if "ll_parts x" for x using that p by (simp_all add: ll_form_def)
  show "takes 6 (convert_mov handle ll)"
    unfolding convert_mov_def by (rule convert_base_fits) (simp add: set_form p)
  have "takes (1 + 6) (\<lambda>d. bindE (emit_if (word_of_int (ll_predicate ll)) 0 d) (convert_base handle (clear_srcB (with_opcode OP_MOV ll)) 0))"
    by (intro fits_bind emit_if_fits convert_base_fits) (simp add: assms)
  then show "takes 7 (convert_cmov handle ll)" by (simp add: convert_cmov_def [abs_def])
  have "takes 6 (\<lambda>_. Inl (Exit 1))" by (rule fits_fault) simp
  moreover have "takes 6 (convert_base handle (with_opcode opc (ll\<lparr>ll_srcA := ll_dstA ll,
             ll_srcB := as_imm 1 (ll_size (ll_dstA ll)) (ll_srcB ll)\<rparr>)) 1)"
    by (rule convert_base_fits) (use p in \<open>simp add: ll_form_def with_opcode_def\<close>)
  ultimately show "takes 6 (convert_step handle opc ll)" by (simp add: convert_step_def)
  show "takes 6 (convert_jmpt handle ll)"
    unfolding convert_jmpt_def [abs_def] by (rule patched_fits) (simp_all add: assms takes_intros)
  show "takes 6 (convert_callm handle ll)"
    unfolding convert_callm_def [abs_def] by (rule patched_fits) (simp_all add: assms takes_intros)
  show "takes 1 (convert_jmp ll)" unfolding convert_jmp_def [abs_def] by (simp add: part_of p takes_intros)
  show "takes 1 (convert_call handle ll)" unfolding convert_call_def by (simp add: p takes_intros)
  show "takes 1 (convert_if ll)" unfolding convert_if_def [abs_def] by (simp add: part_of p emit_if_fits)
  show "takes 6 (convert_sex handle ll)"
    unfolding convert_sex_def Let_def by (rule convert_base_fits) (use p in \<open>simp add: ll_form_def clear_srcB_def\<close>)
  show "takes 6 (convert_test handle ll)"
    unfolding convert_test_def by (rule convert_base_fits) (use p in \<open>simp add: ll_form_def\<close>)
  show "takes 4 convert_ret"
    unfolding convert_ret_def by (rule emits_fit) (simp_all add: takes_intros load_stack_fits move_stack_fits)
  show "takes 3 convert_leave"
    unfolding convert_leave_def by (rule emits_fit) (simp_all add: takes_intros load_stack_fits move_stack_fits)
  show "takes 2 (convert_push handle ll)"
    unfolding convert_push_def Let_def by (rule emits_fit) (simp_all add: takes_intros load_stack_fits move_stack_fits p)
  show "takes 2 (convert_pop handle ll)"
    unfolding convert_pop_def Let_def by (rule emits_fit) (simp_all add: takes_intros load_stack_fits move_stack_fits p)
  have count: "takes 3 (movs_count ll)"
    unfolding movs_count_def Let_def by (rule emits_fit) (simp_all add: takes_intros emit_if_fits)
  have same: "takes n Inr" for n by (rule fits_mono [OF fits_same]) simp
  have first: "takes 3 (\<lambda>d. if rep ll = 1 then movs_count ll d else Inr d)"
    using count same by (cases "rep ll = 1") simp_all
  have copy: "takes 4 (movs_copy handle ll)"
    unfolding movs_copy_def Let_def by (rule emits_fit) (simp_all add: takes_intros p)
  have jump: "takes 1 (\<lambda>d. if rep ll = 1 then emit OP_JMP 0 (imm (word_of_int (- bytes_used d)) 64) Inr (reg64 REG_IP) d else Inr d)"
  proof (cases "rep ll = 1")
    case True
    have "takes 1 (emit OP_JMP 0 (imm v 64) Inr (reg64 REG_IP))" for v by (simp add: takes_intros)
    then show ?thesis using True by (auto simp: takes_def)
  qed (simp add: same)
  have "takes (3 + (4 + 1)) (convert_movs handle ll)"
    unfolding convert_movs_def [abs_def] by (intro fits_bind first copy jump)
  then show "takes 8 (convert_movs handle ll)" by simp
  show "takes 6 (convert_muld opc' handle ll)"
    unfolding convert_muld_def Let_def by (rule emits_fit) (simp_all add: takes_intros p)
qed

text \<open>
  C18. The conversion of any instruction but SETCC never writes outside the array of ten RTL
  instructions and fills at most eight of them.
\<close>
theorem convert_fits_array:
  assumes "ll_form ll" "ll_opcode ll \<noteq> OP_SETCC" "length (dis_instruction d) = 10"
  shows "convert_ll_inst_to_rtl handle ll d \<noteq> Inl OutOfBounds \<and>
    yields (convert_ll_inst_to_rtl handle ll d) (\<lambda>(r, e). length (dis_instruction e) = 10 \<and> instruction_number e \<le> 8)"
proof -
  let ?d = "d\<lparr>instruction_number := 0, bytes_used := octets ll\<rparr>"
  have d: "8 \<le> room ?d" "in_array ?d" "length (dis_instruction ?d) = 10" "instruction_number ?d = 0"
    using assms(3) by (simp_all add: room_def in_array_def)
  define good where "good m \<longleftrightarrow> m \<noteq> Inl OutOfBounds \<and>
    yields m (\<lambda>(r :: int, e :: dis_instructions_s). length (dis_instruction e) = 10 \<and> instruction_number e \<le> 8)" for m
  have c: "good (converted (f ?d))" if "takes k f" "k \<le> 8" for k f
    using converted_fit_8 [OF that d(1,2)] unfolding d(3,4) good_def by simp
  have either: "good x \<Longrightarrow> good y \<Longrightarrow> good (if b then x else y)" for x y b by simp
  have same: "good (Inr (r, ?d))" for r using d(3) by (simp add: good_def)
  have cmp: "ll_form (ll\<lparr>ll_dstA := (ll_dstA ll)\<lparr>kind := KIND_EMPTY\<rparr>\<rparr>)" using assms(1) by (simp add: ll_form_def)
  note k = conversions_fit [OF assms(1)] convert_base_fits [OF assms(1)] convert_base_fits [OF cmp]
  note all = k [THEN c, simplified]
  have "good (convert_case handle ll ?d)"
    unfolding convert_case_def Let_def if_not_P [OF assms(2)] by (intro either same all)
  then show ?thesis by (simp add: convert_ll_inst_to_rtl_def good_def)
qed

section \<open>SETCC into memory\<close>

lemma convert_operand_ok:
  assumes "ll_parts x" "n < 16"
    and "kind x \<in> {KIND_EMPTY, KIND_REG, KIND_IMM} \<or> kind x \<in> {KIND_SCALE, KIND_IND_SCALE} \<and> n < 4"
  shows "fill_ok (convert_operand handle base x n)"
proof -
  have at: "at (ll_operand x) n = Inr (ll_operand x ! n)" using assms(1,2) by (simp add: ll_parts_def)
  have "n < 4 \<Longrightarrow> n = 0 \<or> n = 1 \<or> n = 2 \<or> n = 3" by arith
  then show ?thesis unfolding fill_ok_def convert_operand_def using at assms(3) by (cases "kind x") auto
qed

lemma one_part_ok: "k \<in> {KIND_REG, KIND_IMM} \<Longrightarrow> fill_ok (convert_operand handle base (one_part k v b off) 0)"
  by (auto simp: fill_ok_def convert_operand_def one_part_def)

lemma tmp_ok: "fill_ok (convert_operand handle base operand_reg_tmp1 0)" "fill_ok (convert_operand handle base operand_reg_tmp2 0)"
  by (simp_all add: operand_reg_tmp1_def operand_reg_tmp2_def one_part_ok)

lemma displacement_ok: "fill_ok (convert_operand handle base (snd (displacement s)) 0)"
  by (simp add: displacement_def one_part_ok)

lemma adds_emit: "fill_ok fa \<Longrightarrow> fill_ok fb \<Longrightarrow> fill_ok fd \<Longrightarrow> adds 1 (emit opc fl fa fb fd)"
  unfolding adds_def
proof (intro allI impI)
  fix d assume f: "fill_ok fa" "fill_ok fb" "fill_ok fd" and d: "in_array d"
  let ?i = "dis_instruction d ! instruction_number d"
  obtain a b x where "fa (srcA ?i) = Inr a" "fb (srcB ?i) = Inr b" "fd (dstA ?i) = Inr x" using f unfolding fill_ok_def by blast
  then show "if 1 \<le> room d then \<exists>e. emit opc fl fa fb fd d = Inr e \<and> length (dis_instruction e) = length (dis_instruction d) \<and>
      instruction_number e = instruction_number d + 1 else emit opc fl fa fb fd d = Inl OutOfBounds"
    using d by (auto simp: emit_def room_def at_def One_nat_def)
qed

lemma addsD:
  assumes "adds k f" "in_array d"
  shows "k \<le> room d \<Longrightarrow> \<exists>e. f d = Inr e \<and> length (dis_instruction e) = length (dis_instruction d) \<and>
      instruction_number e = instruction_number d + k"
    "\<not> k \<le> room d \<Longrightarrow> f d = Inl OutOfBounds"
  using assms unfolding adds_def by presburger+

lemma adds_bind:
  assumes f: "adds k f" and g: "adds l g" shows "adds (k + l) (\<lambda>d. bindE (f d) g)"
  unfolding adds_def
proof (intro allI impI)
  fix d assume d: "in_array d"
  show "if k + l \<le> room d then \<exists>e. bindE (f d) g = Inr e \<and> length (dis_instruction e) = length (dis_instruction d) \<and>
      instruction_number e = instruction_number d + (k + l) else bindE (f d) g = Inl OutOfBounds"
  proof (cases "k \<le> room d")
    case True
    then obtain e where e: "f d = Inr e" "length (dis_instruction e) = length (dis_instruction d)"
      "instruction_number e = instruction_number d + k" using addsD(1) [OF f d] by blast
    then have "in_array e" "room e = room d - k" using True d by (auto simp: in_array_def room_def)
    then show ?thesis using addsD [OF g, of e] e True by (cases "l \<le> room d - k") auto
  next
    case False
    then show ?thesis using addsD(2) [OF f d] by auto
  qed
qed

lemma adds_same: "adds 0 Inr"
  by (simp add: adds_def)

text \<open>
  A memory operand with a base and a scaled index takes three instructions, a move into it
  two more.
\<close>

definition scaled_memory :: "operand_low_level_s \<Rightarrow> bool" where
  "scaled_memory sc \<longleftrightarrow> kind sc = KIND_IND_SCALE \<and> ll_parts sc \<and> sub_value (ll_operand sc ! 0) \<noteq> 0 \<and>
     sub_value (ll_operand sc ! 2) \<noteq> 0 \<and> 1 < sub_value (ll_operand sc ! 1)"

lemma memory_adds:
  assumes sc: "scaled_memory sc" shows "adds 3 (memory_address handle ll sc)"
proof -
  have s: "kind sc = KIND_IND_SCALE" "ll_parts sc" "sub_value (ll_operand sc ! 0) \<noteq> 0"
     "sub_value (ll_operand sc ! 2) \<noteq> 0" "1 < sub_value (ll_operand sc ! 1)" "sub_value (ll_operand sc ! 1) \<noteq> 1"
    using sc by (auto simp: scaled_memory_def)
  have opd: "fill_ok (convert_operand handle (ll_address ll) sc n)" if "n < 4" for n
    by (rule convert_operand_ok) (use s that in auto)
  let ?d3 = "displacement (ll_operand sc ! 3)" and ?tmp = "convert_operand handle (ll_address ll) operand_reg_tmp1 0"
  let ?mul = "emit OP_IMUL 0 (convert_operand handle (ll_address ll) sc 2) (sized 64 (convert_operand handle (ll_address ll) sc 1)) ?tmp"
  let ?add = "emit OP_ADD 0 ?tmp (convert_operand handle (ll_address ll) sc 0) ?tmp"
  let ?disp = "emit (if fst ?d3 then OP_SUB else OP_ADD) 0 ?tmp (convert_operand handle (ll_address ll) (snd ?d3) 0) ?tmp"
  have "adds (1 + (1 + 1)) (\<lambda>d. bindE (?mul d) (\<lambda>d. bindE (?add d) ?disp))"
    by (intro adds_bind adds_emit tmp_ok displacement_ok opd takes_intros) simp_all
  moreover have "memory_address handle ll sc = (\<lambda>d. bindE (?mul d) (\<lambda>d. bindE (?add d) ?disp))"
    using s by (intro ext) (simp add: memory_address_def scale_index_def memory_base_def memory_displacement_def part_of
      bindE_assoc case_prod_beta)
  ultimately show ?thesis by simp
qed

lemma move_adds:
  assumes sc: "scaled_memory (ll_dstA ll)" and a: "kind (ll_srcA ll) = KIND_IMM" "ll_parts (ll_srcA ll)"
    and b: "kind (ll_srcB ll) = KIND_EMPTY"
  shows "adds 5 (convert_base handle ll fl)"
proof -
  have s: "kind (ll_dstA ll) = KIND_IND_SCALE" "ll_parts (ll_dstA ll)" using sc by (auto simp: scaled_memory_def)
  obtain ind where ind: "memory_kind (ll_dstA ll) = Inr ind" by (simp add: memory_kind_def part_of [OF s(2)])
  have empty: "fill_ok (convert_operand handle (ll_address ll) (ll_srcB ll) 0)"
    by (simp add: fill_ok_def convert_operand_def b)
  have imm: "fill_ok (convert_operand handle (ll_address ll) (ll_srcA ll) 0)" by (rule convert_operand_ok) (use a in auto)
  have "adds 1 (memory_operation handle ll fl)"
    unfolding memory_operation_def or_tmp2_def using a(1) b s(1) by (auto intro!: adds_emit tmp_ok empty imm takes_intros)
  moreover have "adds 1 (store_operand handle ll ind)"
    unfolding store_operand_def using s(1) by (auto intro!: adds_emit tmp_ok takes_intros)
  ultimately have "adds (3 + (0 + (1 + 1))) (\<lambda>d. bindE (memory_address handle ll (ll_dstA ll) d) (\<lambda>d. bindE (Inr d) (\<lambda>d.
      bindE (memory_operation handle ll fl d) (store_operand handle ll ind))))"
    by (intro adds_bind memory_adds sc adds_same)
  then have adds: "adds 5 (convert_indirect handle ll fl)"
    using a(1) b s(1) ind by (simp add: convert_indirect_def [abs_def] scale_operand_def load_operand_def)
  show ?thesis unfolding adds_def
  proof (intro allI impI)
    fix d assume d: "in_array d"
    let ?i = "dis_instruction d ! instruction_number d"
    let ?d = "d\<lparr>dis_instruction := (dis_instruction d)[instruction_number d := ?i\<lparr>opcode := OP_NOP, flags := 0\<rparr>]\<rparr>"
    show "if 5 \<le> room d then \<exists>e. convert_base handle ll fl d = Inr e \<and> length (dis_instruction e) = length (dis_instruction d) \<and>
        instruction_number e = instruction_number d + 5 else convert_base handle ll fl d = Inl OutOfBounds"
    proof (cases "instruction_number d < length (dis_instruction d)")
      case True
      have "convert_base handle ll fl d = convert_indirect handle ll fl ?d"
        using True s(1) by (simp add: convert_base_def is_ind_def Let_def)
      moreover have "in_array ?d" "room ?d = room d" using d by (simp_all add: in_array_def room_def)
      ultimately show ?thesis using adds by (auto simp: adds_def)
    next
      case False
      then show ?thesis by (simp add: convert_base_def room_def)
    qed
  qed
qed

text \<open>
  C19. The conversion of SETCC whose first source is a memory operand with a base and a
  scaled index, and whose second source is empty, makes exactly twelve RTL instructions in
  an array of at least twelve, and writes past the end of any shorter one, so of the array
  of ten that the code has.
\<close>
theorem setcc_overflows:
  assumes "ll_opcode ll = OP_SETCC" "scaled_memory (ll_srcA ll)" "kind (ll_srcB ll) = KIND_EMPTY"
  shows "if length (dis_instruction d) < 12 then convert_ll_inst_to_rtl handle ll d = Inl OutOfBounds
    else \<exists>e. convert_ll_inst_to_rtl handle ll d = Inr (0, e) \<and> instruction_number e = 12"
proof -
  let ?d = "d\<lparr>instruction_number := 0, bytes_used := octets ll\<rparr>"
  let ?to = "\<lambda>v. with_opcode OP_MOV (ll\<lparr>ll_dstA := ll_srcA ll, ll_srcA := as_imm v 8 (ll_srcA ll)\<rparr>)"
  have p: "ll_parts (ll_srcA ll)" using assms(2) by (simp add: scaled_memory_def)
  have to: "adds 5 (convert_base handle (?to v) 0)" for v
    by (rule move_adds) (use assms(2,3) p in \<open>simp_all add: with_opcode_def as_imm_def ll_parts_def\<close>)
  have cond: "adds 1 (emit_if c t)" for c t
    unfolding emit_if_def by (rule adds_emit) (simp_all add: takes_intros)
  have "adds (1 + (5 + (1 + 5))) (convert_setcc handle ll)"
    unfolding convert_setcc_def [abs_def] Let_def by (intro adds_bind cond to)
  moreover have "in_array ?d" "room ?d = length (dis_instruction d)" by (simp_all add: in_array_def room_def)
  ultimately have "if length (dis_instruction d) < 12 then convert_setcc handle ll ?d = Inl OutOfBounds
      else \<exists>e. convert_setcc handle ll ?d = Inr e \<and> instruction_number e = 12"
    using addsD [of 12 "convert_setcc handle ll" ?d] by auto
  then show ?thesis using assms(1)
    by (auto simp: convert_ll_inst_to_rtl_def convert_case_def sets_flags_def converted_def split: if_splits)
qed

end
