(* ===== verification/RtlAddress.thy ===== *)
theory RtlAddress
  imports RtlArray
begin

text \<open>
  The meaning of the instructions for an address, on 64 bit registers: the effective address
  for an operand in memory, and something else for \<open>LEA\<close> with an index and a negative
  displacement.
\<close>

declare One_nat_def [simp del]


section \<open>What an address computes\<close>

text \<open>
  The meaning of the four operations an address is made of, on 64 bit registers: an operand is
  a register or its own value.
\<close>

type_synonym registers = "u64 \<Rightarrow> u64"

definition rtl_value :: "registers \<Rightarrow> operand_s \<Rightarrow> u64" where
  "rtl_value regs x = (if store x = STORE_DIRECT then index x else regs (index x))"

definition rtl_result :: "opcode \<Rightarrow> u64 \<Rightarrow> u64 \<Rightarrow> u64" where
  "rtl_result opc a b =
     (if opc = OP_ADD then a + b else if opc = OP_SUB then a - b else if opc = OP_IMUL then a * b else a)"

definition rtl_step :: "registers \<Rightarrow> instruction_s \<Rightarrow> registers" where
  "rtl_step regs i = regs(index (dstA i) := rtl_result (opcode i) (rtl_value regs (srcA i)) (rtl_value regs (srcB i)))"

text \<open>The instructions a conversion filled, and the registers after them.\<close>

definition run_new :: "registers \<Rightarrow> dis_instructions_s \<Rightarrow> dis_instructions_s \<Rightarrow> registers" where
  "run_new regs d e = foldl rtl_step regs (drop (instruction_number d) (take (instruction_number e) (dis_instruction e)))"

definition grown :: "dis_instructions_s \<Rightarrow> dis_instructions_s \<Rightarrow> bool" where
  "grown d e \<longleftrightarrow> instruction_number d \<le> instruction_number e \<and> instruction_number e \<le> length (dis_instruction e) \<and>
     take (instruction_number d) (dis_instruction e) = take (instruction_number d) (dis_instruction d)"

lemma grown_refl: "in_array d \<Longrightarrow> grown d d"
  by (simp add: grown_def in_array_def)

lemma run_same [simp]: "run_new regs d d = regs"
  by (simp add: run_new_def)

lemma grown_trans:
  assumes "grown d e" "grown e f" shows "grown d f" "run_new regs d f = run_new (run_new regs d e) e f"
proof -
  have le: "instruction_number d \<le> instruction_number e" "instruction_number e \<le> instruction_number f"
      "instruction_number f \<le> length (dis_instruction f)" "instruction_number e \<le> length (dis_instruction e)"
    and t: "take (instruction_number d) (dis_instruction e) = take (instruction_number d) (dis_instruction d)"
      "take (instruction_number e) (dis_instruction f) = take (instruction_number e) (dis_instruction e)"
    using assms by (simp_all add: grown_def)
  have "take (instruction_number d) (dis_instruction f) = take (instruction_number d) (take (instruction_number e) (dis_instruction f))"
    using le by (simp add: min_absorb1)
  then show "grown d f" using le t by (simp add: grown_def min_absorb1)
  let ?d = "instruction_number d" and ?e = "instruction_number e" and ?f = "instruction_number f"
  have "drop ?d (take ?f (dis_instruction f)) = drop ?d (take ?e (take ?f (dis_instruction f)) @ drop ?e (take ?f (dis_instruction f)))"
    by (simp only: append_take_drop_id)
  also have "\<dots> = drop ?d (take ?e (dis_instruction e)) @ drop ?e (take ?f (dis_instruction f))"
    using le t(2) by (simp add: min_absorb1)
  finally show "run_new regs d f = run_new (run_new regs d e) e f" by (simp add: run_new_def)
qed

text \<open>An operand that reads the value \<open>v\<close> of the registers.\<close>

definition reads :: "registers \<Rightarrow> u64 \<Rightarrow> fill \<Rightarrow> bool" where
  "reads regs v f \<longleftrightarrow> (\<forall>x y. f x = Inr y \<longrightarrow> rtl_value regs y = v)"

lemma emit_runs:
  assumes e: "emit opc fl fa fb (convert_operand handle base operand_reg_tmp1 0) d = Inr e"
    and a: "reads regs u fa" and b: "reads regs v fb"
  shows "grown d e \<and> run_new regs d e = regs(REG_TMP1 := rtl_result opc u v)"
proof -
  let ?n = "instruction_number d" and ?i = "dis_instruction d ! instruction_number d"
  obtain x y z where n: "?n < length (dis_instruction d)" and xyz: "fa (srcA ?i) = Inr x" "fb (srcB ?i) = Inr y"
      "convert_operand handle base operand_reg_tmp1 0 (dstA ?i) = Inr z"
    and e': "e = d\<lparr>dis_instruction := (dis_instruction d)[?n := ?i\<lparr>opcode := opc, flags := fl, srcA := x, srcB := y, dstA := z\<rparr>],
      instruction_number := Suc ?n\<rparr>"
    using e by (auto simp: emit_def bindE_Inr_iff at_Inr_iff)
  have z: "index z = REG_TMP1"
    using xyz(3) by (auto simp: convert_operand_def operand_reg_tmp1_def one_part_def set_operand_def)
  have "drop ?n (take (Suc ?n) (dis_instruction e)) = [?i\<lparr>opcode := opc, flags := fl, srcA := x, srcB := y, dstA := z\<rparr>]"
    using n by (simp add: e' take_Suc_conv_app_nth)
  moreover have "rtl_value regs x = u" "rtl_value regs y = v" using a b xyz unfolding reads_def by blast+
  ultimately have "run_new regs d e = regs(REG_TMP1 := rtl_result opc u v)"
    by (simp add: run_new_def e' rtl_step_def z)
  moreover have "grown d e" using n by (simp add: grown_def e' take_update_cancel)
  ultimately show ?thesis by simp
qed

text \<open>The value of a low level operand: its first part.\<close>

definition ll_value :: "registers \<Rightarrow> operand_low_level_s \<Rightarrow> u64" where
  "ll_value regs x = (if kind x = KIND_IMM then sub_value (hd (ll_operand x)) else regs (sub_value (hd (ll_operand x))))"

lemma convert_reads:
  assumes "kind x \<in> {KIND_REG, KIND_IMM}" "ll_operand x \<noteq> []"
  shows "reads regs (ll_value regs x) (convert_operand handle base x 0)"
  using assms by (auto simp: reads_def convert_operand_def ll_value_def rtl_value_def set_operand_def relocate_operand_def hd_conv_nth
    split: option.split)

lemma scale_reads:
  assumes "kind sc \<in> {KIND_SCALE, KIND_IND_SCALE}" "ll_parts sc"
  shows "n \<in> {0, 2} \<Longrightarrow> reads regs (regs (sub_value (ll_operand sc ! n))) (convert_operand handle base sc n)"
    "reads regs (sub_value (ll_operand sc ! 1)) (convert_operand handle base sc 1)"
    "reads regs (sub_value (ll_operand sc ! 1)) (sized m (convert_operand handle base sc 1))"
  using assms by (auto simp: reads_def convert_operand_def rtl_value_def set_operand_def ll_parts_def sized_def bindE_Inr_iff
    split: operand_kind.splits)

lemma empty_reads: "reads regs 0 (convert_operand handle base operand_empty 0)"
  by (auto simp: reads_def convert_operand_def operand_empty_def rtl_value_def set_operand_def)

text \<open>The value worked out so far is that of the operand handed on, and no other register changed but the temporary one.\<close>

definition computed :: "registers \<Rightarrow> registers \<Rightarrow> u64 \<Rightarrow> operand_low_level_s option \<Rightarrow> bool" where
  "computed regs regs' v p \<longleftrightarrow> (\<forall>r. r \<noteq> REG_TMP1 \<longrightarrow> regs' r = regs r) \<and>
     (case p of None \<Rightarrow> v = 0 | Some x \<Rightarrow> kind x \<in> {KIND_REG, KIND_IMM} \<and> ll_operand x \<noteq> [] \<and> ll_value regs' x = v)"

definition index_value :: "registers \<Rightarrow> operand_low_level_s \<Rightarrow> u64" where
  "index_value regs sc = (let r = sub_value (ll_operand sc ! 2) in if r = 0 then 0 else regs r * sub_value (ll_operand sc ! 1))"

text \<open>The registers of an address are real ones, and an index has a factor.\<close>

definition address_form :: "operand_low_level_s \<Rightarrow> bool" where
  "address_form sc \<longleftrightarrow> kind sc \<in> {KIND_SCALE, KIND_IND_SCALE} \<and> ll_parts sc \<and>
     sub_value (ll_operand sc ! 0) \<noteq> REG_TMP1 \<and> sub_value (ll_operand sc ! 2) \<noteq> REG_TMP1 \<and>
     (sub_value (ll_operand sc ! 2) \<noteq> 0 \<longrightarrow> sub_value (ll_operand sc ! 1) \<noteq> 0)"

lemma tmp1_value [simp]: "kind operand_reg_tmp1 = KIND_REG" "ll_value regs operand_reg_tmp1 = regs REG_TMP1"
    "kind (as_reg s) = KIND_REG" "ll_value regs (as_reg s) = regs (sub_value s)"
    "kind (one_part k v b off) = k" "ll_value regs (one_part KIND_IMM v b off) = v"
  by (simp_all add: operand_reg_tmp1_def ll_value_def as_reg_def one_part_def)

lemma word_above_1: "x \<noteq> 0 \<Longrightarrow> x \<noteq> 1 \<Longrightarrow> 1 < x" for x :: u64
  by unat_arith

lemma scale_index_computes:
  assumes "scale_index handle ll memory sc d = Inr (p, e)" "address_form sc" "in_array d"
  shows "grown d e \<and> computed regs (run_new regs d e) (index_value regs sc) p"
proof -
  note sc = assms(2) [unfolded address_form_def]
  let ?f = "sub_value (ll_operand sc ! 1)" and ?r = "sub_value (ll_operand sc ! 2)"
  have parts: "ll_parts sc" "kind sc \<in> {KIND_SCALE, KIND_IND_SCALE}" using sc by simp_all
  consider (none) "?r = 0" "p = None" "e = d" | (reg) "?r \<noteq> 0" "?f = 1" "p = Some (as_reg (ll_operand sc ! 2))" "e = d"
    | (mul) "?r \<noteq> 0" "p = Some operand_reg_tmp1" "emit OP_IMUL 0 (convert_operand handle (ll_address ll) sc 2)
           ((if memory then sized 64 else id) (convert_operand handle (ll_address ll) sc 1))
           (convert_operand handle (ll_address ll) operand_reg_tmp1 0) d = Inr e"
    using assms(1) sc word_above_1 [of ?f] by (auto simp: scale_index_def part_of parts bindE_Inr_iff split: if_splits)
  then show ?thesis
  proof cases
    case none
    then show ?thesis using grown_refl [OF assms(3)] by (simp add: computed_def index_value_def)
  next
    case reg
    then show ?thesis using grown_refl [OF assms(3)] by (simp add: computed_def index_value_def)
  next
    case mul
    have "reads regs ?f ((if memory then sized 64 else id) (convert_operand handle (ll_address ll) sc 1))"
      using scale_reads [OF parts(2,1)] by simp
    from emit_runs [OF mul(3) scale_reads(1) [OF parts(2,1)] this] show ?thesis
      using mul(1,2) by (simp add: computed_def index_value_def rtl_result_def Let_def)
  qed
qed

lemma computed_reads:
  assumes "computed regs regs' v (Some x)" shows "reads regs' v (convert_operand handle base x 0)"
  using assms convert_reads [of x regs'] by (auto simp: computed_def)

lemma displacement_reads:
  assumes "displacement s = (neg, x)"
  shows "reads regs (if neg then - sub_value s else sub_value s) (convert_operand handle base x 0)" "kind x = KIND_IMM"
    "ll_operand x \<noteq> []" "ll_value regs x = (if neg then - sub_value s else sub_value s)"
  using assms convert_reads [of x regs] by (auto simp: displacement_def)

definition base_value :: "registers \<Rightarrow> operand_low_level_s \<Rightarrow> u64" where
  "base_value regs sc = (let r = sub_value (ll_operand sc ! 0) in if r = 0 then 0 else regs r)"

definition effective_address :: "registers \<Rightarrow> operand_low_level_s \<Rightarrow> u64" where
  "effective_address regs sc = base_value regs sc + index_value regs sc + sub_value (ll_operand sc ! 3)"

lemma memory_base_computes:
  assumes run: "memory_base handle ll sc (p, d) = Inr (q, e)" and sc: "address_form sc" and d: "in_array d"
    and c: "computed regs regs' v p"
  shows "grown d e \<and> computed regs (run_new regs' d e) (v + base_value regs sc) q"
proof -
  have parts: "ll_parts sc" "kind sc \<in> {KIND_SCALE, KIND_IND_SCALE}" using sc by (simp_all add: address_form_def)
  let ?b = "sub_value (ll_operand sc ! 0)"
  have b: "regs' ?b = regs ?b" using c sc by (simp add: computed_def address_form_def)
  consider (none) "?b = 0" "q = p" "e = d" | (reg) "?b \<noteq> 0" "p = None" "q = Some (as_reg (ll_operand sc ! 0))" "e = d"
    | (add) x where "?b \<noteq> 0" "p = Some x" "q = Some operand_reg_tmp1" "emit OP_ADD 0 (convert_operand handle (ll_address ll) x 0)
        (convert_operand handle (ll_address ll) sc 0) (convert_operand handle (ll_address ll) operand_reg_tmp1 0) d = Inr e"
    using run by (auto simp: memory_base_def part_of parts bindE_Inr_iff split: if_splits option.splits)
  then show ?thesis
  proof cases
    case none
    then show ?thesis using grown_refl [OF d] c by (simp add: base_value_def)
  next
    case reg
    then show ?thesis using grown_refl [OF d] c b by (simp add: computed_def base_value_def)
  next
    case add
    have "computed regs regs' v (Some x)" using c add(2) by simp
    from emit_runs [OF add(4) computed_reads [OF this] scale_reads(1) [OF parts(2,1)]] show ?thesis
      using add(1,3) b c by (simp add: computed_def base_value_def rtl_result_def Let_def)
  qed
qed

text \<open>
  A memory operand: after the instructions for the address, the first temporary register holds
  it, and no other register has changed.
\<close>

text \<open>
  C16. The RTL instructions for an operand in memory leave its effective address, base plus
  index times factor plus displacement, in the first temporary register and change no other
  register.
\<close>
theorem memory_address_computes:
  assumes "memory_address handle ll sc d = Inr e" "address_form sc" "in_array d"
  shows "run_new regs d e = regs(REG_TMP1 := effective_address regs sc)"
proof -
  have parts: "ll_parts sc" using assms(2) by (simp add: address_form_def)
  obtain p d1 q d2 where run: "scale_index handle ll True sc d = Inr (p, d1)" "memory_base handle ll sc (p, d1) = Inr (q, d2)"
    "memory_displacement handle ll sc (q, d2) = Inr e"
    using assms(1) by (auto simp: memory_address_def bindE_Inr_iff)
  have 1: "grown d d1" "computed regs (run_new regs d d1) (index_value regs sc) p"
    using scale_index_computes [OF run(1) assms(2,3)] by blast+
  have "in_array d1" using 1(1) by (simp add: grown_def in_array_def)
  from memory_base_computes [OF run(2) assms(2) this 1(2)]
  have 2: "grown d1 d2" "computed regs (run_new (run_new regs d d1) d1 d2) (index_value regs sc + base_value regs sc) q" by blast+
  note 12 = grown_trans [OF 1(1) 2(1)]
  obtain neg x where disp: "displacement (ll_operand sc ! 3) = (neg, x)" by (cases "displacement (ll_operand sc ! 3)")
  let ?from = "convert_operand handle (ll_address ll) (case q of None \<Rightarrow> one_part KIND_IMM 0 0 0 | Some x \<Rightarrow> x) 0"
  let ?regs = "run_new regs d d2" and ?v = "index_value regs sc + base_value regs sc" and ?d = "sub_value (ll_operand sc ! 3)"
  have e: "emit (if neg then OP_SUB else OP_ADD) 0 ?from (convert_operand handle (ll_address ll) x 0)
      (convert_operand handle (ll_address ll) operand_reg_tmp1 0) d2 = Inr e"
    using run(3) parts disp by (simp add: memory_displacement_def part_of)
  have c: "computed regs ?regs ?v q" using 2(2) 12 by simp
  have "reads ?regs ?v ?from"
  proof (cases q)
    case None
    then have "?v = 0" using c by (simp add: computed_def)
    then show ?thesis using None convert_reads [of "one_part KIND_IMM 0 0 0" ?regs] by simp
  next
    case (Some y)
    then show ?thesis using computed_reads [of regs ?regs ?v y] c by simp
  qed
  from emit_runs [OF e this displacement_reads(1) [OF disp]]
  have 3: "grown d2 e" "run_new ?regs d2 e =
      ?regs(REG_TMP1 := rtl_result (if neg then OP_SUB else OP_ADD) ?v (if neg then - ?d else ?d))" by blast+
  have "rtl_result (if neg then OP_SUB else OP_ADD) ?v (if neg then - ?d else ?d) = effective_address regs sc"
    by (simp add: rtl_result_def effective_address_def)
  then have "run_new regs d e = ?regs(REG_TMP1 := effective_address regs sc)"
    using grown_trans(2) [OF 12(1) 3(1)] 3(2) by simp
  moreover have "?regs r = regs r" if "r \<noteq> REG_TMP1" for r using c that by (simp add: computed_def)
  ultimately show ?thesis by (intro ext) simp
qed

text \<open>
  \<open>LEA\<close>: the sign of the displacement is used twice when there is an index, so that a negative
  displacement makes the sum of index and displacement be subtracted from the base. The base
  is read even when there is none, as register 0.
\<close>

definition lea_value :: "registers \<Rightarrow> operand_low_level_s \<Rightarrow> u64" where
  "lea_value regs sc =
     (let b = regs (sub_value (ll_operand sc ! 0)); disp = sub_value (ll_operand sc ! 3) in
      if sub_value (ll_operand sc ! 2) \<noteq> 0 \<and> sint disp < 0 then b - (index_value regs sc + disp)
      else b + index_value regs sc + disp)"

text \<open>
  C17. The RTL instructions for LEA leave base plus index plus displacement in the first
  temporary register, but base minus (index plus displacement) when there is an index and
  the displacement is negative.
\<close>
theorem lea_address_computes:
  assumes "lea_address handle ll sc d = Inr e" "address_form sc" "in_array d"
  shows "run_new regs d e = regs(REG_TMP1 := lea_value regs sc)"
proof -
  have parts: "ll_parts sc" "kind sc \<in> {KIND_SCALE, KIND_IND_SCALE}" using assms(2) by (simp_all add: address_form_def)
  let ?d = "sub_value (ll_operand sc ! 3)" and ?b = "sub_value (ll_operand sc ! 0)" and ?i = "index_value regs sc"
  obtain p d1 neg q d2 where run: "scale_index handle ll False sc d = Inr (p, d1)"
    "lea_displacement handle ll sc (p, d1) = Inr (neg, q, d2)" "lea_base handle ll sc (neg, q, d2) = Inr e"
    using assms(1) by (auto simp: lea_address_def bindE_Inr_iff)
  have 1: "grown d d1" "computed regs (run_new regs d d1) ?i p"
    using scale_index_computes [OF run(1) assms(2,3)] by blast+
  have d1: "in_array d1" using 1(1) by (simp add: grown_def in_array_def)
  have p: "p = None \<longleftrightarrow> sub_value (ll_operand sc ! 2) = 0"
    using run(1) assms(2) word_above_1 by (auto simp: scale_index_def part_of parts address_form_def bindE_Inr_iff split: if_splits)
  obtain sgn x where disp: "displacement (ll_operand sc ! 3) = (sgn, x)" by (cases "displacement (ll_operand sc ! 3)")
  have sgn: "sgn \<longleftrightarrow> sint ?d < 0" using disp by (simp add: displacement_def)
  let ?v = "if p = None then (if neg then - ?d else ?d) else ?i + ?d"
  have 2: "grown d1 d2 \<and> computed regs (run_new (run_new regs d d1) d1 d2) ?v q \<and> (neg \<longleftrightarrow> sint ?d < 0)"
  proof (cases "?d = 0")
    case True
    then have "neg = False" "q = p" "d2 = d1" using run(2) disp by (auto simp: lea_displacement_def part_of parts)
    then show ?thesis using 1(2) grown_refl [OF d1] True p by (auto simp: index_value_def)
  next
    case d: False
    show ?thesis
    proof (cases p)
      case None
      then have "neg = sgn" "q = Some x" "d2 = d1" using run(2) disp d by (auto simp: lea_displacement_def part_of parts)
      then show ?thesis using None sgn grown_refl [OF d1] displacement_reads [OF disp] 1(2) by (simp add: computed_def)
    next
      case (Some y)
      have e: "neg = sgn" "q = Some operand_reg_tmp1" "emit (if sgn then OP_SUB else OP_ADD) 0 (convert_operand handle (ll_address ll) y 0)
          (convert_operand handle (ll_address ll) x 0) (convert_operand handle (ll_address ll) operand_reg_tmp1 0) d1 = Inr d2"
        using run(2) disp d Some by (auto simp: lea_displacement_def part_of parts bindE_Inr_iff)
      have cy: "computed regs (run_new regs d d1) ?i (Some y)" using 1(2) Some by simp
      from emit_runs [OF e(3) computed_reads [OF cy] displacement_reads(1) [OF disp]]
      show ?thesis using e(1,2) Some sgn cy by (simp add: computed_def rtl_result_def)
    qed
  qed
  note 12 = grown_trans [OF 1(1) conjunct1 [OF 2]]
  let ?regs = "run_new regs d d2"
  have c: "computed regs ?regs ?v q" using 2 12 by simp
  have base: "reads ?regs (?regs ?b) (convert_operand handle (ll_address ll) sc 0)" by (rule scale_reads(1) [OF parts(2,1)]) simp
  have b: "?regs ?b = regs ?b" using c assms(2) by (simp add: computed_def address_form_def)
  have off: "reads ?regs ?v (convert_operand handle (ll_address ll) (prev_operand q) 0)"
  proof (cases q)
    case None
    then show ?thesis using c empty_reads by (simp add: computed_def prev_operand_def)
  next
    case (Some y)
    then show ?thesis using computed_reads [of regs ?regs ?v y] c by (simp add: prev_operand_def)
  qed
  from emit_runs [OF run(3) [unfolded lea_base_def prod.case] base off]
  have 3: "grown d2 e" "run_new ?regs d2 e = ?regs(REG_TMP1 :=
      rtl_result (case q of None \<Rightarrow> OP_MOV | Some _ \<Rightarrow> if neg then OP_SUB else OP_ADD) (?regs ?b) ?v)" by blast+
  have "?v = 0" if "q = None" using c that by (simp add: computed_def)
  then have "rtl_result (case q of None \<Rightarrow> OP_MOV | Some _ \<Rightarrow> if neg then OP_SUB else OP_ADD) (?regs ?b) ?v = lea_value regs sc"
  proof -
    have neg: "neg \<longleftrightarrow> sint ?d < 0" using 2 by blast
    have "rtl_result (case q of None \<Rightarrow> OP_MOV | Some _ \<Rightarrow> if neg then OP_SUB else OP_ADD) (?regs ?b) ?v =
        (if neg then regs ?b - ?v else regs ?b + ?v)"
      using b \<open>q = None \<Longrightarrow> ?v = 0\<close> by (cases q) (auto simp: rtl_result_def)
    also have "\<dots> = lea_value regs sc"
    proof (cases "p = None")
      case True
      then have "?i = 0" "sub_value (ll_operand sc ! 2) = 0" using p by (simp_all add: index_value_def)
      then show ?thesis using True by (simp add: lea_value_def)
    next
      case False
      have "?v = ?i + ?d" by (simp only: if_not_P [OF False])
      moreover have "sub_value (ll_operand sc ! 2) \<noteq> 0" using p False by blast
      ultimately show ?thesis using neg by (simp only: lea_value_def Let_def) (simp add: add.assoc)
    qed
    finally show ?thesis .
  qed
  then have "run_new regs d e = ?regs(REG_TMP1 := lea_value regs sc)"
    using grown_trans(2) [OF 12(1) 3(1)] 3(2) by simp
  moreover have "?regs r = regs r" if "r \<noteq> REG_TMP1" for r using c that by (simp add: computed_def)
  ultimately show ?thesis by (intro ext) simp
qed

end
