(* ===== verification/RtlForm.thy ===== *)
theory RtlForm
  imports RtlArray
begin

text \<open>
  The converted instructions read memory by \<open>LOAD\<close> and write it by \<open>STORE\<close> only.
\<close>

declare One_nat_def [simp del]


section \<open>Memory is read by LOAD and written by STORE\<close>

definition mem_form :: "instruction_s \<Rightarrow> bool" where
  "mem_form i \<longleftrightarrow> (indirect (srcA i) = IND_DIRECT \<or> opcode i = OP_LOAD) \<and> indirect (srcB i) = IND_DIRECT \<and>
     (indirect (dstA i) = IND_DIRECT \<or> opcode i = OP_STORE)"

definition mem_forms :: "dis_instructions_s \<Rightarrow> bool" where
  "mem_forms d \<longleftrightarrow> (\<forall>i \<in> set (dis_instruction d). indirect (srcB i) = IND_DIRECT) \<and>
     (\<forall>n < instruction_number d. n < length (dis_instruction d) \<longrightarrow> mem_form (dis_instruction d ! n))"

definition forms :: "(dis_instructions_s \<Rightarrow> dis_instructions_s c) \<Rightarrow> bool" where
  "forms f \<longleftrightarrow> (\<forall>d. mem_forms d \<longrightarrow> yields (f d) mem_forms)"

definition fill_direct :: "fill \<Rightarrow> bool" where
  "fill_direct f \<longleftrightarrow> (\<forall>x y. f x = Inr y \<longrightarrow> indirect y = IND_DIRECT)"

definition fill_keeps :: "fill \<Rightarrow> bool" where
  "fill_keeps f \<longleftrightarrow> (\<forall>x y. f x = Inr y \<longrightarrow> indirect x = IND_DIRECT \<longrightarrow> indirect y = IND_DIRECT)"

named_theorems form_intros \<open>conversions that read and write memory by LOAD and STORE only\<close>

lemma relocate_indirect [simp]: "indirect (relocate_operand handle off x) = indirect x"
  by (simp add: relocate_operand_def split: option.split)

lemma fill_direct_rules [form_intros]: "fill_direct (fixed st IND_DIRECT isz ix vs)" "fill_direct (reg64 r)" "fill_direct (imm v vs)"
    "fill_direct (reg_of r isz vs)" "fill_direct (convert_operand handle base ll n)" "fill_direct f \<Longrightarrow> fill_direct (sized m f)"
    "fill_direct (via_sized IND_DIRECT m f)"
  by (auto simp: fill_direct_def fixed_def reg64_def imm_def reg_of_def sized_def via_sized_def set_operand_def convert_operand_def
    bindE_Inr_iff split: operand_kind.splits if_splits)

lemma fill_keeps_rules [form_intros]: "fill_keeps Inr" "fill_direct f \<Longrightarrow> fill_keeps f"
  by (auto simp: fill_keeps_def fill_direct_def)

lemma emit_forms [form_intros]:
  assumes "fill_direct fa \<or> opc = OP_LOAD" "fill_keeps fb" "fill_direct fd \<or> opc = OP_STORE"
  shows "forms (emit opc fl fa fb fd)"
  unfolding forms_def yields_def
proof (intro allI impI)
  fix d e assume d: "mem_forms d" and run: "emit opc fl fa fb fd d = Inr e"
  let ?n = "instruction_number d" and ?i = "dis_instruction d ! instruction_number d"
  obtain x y z where n: "?n < length (dis_instruction d)" and xyz: "fa (srcA ?i) = Inr x" "fb (srcB ?i) = Inr y" "fd (dstA ?i) = Inr z"
    and e: "e = d\<lparr>dis_instruction := (dis_instruction d)[?n := ?i\<lparr>opcode := opc, flags := fl, srcA := x, srcB := y, dstA := z\<rparr>],
      instruction_number := Suc ?n\<rparr>"
    using run by (auto simp: emit_def bindE_Inr_iff at_Inr_iff)
  let ?new = "?i\<lparr>opcode := opc, flags := fl, srcA := x, srcB := y, dstA := z\<rparr>"
  have "indirect (srcB ?i) = IND_DIRECT" using d n by (simp add: mem_forms_def)
  then have new: "mem_form ?new" using assms xyz by (auto simp: mem_form_def fill_direct_def fill_keeps_def)
  then have "indirect (srcB i) = IND_DIRECT" if "i \<in> set (dis_instruction e)" for i
    using that d set_update_subset_insert [of "dis_instruction d" ?n ?new] by (auto simp: e mem_forms_def mem_form_def)
  moreover have "mem_form (dis_instruction e ! k)" if "k < Suc ?n" "k < length (dis_instruction d)" for k
    using that d new n by (cases "k = ?n") (simp_all add: e mem_forms_def)
  moreover have "length (dis_instruction e) = length (dis_instruction d)" "instruction_number e = Suc ?n" by (simp_all add: e)
  ultimately show "mem_forms e" unfolding mem_forms_def by simp
qed

lemma formsD: "forms f \<Longrightarrow> f d = Inr e \<Longrightarrow> mem_forms d \<Longrightarrow> mem_forms e"
  unfolding forms_def yields_def by blast

lemma formsI: "(\<And>d e. f d = Inr e \<Longrightarrow> mem_forms d \<Longrightarrow> mem_forms e) \<Longrightarrow> forms f"
  unfolding forms_def yields_def by blast

lemma forms_bind: "forms f \<Longrightarrow> forms g \<Longrightarrow> forms (\<lambda>d. bindE (f d) g)"
  by (rule formsI) (auto simp: bindE_Inr_iff dest: formsD)

lemma forms_same: "forms Inr" "forms (\<lambda>_. Inl e)"
  by (auto intro: formsI)

lemma forms_emits: "list_all forms fs \<Longrightarrow> forms (emits fs)"
proof (induction fs)
  case (Cons f fs)
  then have "forms (\<lambda>d. bindE (f d) (emits fs))" by (intro forms_bind) simp_all
  moreover have "emits (f # fs) = (\<lambda>d. bindE (f d) (emits fs))" by (rule ext) simp
  ultimately show ?case by simp
qed (auto intro: formsI)

lemma address_emit_forms:
  assumes "emit opc 0 (convert_operand h1 b1 x1 n1) fb (convert_operand h3 b3 x3 n3) d = Inr e"
    "fill_keeps fb" "mem_forms d" shows "mem_forms e"
  by (rule formsD [OF emit_forms assms(1,3)]) (simp_all add: form_intros assms(2))

lemma operand_emit_forms:
  assumes "emit opc 0 (convert_operand h1 b1 x1 n1) (convert_operand h2 b2 x2 n2) (convert_operand h3 b3 x3 n3) d = Inr e"
  shows "mem_forms d \<longrightarrow> mem_forms e"
  using address_emit_forms [OF assms] by (simp add: form_intros)

lemma sized_emit_forms:
  assumes "emit opc 0 (convert_operand h1 b1 x1 n1) (sized m (convert_operand h2 b2 x2 n2)) (convert_operand h3 b3 x3 n3) d = Inr e"
  shows "mem_forms d \<longrightarrow> mem_forms e"
  using address_emit_forms [OF assms] by (simp add: form_intros)

lemma scale_index_forms: "scale_index handle ll memory sc d = Inr (p, e) \<Longrightarrow> mem_forms d \<longrightarrow> mem_forms e"
  by (auto simp: scale_index_def bindE_Inr_iff dest!: operand_emit_forms sized_emit_forms split: if_splits)

lemma memory_address_forms: "forms (memory_address handle ll sc)"
  by (rule formsI) (auto simp: memory_address_def memory_base_def memory_displacement_def bindE_Inr_iff case_prod_beta
    dest!: scale_index_forms operand_emit_forms split: if_splits option.splits)

lemma lea_address_forms: "forms (lea_address handle ll sc)"
  by (rule formsI) (auto simp: lea_address_def lea_displacement_def lea_base_def bindE_Inr_iff case_prod_beta
    dest!: scale_index_forms operand_emit_forms split: if_splits option.splits)

lemma convert_direct_forms: "forms (convert_direct handle ll fl)"
proof -
  have lea: "forms (\<lambda>d. bindE (lea_address handle ll (ll_srcB ll) d)
          (emit OP_MOV fl (convert_operand handle (ll_address ll) operand_reg_tmp1 0)
            (convert_operand handle (ll_address ll) (ll_srcB ll) 0) (convert_operand handle (ll_address ll) (ll_dstA ll) 0)))"
    by (rule forms_bind [OF lea_address_forms]) (simp add: form_intros)
  show ?thesis
    unfolding convert_direct_def using lea forms_same(2)
    by (cases "kind (ll_dstA ll) = KIND_SCALE"; cases "kind (ll_srcA ll) = KIND_SCALE"; cases "kind (ll_srcB ll) = KIND_SCALE")
      (simp_all add: form_intros)
qed

lemma load_store_form:
  "forms (load_operand handle ll ind)" "forms (store_operand handle ll ind)" "forms (memory_operation handle ll fl)"
proof -
  show "forms (load_operand handle ll ind)"
    unfolding load_operand_def using forms_same(1) by (cases "kind (ll_srcA ll) = KIND_IND_SCALE \<or> kind (ll_srcB ll) = KIND_IND_SCALE")
      (simp_all add: form_intros)
  show "forms (store_operand handle ll ind)"
    unfolding store_operand_def using forms_same(1) by (cases "kind (ll_dstA ll) = KIND_IND_SCALE") (simp_all add: form_intros)
  show "forms (memory_operation handle ll fl)"
    unfolding memory_operation_def by (rule emit_forms) (simp_all add: form_intros)
qed

lemma convert_indirect_forms: "forms (convert_indirect handle ll fl)"
proof (rule formsI)
  fix d e assume run: "convert_indirect handle ll fl d = Inr e" and d: "mem_forms d"
  obtain sc ind d1 d2 d3 where "memory_address handle ll sc d = Inr d1" "load_operand handle ll ind d1 = Inr d2"
    "memory_operation handle ll fl d2 = Inr d3" "store_operand handle ll ind d3 = Inr e"
    using run by (auto simp: convert_indirect_def bindE_Inr_iff)
  then show "mem_forms e" using d formsD memory_address_forms load_store_form by metis
qed

lemma convert_base_forms: "forms (convert_base handle ll fl)"
  unfolding forms_def yields_def
proof (intro allI impI)
  fix d e assume d: "mem_forms d" and run: "convert_base handle ll fl d = Inr e"
  let ?i = "dis_instruction d ! instruction_number d"
  let ?d = "d\<lparr>dis_instruction := (dis_instruction d)[instruction_number d := ?i\<lparr>opcode := OP_NOP, flags := 0\<rparr>]\<rparr>"
  have n: "instruction_number d < length (dis_instruction d)" using run by (auto simp: convert_base_def bindE_Inr_iff at_Inr_iff)
  then have "indirect (srcB ?i) = IND_DIRECT" using d by (simp add: mem_forms_def)
  then have "mem_forms ?d"
    using d set_update_subset_insert [of "dis_instruction d" "instruction_number d" "?i\<lparr>opcode := OP_NOP, flags := 0\<rparr>"]
    by (auto simp: mem_forms_def)
  moreover have "convert_indirect handle ll fl ?d = Inr e \<or> convert_direct handle ll fl ?d = Inr e"
    using run n by (auto simp: convert_base_def Let_def split: if_splits)
  ultimately show "mem_forms e" using formsD [OF convert_indirect_forms] formsD [OF convert_direct_forms] by blast
qed

lemma patch_last_forms:
  assumes "fill_keeps fb" "fill_direct fd" shows "forms (patch_last fb fd)"
  unfolding forms_def yields_def
proof (intro allI impI)
  fix d e assume d: "mem_forms d" and run: "patch_last fb fd d = Inr e"
  let ?k = "instruction_number d - 1"
  let ?i = "dis_instruction d ! ?k"
  obtain y z where n: "0 < instruction_number d" "?k < length (dis_instruction d)" and yz: "fb (srcB ?i) = Inr y" "fd (dstA ?i) = Inr z"
    and e: "e = d\<lparr>dis_instruction := (dis_instruction d)[?k := ?i\<lparr>srcB := y, dstA := z\<rparr>]\<rparr>"
    using run by (auto simp: patch_last_def bindE_Inr_iff at_Inr_iff split: if_splits)
  have "mem_form ?i" using d n by (simp add: mem_forms_def One_nat_def)
  then have new: "mem_form (?i\<lparr>srcB := y, dstA := z\<rparr>)" using assms yz by (auto simp: mem_form_def fill_direct_def fill_keeps_def)
  have "indirect (srcB i) = IND_DIRECT" if "i \<in> set (dis_instruction e)" for i
    using that d new set_update_subset_insert [of "dis_instruction d" ?k "?i\<lparr>srcB := y, dstA := z\<rparr>"]
    by (auto simp: e mem_forms_def mem_form_def)
  moreover have "mem_form (dis_instruction e ! k)" if "k < instruction_number d" "k < length (dis_instruction d)" for k
    using that d new n by (cases "k = ?k") (simp_all add: e mem_forms_def)
  moreover have "length (dis_instruction e) = length (dis_instruction d)" "instruction_number e = instruction_number d" by (simp_all add: e)
  ultimately show "mem_forms e" unfolding mem_forms_def by simp
qed

lemma small_forms: "forms (emit_if cond target)" "fill_direct f \<Longrightarrow> forms (load_stack n m f)" "forms (move_stack opc v)"
  unfolding emit_if_def load_stack_def move_stack_def by (rule emit_forms; simp add: form_intros)+

lemma conversions_form:
  "forms (convert_mov handle ll)" "forms (convert_cmov handle ll)" "forms (convert_setcc handle ll)" "forms (convert_step handle opc ll)"
  "forms (convert_jmpt handle ll)" "forms (convert_jmp ll)" "forms (convert_call handle ll)"
  "forms (convert_callm handle ll)" "forms (convert_if ll)" "forms (convert_sex handle ll)"
  "forms (convert_test handle ll)" "forms convert_ret" "forms convert_leave"
  "forms (convert_push handle ll)" "forms (convert_pop handle ll)" "forms (convert_movs handle ll)" "forms (convert_muld opc handle ll)"
proof -
  show "forms (convert_mov handle ll)" unfolding convert_mov_def by (rule convert_base_forms)
  show "forms (convert_cmov handle ll)" unfolding convert_cmov_def [abs_def] by (intro forms_bind small_forms convert_base_forms)
  show "forms (convert_setcc handle ll)"
    unfolding convert_setcc_def [abs_def] Let_def by (intro forms_bind small_forms convert_base_forms)
  show "forms (convert_step handle opc ll)"
    unfolding convert_step_def using convert_base_forms forms_same(2) by (cases "ll_size (ll_dstA ll) = 0") simp_all
  show "forms (convert_jmpt handle ll)"
    unfolding convert_jmpt_def [abs_def] by (intro forms_bind convert_base_forms patch_last_forms) (simp_all add: form_intros)
  show "forms (convert_callm handle ll)"
    unfolding convert_callm_def [abs_def] by (intro forms_bind convert_base_forms patch_last_forms) (simp_all add: form_intros)
  have jmp: "forms (emit OP_JMP 0 (imm v 64) Inr (reg64 REG_IP))" for v by (simp add: form_intros)
  show "forms (convert_jmp ll)" unfolding convert_jmp_def [abs_def] by (auto simp: bindE_Inr_iff intro!: formsI dest: formsD [OF jmp])
  show "forms (convert_call handle ll)" unfolding convert_call_def by (simp add: form_intros)
  show "forms (convert_if ll)" unfolding convert_if_def [abs_def] by (auto simp: bindE_Inr_iff intro!: formsI dest: formsD [OF small_forms(1)])
  show "forms (convert_sex handle ll)" unfolding convert_sex_def Let_def by (rule convert_base_forms)
  show "forms (convert_test handle ll)" unfolding convert_test_def by (rule convert_base_forms)
  show "forms convert_ret" unfolding convert_ret_def by (rule forms_emits) (simp add: form_intros small_forms)
  show "forms convert_leave" unfolding convert_leave_def by (rule forms_emits) (simp add: form_intros small_forms)
  show "forms (convert_push handle ll)" unfolding convert_push_def Let_def by (rule forms_emits) (simp add: form_intros small_forms)
  show "forms (convert_pop handle ll)" unfolding convert_pop_def Let_def by (rule forms_emits) (simp add: form_intros small_forms)
  have count: "forms (movs_count ll)"
    unfolding movs_count_def Let_def by (rule forms_emits) (simp add: form_intros small_forms)
  have copy: "forms (movs_copy handle ll)"
    unfolding movs_copy_def Let_def by (rule forms_emits) (simp add: form_intros)
  have jump: "forms (\<lambda>d. if rep ll = 1 then emit OP_JMP 0 (imm (word_of_int (- bytes_used d)) 64) Inr (reg64 REG_IP) d else Inr d)"
    by (auto intro!: formsI dest: formsD [OF jmp] split: if_splits)
  have first: "forms (\<lambda>d. if rep ll = 1 then movs_count ll d else Inr d)" by (auto intro!: formsI dest: formsD [OF count] split: if_splits)
  show "forms (convert_movs handle ll)" unfolding convert_movs_def [abs_def] by (intro forms_bind first copy jump)
  show "forms (convert_muld opc handle ll)" unfolding convert_muld_def Let_def by (rule forms_emits) (simp add: form_intros)
qed

text \<open>
  C20. Every RTL instruction a conversion fills has direct operands but for the source of a
  LOAD and the destination of a STORE, as long as the second sources in the array were
  direct.
\<close>
theorem convert_mem_form:
  assumes "convert_ll_inst_to_rtl handle ll d = Inr (r, e)" "\<forall>i \<in> set (dis_instruction d). indirect (srcB i) = IND_DIRECT"
    and "n < instruction_number e" "n < length (dis_instruction e)"
  shows "mem_form (dis_instruction e ! n)"
proof -
  let ?d = "d\<lparr>instruction_number := 0, bytes_used := octets ll\<rparr>"
  define good where "good m \<longleftrightarrow> yields m (\<lambda>(r :: int, e :: dis_instructions_s). mem_forms e)" for m
  have d: "mem_forms ?d" using assms(2) by (simp add: mem_forms_def)
  have c: "good (converted (f ?d))" if "forms f" for f
    using formsD [OF that _ d] by (auto simp: good_def yields_def converted_def bindE_Inr_iff)
  have either: "good x \<Longrightarrow> good y \<Longrightarrow> good (if b then x else y)" for x y b by simp
  have same: "good (Inr (r, ?d))" for r using d by (simp add: good_def)
  note all = conversions_form [THEN c] convert_base_forms [THEN c]
  have "good (convert_case handle ll ?d)"
    unfolding convert_case_def Let_def by (intro either same all)
  then have "mem_forms e" using assms(1) by (simp add: convert_ll_inst_to_rtl_def good_def yields_def)
  then show ?thesis using assms(3,4) by (simp add: mem_forms_def)
qed

end
