(* ===== verification/RtlExamples.thy ===== *)
theory RtlExamples
  imports RtlAddress RtlForm Examples
begin

text \<open>
  The conversion of concrete machine instructions: a move from memory, \<open>SETCC\<close> and \<open>LEA\<close>.
\<close>

section \<open>Machine instructions\<close>

definition ex_parts :: "(u64 \<times> int) list \<Rightarrow> sub_operand_low_level_s list" where
  "ex_parts xs = take 16 (map (\<lambda>(v, n). \<lparr>sub_value = v, sub_size = n, sub_offset = 0\<rparr>) (xs @ replicate 16 (0, 0)))"

definition ex_operand :: "operand_kind \<Rightarrow> (u64 \<times> int) list \<Rightarrow> operand_low_level_s" where
  "ex_operand k xs = \<lparr>kind = k, ll_size = 64, ll_operand = ex_parts xs\<rparr>"

definition ex_machine :: "opcode \<Rightarrow> operand_low_level_s \<Rightarrow> operand_low_level_s \<Rightarrow> operand_low_level_s \<Rightarrow> instruction_low_level_s" where
  "ex_machine opc a b d = \<lparr>ll_opcode = opc, ll_address = 0, octets = 4, rep = 0, ll_predicate = 5,
     ll_srcA = a, ll_srcB = b, ll_dstA = d\<rparr>"

definition ex_none :: operand_low_level_s where
  "ex_none = ex_operand KIND_EMPTY []"

text \<open>The address \<open>[bx + 4 * cx - 8]\<close>, in memory and as the operand of \<open>LEA\<close>.\<close>

definition ex_address :: "operand_kind \<Rightarrow> operand_low_level_s" where
  "ex_address k = ex_operand k [(0x20, 64), (4, 8), (0x10, 64), (- 8, 64)]"

definition ex_array :: dis_instructions_s where
  "ex_array = \<lparr>bytes_used = 0, instruction_number = 0,
     dis_instruction = replicate 10 (ex_inst OP_NOP (ex_reg 8) (ex_reg 8) (ex_reg 8))\<rparr>"

definition ex_load :: instruction_low_level_s where
  "ex_load = ex_machine OP_MOV ex_none (ex_address KIND_IND_SCALE) (ex_operand KIND_REG [(8, 64)])"

definition ex_loaded :: dis_instructions_s where
  "ex_loaded = snd (projr (convert_ll_inst_to_rtl None ex_load ex_array))"

lemma ex_loaded: "convert_ll_inst_to_rtl None ex_load ex_array = Inr (0, ex_loaded)"
  by code_simp

lemma convert_fits_array_witness: "instruction_number ex_loaded \<le> 8"
proof -
  have "ll_form ex_load" "ll_opcode ex_load \<noteq> OP_SETCC" "length (dis_instruction ex_array) = 10" by code_simp+
  from convert_fits_array [OF this, of None] show ?thesis by (simp add: ex_loaded)
qed

lemma setcc_overflows_witness:
  "convert_ll_inst_to_rtl None (ex_machine OP_SETCC (ex_address KIND_IND_SCALE) ex_none ex_none) ex_array = Inl OutOfBounds"
proof -
  let ?set = "ex_machine OP_SETCC (ex_address KIND_IND_SCALE) ex_none ex_none"
  have "ll_opcode ?set = OP_SETCC" "scaled_memory (ll_srcA ?set)" "kind (ll_srcB ?set) = KIND_EMPTY"
    "length (dis_instruction ex_array) = 10" by code_simp+
  then show ?thesis using setcc_overflows [of ?set ex_array None] by simp
qed

lemma convert_mem_form_witness: "mem_form (dis_instruction ex_loaded ! 3)"
proof -
  have "list_all (\<lambda>i. indirect (srcB i) = IND_DIRECT) (dis_instruction ex_array)" "3 < instruction_number ex_loaded"
    "3 < length (dis_instruction ex_loaded)" by code_simp+
  then show ?thesis using convert_mem_form [OF ex_loaded, of 3] by (simp add: list_all_iff)
qed

section \<open>Addresses\<close>

text \<open>Register \<open>bx\<close> holds \<open>0x1000\<close>, \<open>cx\<close> holds 2; the address is \<open>0x1000\<close>.\<close>

definition ex_regs :: registers where
  "ex_regs = (\<lambda>_. 0)(0x20 := 0x1000, 0x10 := 3)"

definition ex_addressed :: dis_instructions_s where
  "ex_addressed = projr (memory_address None ex_load (ex_address KIND_IND_SCALE) ex_array)"

lemma memory_address_computes_witness: "run_new ex_regs ex_array ex_addressed REG_TMP1 = 0x1004"
proof -
  have run: "memory_address None ex_load (ex_address KIND_IND_SCALE) ex_array = Inr ex_addressed"
    "address_form (ex_address KIND_IND_SCALE)" "in_array ex_array"
    "effective_address ex_regs (ex_address KIND_IND_SCALE) = 0x1004" by code_simp+
  from memory_address_computes [OF run(1-3), of ex_regs] run(4) show ?thesis by simp
qed

text \<open>\<open>LEA\<close> gets the same address wrong.\<close>

definition ex_lea :: dis_instructions_s where
  "ex_lea = projr (lea_address None ex_load (ex_address KIND_SCALE) ex_array)"

lemma lea_address_computes_witness:
  "run_new ex_regs ex_array ex_lea REG_TMP1 = 0xffc \<and> effective_address ex_regs (ex_address KIND_SCALE) = 0x1004"
proof -
  have run: "lea_address None ex_load (ex_address KIND_SCALE) ex_array = Inr ex_lea"
    "address_form (ex_address KIND_SCALE)" "in_array ex_array"
    "lea_value ex_regs (ex_address KIND_SCALE) = 0xffc" "effective_address ex_regs (ex_address KIND_SCALE) = 0x1004" by code_simp+
  from lea_address_computes [OF run(1-3), of ex_regs] run(4,5) show ?thesis by simp
qed

end
