(* ===== verification/Amd64.thy ===== *)
theory Amd64
  imports Rtl
begin

text \<open>
  \<open>src/input/instruction_decoder/amd64/dis.c\<close> (with \<open>helper.c\<close>, \<open>opcodes.c\<close> and \<open>prefix_0f.c\<close>): the decoder
  of AMD64 machine code into RTL instructions, by hand. \<open>rmb\<close> takes apart the operand of the
  \<open>ModRM\<close> byte and fills in the instructions that work out its address; the others fill in the
  operation. The filling functions are those of the conversion (Rtl).
\<close>

declare One_nat_def [simp del]

section \<open>The bytes of an instruction\<close>

text \<open>
  What stays the same during the decoding of one instruction: the bytes of the code section, its
  relocation table and the offset of the instruction.
\<close>

record code_s =
  code_bytes :: "u8 list"
  code_relocs :: "reloc_s list"
  code_offset :: u64

text \<open>The bytes that follow: the offset \<open>offset + dis_instructions->bytes_used\<close>.\<close>

definition here :: "code_s \<Rightarrow> dis_instructions_s \<Rightarrow> u64" where
  "here c d = code_offset c + word_of_int (bytes_used d)"

definition skip :: "int \<Rightarrow> dis_instructions_s \<Rightarrow> dis_instructions_s" where
  "skip n d = d\<lparr>bytes_used := bytes_used d + n\<rparr>"

definition getbyte :: "code_s \<Rightarrow> u64 \<Rightarrow> u32 c" where
  "getbyte c offset = bindE (at (code_bytes c) (unat offset)) (\<lambda>b. Inr (ucast b))"

definition getword :: "code_s \<Rightarrow> u64 \<Rightarrow> u32 c" where
  "getword c offset =
     bindE (getbyte c offset) (\<lambda>b0.
     bindE (getbyte c (offset + 1)) (\<lambda>b1. Inr (or b0 (push_bit 8 b1))))"

definition getdword :: "code_s \<Rightarrow> u64 \<Rightarrow> u32 c" where
  "getdword c offset =
     bindE (getbyte c offset) (\<lambda>b0.
     bindE (getbyte c (offset + 1)) (\<lambda>b1.
     bindE (getbyte c (offset + 2)) (\<lambda>b2.
     bindE (getbyte c (offset + 3)) (\<lambda>b3.
       Inr (or (or (or b0 (push_bit 8 b1)) (push_bit 16 b2)) (push_bit 24 b3))))))"

text \<open>The byte at the current place, which is then passed.\<close>

definition next_byte :: "code_s \<Rightarrow> dis_instructions_s \<Rightarrow> (u8 \<times> dis_instructions_s) c" where
  "next_byte c d = bindE (getbyte c (here c d)) (\<lambda>b. Inr (ucast b, skip 1 d))"

text \<open>The fields of the \<open>ModRM\<close> byte (\<open>reg\<close>, \<open>reg_mem\<close>, \<open>mod\<close>) and of the \<open>SIB\<close> byte (\<open>mul\<close>, \<open>index\<close>, \<open>base\<close>).\<close>

definition split_ModRM :: "u8 \<Rightarrow> u8 \<Rightarrow> u8 \<times> u8 \<times> u8" where
  "split_ModRM byte rex =
     (let reg = and (drop_bit 3 byte) 7; reg_mem = and byte 7 in
      (if and rex 4 \<noteq> 0 then or reg 8 else reg,
       if and rex 3 = 1 then or reg_mem 8 else reg_mem,
       drop_bit 6 byte))"

definition split_SIB :: "u8 \<Rightarrow> u8 \<Rightarrow> u8 \<times> u8 \<times> u8" where
  "split_SIB byte rex =
     (let ix = and (drop_bit 3 byte) 7; base = and byte 7 in
      (drop_bit 6 byte,
       if and rex 2 \<noteq> 0 then or ix 8 else ix,
       if and rex 1 \<noteq> 0 then or base 8 else base))"

section \<open>Registers and opcodes\<close>

definition REG_DX :: u64 where "REG_DX = 0x18"
definition REG_BX :: u64 where "REG_BX = 0x20"
definition REG_SI :: u64 where "REG_SI = 0x38"
definition REG_DI :: u64 where "REG_DI = 0x40"

definition reg_table :: "(u64 \<times> int) list" where
  "reg_table =
     [(REG_AX, 64), (REG_CX, 64), (REG_DX, 64), (REG_BX, 64), (REG_SP, 64), (REG_BP, 64), (REG_SI, 64), (REG_DI, 64),
      (0x50, 64), (0x58, 64), (0x60, 64), (0x68, 64), (0x70, 64), (0x78, 64), (0x80, 64), (0x88, 64)]"

definition immed_table :: "opcode list" where
  "immed_table = [OP_ADD, OP_OR, OP_ADC, OP_SBB, OP_AND, OP_SUB, OP_XOR, OP_CMP]"

definition shift2_table :: "opcode list" where
  "shift2_table = [OP_ROL, OP_ROR, OP_RCL, OP_RCR, OP_SHL, OP_SHR, OP_NOP, OP_SAR]"

definition grp3_table :: "opcode list" where
  "grp3_table = [OP_TEST, OP_NOP, OP_NOT, OP_NEG, OP_MUL, OP_IMUL, OP_DIV, OP_IDIV]"

section \<open>Filling in operands\<close>

text \<open>An operand that is relocated when the table has an entry for its place.\<close>

definition relocated_at :: "code_s \<Rightarrow> u64 \<Rightarrow> operand_s \<Rightarrow> operand_s" where
  "relocated_at c offset opd =
     (case bf_relocated_code (code_relocs c) offset of
        None \<Rightarrow> opd
      | Some r \<Rightarrow> opd\<lparr>relocated := 1, relocated_area := to_int (rel_area r),
          relocated_index := to_int (rel_symbol_value r)\<rparr>)"

definition immediate :: "code_s \<Rightarrow> u64 \<Rightarrow> int \<Rightarrow> u64 \<Rightarrow> int \<Rightarrow> fill" where
  "immediate c offset isz v vs opd = Inr (relocated_at c offset (set_operand STORE_DIRECT IND_DIRECT isz v vs opd))"

definition table_reg :: "u8 \<Rightarrow> int \<Rightarrow> int \<Rightarrow> fill" where
  "table_reg n isz vs opd = bindE (at reg_table (unat n)) (\<lambda>r. reg_of (fst r) isz vs opd)"

text \<open>A whole register: its size is that of the table.\<close>

definition whole_reg :: "u8 \<Rightarrow> fill" where
  "whole_reg n opd = bindE (at reg_table (unat n)) (\<lambda>r. reg_of (fst r) 64 (snd r) opd)"

text \<open>The field \<open>relocated\<close> is not set.\<close>

definition same_relocated :: "fill \<Rightarrow> fill" where
  "same_relocated f opd = bindE (f opd) (\<lambda>x. Inr (x\<lparr>relocated := relocated opd\<rparr>))"

text \<open>The next instruction is filled in, but not counted yet.\<close>

definition prepare :: "opcode \<Rightarrow> int \<Rightarrow> fill \<Rightarrow> fill \<Rightarrow> fill \<Rightarrow> dis_instructions_s \<Rightarrow> dis_instructions_s c" where
  "prepare opc fl fa fb fd d =
     bindE (at (dis_instruction d) (instruction_number d)) (\<lambda>i.
     bindE (fa (srcA i)) (\<lambda>a. bindE (fb (srcB i)) (\<lambda>b. bindE (fd (dstA i)) (\<lambda>x.
       Inr (d\<lparr>dis_instruction := (dis_instruction d)[instruction_number d :=
              i\<lparr>opcode := opc, flags := fl, srcA := a, srcB := b, dstA := x\<rparr>]\<rparr>)))))"

text \<open>The last instruction is changed after all.\<close>

definition amend_last :: "fill \<Rightarrow> fill \<Rightarrow> fill \<Rightarrow> dis_instructions_s \<Rightarrow> dis_instructions_s c" where
  "amend_last fa fb fd d =
     (if instruction_number d = 0 then Inl OutOfBounds
      else bindE (at (dis_instruction d) (instruction_number d - 1)) (\<lambda>i.
        bindE (fa (srcA i)) (\<lambda>a. bindE (fb (srcB i)) (\<lambda>b. bindE (fd (dstA i)) (\<lambda>x.
          Inr (d\<lparr>dis_instruction := (dis_instruction d)[instruction_number d - 1 :=
                 i\<lparr>srcA := a, srcB := b, dstA := x\<rparr>]\<rparr>))))))"

section \<open>The operand in memory or register\<close>

text \<open>The first instruction of an address moves, the others add.\<close>

definition mov_or_add :: "nat \<Rightarrow> dis_instructions_s \<Rightarrow> opcode" where
  "mov_or_add n0 d = (if n0 < instruction_number d then OP_ADD else OP_MOV)"

definition add_register :: "nat \<Rightarrow> fill \<Rightarrow> int \<Rightarrow> int \<Rightarrow> dis_instructions_s \<Rightarrow> dis_instructions_s c" where
  "add_register n0 r nb nd d = emit (mov_or_add n0 d) 0 r (reg_of REG_TMP1 64 nb) (reg_of REG_TMP1 64 nd) d"

text \<open>
  A negative displacement is subtracted, if it is added at all. The difference goes through an
  \<open>int\<close>.
\<close>

definition signed_disp8 :: "opcode \<Rightarrow> u32 \<Rightarrow> opcode \<times> u64" where
  "signed_disp8 opc v =
     (if opc = OP_ADD \<and> 0x7f < v then (OP_SUB, scast (0x100 - v)) else (opc, ucast v))"

definition signed_disp32 :: "opcode \<Rightarrow> u32 \<Rightarrow> opcode \<times> u64" where
  "signed_disp32 opc v =
     (if opc = OP_ADD \<and> 0x7fffffff < v then (OP_SUB, scast (ucast (0x100000000 - ucast v :: u64) :: u32)) else (opc, ucast v))"

definition add_disp8 :: "code_s \<Rightarrow> nat \<Rightarrow> dis_instructions_s \<Rightarrow> dis_instructions_s c" where
  "add_disp8 c n0 d =
     bindE (getbyte c (here c d)) (\<lambda>v.
       case signed_disp8 (mov_or_add n0 d) v of (opc, x) \<Rightarrow>
         bindE (emit opc 0 (imm x 64) (reg64 REG_TMP1) (reg64 REG_TMP1) d) (\<lambda>d. Inr (skip 1 d)))"

definition add_disp32 :: "code_s \<Rightarrow> nat \<Rightarrow> int \<Rightarrow> int \<Rightarrow> dis_instructions_s \<Rightarrow> dis_instructions_s c" where
  "add_disp32 c n0 na n d =
     bindE (getdword c (here c d)) (\<lambda>v.
       case signed_disp32 (mov_or_add n0 d) v of (opc, x) \<Rightarrow>
         bindE (emit opc 0 (immediate c (here c d) 64 x na) (reg_of REG_TMP1 64 n) (reg_of REG_TMP1 64 n) d) (\<lambda>d.
         Inr (skip 4 d)))"

text \<open>The scaled index of the \<open>SIB\<close> byte. With \<open>mod\<close> 0 the second source of the multiplication is not set.\<close>

definition scaled_index :: "u8 \<Rightarrow> u8 \<Rightarrow> int \<Rightarrow> fill \<Rightarrow> dis_instructions_s \<Rightarrow> dis_instructions_s c" where
  "scaled_index mul ix n fb d =
     (if ix = 4 then Inr d
      else bindE (emit OP_MOV 0 (whole_reg ix) Inr (reg64 REG_TMP1) d) (\<lambda>d.
        if 0 < mul then emit OP_MUL 0 (imm (push_bit (unat mul) 1) n) fb (reg64 REG_TMP1) d else Inr d))"
definition sib_mod0 :: "code_s \<Rightarrow> nat \<Rightarrow> int \<Rightarrow> u8 \<Rightarrow> dis_instructions_s \<Rightarrow> dis_instructions_s c" where
  "sib_mod0 c n0 sz rex d =
     bindE (next_byte c d) (\<lambda>(b, d). case split_SIB b rex of (mul, ix, base) \<Rightarrow>
     bindE (scaled_index mul ix sz Inr d) (\<lambda>d.
       if base = 5 then add_disp32 c n0 64 64 d
       else add_register n0 (whole_reg base) 64 64 d))"

definition disp_mod0 :: "code_s \<Rightarrow> nat \<Rightarrow> int \<Rightarrow> dis_instructions_s \<Rightarrow> dis_instructions_s c" where
  "disp_mod0 c n0 sz d = add_disp32 c n0 sz sz d"

definition reg_mod0 :: "nat \<Rightarrow> int \<Rightarrow> u8 \<Rightarrow> dis_instructions_s \<Rightarrow> dis_instructions_s c" where
  "reg_mod0 n0 sz reg_mem d = add_register n0 (table_reg reg_mem 64 sz) 64 sz d"

text \<open>With \<open>mod\<close> 1 and 2 base 5 is \<open>BP\<close>, of the size of the operand.\<close>

definition sib_base :: "nat \<Rightarrow> int \<Rightarrow> u8 \<Rightarrow> dis_instructions_s \<Rightarrow> dis_instructions_s c" where
  "sib_base n0 sz base d =
     add_register n0 (if base = 5 then reg_of REG_BP 64 sz else whole_reg base) 64 64 d"

definition sib_mod1 :: "code_s \<Rightarrow> nat \<Rightarrow> int \<Rightarrow> u8 \<Rightarrow> dis_instructions_s \<Rightarrow> dis_instructions_s c" where
  "sib_mod1 c n0 sz rex d =
     bindE (next_byte c d) (\<lambda>(b, d). case split_SIB b rex of (mul, ix, base) \<Rightarrow>
     bindE (scaled_index mul ix sz (reg64 REG_TMP1) d) (\<lambda>d.
     bindE (sib_base n0 sz base d) (add_disp8 c n0)))"

definition reg_mod1 :: "code_s \<Rightarrow> nat \<Rightarrow> u8 \<Rightarrow> dis_instructions_s \<Rightarrow> dis_instructions_s c" where
  "reg_mod1 c n0 reg_mem d = bindE (add_register n0 (table_reg reg_mem 64 64) 64 64 d) (add_disp8 c n0)"

definition sib_mod2 :: "code_s \<Rightarrow> nat \<Rightarrow> int \<Rightarrow> u8 \<Rightarrow> dis_instructions_s \<Rightarrow> dis_instructions_s c" where
  "sib_mod2 c n0 sz rex d =
     bindE (next_byte c d) (\<lambda>(b, d). case split_SIB b rex of (mul, ix, base) \<Rightarrow>
     bindE (scaled_index mul ix sz (reg64 REG_TMP1) d) (\<lambda>d.
     bindE (sib_base n0 sz base d) (add_disp32 c n0 64 sz)))"

definition reg_mod2 :: "code_s \<Rightarrow> nat \<Rightarrow> int \<Rightarrow> u8 \<Rightarrow> dis_instructions_s \<Rightarrow> dis_instructions_s c" where
  "reg_mod2 c n0 sz reg_mem d =
     bindE (add_register n0 (table_reg reg_mem 64 sz) sz sz d) (add_disp32 c n0 sz sz)"

text \<open>\<open>mod\<close> 3 is a register: half of the instruction is filled in.\<close>

definition reg_mod3 :: "int \<Rightarrow> u8 \<Rightarrow> dis_instructions_s \<Rightarrow> dis_instructions_s c" where
  "reg_mod3 sz reg_mem =
     prepare OP_NOP 0 (table_reg reg_mem 64 sz) (table_reg reg_mem 64 sz) (table_reg reg_mem 64 sz)"

definition has_sib :: "u8 \<Rightarrow> u8 \<Rightarrow> bool" where
  "has_sib rex reg_mem \<longleftrightarrow> reg_mem = 4 \<or> and rex 2 \<noteq> 0 \<or> reg_mem = 0xc"

text \<open>
  The operand, and the number of the register in the \<open>ModRM\<close> byte. The flag is \<open>half\<close>: the
  operand is a register. Of the four values of \<open>mod\<close> none makes the C function return 0, so
  that the tests of its result in the callers are left out.
\<close>

definition rmb :: "code_s \<Rightarrow> int \<Rightarrow> u8 \<Rightarrow> dis_instructions_s \<Rightarrow> ((u8 \<times> bool) \<times> dis_instructions_s) c" where
  "rmb c sz rex d =
     (let n0 = instruction_number d in
      bindE (next_byte c d) (\<lambda>(b, d). case split_ModRM b rex of (reg, reg_mem, mode) \<Rightarrow>
      bindE
       (if mode = 0 then
          if has_sib rex reg_mem then sib_mod0 c n0 sz rex d
          else if reg_mem = 5 then disp_mod0 c n0 sz d
          else reg_mod0 n0 sz reg_mem d
        else if mode = 1 then if has_sib rex reg_mem then sib_mod1 c n0 sz rex d else reg_mod1 c n0 reg_mem d
        else if mode = 2 then if has_sib rex reg_mem then sib_mod2 c n0 sz rex d else reg_mod2 c n0 sz reg_mem d
        else reg_mod3 sz reg_mem d) (\<lambda>d. Inr ((reg, mode = 3), d))))"

section \<open>Instructions with such an operand\<close>

text \<open>\<open>SP\<close> and \<open>BP\<close> use stack memory: the first source of the first instruction decides.\<close>

definition base_kind :: "indirect_kind \<Rightarrow> dis_instructions_s \<Rightarrow> indirect_kind c" where
  "base_kind other d = bindE (at (dis_instruction d) 0) (\<lambda>i.
     Inr (if REG_SP \<le> index (srcA i) \<and> index (srcA i) \<le> REG_BP then IND_STACK else other))"

definition memory_operand :: "indirect_kind \<Rightarrow> int \<Rightarrow> fill" where
  "memory_operand ind vs = fixed STORE_REG ind 64 REG_TMP1 vs"

text \<open>The operand is left as it is when \<open>rmb\<close> has filled it in.\<close>

definition unless_half :: "bool \<Rightarrow> fill \<Rightarrow> fill" where
  "unless_half half f = (if half then Inr else f)"

definition flags_of :: "opcode \<Rightarrow> int" where
  "flags_of opc = (if opc = OP_MOV then 0 else 1)"

type_synonym decoded = "(int \<times> dis_instructions_s) c"

definition decoded :: "dis_instructions_s c \<Rightarrow> decoded" where
  "decoded m = bindE m (\<lambda>d. Inr (1, d))"

definition dis_Ex_Gx :: "code_s \<Rightarrow> opcode \<Rightarrow> u8 \<Rightarrow> int \<Rightarrow> dis_instructions_s \<Rightarrow> decoded" where
  "dis_Ex_Gx c opc rex sz d =
     bindE (rmb c sz rex d) (\<lambda>((reg, half), d).
     bindE (base_kind IND_MEM d) (\<lambda>ind.
       decoded (emit opc (flags_of opc) (table_reg reg 64 sz) (unless_half half (memory_operand ind sz))
         (unless_half half (memory_operand ind sz)) d)))"

definition dis_Gx_Ex :: "code_s \<Rightarrow> opcode \<Rightarrow> u8 \<Rightarrow> int \<Rightarrow> dis_instructions_s \<Rightarrow> decoded" where
  "dis_Gx_Ex c opc rex sz d =
     bindE (rmb c sz rex d) (\<lambda>((reg, half), d).
     bindE (base_kind IND_MEM d) (\<lambda>ind.
       decoded (emit opc (flags_of opc) (unless_half half (memory_operand ind sz)) (table_reg reg 64 sz)
         (table_reg reg 64 sz) d)))"

text \<open>The immediate value of an operation of \<open>size\<close> bits: at most four bytes. \<open>None\<close> for another size.\<close>

definition sized_immediate :: "code_s \<Rightarrow> int \<Rightarrow> dis_instructions_s \<Rightarrow> (fill \<times> int) option c" where
  "sized_immediate c sz d =
     (if sz = 32 \<or> sz = 64 then bindE (getdword c (here c d)) (\<lambda>v. Inr (Some (immediate c (here c d) 64 (ucast v) sz, 4)))
      else if sz = 16 then bindE (getword c (here c d)) (\<lambda>v. Inr (Some (immediate c (here c d) 64 (ucast v) sz, 2)))
      else if sz = 8 then bindE (getbyte c (here c d)) (\<lambda>v. Inr (Some (immediate c (here c d) 64 (ucast v) sz, 1)))
      else Inr None)"

text \<open>A source of which only the kind was set when the decoder gives up.\<close>

definition only_kind :: "store_kind \<Rightarrow> fill" where
  "only_kind st opd = Inr (opd\<lparr>store := st, indirect := IND_DIRECT, indirect_size := 64\<rparr>)"

definition dis_Ex_Ix :: "code_s \<Rightarrow> opcode \<Rightarrow> u8 \<Rightarrow> int \<Rightarrow> dis_instructions_s \<Rightarrow> decoded" where
  "dis_Ex_Ix c opc rex sz d =
     bindE (rmb c sz rex d) (\<lambda>((reg, half), d).
     bindE (base_kind IND_MEM d) (\<lambda>ind.
     bindE (sized_immediate c sz d) (\<lambda>im.
       case im of
         None \<Rightarrow> bindE (prepare opc (flags_of opc) (only_kind STORE_DIRECT) Inr Inr d) (\<lambda>d. Inr (0, d))
       | Some (f, n) \<Rightarrow>
           decoded (bindE (emit opc (flags_of opc) f (unless_half half (memory_operand ind sz))
             (unless_half half (memory_operand ind sz)) d) (\<lambda>d. Inr (skip n d))))))"

text \<open>Only registers: the operation is that of the table, and \<open>TEST\<close> alone has an immediate value.\<close>

definition dis_Ex :: "code_s \<Rightarrow> opcode list \<Rightarrow> u8 \<Rightarrow> int \<Rightarrow> dis_instructions_s \<Rightarrow> decoded" where
  "dis_Ex c table rex sz d =
     bindE (next_byte c d) (\<lambda>(b, d). case split_ModRM b rex of (reg, reg_mem, mode) \<Rightarrow>
       if mode \<noteq> 3 then Inr (0, d)
       else bindE (at table (unat reg)) (\<lambda>opc.
         let opd = table_reg reg_mem 64 sz in
         if reg \<noteq> 0 then decoded (emit opc 1 opd opd opd d)
         else bindE (sized_immediate c sz d) (\<lambda>im.
           case im of
             None \<Rightarrow> bindE (prepare opc 1 (only_kind STORE_DIRECT) Inr Inr d) (\<lambda>d. Inr (0, d))
           | Some (f, n) \<Rightarrow> decoded (bindE (emit opc 1 f opd opd d) (\<lambda>d. Inr (skip n d))))))"
section \<open>Opcodes of two bytes\<close>

text \<open>The \<open>NOP\<close> with operand bytes: the cases fall through.\<close>

definition nop_length :: "u8 \<Rightarrow> int option" where
  "nop_length byte =
     (if byte = 0x84 then Some 5 else if byte = 0x80 then Some 4 else if byte = 0x44 then Some 2
      else if byte = 0x40 then Some 1 else if byte = 0x00 then Some 0 else None)"

definition cmovcc :: "code_s \<Rightarrow> int \<Rightarrow> u8 \<Rightarrow> u8 \<Rightarrow> dis_instructions_s \<Rightarrow> decoded" where
  "cmovcc c sz rex byte d =
     bindE (emit_if (ucast (xor (and byte 0xf) 1) + 1) 0 d) (dis_Gx_Ex c OP_MOV rex sz)"

definition jcc_near :: "code_s \<Rightarrow> u8 \<Rightarrow> dis_instructions_s \<Rightarrow> decoded" where
  "jcc_near c byte d =
     bindE (getdword c (here c d)) (\<lambda>v.
       decoded (emit_if (ucast (and byte 0xf) + 1) (relative 32 (ucast v)) (skip 4 d)))"

definition setcc :: "code_s \<Rightarrow> int \<Rightarrow> u8 \<Rightarrow> u8 \<Rightarrow> dis_instructions_s \<Rightarrow> decoded" where
  "setcc c sz rex byte d =
     bindE (emit_if (ucast (xor (and byte 0xf) 1) + 1) 0 d) (\<lambda>d.
     bindE (rmb c sz rex d) (\<lambda>(_, d).
       decoded (emit OP_MOV 0 (imm 1 8) Inr (reg_of REG_TMP1 64 sz) d)))"

text \<open>The source keeps its kind in a register, and gets the size of the narrow operand.\<close>

definition movzx_source :: "bool \<Rightarrow> int \<Rightarrow> fill" where
  "movzx_source half n opd =
     Inr ((if half then opd else opd\<lparr>store := STORE_REG, indirect := IND_MEM, indirect_size := 64, index := REG_TMP1\<rparr>)
       \<lparr>relocated := 0, value_size := n\<rparr>)"

definition movzx :: "code_s \<Rightarrow> int \<Rightarrow> u8 \<Rightarrow> int \<Rightarrow> dis_instructions_s \<Rightarrow> decoded" where
  "movzx c sz rex n d =
     bindE (rmb c sz rex d) (\<lambda>((reg, half), d).
       decoded (emit OP_MOV 0 (movzx_source half n) Inr (same_relocated (table_reg reg 64 sz)) d))"

text \<open>Bytes \<open>b2\<close> to \<open>b5\<close> fall through to \<open>MOVZX\<close>.\<close>

definition prefix_0f :: "code_s \<Rightarrow> int \<Rightarrow> u8 \<Rightarrow> dis_instructions_s \<Rightarrow> decoded" where
  "prefix_0f c sz rex d =
     bindE (next_byte c d) (\<lambda>(byte, d).
       if byte = 0x1f then bindE (next_byte c d) (\<lambda>(b, d).
         case nop_length b of None \<Rightarrow> Inr (0, d) | Some n \<Rightarrow> Inr (1, skip n d))
       else if and byte 0xf0 = 0x40 then cmovcc c sz rex byte d
       else if and byte 0xf0 = 0x80 then jcc_near c byte d
       else if and byte 0xf0 = 0x90 then setcc c sz rex byte d
       else if 0xb2 \<le> byte \<and> byte \<le> 0xb6 then movzx c sz rex 8 d
       else if byte = 0xb7 then movzx c sz rex 16 d
       else Inr (0, d))"

section \<open>The accumulator and an immediate value\<close>

definition ax :: "int \<Rightarrow> int \<Rightarrow> fill" where
  "ax isz n = reg_of REG_AX isz n"

definition add_al_ib :: "code_s \<Rightarrow> dis_instructions_s \<Rightarrow> decoded" where
  "add_al_ib c d = bindE (getbyte c (here c d)) (\<lambda>v.
     decoded (emit OP_ADD 1 (immediate c (here c d) 64 (ucast v) 8) (ax 64 8) (ax 64 8) (skip 1 d)))"

definition add_eax_iv :: "code_s \<Rightarrow> dis_instructions_s \<Rightarrow> decoded" where
  "add_eax_iv c d = bindE (getdword c (here c d)) (\<lambda>v.
     decoded (emit OP_ADD 1 (immediate c (here c d) 64 (ucast v) 32) (ax 64 32) (ax 64 32) (skip 4 d)))"

text \<open>In the next ones \<open>relocated\<close> is not set in the accumulator operands.\<close>

definition al_ib :: "opcode \<Rightarrow> code_s \<Rightarrow> dis_instructions_s \<Rightarrow> decoded" where
  "al_ib opc c d = bindE (getbyte c (here c d)) (\<lambda>v.
     decoded (emit opc 1 (immediate c (here c d) 8 (ucast v) 8) (same_relocated (ax 8 8)) (same_relocated (ax 8 8)) (skip 1 d)))"

definition and_al_ib :: "code_s \<Rightarrow> dis_instructions_s \<Rightarrow> decoded" where
  "and_al_ib = al_ib OP_AND"

definition sub_eax_iv :: "code_s \<Rightarrow> dis_instructions_s \<Rightarrow> decoded" where
  "sub_eax_iv c d = bindE (getdword c (here c d)) (\<lambda>v.
     decoded (emit OP_SUB 1 (immediate c (here c d) 64 (ucast v) 32) (ax 64 32) (ax 64 32) (skip 4 d)))"

definition cmp_al_ib :: "code_s \<Rightarrow> dis_instructions_s \<Rightarrow> decoded" where
  "cmp_al_ib = al_ib OP_CMP"

definition cmp_eax_iv :: "code_s \<Rightarrow> dis_instructions_s \<Rightarrow> decoded" where
  "cmp_eax_iv c d = bindE (getdword c (here c d)) (\<lambda>v.
     decoded (emit OP_CMP 1 (immediate c (here c d) 32 (ucast v) 32) (same_relocated (ax 32 32))
       (same_relocated (ax 32 32)) (skip 4 d)))"

definition test_al_ib :: "code_s \<Rightarrow> dis_instructions_s \<Rightarrow> decoded" where
  "test_al_ib = al_ib OP_TEST"

text \<open>The first 64 opcodes: arithmetic on all forms of operands. Most segment and adjustment instructions are missing.\<close>

definition arithmetic_cases :: "(code_s \<Rightarrow> int \<Rightarrow> u8 \<Rightarrow> dis_instructions_s \<Rightarrow> decoded) \<Rightarrow> code_s \<Rightarrow> int \<Rightarrow> u8 \<Rightarrow> u8 \<Rightarrow> dis_instructions_s \<Rightarrow> decoded" where
  "arithmetic_cases two_bytes c width rex byte d =
     (if byte = 0x00 then dis_Ex_Gx c OP_ADD rex 8 d
      else if byte = 0x01 then dis_Ex_Gx c OP_ADD rex width d
      else if byte = 0x02 then dis_Gx_Ex c OP_ADD rex 8 d
      else if byte = 0x03 then dis_Gx_Ex c OP_ADD rex width d
      else if byte = 0x04 then add_al_ib c d
      else if byte = 0x05 then add_eax_iv c d
      else if byte = 0x08 then dis_Ex_Gx c OP_OR rex 8 d
      else if byte = 0x09 then dis_Ex_Gx c OP_OR rex width d
      else if byte = 0x0a then bindE (dis_Gx_Ex c OP_OR rex 8 d) (\<lambda>(_, d). Inr (1, d))
      else if byte = 0x0b then dis_Gx_Ex c OP_OR rex width d
      else if byte = 0x0f then two_bytes c width rex d
      else if byte = 0x19 then dis_Ex_Gx c OP_SBB rex width d
      else if byte = 0x21 then dis_Ex_Gx c OP_AND rex width d
      else if byte = 0x24 then and_al_ib c d
      else if byte = 0x28 then dis_Ex_Gx c OP_SUB rex 8 d
      else if byte = 0x29 then dis_Ex_Gx c OP_SUB rex width d
      else if byte = 0x2a then dis_Gx_Ex c OP_SUB rex 8 d
      else if byte = 0x2b then dis_Gx_Ex c OP_SUB rex width d
      else if byte = 0x2d then sub_eax_iv c d
      else if byte = 0x31 then dis_Ex_Gx c OP_XOR rex width d
      else if byte = 0x32 then dis_Gx_Ex c OP_XOR rex 8 d
      else if byte = 0x33 then dis_Gx_Ex c OP_XOR rex width d
      else if byte = 0x38 then dis_Ex_Gx c OP_CMP rex 8 d
      else if byte = 0x39 then dis_Ex_Gx c OP_CMP rex width d
      else if byte = 0x3a then dis_Gx_Ex c OP_CMP rex 8 d
      else if byte = 0x3b then dis_Gx_Ex c OP_CMP rex width d
      else if byte = 0x3c then cmp_al_ib c d
      else if byte = 0x3d then cmp_eax_iv c d
      else Inr (0, d))"

section \<open>Stack, moves and jumps\<close>

text \<open>\<open>REX.B\<close> selects the upper registers, here without \<open>REX.X\<close> only.\<close>

definition stack_reg :: "u8 \<Rightarrow> u8 \<Rightarrow> u8" where
  "stack_reg rex byte = or (and byte 7) (if and rex 3 = 1 then 8 else 0)"

definition stack_operand :: "int \<Rightarrow> fill" where
  "stack_operand n = fixed STORE_REG IND_STACK 64 REG_SP n"

definition push_reg :: "u8 \<Rightarrow> u8 \<Rightarrow> dis_instructions_s \<Rightarrow> decoded" where
  "push_reg rex byte d = decoded (emits
     [emit OP_SUB 0 (imm 8 64) (reg64 REG_SP) (reg64 REG_SP),
      emit OP_MOV 0 (table_reg (stack_reg rex byte) 64 64) (stack_operand 64) (stack_operand 64)] d)"

definition pop_reg :: "u8 \<Rightarrow> u8 \<Rightarrow> dis_instructions_s \<Rightarrow> decoded" where
  "pop_reg rex byte d = decoded (emits
     [emit OP_MOV 0 (stack_operand 32) Inr (table_reg (stack_reg rex byte) 64 32),
      emit OP_ADD 0 (imm 4 32) (reg_of REG_SP 64 32) (reg_of REG_SP 64 32)] d)"

definition movsxd :: "code_s \<Rightarrow> int \<Rightarrow> u8 \<Rightarrow> dis_instructions_s \<Rightarrow> decoded" where
  "movsxd c width rex d =
     bindE (dis_Ex_Gx c OP_SEX rex width d) (\<lambda>(r, d).
     bindE (amend_last (sized (width div 2) Inr) (sized width Inr) (sized width Inr) d) (\<lambda>d. Inr (r, d)))"

text \<open>The destination of the product is the number of the register, not its place in the table.\<close>

definition imul_gv_ev_iv :: "code_s \<Rightarrow> int \<Rightarrow> u8 \<Rightarrow> dis_instructions_s \<Rightarrow> decoded" where
  "imul_gv_ev_iv c width rex d =
     bindE (rmb c width rex d) (\<lambda>((reg, half), d).
     bindE (base_kind IND_DIRECT d) (\<lambda>ind.
     bindE (emit OP_MOV 0 Inr Inr (fixed STORE_REG ind 64 REG_TMP1 32) d) (\<lambda>d.
     bindE (getdword c (here c d)) (\<lambda>v.
     bindE (emit OP_IMUL 1 (immediate c (here c d) 64 (ucast v) width) (reg_of REG_TMP1 64 32) (reg_of REG_TMP1 64 32) d) (\<lambda>d.
     bindE (base_kind IND_DIRECT d) (\<lambda>ind.
       decoded (emit OP_MOV 0 (reg_of REG_TMP1 64 width) Inr (fixed STORE_REG ind 64 (ucast reg) width) (skip 4 d))))))))"

definition jcc_short :: "code_s \<Rightarrow> u8 \<Rightarrow> dis_instructions_s \<Rightarrow> decoded" where
  "jcc_short c byte d =
     bindE (getbyte c (here c d)) (\<lambda>v.
       decoded (emit_if (ucast (and byte 0xf)) (relative 8 (ucast v)) (skip 1 d)))"

definition group1_eb_ib :: "code_s \<Rightarrow> u8 \<Rightarrow> dis_instructions_s \<Rightarrow> decoded" where
  "group1_eb_ib c rex d =
     bindE (rmb c 1 rex d) (\<lambda>((reg, half), d).
     bindE (at immed_table (unat reg)) (\<lambda>opc.
     bindE (getbyte c (here c d)) (\<lambda>v.
     bindE (base_kind IND_MEM d) (\<lambda>ind.
       decoded (emit opc 1 (immediate c (here c d) 64 (ucast v) 8) Inr (unless_half half (memory_operand ind 8)) (skip 1 d))))))"

definition group1_ev_iv :: "code_s \<Rightarrow> int \<Rightarrow> u8 \<Rightarrow> dis_instructions_s \<Rightarrow> decoded" where
  "group1_ev_iv c width rex d =
     bindE (rmb c width rex d) (\<lambda>((reg, half), d).
     bindE (at immed_table (unat reg)) (\<lambda>opc.
     bindE (getdword c (here c d)) (\<lambda>v.
     bindE (base_kind IND_MEM d) (\<lambda>ind.
       decoded (emit opc 1 (immediate c (here c d) 64 (ucast v) width) (unless_half half (memory_operand ind 32))
         (unless_half half (memory_operand ind 32)) (skip (width div 8) d))))))"

definition group1_ev_ib :: "code_s \<Rightarrow> int \<Rightarrow> u8 \<Rightarrow> dis_instructions_s \<Rightarrow> decoded" where
  "group1_ev_ib c width rex d =
     bindE (rmb c width rex d) (\<lambda>((reg, half), d).
     bindE (at immed_table (unat reg)) (\<lambda>opc.
     bindE (getbyte c (here c d)) (\<lambda>v.
     bindE (base_kind IND_MEM d) (\<lambda>ind.
       decoded (emit opc 1 (imm (relative 8 (ucast v)) width) (unless_half half (memory_operand ind width))
         (unless_half half (memory_operand ind width)) (skip 1 d))))))"

definition lea_gv :: "code_s \<Rightarrow> int \<Rightarrow> u8 \<Rightarrow> dis_instructions_s \<Rightarrow> decoded" where
  "lea_gv c width rex d =
     bindE (rmb c width rex d) (\<lambda>((reg, half), d).
       decoded (emit OP_MOV 0 (unless_half half (reg_of REG_TMP1 64 width)) Inr (table_reg reg 64 width) d))"

definition cbw :: "int \<Rightarrow> dis_instructions_s \<Rightarrow> decoded" where
  "cbw width d = decoded (emit OP_SEX 0 (ax 64 (width div 2)) (ax 64 width) (ax 64 width) d)"
definition mov_eax_ow :: "code_s \<Rightarrow> dis_instructions_s \<Rightarrow> decoded" where
  "mov_eax_ow c d = bindE (getdword c (here c d)) (\<lambda>v.
     decoded (emit OP_MOV 0 (via IND_MEM (immediate c (here c d) 64 (ucast v) 32)) Inr (ax 64 32) (skip 4 d)))"

text \<open>The relocation of the destination goes to the fields of the source.\<close>

definition mov_ow_eax :: "code_s \<Rightarrow> dis_instructions_s \<Rightarrow> decoded" where
  "mov_ow_eax c d = bindE (getdword c (here c d)) (\<lambda>v.
     let r = bf_relocated_code (code_relocs c) (here c d);
         from = (\<lambda>opd. bindE (ax 64 32 opd) (\<lambda>x. Inr (case r of None \<Rightarrow> x
           | Some r \<Rightarrow> x\<lparr>relocated_area := to_int (rel_area r), relocated_index := to_int (rel_symbol_value r)\<rparr>)));
         dest = (\<lambda>opd. Inr (set_operand STORE_DIRECT IND_MEM 64 (ucast v) 32 opd\<lparr>relocated := (if r = None then 0 else 1)\<rparr>))
     in decoded (emit OP_MOV 0 from Inr dest (skip 4 d)))"

text \<open>\<open>MOVS\<close>: with \<open>REP\<close> leave when the counter is 0, count down, and jump back at the end.\<close>

definition cx_operand :: fill where
  "cx_operand = reg_of REG_CX 64 32"

definition rep_count :: "dis_instructions_s \<Rightarrow> dis_instructions_s c" where
  "rep_count = emits
     [emit OP_CMP 1 cx_operand (imm 0 32) (imm 0 32),
      emit_if 4 0,
      emit OP_SUB 0 (imm 1 32) cx_operand cx_operand]"

definition string_copy :: "dis_instructions_s \<Rightarrow> dis_instructions_s c" where
  "string_copy = emits
     [emit OP_MOV 0 (fixed STORE_REG IND_MEM 64 REG_SI 32) Inr (fixed STORE_REG IND_MEM 64 REG_DI 32),
      emit OP_ADD 0 (imm 4 32) (reg_of REG_SI 64 32) (reg_of REG_SI 64 32),
      emit OP_ADD 0 (imm 4 32) (reg_of REG_DI 64 32) (reg_of REG_DI 64 32)]"

definition rep_back :: "dis_instructions_s \<Rightarrow> dis_instructions_s c" where
  "rep_back d = emit OP_JMP 0 (imm (word_of_int (- bytes_used d)) 32) Inr (reg_of REG_IP 64 32) d"

definition movs_word :: "bool \<Rightarrow> dis_instructions_s \<Rightarrow> decoded" where
  "movs_word repz d = decoded (emits (if repz then [rep_count, string_copy, rep_back] else [string_copy]) d)"

definition mov_reg_iv :: "code_s \<Rightarrow> int \<Rightarrow> u8 \<Rightarrow> u8 \<Rightarrow> dis_instructions_s \<Rightarrow> decoded" where
  "mov_reg_iv c width rex byte d = bindE (getdword c (here c d)) (\<lambda>v.
     decoded (emit OP_MOV 0 (immediate c (here c d) width (ucast v) width) Inr
       (table_reg (if and rex 1 \<noteq> 0 then or (and byte 7) 8 else and byte 7) width width) (skip 4 d)))"

text \<open>Shifts by a byte, by 1 and by the counter.\<close>

definition group2_eb_ib :: "code_s \<Rightarrow> int \<Rightarrow> u8 \<Rightarrow> dis_instructions_s \<Rightarrow> decoded" where
  "group2_eb_ib c width rex d =
     bindE (rmb c 1 rex d) (\<lambda>((reg, half), d).
     bindE (at shift2_table (unat reg)) (\<lambda>opc.
     bindE (getbyte c (here c d)) (\<lambda>v.
     bindE (base_kind IND_MEM d) (\<lambda>ind.
       decoded (emit opc 1 (imm (ucast v) width) Inr (unless_half half (memory_operand ind width)) (skip 1 d))))))"

definition group2_ev_ib :: "code_s \<Rightarrow> int \<Rightarrow> u8 \<Rightarrow> dis_instructions_s \<Rightarrow> decoded" where
  "group2_ev_ib c width rex d =
     bindE (rmb c width rex d) (\<lambda>((reg, half), d).
     bindE (at shift2_table (unat reg)) (\<lambda>opc.
     bindE (getbyte c (here c d)) (\<lambda>v.
     bindE (base_kind IND_MEM d) (\<lambda>ind.
       decoded (emit opc 1 (imm (ucast v) width) (unless_half half (memory_operand ind width))
         (unless_half half (memory_operand ind width)) (skip 1 d))))))"

definition shift_by :: "fill \<Rightarrow> code_s \<Rightarrow> int \<Rightarrow> u8 \<Rightarrow> dis_instructions_s \<Rightarrow> decoded" where
  "shift_by count c width rex d =
     bindE (rmb c width rex d) (\<lambda>((reg, half), d).
     bindE (at shift2_table (unat reg)) (\<lambda>opc.
     bindE (base_kind IND_MEM d) (\<lambda>ind.
       decoded (emit opc 1 count (unless_half half (memory_operand ind width)) (unless_half half (memory_operand ind width)) d))))"

definition group2_ev_1 :: "code_s \<Rightarrow> int \<Rightarrow> u8 \<Rightarrow> dis_instructions_s \<Rightarrow> decoded" where
  "group2_ev_1 = shift_by (fixed STORE_DIRECT IND_DIRECT 8 1 8)"

definition group2_ev_cl :: "code_s \<Rightarrow> int \<Rightarrow> u8 \<Rightarrow> dis_instructions_s \<Rightarrow> decoded" where
  "group2_ev_cl = shift_by (reg_of REG_CX 8 8)"

definition pop_sp :: "dis_instructions_s \<Rightarrow> dis_instructions_s c" where
  "pop_sp = emit OP_ADD 0 (imm 8 64) (reg64 REG_SP) (reg64 REG_SP)"

definition retn :: "dis_instructions_s \<Rightarrow> decoded" where
  "retn d = decoded (emits
     [emit OP_MOV 0 (stack_operand 64) (stack_operand 64) (reg64 REG_TMP1), pop_sp,
      emit OP_NOP 0 (reg64 REG_AX) (reg64 REG_AX) (reg64 REG_AX),
      emit OP_MOV 0 (reg64 REG_TMP1) (reg64 REG_TMP1) (reg64 REG_IP)] d)"

definition leave :: "dis_instructions_s \<Rightarrow> decoded" where
  "leave d = decoded (emits
     [emit OP_MOV 0 (reg64 REG_BP) Inr (reg64 REG_SP),
      emit OP_MOV 0 (stack_operand 64) Inr (reg64 REG_BP), pop_sp] d)"

text \<open>
  A call without a relocation gets its target, a call with one the index of the external
  function. The other fields of the relocation are those of every operand.
\<close>

definition call_jw :: "code_s \<Rightarrow> dis_instructions_s \<Rightarrow> decoded" where
  "call_jw c d = bindE (getdword c (here c d)) (\<lambda>v.
     let target = (\<lambda>opd. bindE (immediate c (here c d) 64 (relative 32 (ucast v)) 32 opd) (\<lambda>x.
         Inr (case bf_relocated_code (code_relocs c) (here c d) of
                None \<Rightarrow> x\<lparr>index := index x + here c d + 4, relocated := 2\<rparr>
              | Some r \<Rightarrow> x\<lparr>index := rel_external_functions_index r\<rparr>)))
     in decoded (emit OP_CALL 0 target Inr (reg64 REG_AX) (skip 4 d)))"

definition jmp_jw :: "code_s \<Rightarrow> dis_instructions_s \<Rightarrow> decoded" where
  "jmp_jw c d = bindE (getdword c (here c d)) (\<lambda>v.
     let x = (if bf_relocated_code (code_relocs c) (here c d) = None then relative 32 (ucast v) else here c d)
     in decoded (emit OP_JMP 0 (immediate c (here c d) 64 x 32) Inr (reg_of REG_IP 64 32) (skip 4 d)))"

definition jmp_jb :: "code_s \<Rightarrow> dis_instructions_s \<Rightarrow> decoded" where
  "jmp_jb c d = bindE (getbyte c (here c d)) (\<lambda>v.
     decoded (emit OP_JMP 0 (imm (relative 8 (ucast v)) 32) Inr (reg_of REG_IP 64 32) (skip 1 d)))"

definition in_eax_dx :: "dis_instructions_s \<Rightarrow> decoded" where
  "in_eax_dx d = decoded (emit OP_IN 0 (fixed STORE_REG IND_MEM 64 REG_DX 32) Inr (ax 64 32) d)"

definition out_dx_eax :: "dis_instructions_s \<Rightarrow> decoded" where
  "out_dx_eax d = decoded (emit OP_OUT 0 (ax 64 32) Inr (fixed STORE_REG IND_MEM 64 REG_DX 32) d)"

section \<open>Group 5: INC, DEC, CALL, JMP and PUSH\<close>

definition inc_ev :: "bool \<Rightarrow> dis_instructions_s \<Rightarrow> decoded" where
  "inc_ev half d = bindE (base_kind IND_MEM d) (\<lambda>ind.
     decoded (emit OP_ADD 1 (imm 1 32) (unless_half half (memory_operand ind 32)) (unless_half half (memory_operand ind 32)) d))"

text \<open>
  \<open>DEC\<close> takes every operand for one in memory; when the operand is a register and nothing was
  filled before, the first instruction is this one, whose source is 1.
\<close>

definition dec_ev :: "dis_instructions_s \<Rightarrow> decoded" where
  "dec_ev d = bindE (if instruction_number d = 0 then Inr IND_MEM else base_kind IND_MEM d) (\<lambda>ind.
     decoded (emit OP_SUB 1 (imm 1 32) (memory_operand ind 32) (memory_operand ind 32) d))"

definition call_ev :: "dis_instructions_s \<Rightarrow> decoded" where
  "call_ev d = decoded (emit OP_CALL 0 (memory_operand IND_MEM 32) Inr (reg64 REG_AX) d)"

definition jmp_ev :: "bool \<Rightarrow> dis_instructions_s \<Rightarrow> decoded" where
  "jmp_ev half d = bindE (base_kind IND_MEM d) (\<lambda>ind.
     decoded (emit OP_JMPT 0
       (if half then \<lambda>opd. Inr (opd\<lparr>indirect_size := 64, value_size := 64\<rparr>) else memory_operand ind 64)
       Inr (reg64 REG_IP) d))"

definition push_ev :: "dis_instructions_s \<Rightarrow> decoded" where
  "push_ev d = decoded (emit OP_MOV 0 (memory_operand IND_MEM 32) Inr (stack_operand 32) d)"

definition group5_push :: "dis_instructions_s \<Rightarrow> dis_instructions_s c" where
  "group5_push = emit OP_SUB 0 (imm 4 32) (reg_of REG_SP 64 32) (reg_of REG_SP 64 32)"

definition group5 :: "code_s \<Rightarrow> int \<Rightarrow> u8 \<Rightarrow> dis_instructions_s \<Rightarrow> decoded" where
  "group5 c width rex d =
     bindE (getbyte c (here c d)) (\<lambda>b.
     bindE (if and b 0x38 = 0x30 then group5_push d else Inr d) (\<lambda>d.
     bindE (rmb c width rex d) (\<lambda>((reg, half), d).
       if reg = 0 then inc_ev half d
       else if reg = 1 then dec_ev d
       else if reg = 2 then call_ev d
       else if reg = 4 then jmp_ev half d
       else if reg = 6 then push_ev d
       else Inr (0, d\<lparr>instruction_number := 0\<rparr>))))"

section \<open>The decoder\<close>

definition other_cases :: "code_s \<Rightarrow> int \<Rightarrow> u8 \<Rightarrow> bool \<Rightarrow> u8 \<Rightarrow> dis_instructions_s \<Rightarrow> decoded" where
  "other_cases c width rex repz byte d =
     (if and byte 0xf8 = 0x50 then push_reg rex byte d
      else if and byte 0xf8 = 0x58 then pop_reg rex byte d
      else if byte = 0x63 then movsxd c width rex d
      else if byte = 0x69 then imul_gv_ev_iv c width rex d
      else if and byte 0xf0 = 0x70 then jcc_short c byte d
      else if byte = 0x80 then group1_eb_ib c rex d
      else if byte = 0x81 then group1_ev_iv c width rex d
      else if byte = 0x83 then group1_ev_ib c width rex d
      else if byte = 0x84 then dis_Ex_Gx c OP_TEST rex 8 d
      else if byte = 0x85 then dis_Ex_Gx c OP_TEST rex width d
      else if byte = 0x88 then dis_Ex_Gx c OP_MOV rex 8 d
      else if byte = 0x89 then dis_Ex_Gx c OP_MOV rex width d
      else if byte = 0x8a then dis_Gx_Ex c OP_MOV rex 8 d
      else if byte = 0x8b then dis_Gx_Ex c OP_MOV rex width d
      else if byte = 0x8d then lea_gv c width rex d
      else if byte = 0x90 then Inr (1, d)
      else if byte = 0x98 then cbw width d
      else if byte = 0xa1 then mov_eax_ow c d
      else if byte = 0xa3 then mov_ow_eax c d
      else if byte = 0xa5 then movs_word repz d
      else if byte = 0xa8 then test_al_ib c d
      else if and byte 0xf8 = 0xb8 then mov_reg_iv c width rex byte d
      else if byte = 0xc0 then group2_eb_ib c width rex d
      else if byte = 0xc1 then group2_ev_ib c width rex d
      else if byte = 0xc3 then retn d
      else if byte = 0xc6 then dis_Ex_Ix c OP_MOV rex 8 d
      else if byte = 0xc7 then dis_Ex_Ix c OP_MOV rex width d
      else if byte = 0xc9 then leave d
      else if byte = 0xd1 then group2_ev_1 c width rex d
      else if byte = 0xd3 then group2_ev_cl c width rex d
      else if byte = 0xe8 then call_jw c d
      else if byte = 0xe9 then jmp_jw c d
      else if byte = 0xeb then jmp_jb c d
      else if byte = 0xed then in_eax_dx d
      else if byte = 0xef then out_dx_eax d
      else if byte = 0xf6 then dis_Ex c grp3_table rex 8 d
      else if byte = 0xf7 then dis_Ex c grp3_table rex width d
      else if byte = 0xff then group5 c width rex d
      else Inr (0, d))"

text \<open>A prefix byte is passed over, if it is there.\<close>

definition pass_prefix :: "code_s \<Rightarrow> u8 \<Rightarrow> u8 \<Rightarrow> dis_instructions_s \<Rightarrow> ((bool \<times> u8) \<times> dis_instructions_s) c" where
  "pass_prefix c p byte d =
     (if byte = p then bindE (next_byte c d) (\<lambda>(b, d). Inr ((True, b), d)) else Inr ((False, byte), d))"

definition pass_rex :: "code_s \<Rightarrow> u8 \<Rightarrow> dis_instructions_s \<Rightarrow> ((u8 \<times> u8) \<times> dis_instructions_s) c" where
  "pass_rex c byte d =
     (if and byte 0xf0 = 0x40 then bindE (next_byte c d) (\<lambda>(b, d). Inr ((and byte 0xf, b), d)) else Inr ((0, byte), d))"

text \<open>
  What comes before the opcode, in this order: \<open>REPNZ\<close>, \<open>REPZ\<close>, the operand size, a segment
  (which is passed over) and \<open>REX\<close>.
\<close>

record prefixes_s =
  has_repnz :: bool
  has_repz :: bool
  op_width :: int
  op_rex :: u8
  op_byte :: u8

definition read_prefixes :: "code_s \<Rightarrow> dis_instructions_s \<Rightarrow> (prefixes_s \<times> dis_instructions_s) c" where
  "read_prefixes c d =
     bindE (next_byte c d) (\<lambda>(b, d).
     bindE (pass_prefix c 0xf2 b d) (\<lambda>((nz, b), d).
     bindE (pass_prefix c 0xf3 b d) (\<lambda>((z, b), d).
     bindE (pass_prefix c 0x66 b d) (\<lambda>((short, b), d).
     bindE (pass_prefix c 0x2e b d) (\<lambda>((_, b), d).
     bindE (pass_rex c b d) (\<lambda>((r, b), d).
       Inr (\<lparr>has_repnz = nz, has_repz = z, op_width = (if and r 8 \<noteq> 0 then 64 else if short then 16 else 32),
              op_rex = r, op_byte = b\<rparr>, d)))))))"

text \<open>
  The whole instruction. The first free place of the array becomes a \<open>NOP\<close>. A \<open>REP\<close> prefix that
  the instruction has not handled makes the result 0; only \<open>MOVS\<close> handles \<open>REPZ\<close>.
\<close>

definition decode_opcode :: "(code_s \<Rightarrow> int \<Rightarrow> u8 \<Rightarrow> dis_instructions_s \<Rightarrow> decoded) \<Rightarrow> code_s \<Rightarrow> prefixes_s \<Rightarrow> dis_instructions_s \<Rightarrow> decoded" where
  "decode_opcode two_bytes c p =
     (if op_byte p < 0x40 then arithmetic_cases two_bytes c (op_width p) (op_rex p) (op_byte p)
      else other_cases c (op_width p) (op_rex p) (has_repz p) (op_byte p))"

definition decode_with :: "(code_s \<Rightarrow> int \<Rightarrow> u8 \<Rightarrow> dis_instructions_s \<Rightarrow> decoded) \<Rightarrow> code_s \<Rightarrow> dis_instructions_s \<Rightarrow> decoded" where
  "decode_with two_bytes c d =
     bindE (prepare OP_NOP 0 Inr Inr Inr d) (\<lambda>d.
     bindE (read_prefixes c d) (\<lambda>(p, d).
     bindE (decode_opcode two_bytes c p d) (\<lambda>(result, d).
       Inr (if has_repz p \<and> op_byte p \<noteq> 0xa5 \<or> has_repnz p then 0 else result, d))))"

definition disassemble_amd64 :: "code_s \<Rightarrow> dis_instructions_s \<Rightarrow> decoded" where
  "disassemble_amd64 = decode_with prefix_0f"

text \<open>\<open>decode.c\<close> is the same program, without the opcodes of two bytes.\<close>

definition decode_amd64 :: "code_s \<Rightarrow> dis_instructions_s \<Rightarrow> decoded" where
  "decode_amd64 = decode_with (\<lambda>_ _ _ d. Inr (0, d))"

end
