(* ===== verification/Amd64Fits.thy ===== *)
theory Amd64Fits
  imports Amd64 RtlArray
begin

text \<open>
  The decoder of AMD64 code keeps within the array of RTL instructions and ends after at most 20
  bytes: each step is given the room it needs, and the steps are put together by the rules of
  the collection \<open>room_intros\<close>. The exception are the opcodes whose operation is looked up in a
  table by a register field that \<open>REX\<close> extends.
\<close>

declare One_nat_def [simp del]

section \<open>Enough room\<close>

text \<open>
  There are 24 bytes left from the start of the instruction; the section is not larger than the
  address space.
\<close>

definition enough_code :: "code_s \<Rightarrow> bool" where
  "enough_code c \<longleftrightarrow> unat (code_offset c) + 24 \<le> length (code_bytes c) \<and> length (code_bytes c) \<le> 2 ^ 63"

text \<open>
  \<open>ready c k b d\<close>: there is room for \<open>k\<close> more instructions and for \<open>b\<close> more bytes.
  \<open>moved k b d e\<close>: from \<open>d\<close> to \<open>e\<close> at most that many were used.
\<close>

definition ready :: "code_s \<Rightarrow> nat \<Rightarrow> nat \<Rightarrow> dis_instructions_s \<Rightarrow> bool" where
  "ready c k b d \<longleftrightarrow> enough_code c \<and> dis_instruction d \<noteq> [] \<and> instruction_number d + k \<le> length (dis_instruction d) \<and>
     0 \<le> bytes_used d \<and> bytes_used d + int b \<le> 24"

definition moved :: "nat \<Rightarrow> nat \<Rightarrow> dis_instructions_s \<Rightarrow> dis_instructions_s \<Rightarrow> bool" where
  "moved k b d e \<longleftrightarrow> length (dis_instruction e) = length (dis_instruction d) \<and>
     instruction_number e \<le> instruction_number d + k \<and>
     bytes_used d \<le> bytes_used e \<and> bytes_used e \<le> bytes_used d + int b"

text \<open>
  \<open>within\<close>: a step that fills instructions; it does not stop. \<open>parses\<close> says so of a step with a result, of
  which something is known; \<open>looks\<close> of a step that does not change the instructions.
\<close>

definition within :: "code_s \<Rightarrow> nat \<Rightarrow> nat \<Rightarrow> (dis_instructions_s \<Rightarrow> dis_instructions_s c) \<Rightarrow> bool" where
  "within c k b f \<longleftrightarrow> (\<forall>d. ready c k b d \<longrightarrow> (\<exists>e. f d = Inr e \<and> moved k b d e))"

definition parses :: "code_s \<Rightarrow> nat \<Rightarrow> nat \<Rightarrow> ('a \<Rightarrow> bool) \<Rightarrow> (dis_instructions_s \<Rightarrow> ('a \<times> dis_instructions_s) c) \<Rightarrow> bool" where
  "parses c k b P f \<longleftrightarrow> (\<forall>d. ready c k b d \<longrightarrow> (\<exists>x e. f d = Inr (x, e) \<and> P x \<and> moved k b d e))"

definition looks :: "code_s \<Rightarrow> nat \<Rightarrow> ('a \<Rightarrow> bool) \<Rightarrow> (dis_instructions_s \<Rightarrow> 'a c) \<Rightarrow> bool" where
  "looks c b P f \<longleftrightarrow> (\<forall>d. ready c 0 b d \<longrightarrow> (\<exists>x. f d = Inr x \<and> P x))"

named_theorems room_intros \<open>how much room a step of the decoder needs\<close>

lemma ready_less: "ready c k b d \<Longrightarrow> k' \<le> k \<Longrightarrow> b' \<le> b \<Longrightarrow> ready c k' b' d"
  by (auto simp: ready_def)

lemma ready_moved: "ready c (k + k') (b + b') d \<Longrightarrow> moved k b d e \<Longrightarrow> ready c k' b' e"
  by (auto simp: ready_def moved_def)

lemma moved_trans: "moved k b d e \<Longrightarrow> moved k' b' e f \<Longrightarrow> moved (k + k') (b + b') d f"
  by (auto simp: moved_def)

lemma moved_refl [simp]: "moved k b d d"
  by (simp add: moved_def)

lemma moved_more: "moved k b d e \<Longrightarrow> k \<le> k' \<Longrightarrow> b \<le> b' \<Longrightarrow> moved k' b' d e"
  by (auto simp: moved_def)

lemma fills_more: "within c k b f \<Longrightarrow> k \<le> k' \<Longrightarrow> b \<le> b' \<Longrightarrow> within c k' b' f"
  unfolding within_def by (meson moved_more ready_less)

lemma parses_more: "parses c k b P f \<Longrightarrow> k \<le> k' \<Longrightarrow> b \<le> b' \<Longrightarrow> (\<And>x. P x \<Longrightarrow> Q x) \<Longrightarrow> parses c k' b' Q f"
  unfolding parses_def by (meson moved_more ready_less)

lemma fills_bind:
  assumes f: "within c k b f" and g: "within c k' b' g" shows "within c (k + k') (b + b') (\<lambda>d. bindE (f d) g)"
  unfolding within_def
proof (intro allI impI)
  fix d assume d: "ready c (k + k') (b + b') d"
  then have "ready c k b d" by (rule ready_less) simp_all
  then obtain e where e: "f d = Inr e" "moved k b d e" using f by (auto simp: within_def)
  then obtain h where "g e = Inr h" "moved k' b' e h" using g ready_moved [OF d e(2)] unfolding within_def by blast
  then show "\<exists>h. bindE (f d) g = Inr h \<and> moved (k + k') (b + b') d h" using e moved_trans by auto
qed

lemma parses_fills:
  assumes f: "parses c k b P f" and g: "\<And>x. P x \<Longrightarrow> within c k' b' (g x)"
  shows "within c (k + k') (b + b') (\<lambda>d. bindE (f d) (\<lambda>(x, d). g x d))"
  unfolding within_def
proof (intro allI impI)
  fix d assume d: "ready c (k + k') (b + b') d"
  then have "ready c k b d" by (rule ready_less) simp_all
  then obtain x e where e: "f d = Inr (x, e)" "P x" "moved k b d e" using f by (auto simp: parses_def)
  then obtain h where "g x e = Inr h" "moved k' b' e h" using g [OF e(2)] ready_moved [OF d e(3)] unfolding within_def by blast
  then show "\<exists>h. bindE (f d) (\<lambda>(x, d). g x d) = Inr h \<and> moved (k + k') (b + b') d h" using e moved_trans by auto
qed

lemma fills_parses:
  assumes f: "within c k b f" and g: "parses c k' b' Q g"
  shows "parses c (k + k') (b + b') Q (\<lambda>d. bindE (f d) g)"
  unfolding parses_def
proof (intro allI impI)
  fix d assume d: "ready c (k + k') (b + b') d"
  then have "ready c k b d" by (rule ready_less) simp_all
  then obtain e where e: "f d = Inr e" "moved k b d e" using f by (auto simp: within_def)
  then obtain y h where "g e = Inr (y, h)" "Q y" "moved k' b' e h" using g ready_moved [OF d e(2)] unfolding parses_def by blast
  then show "\<exists>y h. bindE (f d) g = Inr (y, h) \<and> Q y \<and> moved (k + k') (b + b') d h" using e moved_trans by auto
qed

lemma parses_bind:
  assumes f: "parses c k b P f" and g: "\<And>x. P x \<Longrightarrow> parses c k' b' Q (g x)"
  shows "parses c (k + k') (b + b') Q (\<lambda>d. bindE (f d) (\<lambda>(x, d). g x d))"
  unfolding parses_def
proof (intro allI impI)
  fix d assume d: "ready c (k + k') (b + b') d"
  then have "ready c k b d" by (rule ready_less) simp_all
  then obtain x e where e: "f d = Inr (x, e)" "P x" "moved k b d e" using f by (auto simp: parses_def)
  then obtain y h where "g x e = Inr (y, h)" "Q y" "moved k' b' e h"
    using g [OF e(2)] ready_moved [OF d e(3)] unfolding parses_def by blast
  then show "\<exists>y h. bindE (f d) (\<lambda>(x, d). g x d) = Inr (y, h) \<and> Q y \<and> moved (k + k') (b + b') d h" using e moved_trans by auto
qed

lemma looks_fills:
  "looks c b P q \<Longrightarrow> (\<And>x. P x \<Longrightarrow> within c k b (f x)) \<Longrightarrow> within c k b (\<lambda>d. bindE (q d) (\<lambda>x. f x d))"
  unfolding within_def looks_def by (metis (no_types, lifting) bindE.simps(2) le_refl ready_less zero_le)

lemma looks_parses:
  "looks c b P q \<Longrightarrow> (\<And>x. P x \<Longrightarrow> parses c k b Q (f x)) \<Longrightarrow> parses c k b Q (\<lambda>d. bindE (q d) (\<lambda>x. f x d))"
  unfolding parses_def looks_def by (metis (no_types, lifting) bindE.simps(2) le_refl ready_less zero_le)
text \<open>The rules as they are used: the room that is asked for may be larger than what is used.\<close>

lemma fills_seq [room_intros]:
  "within c k b f \<Longrightarrow> within c k' b' g \<Longrightarrow> k + k' \<le> K \<Longrightarrow> b + b' \<le> B \<Longrightarrow> within c K B (\<lambda>d. bindE (f d) g)"
  by (rule fills_more [OF fills_bind])

lemma parses_then_fills [room_intros]:
  "parses c k b P f \<Longrightarrow> (\<And>x. P x \<Longrightarrow> within c k' b' (g x)) \<Longrightarrow> k + k' \<le> K \<Longrightarrow> b + b' \<le> B \<Longrightarrow>
   within c K B (\<lambda>d. bindE (f d) (\<lambda>(x, d). g x d))"
  by (rule fills_more [OF parses_fills])

lemma fills_then_parses [room_intros]:
  "within c k b f \<Longrightarrow> parses c k' b' Q g \<Longrightarrow> k + k' \<le> K \<Longrightarrow> b + b' \<le> B \<Longrightarrow> parses c K B Q (\<lambda>d. bindE (f d) g)"
  by (rule parses_more [OF fills_parses])

lemma parses_seq [room_intros]:
  "parses c k b P f \<Longrightarrow> (\<And>x. P x \<Longrightarrow> parses c k' b' Q (g x)) \<Longrightarrow> k + k' \<le> K \<Longrightarrow> b + b' \<le> B \<Longrightarrow>
   parses c K B Q (\<lambda>d. bindE (f d) (\<lambda>(x, d). g x d))"
  by (rule parses_more [OF parses_bind])

lemma looks_more: "looks c b P q \<Longrightarrow> b \<le> B \<Longrightarrow> looks c B P q"
  unfolding looks_def by (meson le_refl ready_less)

lemma looks_then_fills:
  "looks c b P q \<Longrightarrow> (\<And>x. P x \<Longrightarrow> within c k B (f x)) \<Longrightarrow> b \<le> B \<Longrightarrow> within c k B (\<lambda>d. bindE (q d) (\<lambda>x. f x d))"
  by (rule looks_fills [OF looks_more])

lemma looks_then_parses:
  "looks c b P q \<Longrightarrow> (\<And>x. P x \<Longrightarrow> parses c k B Q (f x)) \<Longrightarrow> b \<le> B \<Longrightarrow> parses c k B Q (\<lambda>d. bindE (q d) (\<lambda>x. f x d))"
  by (rule looks_parses [OF looks_more])

lemma parses_split [room_intros]:
  "(\<And>x y. s = (x, y) \<Longrightarrow> parses c k b Q (f x y)) \<Longrightarrow> parses c k b Q (case_prod f s)"
  by (cases s) simp

lemma fills_split [room_intros]: "(\<And>x y. s = (x, y) \<Longrightarrow> within c k b (f x y)) \<Longrightarrow> within c k b (case_prod f s)"
  by (cases s) simp

lemma split_within [room_intros]: "(\<And>x y. s = (x, y) \<Longrightarrow> within c k b (f x y)) \<Longrightarrow> within c k b (\<lambda>d. case s of (x, y) \<Rightarrow> f x y d)"
  by (cases s) simp

lemma fills_if: "(P \<Longrightarrow> within c k b f) \<Longrightarrow> (\<not> P \<Longrightarrow> within c k b g) \<Longrightarrow> within c k b (\<lambda>d. if P then f d else g d)"
  by (cases P) simp_all

lemma parses_if: "(P \<Longrightarrow> parses c k b Q f) \<Longrightarrow> (\<not> P \<Longrightarrow> parses c k b Q g) \<Longrightarrow> parses c k b Q (\<lambda>d. if P then f d else g d)"
  by (cases P) simp_all

text \<open>The result of decoding an instruction is 0 or 1.\<close>

definition is_result :: "int \<Rightarrow> bool" where
  "is_result r \<longleftrightarrow> r = 0 \<or> r = 1"

lemma decoded_parses [room_intros]: "within c k b f \<Longrightarrow> parses c k b is_result (\<lambda>d. decoded (f d))"
  by (fastforce simp: within_def parses_def decoded_def is_result_def)

lemma result_parses [room_intros]: "is_result r \<Longrightarrow> parses c k b is_result (\<lambda>d. Inr (r, d))"
  by (simp add: parses_def)

lemma same_fills [room_intros]: "within c k b Inr" "within c k b (\<lambda>d. Inr d)" "0 \<le> n \<Longrightarrow> within c 0 (nat n) (\<lambda>d. Inr (skip n d))"
  by (simp_all add: within_def moved_def skip_def)

section \<open>Bytes\<close>

lemma here_less:
  assumes "ready c k b d" "i < b" shows "unat (here c d + of_nat i) < length (code_bytes c)"
proof -
  have b: "0 \<le> bytes_used d" "bytes_used d + int b \<le> 24" and c: "unat (code_offset c) + 24 \<le> length (code_bytes c)"
      "length (code_bytes c) \<le> 2 ^ 63"
    using assms(1) by (simp_all add: ready_def enough_code_def)
  define m where "m = nat (bytes_used d) + i"
  have n: "m < 24" using b assms(2) by (simp add: m_def)
  have "here c d + of_nat i = code_offset c + of_nat m"
    using b(1) by (simp add: m_def here_def add.assoc flip: of_nat_nat)
  moreover have "unat (of_nat m :: u64) = m" using n by (simp only: unat_of_nat) (simp add: take_bit_nat_eq_self)
  ultimately show ?thesis using c n by (simp add: unat_word_ariths)
qed

lemma byte_looks: "looks c 1 (\<lambda>_. True) (\<lambda>d. getbyte c (here c d))"
  using here_less [where i = 0] by (auto simp: looks_def getbyte_def One_nat_def)

lemma word_looks: "looks c 2 (\<lambda>_. True) (\<lambda>d. getword c (here c d))"
  using here_less [where b = 2 and i = 0] here_less [where b = 2 and i = 1] by (auto simp: looks_def getword_def getbyte_def)

lemma dword_looks: "looks c 4 (\<lambda>_. True) (\<lambda>d. getdword c (here c d))"
  using here_less [where b = 4 and i = 0] here_less [where b = 4 and i = 1] here_less [where b = 4 and i = 2]
    here_less [where b = 4 and i = 3]
  by (auto simp: looks_def getdword_def getbyte_def)

lemma next_byte_parses [room_intros]: "parses c 0 1 (\<lambda>_. True) (next_byte c)"
  using here_less [where i = 0] by (auto simp: parses_def next_byte_def getbyte_def moved_def skip_def One_nat_def)

lemma table_looks:
  "unat n < length table \<Longrightarrow> looks c 0 (\<lambda>x. x \<in> set table) (\<lambda>d. at table (unat n))"
  by (simp add: looks_def)

lemma base_kind_looks: "looks c 0 (\<lambda>_. True) (base_kind other)"
  by (simp add: looks_def base_kind_def ready_def)

lemmas query_fills [room_intros] = looks_then_fills [OF byte_looks] looks_then_fills [OF word_looks]
  looks_then_fills [OF dword_looks] looks_then_fills [OF table_looks] looks_then_fills [OF base_kind_looks]

lemmas query_parses [room_intros] = looks_then_parses [OF byte_looks] looks_then_parses [OF word_looks]
  looks_then_parses [OF dword_looks] looks_then_parses [OF table_looks] looks_then_parses [OF base_kind_looks]

section \<open>Instructions\<close>

lemma reg_table_length [simp]: "length reg_table = 16" "length immed_table = 8" "length shift2_table = 8" "length grp3_table = 8"
  by (simp_all add: reg_table_def immed_table_def shift2_table_def grp3_table_def)

lemma fill_ok_operands [room_intros]: "fill_ok (immediate c off isz v vs)" "fill_ok (reg_of r isz vs)" "fill_ok (fixed st ind isz r vs)"
    "fill_ok (reg64 r)" "fill_ok (imm v vs)" "fill_ok Inr" "fill_ok (memory_operand ind vs)" "fill_ok (stack_operand vs)"
    "fill_ok (ax isz vs)" "fill_ok cx_operand" "fill_ok (only_kind st)" "fill_ok (movzx_source half vs)"
  by (auto simp: fill_ok_def immediate_def reg_of_def fixed_def reg64_def imm_def memory_operand_def stack_operand_def
      ax_def cx_operand_def only_kind_def movzx_source_def)

lemma fill_ok_parts [room_intros]: "fill_ok f \<Longrightarrow> fill_ok (unless_half half f)" "fill_ok f \<Longrightarrow> fill_ok (same_relocated f)"
    "fill_ok f \<Longrightarrow> fill_ok (via ind f)" "fill_ok f \<Longrightarrow> fill_ok (sized n f)"
  by (fastforce simp: fill_ok_def unless_half_def same_relocated_def via_def sized_def bindE_Inr_iff)+

lemma fill_ok_table [room_intros]: "unat n < 16 \<Longrightarrow> fill_ok (table_reg n isz vs)" "unat n < 16 \<Longrightarrow> fill_ok (whole_reg n)"
  by (simp_all add: fill_ok_def table_reg_def whole_reg_def reg_of_def fixed_def)

lemma emit_moves:
  assumes "fill_ok fa" "fill_ok fb" "fill_ok fd" "ready c 1 b d"
  shows "\<exists>e. emit opc fl fa fb fd d = Inr e \<and> moved 1 0 d e"
proof -
  let ?i = "dis_instruction d ! instruction_number d"
  obtain x y z where "fa (srcA ?i) = Inr x" "fb (srcB ?i) = Inr y" "fd (dstA ?i) = Inr z" using assms(1-3) unfolding fill_ok_def by blast
  then show ?thesis using assms(4) by (simp add: emit_def ready_def moved_def)
qed

lemma emit_fills [room_intros]:
  assumes "\<And>d. fill_ok (fa d)" "\<And>d. fill_ok (fb d)" "\<And>d. fill_ok (fd d)"
  shows "within c 1 0 (\<lambda>d. emit (opc d) fl (fa d) (fb d) (fd d) d)"
  unfolding within_def using emit_moves [OF assms] by blast

lemma emit_skip_fills [room_intros]:
  assumes "\<And>d. fill_ok (fa d)" "\<And>d. fill_ok (fb d)" "\<And>d. fill_ok (fd d)" "0 \<le> n" "nat n \<le> b"
  shows "within c 1 b (\<lambda>d. emit (opc d) fl (fa d) (fb d) (fd d) (skip n d))"
  unfolding within_def
proof (intro allI impI)
  fix d assume d: "ready c 1 b d"
  then have "ready c 1 0 (skip n d)" using assms(4,5) by (auto simp: ready_def skip_def)
  from emit_moves [OF assms(1-3) this] obtain e where "emit (opc d) fl (fa d) (fb d) (fd d) (skip n d) = Inr e" "moved 1 0 (skip n d) e"
    by blast
  then show "\<exists>e. emit (opc d) fl (fa d) (fb d) (fd d) (skip n d) = Inr e \<and> moved 1 b d e"
    using assms(4,5) by (auto simp: moved_def skip_def)
qed

lemma emit_if_fills [room_intros]: "within c 1 0 (\<lambda>d. emit_if x y d)" "0 \<le> n \<Longrightarrow> nat n \<le> b \<Longrightarrow> within c 1 b (\<lambda>d. emit_if x y (skip n d))"
  unfolding emit_if_def by (rule room_intros | assumption | simp)+
section \<open>Operands\<close>

lemma add_register_fills [room_intros]: "fill_ok r \<Longrightarrow> within c 1 0 (add_register n0 r nb nd)"
  unfolding add_register_def by (rule room_intros | assumption)+

lemma signed_disp_fills:
  assumes "\<And>opc x. within c 1 b (f opc x)" shows "within c 1 b (\<lambda>d. case g d of (opc, x) \<Rightarrow> f opc x d)"
  using assms unfolding within_def by (simp add: case_prod_beta)

lemma then_skip_fills: "within c k 0 f \<Longrightarrow> 0 \<le> n \<Longrightarrow> within c k (nat n) (\<lambda>d. bindE (f d) (\<lambda>d. Inr (skip n d)))"
  by (rule fills_seq [OF _ same_fills(3)]) (assumption | simp)+

lemma add_disp8_fills [room_intros]: "within c 1 1 (add_disp8 c n0)"
  unfolding add_disp8_def
  by (rule looks_then_fills [OF byte_looks _ order_refl], rule signed_disp_fills)
    (use then_skip_fills [where n = 1] in \<open>auto intro!: room_intros simp: One_nat_def\<close>)

lemma add_disp32_fills [room_intros]: "within c 1 4 (add_disp32 c n0 na n)"
  unfolding add_disp32_def
  by (rule looks_then_fills [OF dword_looks _ order_refl], rule signed_disp_fills)
    (use then_skip_fills [where n = 4] in \<open>auto intro!: room_intros\<close>)

lemma scaled_index_fills [room_intros]: "unat ix < 16 \<Longrightarrow> fill_ok fb \<Longrightarrow> within c 2 0 (scaled_index mul ix n fb)"
  unfolding scaled_index_def by (rule room_intros fills_if | assumption | simp)+

lemma nibble_add: "or (and b 7) 8 = and b 7 + (8 :: u8)" "and b 7 \<le> (7 :: u8)"
  using word_plus_and_or [of "and b 7" "8 :: u8"] by (simp add: and.assoc) (rule word_and_le1)

lemma nibble_less: "unat (and b 7 :: u8) < 8" "unat (or (and b 7) 8 :: u8) < 16" "8 \<le> unat (or (and b 7) 8 :: u8)"
proof -
  have le: "and b 7 \<le> (7 :: u8)" by (rule nibble_add(2))
  then show "unat (and b 7 :: u8) < 8" by unat_arith
  show "unat (or (and b 7) 8 :: u8) < 16" unfolding nibble_add(1) using le by unat_arith
  show "8 \<le> unat (or (and b 7) 8 :: u8)" unfolding nibble_add(1) using le by (simp add: unat_word_ariths word_le_nat_alt)
qed

lemma nibble_less': "unat (and b 7 :: u8) < 16"
  using nibble_less(1) [of b] by simp

lemma split_SIB_less: "split_SIB b rx = (mul, ix, base) \<Longrightarrow> unat ix < 16 \<and> unat base < 16"
  by (auto simp: split_SIB_def Let_def nibble_less(1,2) nibble_less')

lemma split_ModRM_less:
  "split_ModRM b rx = (reg, reg_mem, mode) \<Longrightarrow> unat reg < 16 \<and> unat reg_mem < 16 \<and>
     (and rx 4 = 0 \<longleftrightarrow> unat reg < 8)"
  using nibble_less(3) [of "drop_bit 3 b"]
  by (cases "and rx 4 = 0") (auto simp: split_ModRM_def Let_def nibble_less(1,2) nibble_less')

lemma sib_fills:
  assumes "\<And>mul ix base. unat ix < 16 \<Longrightarrow> unat base < 16 \<Longrightarrow> within c k b (f mul ix base)"
  shows "within c k (1 + b) (\<lambda>d. bindE (next_byte c d) (\<lambda>(x, d). case split_SIB x rx of (mul, ix, base) \<Rightarrow> f mul ix base d))"
proof (rule parses_then_fills [OF next_byte_parses])
  show "within c k b (\<lambda>d. case split_SIB x rx of (mul, ix, base) \<Rightarrow> f mul ix base d)" for x
    using assms split_SIB_less [of x rx] by (cases "split_SIB x rx") auto
qed simp_all

lemma sib_base_fills [room_intros]: "unat base < 16 \<Longrightarrow> within c 1 0 (sib_base n0 sz base)"
  unfolding sib_base_def by (auto intro!: room_intros)

lemma sib_mod0_fills: "within c 3 5 (sib_mod0 c n0 sz rx)"
proof -
  have "within c 3 4 (\<lambda>d. bindE (scaled_index mul ix sz Inr d) (\<lambda>d. if base = 5 then add_disp32 c n0 64 64 d
      else add_register n0 (whole_reg base) 64 64 d))" if "unat ix < 16" "unat base < 16" for mul ix base
    using that by (auto intro!: fills_seq [OF scaled_index_fills, where k' = 1 and b' = 4] fills_if room_intros
      intro: fills_more [OF add_register_fills])
  from sib_fills [OF this] show ?thesis by (simp add: sib_mod0_def [abs_def])
qed

lemma sib_mod1_fills: "within c 4 2 (sib_mod1 c n0 sz rx)"
proof -
  have "within c 4 1 (\<lambda>d. bindE (scaled_index mul ix sz (reg64 REG_TMP1) d) (\<lambda>d. bindE (sib_base n0 sz base d) (add_disp8 c n0)))"
    if "unat ix < 16" "unat base < 16" for mul ix base
    by (rule room_intros that order_refl | simp)+
  from sib_fills [OF this] show ?thesis by (simp add: sib_mod1_def [abs_def])
qed

lemma sib_mod2_fills: "within c 4 5 (sib_mod2 c n0 sz rx)"
proof -
  have "within c 4 4 (\<lambda>d. bindE (scaled_index mul ix sz (reg64 REG_TMP1) d) (\<lambda>d. bindE (sib_base n0 sz base d) (add_disp32 c n0 64 sz)))"
    if "unat ix < 16" "unat base < 16" for mul ix base
    by (rule room_intros that order_refl | simp)+
  from sib_fills [OF this] show ?thesis by (simp add: sib_mod2_def [abs_def])
qed

lemma reg_mod_fills: "within c 1 4 (disp_mod0 c n0 sz)" "unat reg_mem < 16 \<Longrightarrow> within c 1 0 (reg_mod0 n0 sz reg_mem)"
    "unat reg_mem < 16 \<Longrightarrow> within c 2 1 (reg_mod1 c n0 reg_mem)" "unat reg_mem < 16 \<Longrightarrow> within c 2 4 (reg_mod2 c n0 sz reg_mem)"
  unfolding disp_mod0_def reg_mod0_def reg_mod1_def reg_mod2_def by (rule room_intros | simp)+
definition is_operand :: "u8 \<Rightarrow> u8 \<times> bool \<Rightarrow> bool" where
  "is_operand rx s \<longleftrightarrow> unat (fst s) < 16 \<and> (and rx 4 = 0 \<longleftrightarrow> unat (fst s) < 8)"

lemma prepare_fills:
  assumes "fill_ok fa" "fill_ok fb" "fill_ok fd" "ready c 1 b d"
  shows "\<exists>e. prepare opc fl fa fb fd d = Inr e \<and> moved 0 0 d e"
proof -
  let ?i = "dis_instruction d ! instruction_number d"
  obtain x y z where "fa (srcA ?i) = Inr x" "fb (srcB ?i) = Inr y" "fd (dstA ?i) = Inr z" using assms(1-3) unfolding fill_ok_def by blast
  then show ?thesis using assms(4) by (simp add: prepare_def ready_def moved_def)
qed

lemma prepare_within: "fill_ok fa \<Longrightarrow> fill_ok fb \<Longrightarrow> fill_ok fd \<Longrightarrow> within c 1 0 (prepare opc fl fa fb fd)"
  unfolding within_def using prepare_fills moved_more [OF _ zero_le order_refl] by blast

text \<open>The operand takes at most four instructions and six bytes.\<close>

lemma rmb_parses [room_intros]: "parses c 4 6 (is_operand rx) (rmb c sz rx)"
proof -
  have modes: "within c 4 5 (\<lambda>d.
      if mode = 0 then
         if has_sib rx reg_mem then sib_mod0 c n0 sz rx d
         else if reg_mem = 5 then disp_mod0 c n0 sz d
         else reg_mod0 n0 sz reg_mem d
       else if mode = 1 then if has_sib rx reg_mem then sib_mod1 c n0 sz rx d else reg_mod1 c n0 reg_mem d
       else if mode = 2 then if has_sib rx reg_mem then sib_mod2 c n0 sz rx d else reg_mod2 c n0 sz reg_mem d
       else reg_mod3 sz reg_mem d)" if "unat reg_mem < 16" for mode reg_mem :: u8 and n0
  proof (intro fills_if)
    show "within c 4 5 (reg_mod3 sz reg_mem)"
      unfolding reg_mod3_def by (rule fills_more [OF prepare_within]) (simp_all add: fill_ok_table that)
  qed (auto intro: fills_more [OF sib_mod0_fills] fills_more [OF sib_mod1_fills] fills_more [OF sib_mod2_fills]
        fills_more [OF reg_mod_fills(1)] fills_more [OF reg_mod_fills(2)] fills_more [OF reg_mod_fills(3)]
        fills_more [OF reg_mod_fills(4)] that)
  show ?thesis unfolding parses_def
  proof (intro allI impI)
    fix d assume d: "ready c 4 6 d"
    then have "ready c 0 1 d" "ready c 4 (1 + 5) d" by (auto elim: ready_less)
    then obtain b e where e: "next_byte c d = Inr (b, e)" "moved 0 1 d e" using next_byte_parses [of c] unfolding parses_def by blast
    obtain reg reg_mem mode where s: "split_ModRM b rx = (reg, reg_mem, mode)" by (cases "split_ModRM b rx")
    note less = split_ModRM_less [OF s]
    have "ready c 4 5 e" using d e(2) by (auto simp: ready_def moved_def)
    then obtain h where h: "(if mode = 0 then
         if has_sib rx reg_mem then sib_mod0 c (instruction_number d) sz rx e
         else if reg_mem = 5 then disp_mod0 c (instruction_number d) sz e
         else reg_mod0 (instruction_number d) sz reg_mem e
       else if mode = 1 then if has_sib rx reg_mem then sib_mod1 c (instruction_number d) sz rx e else reg_mod1 c (instruction_number d) reg_mem e
       else if mode = 2 then if has_sib rx reg_mem then sib_mod2 c (instruction_number d) sz rx e else reg_mod2 c (instruction_number d) sz reg_mem e
       else reg_mod3 sz reg_mem e) = Inr h" "moved 4 5 e h"
      using modes [of reg_mem mode "instruction_number d"] less unfolding within_def by blast
    have "rmb c sz rx d = Inr ((reg, mode = 3), h)" using h(1) by (simp add: rmb_def e(1) s)
    moreover have "moved 4 6 d h" using moved_trans [OF e(2) h(2)] by simp
    ultimately show "\<exists>x e. rmb c sz rx d = Inr (x, e) \<and> is_operand rx x \<and> moved 4 6 d e"
      using less by (auto simp: is_operand_def)
  qed
qed

lemma operand_reg [simp]: "is_operand rx (reg, half) \<Longrightarrow> unat reg < 16" "is_operand rx (reg, half) \<Longrightarrow> and rx 4 = 0 \<Longrightarrow> unat reg < 8"
  by (simp_all add: is_operand_def)

section \<open>Instructions of one operand form\<close>

lemma gx_parses [room_intros]: "parses c 5 6 is_result (dis_Ex_Gx c opc rx sz)" "parses c 5 6 is_result (dis_Gx_Ex c opc rx sz)"
  unfolding dis_Ex_Gx_def dis_Gx_Ex_def by (rule room_intros order_refl | simp)+
text \<open>The sizes of operands there are.\<close>

definition is_size :: "int \<Rightarrow> bool" where
  "is_size n \<longleftrightarrow> n \<in> {8, 16, 32, 64}"

definition is_immediate :: "(fill \<times> int) option \<Rightarrow> bool" where
  "is_immediate im \<longleftrightarrow> (\<exists>f n. im = Some (f, n) \<and> fill_ok f \<and> 0 \<le> n \<and> n \<le> 4)"

lemma sized_immediate_looks: "is_size sz \<Longrightarrow> looks c 4 is_immediate (sized_immediate c sz)"
  using looks_more [OF byte_looks, of 4 c] looks_more [OF word_looks, of 4 c] dword_looks [of c] fill_ok_operands(1)
  by (auto simp: looks_def sized_immediate_def is_immediate_def is_size_def)

lemma immediate_parses [room_intros]:
  assumes "\<And>f n. fill_ok f \<Longrightarrow> 0 \<le> n \<Longrightarrow> n \<le> 4 \<Longrightarrow> parses c k B Q (g f n)" "is_size sz" "4 \<le> B"
  shows "parses c k B Q (\<lambda>d. bindE (sized_immediate c sz d) (\<lambda>im. case im of None \<Rightarrow> h d | Some (f, n) \<Rightarrow> g f n d))"
  by (rule looks_then_parses [OF sized_immediate_looks [OF assms(2)] _ assms(3)])
    (use assms(1) in \<open>auto simp: is_immediate_def\<close>)

lemma emit_then_skip [room_intros]:
  assumes "fill_ok fa" "fill_ok fb" "fill_ok fd" "0 \<le> n" "nat n \<le> b"
  shows "within c 1 b (\<lambda>d. bindE (emit opc fl fa fb fd d) (\<lambda>d. Inr (skip n d)))"
  by (rule fills_more [OF then_skip_fills [where f = "emit opc fl fa fb fd" and n = n]]) (use assms in \<open>auto intro: emit_fills\<close>)

lemma nat_less_4: "n \<le> 4 \<Longrightarrow> nat n \<le> 4"
  by simp

lemma Ex_Ix_parses [room_intros]: "is_size sz \<Longrightarrow> parses c 5 10 is_result (dis_Ex_Ix c opc rx sz)"
  unfolding dis_Ex_Ix_def by (rule room_intros order_refl nat_less_4 | assumption | simp)+

lemma not_decoded [room_intros]: "parses c k b is_result (\<lambda>d. Inr (0, d))"
  by (rule result_parses) (simp add: is_result_def)

lemma Ex_parses:
  assumes "and rx 4 = 0" "is_size sz" "length table = 8"
  shows "parses c 1 5 is_result (dis_Ex c table rx sz)"
proof -
  have "parses c 1 4 is_result (\<lambda>d. case split_ModRM b rx of (reg, reg_mem, mode) \<Rightarrow>
       if mode \<noteq> 3 then Inr (0, d)
       else bindE (at table (unat reg)) (\<lambda>opc.
         let opd = table_reg reg_mem 64 sz in
         if reg \<noteq> 0 then decoded (emit opc 1 opd opd opd d)
         else bindE (sized_immediate c sz d) (\<lambda>im.
           case im of
             None \<Rightarrow> bindE (prepare opc 1 (only_kind STORE_DIRECT) Inr Inr d) (\<lambda>d. Inr (0, d))
           | Some (f, n) \<Rightarrow> decoded (bindE (emit opc 1 f opd opd d) (\<lambda>d. Inr (skip n d))))))" for b
  proof -
    obtain reg reg_mem mode where s: "split_ModRM b rx = (reg, reg_mem, mode)" by (cases "split_ModRM b rx")
    note less = split_ModRM_less [OF s]
    have "parses c 1 4 is_result (\<lambda>d. decoded (emit opc 1 opd opd opd d))" if "fill_ok opd" for opc opd
      by (rule parses_more [OF decoded_parses [OF emit_fills]]) (use that in auto)
    moreover have "parses c 1 4 is_result (\<lambda>d. bindE (sized_immediate c sz d) (\<lambda>im.
           case im of
             None \<Rightarrow> bindE (prepare opc 1 (only_kind STORE_DIRECT) Inr Inr d) (\<lambda>d. Inr (0, d))
           | Some (f, n) \<Rightarrow> decoded (bindE (emit opc 1 f opd opd d) (\<lambda>d. Inr (skip n d)))))" if "fill_ok opd" for opc opd
      by (rule room_intros that assms order_refl nat_less_4 | assumption | simp)+
    ultimately have "parses c 1 4 is_result (\<lambda>d. if mode \<noteq> 3 then Inr (0, d)
       else bindE (at table (unat reg)) (\<lambda>opc.
         if reg \<noteq> 0 then decoded (emit opc 1 (table_reg reg_mem 64 sz) (table_reg reg_mem 64 sz) (table_reg reg_mem 64 sz) d)
         else bindE (sized_immediate c sz d) (\<lambda>im.
           case im of
             None \<Rightarrow> bindE (prepare opc 1 (only_kind STORE_DIRECT) Inr Inr d) (\<lambda>d. Inr (0, d))
           | Some (f, n) \<Rightarrow> decoded (bindE (emit opc 1 f (table_reg reg_mem 64 sz) (table_reg reg_mem 64 sz) d) (\<lambda>d. Inr (skip n d))))))"
      using less assms by (intro parses_if not_decoded query_parses) (auto simp: fill_ok_table)
    then show ?thesis unfolding s Let_def prod.case .
  qed
  from parses_seq [OF next_byte_parses this, of 1 5] show ?thesis by (simp add: dis_Ex_def [abs_def])
qed

section \<open>Opcodes of two bytes\<close>

lemma cmov_parses: "parses c 6 6 is_result (cmovcc c sz rx b)"
  unfolding cmovcc_def by (rule room_intros order_refl | simp)+

lemma near_parses: "parses c 1 4 is_result (jcc_near c b)"
  unfolding jcc_near_def by (rule room_intros order_refl | simp)+

lemma setcc_parses: "parses c 6 6 is_result (setcc c sz rx b)"
  unfolding setcc_def by (rule room_intros order_refl | simp)+

lemma movzx_parses: "parses c 5 6 is_result (movzx c sz rx n)"
  unfolding movzx_def by (rule room_intros order_refl | simp)+

lemma nop_parses: "parses c 0 6 is_result (\<lambda>d. bindE (next_byte c d) (\<lambda>(b, d).
    case nop_length b of None \<Rightarrow> Inr (0, d) | Some n \<Rightarrow> Inr (1, skip n d)))"
proof (rule parses_seq [OF next_byte_parses])
  show "parses c 0 5 is_result (\<lambda>d. case nop_length b of None \<Rightarrow> Inr (0, d) | Some n \<Rightarrow> Inr (1, skip n d))" for b
    by (auto simp: nop_length_def parses_def moved_def skip_def is_result_def)
qed simp_all

lemma prefix_0f_parses: "parses c 6 7 is_result (prefix_0f c sz rx)"
proof -
  have "parses c 6 6 is_result (\<lambda>d.
       if b = 0x1f then bindE (next_byte c d) (\<lambda>(b, d).
         case nop_length b of None \<Rightarrow> Inr (0, d) | Some n \<Rightarrow> Inr (1, skip n d))
       else if and b 0xf0 = 0x40 then cmovcc c sz rx b d
       else if and b 0xf0 = 0x80 then jcc_near c b d
       else if and b 0xf0 = 0x90 then setcc c sz rx b d
       else if 0xb2 \<le> b \<and> b \<le> 0xb6 then movzx c sz rx 8 d
       else if b = 0xb7 then movzx c sz rx 16 d
       else Inr (0, d))" for b
    by (intro parses_if not_decoded parses_more [OF nop_parses] parses_more [OF cmov_parses] parses_more [OF near_parses]
      parses_more [OF setcc_parses] parses_more [OF movzx_parses]) simp_all
  from parses_seq [OF next_byte_parses this, of 6 7] show ?thesis by (simp add: prefix_0f_def [abs_def])
qed
section \<open>The other opcodes\<close>

lemma accumulator_parses: "parses c 1 1 is_result (add_al_ib c)" "parses c 1 4 is_result (add_eax_iv c)"
    "parses c 1 1 is_result (al_ib opc c)" "parses c 1 4 is_result (sub_eax_iv c)" "parses c 1 4 is_result (cmp_eax_iv c)"
  unfolding add_al_ib_def add_eax_iv_def al_ib_def sub_eax_iv_def cmp_eax_iv_def
  by (rule room_intros order_refl | simp)+

lemma ignore_result: "parses c k b is_result f \<Longrightarrow> parses c k b is_result (\<lambda>d. bindE (f d) (\<lambda>(_, d). Inr (1, d)))"
  by (fastforce simp: parses_def is_result_def)

lemma arithmetic_parses:
  assumes "parses c 6 7 is_result (two_bytes c w rx)" shows "parses c 6 7 is_result (arithmetic_cases two_bytes c w rx b)"
  unfolding arithmetic_cases_def and_al_ib_def cmp_al_ib_def
  by (intro parses_if not_decoded assms ignore_result parses_more [OF gx_parses(1)] parses_more [OF gx_parses(2)]
    parses_more [OF accumulator_parses(1)] parses_more [OF accumulator_parses(2)] parses_more [OF accumulator_parses(3)]
    parses_more [OF accumulator_parses(4)] parses_more [OF accumulator_parses(5)]) simp_all

lemma emits_Cons: "emits (f # fs) = (\<lambda>d. bindE (f d) (emits fs))"
  by (rule ext) simp

lemma emits_one: "emits [f] = f"
proof
  show "emits [f] d = f d" for d by (cases "f d") simp_all
qed

lemma emits_fills: "list_all (within c 1 0) fs \<Longrightarrow> length fs \<le> k \<Longrightarrow> within c k 0 (emits fs)"
proof (induction fs arbitrary: k)
  case Nil
  show ?case by (simp add: within_def)
next
  case (Cons f fs)
  then show ?case unfolding emits_Cons by (intro fills_seq [where k = 1 and k' = "k - 1" and b = 0 and b' = 0]) auto
qed

lemma emits_parses: "list_all (within c 1 0) fs \<Longrightarrow> length fs \<le> k \<Longrightarrow> parses c k b is_result (\<lambda>d. decoded (emits fs d))"
  by (rule parses_more [OF decoded_parses [OF emits_fills [OF _ order_refl]]]) simp_all

lemma stack_reg_less: "unat (stack_reg rx b) < 16"
  by (simp add: stack_reg_def nibble_less(1,2) nibble_less')

lemma push_parses: "parses c 2 0 is_result (push_reg rx b)" "parses c 2 0 is_result (pop_reg rx b)"
  unfolding push_reg_def pop_reg_def
  by (rule emits_parses; simp; (rule conjI)?; rule emit_fills; rule room_intros stack_reg_less; (rule stack_reg_less)?)+

lemma movsxd_parses: "parses c 5 6 is_result (movsxd c w rx)"
  unfolding parses_def
proof (intro allI impI)
  fix d assume d: "ready c 5 6 d"
  have some: "instruction_number e \<noteq> 0" if e: "dis_Ex_Gx c OP_SEX rx w d = Inr (r, e)" for r e
    using that by (auto simp: dis_Ex_Gx_def decoded_def emit_def bindE_Inr_iff)
  obtain r e where e: "dis_Ex_Gx c OP_SEX rx w d = Inr (r, e)" "is_result r" "moved 5 6 d e"
    using gx_parses(1) [of c OP_SEX rx w] d unfolding parses_def by blast
  have less: "instruction_number e - 1 < length (dis_instruction e)" using e(3) d some [OF e(1)] by (auto simp: moved_def ready_def)
  then show "\<exists>x e. movsxd c w rx d = Inr (x, e) \<and> is_result x \<and> moved 5 6 d e"
    using e some [OF e(1)] by (simp add: movsxd_def amend_last_def sized_def moved_def)
qed

lemma imul_parses: "parses c 7 10 is_result (imul_gv_ev_iv c w rx)"
  unfolding imul_gv_ev_iv_def by (rule room_intros order_refl | simp)+

lemma short_parses: "parses c 1 1 is_result (jcc_short c b)"
  unfolding jcc_short_def by (rule room_intros order_refl | simp)+

lemma group_parses:
  assumes "and rx 4 = 0"
  shows "parses c 5 7 is_result (group1_eb_ib c rx)" "parses c 5 7 is_result (group1_ev_ib c w rx)"
    "parses c 5 7 is_result (group2_eb_ib c w rx)" "parses c 5 7 is_result (group2_ev_ib c w rx)"
    "fill_ok f \<Longrightarrow> parses c 5 6 is_result (shift_by f c w rx)"
  unfolding group1_eb_ib_def group1_ev_ib_def group2_eb_ib_def group2_ev_ib_def shift_by_def
  by (rule room_intros order_refl | assumption | simp add: assms)+
lemma group1_iv_parses: "and rx 4 = 0 \<Longrightarrow> is_size w \<Longrightarrow> parses c 5 14 is_result (group1_ev_iv c w rx)"
  unfolding group1_ev_iv_def is_size_def
  by (elim insertE emptyE; hypsubst; rule parses_seq [OF rmb_parses, where k' = 1 and b' = 8])
    (rule room_intros order_refl | assumption | simp)+

lemma lea_parses: "parses c 5 6 is_result (lea_gv c w rx)"
  unfolding lea_gv_def by (rule room_intros order_refl | simp)+

lemma move_parses: "parses c 1 0 is_result (cbw w)" "parses c 1 4 is_result (mov_eax_ow c)" "parses c 1 0 is_result in_eax_dx"
    "parses c 1 0 is_result out_dx_eax" "parses c 1 4 is_result (jmp_jw c)" "parses c 1 1 is_result (jmp_jb c)"
  unfolding cbw_def mov_eax_ow_def in_eax_dx_def out_dx_eax_def jmp_jw_def jmp_jb_def Let_def
  by (rule room_intros order_refl | simp)+

lemma mov_ow_parses: "parses c 1 4 is_result (mov_ow_eax c)"
  unfolding mov_ow_eax_def Let_def by (rule room_intros order_refl | simp add: fill_ok_def ax_def reg_of_def fixed_def)+

lemma call_parses: "parses c 1 4 is_result (call_jw c)"
  unfolding call_jw_def Let_def by (rule room_intros order_refl | simp add: fill_ok_def immediate_def)+

lemma mov_reg_parses: "parses c 1 4 is_result (mov_reg_iv c w rx b)"
  unfolding mov_reg_iv_def by (rule room_intros order_refl | simp add: nibble_less(1,2) nibble_less')+

lemma rep_fills: "within c 3 0 rep_count" "within c 3 0 string_copy" "within c 1 0 rep_back"
proof -
  have "list_all (within c 1 0) [emit OP_CMP 1 cx_operand (imm 0 32) (imm 0 32), emit_if 4 0, emit OP_SUB 0 (imm 1 32) cx_operand cx_operand]"
    by (simp, intro conjI) (rule room_intros)+
  then show "within c 3 0 rep_count" unfolding rep_count_def by (rule emits_fills) simp
  have "list_all (within c 1 0) [emit OP_MOV 0 (fixed STORE_REG IND_MEM 64 REG_SI 32) Inr (fixed STORE_REG IND_MEM 64 REG_DI 32),
      emit OP_ADD 0 (imm 4 32) (reg_of REG_SI 64 32) (reg_of REG_SI 64 32), emit OP_ADD 0 (imm 4 32) (reg_of REG_DI 64 32) (reg_of REG_DI 64 32)]"
    by (simp, intro conjI) (rule room_intros)+
  then show "within c 3 0 string_copy" unfolding string_copy_def by (rule emits_fills) simp
  show "within c 1 0 rep_back" unfolding rep_back_def by (rule room_intros)+
qed

lemma movs_parses: "parses c 7 0 is_result (movs_word z)"
proof -
  have "within c 7 0 (\<lambda>d. emits (if z then [rep_count, string_copy, rep_back] else [string_copy]) d)"
  proof (cases z)
    case True
    have "within c (3 + (3 + 1)) (0 + (0 + 0)) (\<lambda>d. bindE (rep_count d) (\<lambda>d. bindE (string_copy d) rep_back))"
      by (intro fills_bind rep_fills)
    then show ?thesis using True by (simp only: emits_Cons [of rep_count] emits_Cons [of string_copy] emits_one if_True) simp
  next
    case False
    have "within c 7 0 string_copy" by (rule fills_more [OF rep_fills(2)]) simp_all
    then show ?thesis using False by (simp only: emits_one if_False)
  qed
  then show ?thesis unfolding movs_word_def by (rule decoded_parses)
qed

lemma return_parses: "parses c 4 0 is_result retn" "parses c 3 0 is_result leave"
  unfolding retn_def leave_def pop_sp_def by (rule emits_parses; (simp; (intro conjI)?; (rule room_intros)+)?)+

text \<open>The array need not have an instruction before \<open>DEC\<close>.\<close>

lemma dec_parses: "parses c 1 0 is_result dec_ev"
proof -
  have "looks c 0 (\<lambda>_. True) (\<lambda>d. if instruction_number d = 0 then Inr IND_MEM else base_kind IND_MEM d)"
    using base_kind_looks [of c IND_MEM] by (simp add: looks_def)
  then show ?thesis unfolding dec_ev_def by (rule looks_then_parses) (rule room_intros order_refl | simp)+
qed

lemma group5_parts: "parses c 1 0 is_result (inc_ev half)" "parses c 1 0 is_result call_ev" "parses c 1 0 is_result push_ev"
  unfolding inc_ev_def call_ev_def push_ev_def by (rule room_intros order_refl | simp)+

lemma jmp_ev_parses: "parses c 1 0 is_result (jmp_ev half)"
  unfolding jmp_ev_def by (cases half) (rule room_intros order_refl | simp add: fill_ok_def memory_operand_def fixed_def)+
lemma group5_push_fills: "within c 1 0 group5_push"
  unfolding group5_push_def by (rule room_intros)+

lemma group5_parses: "parses c 6 6 is_result (group5 c w rx)"
proof -
  have cases: "parses c 1 0 is_result (\<lambda>d.
       if reg = 0 then inc_ev half d
       else if reg = 1 then dec_ev d
       else if reg = 2 then call_ev d
       else if reg = 4 then jmp_ev half d
       else if reg = 6 then push_ev d
       else Inr (0, d\<lparr>instruction_number := 0\<rparr>))" for reg half
    by (intro parses_if group5_parts dec_parses jmp_ev_parses) (simp add: parses_def moved_def is_result_def)
  have "parses c 5 6 is_result (\<lambda>d. bindE (rmb c w rx d) (\<lambda>((reg, half), d).
       if reg = 0 then inc_ev half d
       else if reg = 1 then dec_ev d
       else if reg = 2 then call_ev d
       else if reg = 4 then jmp_ev half d
       else if reg = 6 then push_ev d
       else Inr (0, d\<lparr>instruction_number := 0\<rparr>)))"
    by (rule parses_seq [OF rmb_parses]) (use cases in \<open>auto split: prod.split\<close>)
  from fills_then_parses [OF fills_if [where P = "and b 0x38 = 0x30" for b, OF group5_push_fills same_fills(2)] this, of 6 6]
  have "parses c 6 6 is_result (\<lambda>d. bindE (if and b 0x38 = 0x30 then group5_push d else Inr d) (\<lambda>d.
     bindE (rmb c w rx d) (\<lambda>((reg, half), d).
       if reg = 0 then inc_ev half d
       else if reg = 1 then dec_ev d
       else if reg = 2 then call_ev d
       else if reg = 4 then jmp_ev half d
       else if reg = 6 then push_ev d
       else Inr (0, d\<lparr>instruction_number := 0\<rparr>))))" for b :: u32
    by simp
  then show ?thesis unfolding group5_def by (intro query_parses) simp_all
qed

text \<open>The opcodes whose operation is taken from a table by the register field.\<close>

definition table_opcode :: "u8 \<Rightarrow> bool" where
  "table_opcode b \<longleftrightarrow> b \<in> {0x80, 0x81, 0x83, 0xc0, 0xc1, 0xd1, 0xd3, 0xf6, 0xf7}"

lemma nop_case: "parses c k b is_result (\<lambda>d. Inr (1, d))"
  by (rule result_parses) (simp add: is_result_def)

lemma other_parses:
  assumes "table_opcode b \<longrightarrow> and rx 4 = 0" "is_size w"
  shows "parses c 7 14 is_result (other_cases c w rx z b)"
proof -
  note more = parses_more [where k' = 7 and b' = 14 and Q = is_result]
  have g: "parses c 7 14 is_result (group1_eb_ib c rx)" "parses c 7 14 is_result (group1_ev_iv c w rx)"
    "parses c 7 14 is_result (group1_ev_ib c w rx)" "parses c 7 14 is_result (group2_eb_ib c w rx)"
    "parses c 7 14 is_result (group2_ev_ib c w rx)" "parses c 7 14 is_result (group2_ev_1 c w rx)"
    "parses c 7 14 is_result (group2_ev_cl c w rx)" "parses c 7 14 is_result (dis_Ex c grp3_table rx 8)"
    "parses c 7 14 is_result (dis_Ex c grp3_table rx w)" if "table_opcode b"
    unfolding group2_ev_1_def group2_ev_cl_def
    using that assms by (auto intro!: more [OF group_parses(1)] more [OF group1_iv_parses] more [OF group_parses(2)]
      more [OF group_parses(3)] more [OF group_parses(4)] more [OF group_parses(5)] more [OF Ex_parses] fill_ok_operands
      simp: is_size_def)
  have e: "parses c 7 14 is_result (dis_Ex_Ix c OP_MOV rx 8)" "parses c 7 14 is_result (dis_Ex_Ix c OP_MOV rx w)"
    using assms(2) by (auto intro!: more [OF Ex_Ix_parses] simp: is_size_def)
  show ?thesis unfolding other_cases_def test_al_ib_def
    by (intro parses_if not_decoded nop_case e more [OF push_parses(1)] more [OF push_parses(2)] more [OF movsxd_parses]
      more [OF imul_parses] more [OF short_parses] more [OF gx_parses(1)] more [OF gx_parses(2)] more [OF lea_parses]
      more [OF move_parses(1)] more [OF move_parses(2)] more [OF move_parses(3)] more [OF move_parses(4)]
      more [OF move_parses(5)] more [OF move_parses(6)] more [OF mov_ow_parses] more [OF call_parses] more [OF mov_reg_parses]
      more [OF movs_parses] more [OF return_parses(1)] more [OF return_parses(2)] more [OF group5_parses]
      more [OF accumulator_parses(3)]) (simp_all add: g table_opcode_def)
qed

section \<open>The decoder\<close>

definition is_prefixes :: "prefixes_s \<Rightarrow> bool" where
  "is_prefixes p \<longleftrightarrow> is_size (op_width p)"

lemma pass_parses [room_intros]: "parses c 0 1 (\<lambda>_. True) (pass_prefix c p b)" "parses c 0 1 (\<lambda>_. True) (pass_rex c b)"
  using next_byte_parses [of c] by (fastforce simp: parses_def pass_prefix_def pass_rex_def)+

lemma prefixes_parse: "parses c 0 6 is_prefixes (read_prefixes c)"
proof -
  have last: "parses c 0 0 is_prefixes (\<lambda>d. Inr (\<lparr>has_repnz = nz, has_repz = z,
      op_width = (if and r 8 \<noteq> 0 then 64 else if short then 16 else 32), op_rex = r, op_byte = b\<rparr>, d))" for nz z r short b
    by (simp add: parses_def is_prefixes_def is_size_def)
  show ?thesis unfolding read_prefixes_def by (rule room_intros last order_refl | simp)+
qed

text \<open>
  With \<open>REX.R\<close> the register field is above 7, and the opcode is looked up past the end of its table.
\<close>

definition table_overrun :: "code_s \<Rightarrow> dis_instructions_s \<Rightarrow> bool" where
  "table_overrun c d \<longleftrightarrow>
     (case read_prefixes c d of Inl _ \<Rightarrow> False | Inr (p, _) \<Rightarrow> table_opcode (op_byte p) \<and> and (op_rex p) 4 \<noteq> 0)"

text \<open>The prefixes do not depend on the instructions.\<close>

lemma prefixes_same:
  assumes "bytes_used d' = bytes_used d"
  shows "(case read_prefixes c d' of Inl _ \<Rightarrow> None | Inr (p, _) \<Rightarrow> Some p) = (case read_prefixes c d of Inl _ \<Rightarrow> None | Inr (p, _) \<Rightarrow> Some p)"
proof -
  let ?with = "\<lambda>m is n. bindE m (\<lambda>(x, d). Inr (x, d\<lparr>dis_instruction := is, instruction_number := n\<rparr>))"
  let ?set = "\<lambda>d. d\<lparr>dis_instruction := dis_instruction d', instruction_number := instruction_number d'\<rparr>"
  have nb: "next_byte c (?set e) = ?with (next_byte c e) (dis_instruction d') (instruction_number d')" for e
    by (cases "getbyte c (here c e)") (simp_all add: next_byte_def here_def skip_def)
  have pass: "pass_prefix c p b (?set e) = ?with (pass_prefix c p b e) (dis_instruction d') (instruction_number d')" for p b e
    unfolding pass_prefix_def nb by (cases "next_byte c e") (auto simp: bindE_assoc)
  have rx: "pass_rex c b (?set e) = ?with (pass_rex c b e) (dis_instruction d') (instruction_number d')" for b e
    unfolding pass_rex_def nb by (cases "next_byte c e") (auto simp: bindE_assoc)
  have "d' = ?set d" using assms by simp
  then have "read_prefixes c d' = read_prefixes c (?set d)" by simp
  also have "\<dots> = ?with (read_prefixes c d) (dis_instruction d') (instruction_number d')"
    unfolding read_prefixes_def nb pass rx
    by (simp add: bindE_assoc case_prod_beta nb pass rx cong: bindE_cong if_cong)
  finally show ?thesis by (cases "read_prefixes c d") auto
qed

text \<open>
  The two decoders differ in the opcodes of two bytes: the interface of what decodes them is that
  it takes at most six instructions and seven bytes.
\<close>

locale two_byte_decoder =
  fixes two_bytes :: "code_s \<Rightarrow> int \<Rightarrow> u8 \<Rightarrow> dis_instructions_s \<Rightarrow> decoded"
  assumes two_bytes_parse: "parses c 6 7 is_result (two_bytes c w rx)"
begin

lemma decode_with_parses:
  assumes d: "ready c 7 20 d" and safe: "\<not> table_overrun c d"
  shows "\<exists>r e. decode_with two_bytes c d = Inr (r, e) \<and> is_result r \<and> moved 7 20 d e"
proof -
  have "ready c 1 0 d" using d by (auto elim: ready_less)
  then obtain d' where d': "prepare OP_NOP 0 Inr Inr Inr d = Inr d'" "moved 0 0 d d'"
    using prepare_fills [of Inr Inr Inr c 0 d OP_NOP 0] fill_ok_operands(6) by blast
  have d7: "ready c 7 20 d'" using d d'(2) by (auto simp: ready_def moved_def)
  then have "ready c 0 6 d'" by (auto elim: ready_less)
  then obtain p e where e: "read_prefixes c d' = Inr (p, e)" "is_prefixes p" "moved 0 6 d' e"
    using prefixes_parse [of c] unfolding parses_def by blast
  have e7: "ready c 7 14 e" using ready_moved [of c 0 7 6 14] d7 e(3) by simp
  have p: "table_opcode (op_byte p) \<longrightarrow> and (op_rex p) 4 = 0"
    using safe prefixes_same [of d' d c] d'(2) e(1)
    by (cases "read_prefixes c d") (auto simp: table_overrun_def moved_def)
  have "parses c 7 14 is_result (decode_opcode two_bytes c p)"
  proof (cases "op_byte p < 0x40")
    case True
    have "parses c 7 14 is_result (arithmetic_cases two_bytes c (op_width p) (op_rex p) (op_byte p))"
      by (rule parses_more [OF arithmetic_parses [where two_bytes = two_bytes]]) (simp_all add: two_bytes_parse)
    then show ?thesis using True by (simp add: decode_opcode_def)
  next
    case False
    then show ?thesis using other_parses [OF p, of "op_width p"] e(2)
      by (simp add: decode_opcode_def is_prefixes_def)
  qed
  then obtain r h where h: "decode_opcode two_bytes c p e = Inr (r, h)" "is_result r" "moved 7 14 e h"
    using e7 unfolding parses_def by blast
  have "moved 7 20 d h" using moved_trans [OF d'(2) moved_trans [OF e(3) h(3)]] by simp
  then show ?thesis using d'(1) e(1) h by (auto simp: decode_with_def is_result_def)
qed

lemma decode_fits:
  assumes "enough_code c" "length (dis_instruction d) = 10" "instruction_number d = 0" "bytes_used d = 0" "\<not> table_overrun c d"
  shows "\<exists>r e. decode_with two_bytes c d = Inr (r, e) \<and> (r = 0 \<or> r = 1) \<and> instruction_number e \<le> 7 \<and>
    0 \<le> bytes_used e \<and> bytes_used e \<le> 20"
proof -
  have "ready c 7 20 d" using assms(1-4) by (auto simp: ready_def)
  from decode_with_parses [OF this assms(5)] show ?thesis using assms(3,4) by (auto simp: is_result_def moved_def)
qed

end

interpretation two_bytes: two_byte_decoder prefix_0f
  by unfold_locales (rule prefix_0f_parses)

interpretation no_two_bytes: two_byte_decoder "\<lambda>_ _ _ d. Inr (0, d)"
  by unfold_locales (rule not_decoded)

text \<open>
  C25. The decoder of AMD64 code is total and keeps within bounds: from an array of ten RTL
  instructions with nothing decoded yet and 24 bytes of code left, it returns 0 or 1, fills
  at most seven instructions and passes at most 20 bytes, whatever the bytes are, unless the
  opcode is one of a group whose operation is looked up with a register field that REX.R
  extends.
\<close>
theorem disassemble_amd64_fits:
  assumes "enough_code c" "length (dis_instruction d) = 10" "instruction_number d = 0" "bytes_used d = 0"
    and "\<not> table_overrun c d"
  shows "\<exists>r e. disassemble_amd64 c d = Inr (r, e) \<and> (r = 0 \<or> r = 1) \<and> instruction_number e \<le> 7 \<and>
    0 \<le> bytes_used e \<and> bytes_used e \<le> 20"
  unfolding disassemble_amd64_def by (rule two_bytes.decode_fits [OF assms])

lemma decode_amd64_fits:
  assumes "enough_code c" "length (dis_instruction d) = 10" "instruction_number d = 0" "bytes_used d = 0" "\<not> table_overrun c d"
  shows "\<exists>r e. decode_amd64 c d = Inr (r, e) \<and> (r = 0 \<or> r = 1) \<and> instruction_number e \<le> 7 \<and>
    0 \<le> bytes_used e \<and> bytes_used e \<le> 20"
  unfolding decode_amd64_def by (rule no_two_bytes.decode_fits [OF assms])

text \<open>
  The other way round: with REX.R the groups do read past the end of their table. For the third
  group this needs an operand in a register; without one it is not decoded.
\<close>

definition stops :: "code_s \<Rightarrow> (dis_instructions_s \<Rightarrow> 'a c) \<Rightarrow> bool" where
  "stops c f \<longleftrightarrow> (\<forall>d. ready c 7 14 d \<longrightarrow> f d = Inl OutOfBounds)"

lemma operand_stops:
  assumes "and rx 4 \<noteq> 0" "length table = 8"
  shows "stops c (\<lambda>d. bindE (rmb c sz rx d) (\<lambda>((reg, half), d). bindE (at table (unat reg)) (f reg half d)))"
  unfolding stops_def
proof (intro allI impI)
  fix d assume "ready c 7 14 d"
  then have "ready c 4 6 d" by (rule ready_less) simp_all
  then obtain x e where x: "rmb c sz rx d = Inr (x, e)" "is_operand rx x"
    using rmb_parses [of c rx sz] unfolding parses_def by blast
  obtain reg half where e: "rmb c sz rx d = Inr ((reg, half), e)" "is_operand rx (reg, half)"
    using x by (cases x) blast
  have "\<not> unat reg < length table" using e(2) assms(1) unfolding is_operand_def fst_conv assms(2) by blast
  then show "bindE (rmb c sz rx d) (\<lambda>((reg, half), d). bindE (at table (unat reg)) (f reg half d)) = Inl OutOfBounds"
    by (simp add: e(1))
qed

lemma group_case:
  "other_cases c w rx z 0x80 d = group1_eb_ib c rx d" "other_cases c w rx z 0x81 d = group1_ev_iv c w rx d"
  "other_cases c w rx z 0x83 d = group1_ev_ib c w rx d" "other_cases c w rx z 0xc0 d = group2_eb_ib c w rx d"
  "other_cases c w rx z 0xc1 d = group2_ev_ib c w rx d" "other_cases c w rx z 0xd1 d = group2_ev_1 c w rx d"
  "other_cases c w rx z 0xd3 d = group2_ev_cl c w rx d"
  by (simp_all add: other_cases_def One_nat_def)

lemma group_stops:
  assumes "and rx 4 \<noteq> 0" "b \<in> {0x80, 0x81, 0x83, 0xc0, 0xc1, 0xd1, 0xd3}"
  shows "stops c (other_cases c w rx z b)"
proof -
  have "stops c (group1_eb_ib c rx)" "stops c (group1_ev_iv c w rx)" "stops c (group1_ev_ib c w rx)"
    "stops c (group2_eb_ib c w rx)" "stops c (group2_ev_ib c w rx)" "stops c (group2_ev_1 c w rx)" "stops c (group2_ev_cl c w rx)"
    unfolding group1_eb_ib_def group1_ev_iv_def group1_ev_ib_def group2_eb_ib_def group2_ev_ib_def
      group2_ev_1_def group2_ev_cl_def shift_by_def
    by (rule operand_stops [OF assms(1)], simp)+
  then show ?thesis using assms(2) unfolding stops_def by (elim insertE emptyE) (simp_all only: group_case)
qed

text \<open>
  C26. The opcodes of the groups (80, 81, 83, C0, C1, D1, D3) behind a prefix with REX.R
  make the decoder read past the end of its table of eight operations: the register field,
  which selects the operation here, is extended to 8..15 by split_ModRM.
\<close>
theorem rex_r_overruns:
  assumes "enough_code c" "length (dis_instruction d) = 10" "instruction_number d = 0" "bytes_used d = 0"
    and "read_prefixes c d = Inr (p, e)" "op_byte p \<in> {0x80, 0x81, 0x83, 0xc0, 0xc1, 0xd1, 0xd3}" "and (op_rex p) 4 \<noteq> 0"
  shows "disassemble_amd64 c d = Inl OutOfBounds"
proof -
  have d: "ready c 7 20 d" using assms(1-4) by (auto simp: ready_def)
  then have "ready c 1 0 d" by (auto elim: ready_less)
  then obtain d' where d': "prepare OP_NOP 0 Inr Inr Inr d = Inr d'" "moved 0 0 d d'"
    using prepare_fills [of Inr Inr Inr c 0 d OP_NOP 0] fill_ok_operands(6) by blast
  have d7: "ready c 7 20 d'" using d d'(2) by (auto simp: ready_def moved_def)
  then have "ready c 0 6 d'" by (auto elim: ready_less)
  then obtain p' e' where e': "read_prefixes c d' = Inr (p', e')" "moved 0 6 d' e'"
    using prefixes_parse [of c] unfolding parses_def by blast
  have p: "p' = p" using prefixes_same [of d' d c] d'(2) assms(5) e'(1) by (simp add: moved_def)
  have "ready c 7 14 e'" using ready_moved [of c 0 7 6 14] d7 e'(2) by simp
  then have "decode_opcode prefix_0f c p e' = Inl OutOfBounds"
    using group_stops [OF assms(7,6)] assms(6) unfolding decode_opcode_def stops_def by (auto simp: One_nat_def)
  then show ?thesis by (simp add: disassemble_amd64_def decode_with_def d'(1) e'(1) p)
qed

end
