(* ===== verification/Amd64Address.thy ===== *)
theory Amd64Address
  imports Amd64Fits RtlAddress
begin

text \<open>
  The meaning of the RTL instructions \<open>rmb\<close> fills in for an operand in memory: on 64 bit registers
  they leave the effective address of the architecture in the temporary register. First what the
  displacements are, then what one instruction does, then the parts of an operand one after the
  other (\<open>tmp_holds\<close>: the temporary register holds the part that has been read).
\<close>

declare One_nat_def [simp]

section \<open>Signed displacements\<close>

lemma bit_top: "bit k n \<longleftrightarrow> 2 ^ n \<le> k" if "0 \<le> k" "k < 2 ^ Suc n" for k :: int
proof -
  have "k div 2 ^ n = (if 2 ^ n \<le> k then 1 else 0)"
  proof (cases "2 ^ n \<le> k")
    case True
    then have "k div 2 ^ n = (k - 2 ^ n) div 2 ^ n + 1" using div_add_self2 [of "2 ^ n" "k - 2 ^ n"] by simp
    moreover have "(k - 2 ^ n) div 2 ^ n = 0" using True that by (intro div_pos_pos_trivial) simp_all
    ultimately show ?thesis using True by simp
  next
    case False
    then show ?thesis using that by (simp add: div_pos_pos_trivial)
  qed
  then show ?thesis by (simp add: bit_iff_odd)
qed

lemma sint_cases: "sint w = (if uint w < 2 ^ (LENGTH('a) - 1) then uint w else uint w - 2 ^ LENGTH('a))" for w :: "'a::len word"
proof -
  have n: "Suc (LENGTH('a) - 1) = LENGTH('a)" by simp
  have u: "0 \<le> uint w" "uint w < 2 ^ LENGTH('a)" by simp_all
  have "take_bit LENGTH('a) (uint w) = uint w" by (rule take_bit_int_eq_self [OF u])
  then show ?thesis using bit_top [of "uint w" "LENGTH('a) - 1"] u
    unfolding sint_uint signed_take_bit_eq_take_bit_minus n by auto
qed

lemma scast_cases: "(scast w :: u64) = (if uint w < 2 ^ (LENGTH('a) - 1) then word_of_int (uint w) else word_of_int (uint w - 2 ^ LENGTH('a)))"
  for w :: "'a::len word"
  unfolding scast_eq sint_cases by simp

lemma scast_small: "uint w < 2 ^ (LENGTH('a) - 1) \<Longrightarrow> (scast w :: u64) = ucast w" for w :: "'a::len word"
  by (simp only: scast_cases if_True ucast_eq)

text \<open>What the decoder adds for a displacement, and what the displacement is.\<close>

definition rtl_disp :: "opcode \<times> u64 \<Rightarrow> u64" where
  "rtl_disp s = (if fst s = OP_SUB then - snd s else snd s)"

lemma disp8_signed: "rtl_disp (signed_disp8 OP_ADD (ucast b)) = scast (b :: u8)"
proof -
  have small: "uint (ucast b :: u32) = uint b" by (simp add: uint_up_ucast is_up)
  show ?thesis
  proof (cases "uint b < 128")
    case True
    then have "\<not> 0x7f < (ucast b :: u32)" by (simp add: word_less_def small)
    moreover have "(scast b :: u64) = ucast b" using True by (intro scast_small) simp
    moreover have "(ucast (ucast b :: u32) :: u64) = ucast b" unfolding ucast_eq [of "ucast b :: u32"] small by simp
    ultimately show ?thesis by (simp add: rtl_disp_def signed_disp8_def)
  next
    case False
    have gt: "0x7f < (ucast b :: u32)" using False by (simp add: word_less_def small)
    have u: "uint (0x100 - ucast b :: u32) = 256 - uint b"
      using False uint_lt2p [of b] by (subst uint_sub_lem [THEN iffD1]) (simp_all add: small word_le_def)
    have "(scast (0x100 - ucast b :: u32) :: u64) = word_of_int (256 - uint b)"
      unfolding scast_cases u using False by simp
    moreover have "(scast b :: u64) = word_of_int (uint b - 256)"
      unfolding scast_cases using False by simp
    ultimately show ?thesis using gt by (simp add: rtl_disp_def signed_disp8_def)
  qed
qed

text \<open>The lowest displacement goes wrong: its amount does not fit in an \<open>int\<close>.\<close>

lemma disp32_signed:
  assumes "v \<noteq> 0x80000000" shows "rtl_disp (signed_disp32 OP_ADD v) = scast (v :: u32)"
proof -
  have wide: "uint (ucast v :: u64) = uint v" by (simp add: uint_up_ucast is_up)
  show ?thesis
  proof (cases "uint v < 2147483648")
    case True
    then have "\<not> 0x7fffffff < v" by (simp add: word_less_def)
    moreover have "(scast v :: u64) = ucast v" using True by (intro scast_small) simp
    ultimately show ?thesis by (simp add: rtl_disp_def signed_disp32_def)
  next
    case False
    have "uint v \<noteq> uint (0x80000000 :: u32)" using assms by (metis unsigned_word_eqI)
    then have v: "2147483648 < uint v" using False by simp
    have gt: "0x7fffffff < v" using v by (simp add: word_less_def)
    have "uint (0x100000000 - ucast v :: u64) = 4294967296 - uint v"
      using uint_lt2p [of v] by (subst uint_sub_lem [THEN iffD1]) (simp_all add: wide word_le_def)
    then have u: "uint (ucast (0x100000000 - ucast v :: u64) :: u32) = 4294967296 - uint v"
      using v uint_lt2p [of v] by (simp add: unsigned_ucast_eq take_bit_int_eq_self)
    have "(scast (ucast (0x100000000 - ucast v :: u64) :: u32) :: u64) = word_of_int (4294967296 - uint v)"
      unfolding scast_cases u using v by simp
    moreover have "(scast v :: u64) = word_of_int (uint v - 4294967296)"
      unfolding scast_cases using v by simp
    ultimately show ?thesis using gt by (simp add: rtl_disp_def signed_disp32_def)
  qed
qed
section \<open>What the instructions of an operand compute\<close>

text \<open>
  The meaning the decoder intends: an operand is a register or its own value, cut off at its
  size; the second source is the first operand of the machine instruction, so that \<open>SUB\<close>
  subtracts \<open>srcA\<close> from \<open>srcB\<close>.
\<close>

definition amd64_value :: "registers \<Rightarrow> operand_s \<Rightarrow> u64" where
  "amd64_value regs x = take_bit (nat (value_size x)) (rtl_value regs x)"

definition amd64_result :: "opcode \<Rightarrow> u64 \<Rightarrow> u64 \<Rightarrow> u64" where
  "amd64_result opc a b =
     (if opc = OP_ADD then b + a else if opc = OP_SUB then b - a else if opc = OP_MUL then b * a else a)"

definition amd64_step :: "registers \<Rightarrow> instruction_s \<Rightarrow> registers" where
  "amd64_step regs i = regs(index (dstA i) := take_bit (nat (value_size (dstA i)))
     (amd64_result (opcode i) (amd64_value regs (srcA i)) (amd64_value regs (srcB i))))"

definition amd64_run :: "registers \<Rightarrow> dis_instructions_s \<Rightarrow> dis_instructions_s \<Rightarrow> registers" where
  "amd64_run regs d e = foldl amd64_step regs (drop (instruction_number d) (take (instruction_number e) (dis_instruction e)))"

text \<open>An operand with the value \<open>v\<close>, whatever the temporary register holds; and one that reads the temporary register.\<close>

definition has_value :: "registers \<Rightarrow> u64 \<Rightarrow> fill \<Rightarrow> bool" where
  "has_value regs v f \<longleftrightarrow> (\<forall>w x y. f x = Inr y \<longrightarrow> amd64_value (regs(REG_TMP1 := w)) y = v)"

definition table_value :: "registers \<Rightarrow> u8 \<Rightarrow> u64" where
  "table_value regs n = regs (fst (reg_table ! unat n))"

lemma table_not_tmp: "unat n < 16 \<Longrightarrow> fst (reg_table ! unat n) \<noteq> REG_TMP1" "unat n < 16 \<Longrightarrow> snd (reg_table ! unat n) = 64"
proof -
  have "\<forall>r \<in> set reg_table. fst r \<noteq> REG_TMP1 \<and> snd r = 64"
    by (simp add: reg_table_def REG_TMP1_def REG_AX_def REG_CX_def REG_DX_def REG_BX_def REG_SP_def REG_BP_def REG_SI_def REG_DI_def)
  then show "unat n < 16 \<Longrightarrow> fst (reg_table ! unat n) \<noteq> REG_TMP1" "unat n < 16 \<Longrightarrow> snd (reg_table ! unat n) = 64"
    by simp_all
qed

lemma take_bit_64 [simp]: "take_bit 64 (w :: u64) = w"
  using take_bit_length_eq [of w] by simp

lemma value_fills:
  "has_value regs v (imm v 64)" "has_value regs v (immediate c off 64 v 64)"
  "unat n < 16 \<Longrightarrow> has_value regs (table_value regs n) (whole_reg n)"
  "unat n < 16 \<Longrightarrow> has_value regs (table_value regs n) (table_reg n 64 64)"
  using table_not_tmp [of n]
  by (auto simp: has_value_def amd64_value_def rtl_value_def imm_def fixed_def immediate_def relocated_at_def set_operand_def
    whole_reg_def table_reg_def reg_of_def bindE_Inr_iff at_Inr_iff table_value_def split: option.split)

lemma bp_value: "has_value regs (table_value regs 5) (reg_of REG_BP 64 64)"
  by (auto simp: has_value_def amd64_value_def rtl_value_def reg_of_def fixed_def set_operand_def table_value_def reg_table_def
    REG_BP_def REG_TMP1_def)

text \<open>
  \<open>tmp_holds regs d0 n d v\<close>: from \<open>d0\<close> to \<open>d\<close> instructions were filled that leave \<open>v\<close> in the temporary
  register, or none and \<open>v\<close> is 0; and \<open>n\<close> bytes were used.
\<close>

definition tmp_holds :: "registers \<Rightarrow> dis_instructions_s \<Rightarrow> int \<Rightarrow> dis_instructions_s \<Rightarrow> u64 \<Rightarrow> bool" where
  "tmp_holds regs d0 n d v \<longleftrightarrow> grown d0 d \<and> bytes_used d = bytes_used d0 + n \<and>
     (if instruction_number d = instruction_number d0 then v = 0 else amd64_run regs d0 d = regs(REG_TMP1 := v))"

lemma holds_start: "in_array d0 \<Longrightarrow> tmp_holds regs d0 n (skip n d0) 0"
  by (simp add: tmp_holds_def grown_def in_array_def skip_def)

lemma holds_skip: "tmp_holds regs d0 n d v \<Longrightarrow> tmp_holds regs d0 (n + m) (skip m d) v"
  by (auto simp: tmp_holds_def grown_def skip_def amd64_run_def)

lemma amd64_run_append:
  assumes "grown d0 d" "grown d e" shows "amd64_run regs d0 e = amd64_run (amd64_run regs d0 d) d e"
proof -
  have le: "instruction_number d0 \<le> instruction_number d" "instruction_number d \<le> instruction_number e"
      "instruction_number e \<le> length (dis_instruction e)" "instruction_number d \<le> length (dis_instruction d)"
    and t: "take (instruction_number d) (dis_instruction e) = take (instruction_number d) (dis_instruction d)"
    using assms by (simp_all add: grown_def)
  let ?n0 = "instruction_number d0" and ?d = "instruction_number d" and ?e = "instruction_number e"
  have "drop ?n0 (take ?e (dis_instruction e)) = drop ?n0 (take ?d (take ?e (dis_instruction e)) @ drop ?d (take ?e (dis_instruction e)))"
    by (simp only: append_take_drop_id)
  also have "\<dots> = drop ?n0 (take ?d (dis_instruction d)) @ drop ?d (take ?e (dis_instruction e))"
    using le t by (simp add: min_absorb1)
  finally show ?thesis by (simp add: amd64_run_def)
qed

text \<open>One more instruction into the temporary register.\<close>

lemma emit_step:
  assumes e: "emit opc fl fa fb (reg64 REG_TMP1) d = Inr e"
  obtains x y where "fa (srcA (dis_instruction d ! instruction_number d)) = Inr x"
    "fb (srcB (dis_instruction d ! instruction_number d)) = Inr y"
    "grown d e" "instruction_number e = Suc (instruction_number d)" "bytes_used e = bytes_used d"
    "\<And>regs. amd64_run regs d e = regs(REG_TMP1 := amd64_result opc (amd64_value regs x) (amd64_value regs y))"
proof -
  let ?n = "instruction_number d" and ?i = "dis_instruction d ! instruction_number d"
  obtain x y z where n: "?n < length (dis_instruction d)" and xyz: "fa (srcA ?i) = Inr x" "fb (srcB ?i) = Inr y"
      "reg64 REG_TMP1 (dstA ?i) = Inr z"
    and e': "e = d\<lparr>dis_instruction := (dis_instruction d)[?n := ?i\<lparr>opcode := opc, flags := fl, srcA := x, srcB := y, dstA := z\<rparr>],
      instruction_number := Suc ?n\<rparr>"
    using e by (auto simp: emit_def bindE_Inr_iff at_Inr_iff)
  have z: "index z = REG_TMP1" "value_size z = 64" using xyz(3) by (auto simp: reg64_def fixed_def set_operand_def)
  have "drop ?n (take (Suc ?n) (dis_instruction e)) = [?i\<lparr>opcode := opc, flags := fl, srcA := x, srcB := y, dstA := z\<rparr>]"
    using n by (simp add: e' take_Suc_conv_app_nth)
  then have "amd64_run regs d e = regs(REG_TMP1 := amd64_result opc (amd64_value regs x) (amd64_value regs y))" for regs
    by (simp add: amd64_run_def e' amd64_step_def z)
  moreover have "grown d e" using n by (simp add: grown_def e' take_update_cancel)
  ultimately show thesis by (intro that [OF xyz(1,2)]) (simp_all add: e')
qed

definition reads_tmp :: "fill \<Rightarrow> bool" where
  "reads_tmp f \<longleftrightarrow> (\<forall>regs x y. f x = Inr y \<longrightarrow> amd64_value regs y = regs REG_TMP1)"

lemma tmp_reads [simp]: "reads_tmp (reg64 REG_TMP1)" "reads_tmp (reg_of REG_TMP1 64 64)"
  by (auto simp: reads_tmp_def reg64_def reg_of_def fixed_def set_operand_def amd64_value_def rtl_value_def)

lemma reg_of_reg64: "reg_of r 64 64 = reg64 r"
  by (simp add: reg_of_def reg64_def)

lemma holds_step:
  assumes h: "tmp_holds regs d0 n d v" and e: "emit opc fl fa fb (reg64 REG_TMP1) d = Inr e"
    and a: "has_value regs u fa" and b: "instruction_number d = instruction_number d0 \<and> opc = OP_MOV \<or>
      instruction_number d \<noteq> instruction_number d0 \<and> reads_tmp fb"
  shows "tmp_holds regs d0 n e (if instruction_number d = instruction_number d0 then u else amd64_result opc u v)"
proof -
  obtain x y where xy: "fa (srcA (dis_instruction d ! instruction_number d)) = Inr x"
    "fb (srcB (dis_instruction d ! instruction_number d)) = Inr y"
    and de: "grown d e" "instruction_number e = Suc (instruction_number d)" "bytes_used e = bytes_used d"
    and run: "\<And>regs. amd64_run regs d e = regs(REG_TMP1 := amd64_result opc (amd64_value regs x) (amd64_value regs y))"
    by (rule emit_step [OF e]) (rule that, assumption+)
  have u: "amd64_value (regs(REG_TMP1 := w)) x = u" for w using a xy(1) by (simp add: has_value_def)
  have g: "grown d0 d" "instruction_number d0 \<le> instruction_number d" using h by (auto simp: tmp_holds_def grown_def)
  note g2 = grown_trans(1) [OF g(1) de(1)] amd64_run_append [OF g(1) de(1)]
  show ?thesis
  proof (cases "instruction_number d = instruction_number d0")
    case True
    then have "opc = OP_MOV" "amd64_run regs d0 d = regs" using b by (simp_all add: amd64_run_def)
    moreover have "amd64_value regs x = u" using u [of "regs REG_TMP1"] by simp
    ultimately show ?thesis using True g2 de h by (simp add: tmp_holds_def run amd64_result_def)
  next
    case False
    then have r: "amd64_run regs d0 d = regs(REG_TMP1 := v)" using h by (simp add: tmp_holds_def)
    have "amd64_value (regs(REG_TMP1 := v)) y = v" using b False xy(2) by (auto simp: reads_tmp_def)
    then show ?thesis using False g2 g(2) de h u by (simp add: tmp_holds_def run r)
  qed
qed
text \<open>At least one instruction was filled.\<close>

definition tmp_has :: "registers \<Rightarrow> dis_instructions_s \<Rightarrow> int \<Rightarrow> dis_instructions_s \<Rightarrow> u64 \<Rightarrow> bool" where
  "tmp_has regs d0 n d v \<longleftrightarrow> tmp_holds regs d0 n d v \<and> instruction_number d \<noteq> instruction_number d0"

lemma has_skip: "tmp_has regs d0 n d v \<Longrightarrow> tmp_has regs d0 (n + m) (skip m d) v"
  using holds_skip [of regs d0 n d v m] by (simp add: tmp_has_def skip_def)

lemma add_register_holds:
  assumes h: "tmp_holds regs d0 n d v" and e: "add_register (instruction_number d0) r 64 64 d = Inr e" and r: "has_value regs u r"
  shows "tmp_has regs d0 n e (v + u)"
proof -
  have le: "instruction_number d0 \<le> instruction_number d" and v: "instruction_number d = instruction_number d0 \<longrightarrow> v = 0"
    using h by (auto simp: tmp_holds_def grown_def)
  have e': "emit (mov_or_add (instruction_number d0) d) 0 r (reg64 REG_TMP1) (reg64 REG_TMP1) d = Inr e"
    using e by (simp add: add_register_def reg_of_reg64)
  have "tmp_holds regs d0 n e (if instruction_number d = instruction_number d0 then u
      else amd64_result (mov_or_add (instruction_number d0) d) u v)"
    by (rule holds_step [OF h e' r]) (use le in \<open>auto simp: mov_or_add_def\<close>)
  moreover have "instruction_number e = Suc (instruction_number d)" using e' by (rule emit_step)
  ultimately show ?thesis using le v
    by (cases "instruction_number d = instruction_number d0") (auto simp: tmp_has_def mov_or_add_def amd64_result_def)
qed

lemma displacement_holds:
  assumes h: "tmp_has regs d0 n d v"
    and e: "emit opc 0 f (reg64 REG_TMP1) (reg64 REG_TMP1) d = Inr e" and f: "has_value regs x f" and opc: "opc \<in> {OP_ADD, OP_SUB}"
  shows "tmp_has regs d0 n e (v + rtl_disp (opc, x))"
proof -
  have "tmp_holds regs d0 n e (if instruction_number d = instruction_number d0 then x else amd64_result opc x v)"
    by (rule holds_step [OF _ e f]) (use h in \<open>simp_all add: tmp_has_def\<close>)
  moreover have "instruction_number e = Suc (instruction_number d)" using e by (rule emit_step)
  ultimately show ?thesis using h opc by (auto simp: tmp_has_def tmp_holds_def grown_def rtl_disp_def amd64_result_def)
qed

lemma add_disp8_holds:
  assumes h: "tmp_has regs d0 n d v"
    and e: "add_disp8 c (instruction_number d0) d = Inr e" and b: "getbyte c (here c d) = Inr (ucast b)"
  shows "tmp_has regs d0 (n + 1) e (v + scast (b :: u8))"
proof -
  have add: "mov_or_add (instruction_number d0) d = OP_ADD" using h by (auto simp: tmp_has_def mov_or_add_def tmp_holds_def grown_def)
  obtain opc x where s: "signed_disp8 OP_ADD (ucast b) = (opc, x)" by (cases "signed_disp8 OP_ADD (ucast b)")
  obtain e' where e': "emit opc 0 (imm x 64) (reg64 REG_TMP1) (reg64 REG_TMP1) d = Inr e'" "e = skip 1 e'"
    using e b by (auto simp: add_disp8_def add s bindE_Inr_iff)
  have "opc \<in> {OP_ADD, OP_SUB}" using s by (auto simp: signed_disp8_def split: if_splits)
  from displacement_holds [OF h e'(1) value_fills(1) this] has_skip [where m = 1] e'(2) show ?thesis
    using disp8_signed [of b] by (simp add: s)
qed

lemma add_disp32_holds:
  assumes h: "tmp_has regs d0 n d v"
    and e: "add_disp32 c (instruction_number d0) 64 64 d = Inr e" and b: "getdword c (here c d) = Inr w" "w \<noteq> 0x80000000"
  shows "tmp_has regs d0 (n + 4) e (v + scast w)"
proof -
  have add: "mov_or_add (instruction_number d0) d = OP_ADD" using h by (auto simp: tmp_has_def mov_or_add_def tmp_holds_def grown_def)
  obtain opc x where s: "signed_disp32 OP_ADD w = (opc, x)" by (cases "signed_disp32 OP_ADD w")
  obtain e' where e': "emit opc 0 (immediate c (here c d) 64 x 64) (reg64 REG_TMP1) (reg64 REG_TMP1) d = Inr e'" "e = skip 4 e'"
    using e b by (auto simp: add_disp32_def add s bindE_Inr_iff reg_of_reg64)
  have "opc \<in> {OP_ADD, OP_SUB}" using s by (auto simp: signed_disp32_def split: if_splits)
  from displacement_holds [OF h e'(1) value_fills(2) this] has_skip [where m = 4] e'(2) show ?thesis
    using disp32_signed [OF b(2)] by (simp add: s)
qed

definition scaled_value :: "registers \<Rightarrow> u8 \<Rightarrow> u8 \<Rightarrow> u64" where
  "scaled_value regs mul ix = (if ix = 4 then 0 else table_value regs ix * push_bit (unat mul) 1)"

lemma scaled_index_holds:
  assumes h: "tmp_holds regs d0 n d 0" "instruction_number d = instruction_number d0"
    and e: "scaled_index mul ix 64 fb d = Inr e" and ix: "unat ix < 16" and fb: "0 < mul \<longrightarrow> reads_tmp fb"
  shows "tmp_holds regs d0 n e (scaled_value regs mul ix)"
proof (cases "ix = 4")
  case True
  then show ?thesis using h e by (simp add: scaled_index_def scaled_value_def)
next
  case False
  obtain d1 where d1: "emit OP_MOV 0 (whole_reg ix) Inr (reg64 REG_TMP1) d = Inr d1"
    and e: "(if 0 < mul then emit OP_MUL 0 (imm (push_bit (unat mul) 1) 64) fb (reg64 REG_TMP1) d1 else Inr d1) = Inr e"
    using e False by (auto simp: scaled_index_def bindE_Inr_iff)
  have "tmp_holds regs d0 n d1 (if instruction_number d = instruction_number d0 then table_value regs ix
      else amd64_result OP_MOV (table_value regs ix) 0)"
    by (rule holds_step [OF h(1) d1 value_fills(3) [OF ix]]) (simp add: h(2))
  then have 1: "tmp_holds regs d0 n d1 (table_value regs ix)" using h(2) by simp
  have "instruction_number d1 = Suc (instruction_number d)" using d1 by (rule emit_step)
  then have num: "instruction_number d1 \<noteq> instruction_number d0" using h(2) by simp
  show ?thesis
  proof (cases "0 < mul")
    case True
    then have mul: "emit OP_MUL 0 (imm (push_bit (unat mul) 1) 64) fb (reg64 REG_TMP1) d1 = Inr e" using e by simp
    have "tmp_holds regs d0 n e (if instruction_number d1 = instruction_number d0 then push_bit (unat mul) 1
        else amd64_result OP_MUL (push_bit (unat mul) 1) (table_value regs ix))"
      by (rule holds_step [OF 1 mul value_fills(1)]) (use num fb True in simp)
    then show ?thesis using num False by (simp add: scaled_value_def amd64_result_def)
  next
    case mul: False
    then have "mul = 0" by (simp add: word_gt_0)
    then show ?thesis using 1 e False by (simp add: scaled_value_def)
  qed
qed
section \<open>The effective address of the architecture\<close>

text \<open>
  The operand in memory as the manual of the architecture has it (volume 2A, 2.1.5): the register
  fields extended by \<open>REX\<close>, the scaled index (number 4 is none) and a signed displacement of no,
  one or four bytes. Without the forms that have no base register.
\<close>

definition code_byte :: "code_s \<Rightarrow> u64 \<Rightarrow> u8" where
  "code_byte c offset = code_bytes c ! unat offset"

definition code_dword :: "code_s \<Rightarrow> u64 \<Rightarrow> u32" where
  "code_dword c offset = (case getdword c offset of Inl _ \<Rightarrow> 0 | Inr v \<Rightarrow> v)"

definition extended :: "bool \<Rightarrow> u8 \<Rightarrow> u8" where
  "extended x n = (if x then or n 8 else n)"

definition disp_value :: "code_s \<Rightarrow> u8 \<Rightarrow> u64 \<Rightarrow> u64" where
  "disp_value c mode offset =
     (if mode = 1 then scast (code_byte c offset) else if mode = 2 then scast (code_dword c offset) else 0)"

definition intel_address :: "registers \<Rightarrow> u8 \<Rightarrow> code_s \<Rightarrow> u64 \<Rightarrow> u64" where
  "intel_address regs rx c offset =
     (let m = code_byte c offset; mode = drop_bit 6 m; rm = and m 7 in
      if rm = 4 then
        let s = code_byte c (offset + 1); ix = extended (and rx 2 \<noteq> 0) (and (drop_bit 3 s) 7) in
        table_value regs (extended (and rx 1 \<noteq> 0) (and s 7)) +
        (if ix = 4 then 0 else table_value regs ix * 2 ^ unat (drop_bit 6 s)) + disp_value c mode (offset + 2)
      else table_value regs (extended (and rx 1 \<noteq> 0) rm) + disp_value c mode (offset + 1))"

text \<open>
  The forms \<open>rmb\<close> gets right: with a base register, without a scale when there is no displacement
  (the multiplication lacks its second source there), \<open>REX.X\<close> with an index only, and not the
  lowest displacement.
\<close>

definition operand_form :: "u8 \<Rightarrow> code_s \<Rightarrow> u64 \<Rightarrow> bool" where
  "operand_form rx c offset \<longleftrightarrow>
     (let m = code_byte c offset; mode = drop_bit 6 m; rm = and m 7; s = code_byte c (offset + 1) in
      mode \<noteq> 3 \<and> (and rx 2 = 0 \<or> rm = 4) \<and>
      (mode = 0 \<longrightarrow> rm \<noteq> 5 \<and> (rm = 4 \<longrightarrow> and s 7 \<noteq> 5 \<and> drop_bit 6 s = 0)) \<and>
      (mode = 2 \<longrightarrow> code_dword c (offset + (if rm = 4 then 2 else 1)) \<noteq> 0x80000000))"

lemma getbyte_code: "getbyte c offset = Inr v \<Longrightarrow> v = ucast (code_byte c offset)"
  by (auto simp: getbyte_def code_byte_def bindE_Inr_iff at_Inr_iff)

lemma getdword_code: "getdword c offset = Inr v \<Longrightarrow> v = code_dword c offset"
  by (simp add: code_dword_def)

lemma byte_through_dword: "(ucast (ucast b :: u32) :: u8) = b"
  by (rule bit_word_eqI) (simp add: bit_ucast_iff)

lemma next_byte_code: "next_byte c d = Inr (b, e) \<Longrightarrow> b = code_byte c (here c d) \<and> e = skip 1 d"
  by (auto simp: next_byte_def bindE_Inr_iff byte_through_dword dest!: getbyte_code)

lemma here_holds: "tmp_holds regs d0 n d v \<Longrightarrow> here c d = here c d0 + word_of_int n"
  by (simp add: tmp_holds_def here_def add.assoc)

lemma here_skip: "here c (skip 1 d) = here c d + 1"
  by (simp add: here_def skip_def add.assoc)

lemma rex_bits: "and rx 2 = 0 \<Longrightarrow> and rx 3 = 1 \<longleftrightarrow> and rx 1 \<noteq> (0 :: u8)"
proof -
  have "and rx 3 = or (and rx 1) (and rx (2 :: u8))" by (simp flip: bit.conj_disj_distrib)
  then show "and rx 2 = 0 \<Longrightarrow> and rx 3 = 1 \<longleftrightarrow> and rx 1 \<noteq> (0 :: u8)" by (simp add: and_one_eq)
qed

lemma top_bits_less: "drop_bit 6 b \<in> {0, 1, 2, 3 :: u8}"
proof -
  have "unat b div 64 < 4" using unsigned_less [of b, where 'a = nat] by simp
  then have "drop_bit 6 b < (4 :: u8)" by (simp add: word_less_nat_alt drop_bit_eq_div unat_div_distrib)
  then show ?thesis by (auto simp: word_less_nat_alt word_unat_eq_iff)
qed

lemma extended_low: "extended x (and b 7) = 4 \<longleftrightarrow> \<not> x \<and> and b 7 = 4" "extended x (and b 7) = 0xc \<longleftrightarrow> x \<and> and b 7 = (4 :: u8)"
    "extended x (and b 7) = 5 \<longleftrightarrow> \<not> x \<and> and b 7 = 5"
proof -
  have "or (and b 7) 8 \<noteq> (4 :: u8)" "or (and b 7) 8 \<noteq> (5 :: u8)" "and b 7 \<noteq> (0xc :: u8)" using nibble_less(1,3) [of b] by auto
  moreover have "or (and b 7) 8 = 0xc \<longleftrightarrow> and b 7 = (4 :: u8)" unfolding nibble_add(1) by (simp add: eq_diff_eq [symmetric])
  ultimately show "extended x (and b 7) = 4 \<longleftrightarrow> \<not> x \<and> and b 7 = 4" "extended x (and b 7) = 0xc \<longleftrightarrow> x \<and> and b 7 = (4 :: u8)"
    "extended x (and b 7) = 5 \<longleftrightarrow> \<not> x \<and> and b 7 = 5"
    by (auto simp: extended_def)
qed

lemma extended_less: "unat (extended x (and b 7)) < 16"
  using nibble_less(2) [of b] nibble_less' [of b] by (simp add: extended_def)
lemma sib_holds:
  assumes h: "tmp_holds regs d0 1 d 0" "instruction_number d = instruction_number d0" and fb: "0 < drop_bit 6 s \<longrightarrow> reads_tmp fb"
    and s: "next_byte c d = Inr (s, d1)" "split_SIB s rx = (mul, ix, base)"
    and e: "scaled_index mul ix 64 fb d1 = Inr e"
  shows "tmp_holds regs d0 2 e (scaled_value regs mul ix)" "unat ix < 16" "unat base < 16" "mul = drop_bit 6 s"
    "ix = extended (and rx 2 \<noteq> 0) (and (drop_bit 3 s) 7)" "base = extended (and rx 1 \<noteq> 0) (and s 7)"
    "s = code_byte c (here c d0 + 1)"
proof -
  show "mul = drop_bit 6 s" and ix: "ix = extended (and rx 2 \<noteq> 0) (and (drop_bit 3 s) 7)" and "base = extended (and rx 1 \<noteq> 0) (and s 7)"
    using s(2) by (auto simp: split_SIB_def extended_def Let_def)
  show less: "unat ix < 16" "unat base < 16" using split_SIB_less [OF s(2)] by simp_all
  have d1: "d1 = skip 1 d" and s': "s = code_byte c (here c d)" using next_byte_code [OF s(1)] by simp_all
  show "s = code_byte c (here c d0 + 1)" using s' here_holds [OF h(1), of c] by simp
  have "tmp_holds regs d0 2 d1 0" using holds_skip [OF h(1), of 1] d1 by simp
  moreover have "instruction_number d1 = instruction_number d0" using h(2) d1 by (simp add: skip_def)
  ultimately show "tmp_holds regs d0 2 e (scaled_value regs mul ix)"
    using scaled_index_holds [OF _ _ e less(1)] fb \<open>mul = drop_bit 6 s\<close> by blast
qed

lemma sib_base_holds:
  assumes h: "tmp_holds regs d0 n d v" and e: "sib_base (instruction_number d0) 64 base d = Inr e" and b: "unat base < 16"
  shows "tmp_has regs d0 n e (v + table_value regs base)"
  using add_register_holds [OF h e [unfolded sib_base_def]] bp_value value_fills(3) [OF b] by (cases "base = 5") auto

lemma disp_at:
  assumes "tmp_holds regs d0 n d v"
  shows "getbyte c (here c d) = Inr b \<Longrightarrow> scast (ucast b :: u8) = disp_value c 1 (here c d0 + word_of_int n)"
    "getdword c (here c d) = Inr w \<Longrightarrow> scast w = disp_value c 2 (here c d0 + word_of_int n)"
  using here_holds [OF assms, of c] by (auto simp: disp_value_def byte_through_dword dest!: getbyte_code getdword_code)

lemma disp8_after:
  assumes h: "tmp_has regs d0 n d v"
    and e: "add_disp8 c (instruction_number d0) d = Inr e"
  shows "tmp_has regs d0 (n + 1) e (v + disp_value c 1 (here c d0 + word_of_int n))"
proof -
  have hold: "tmp_holds regs d0 n d v" using h by (simp add: tmp_has_def)
  obtain b where b: "getbyte c (here c d) = Inr b" using e by (auto simp: add_disp8_def bindE_Inr_iff)
  have "b = ucast (ucast b :: u8)" using getbyte_code [OF b] by (simp add: byte_through_dword)
  then show ?thesis using add_disp8_holds [OF h e] b disp_at(1) [OF hold b] by metis
qed

lemma disp32_after:
  assumes h: "tmp_has regs d0 n d v"
    and e: "add_disp32 c (instruction_number d0) 64 64 d = Inr e" and lowest: "code_dword c (here c d0 + word_of_int n) \<noteq> 0x80000000"
  shows "tmp_has regs d0 (n + 4) e (v + disp_value c 2 (here c d0 + word_of_int n))"
proof -
  have hold: "tmp_holds regs d0 n d v" using h by (simp add: tmp_has_def)
  obtain w where w: "getdword c (here c d) = Inr w" using e by (auto simp: add_disp32_def bindE_Inr_iff)
  have "w \<noteq> 0x80000000" using getdword_code [OF w] here_holds [OF hold, of c] lowest by simp
  then show ?thesis using add_disp32_holds [OF h e w] disp_at(2) [OF hold w] by simp
qed

text \<open>With a \<open>SIB\<close> byte, and without; the value is that of the architecture up to the displacement.\<close>

definition sib_value :: "registers \<Rightarrow> u8 \<Rightarrow> code_s \<Rightarrow> u64 \<Rightarrow> u64" where
  "sib_value regs rx c offset =
     (let s = code_byte c offset; ix = extended (and rx 2 \<noteq> 0) (and (drop_bit 3 s) 7) in
      table_value regs (extended (and rx 1 \<noteq> 0) (and s 7)) + (if ix = 4 then 0 else table_value regs ix * 2 ^ unat (drop_bit 6 s)))"

lemma sib_base_value:
  assumes h: "tmp_holds regs d0 1 d 0" "instruction_number d = instruction_number d0"
    and fb: "reads_tmp fb \<or> drop_bit 6 (code_byte c (here c d0 + 1)) = 0"
    and s: "next_byte c d = Inr (s, d1)" "split_SIB s rx = (mul, ix, base)" and e: "scaled_index mul ix 64 fb d1 = Inr d2"
  shows "unat base < 16" "base = extended (and rx 1 \<noteq> 0) (and s 7)" "s = code_byte c (here c d0 + 1)"
    "\<And>r. add_register (instruction_number d0) r 64 64 d2 = Inr d3 \<Longrightarrow> has_value regs (table_value regs base) r \<Longrightarrow>
      tmp_has regs d0 2 d3 (sib_value regs rx c (here c d0 + 1))"
proof -
  have s': "s = code_byte c (here c d0 + 1)"
    using next_byte_code [OF s(1)] here_holds [OF h(1), of c] by simp
  have "0 < drop_bit 6 s \<longrightarrow> reads_tmp fb" using fb by (auto simp: s')
  note 1 = sib_holds [OF h this s e]
  show "unat base < 16" "base = extended (and rx 1 \<noteq> 0) (and s 7)" "s = code_byte c (here c d0 + 1)" using 1 by simp_all
  show "tmp_has regs d0 2 d3 (sib_value regs rx c (here c d0 + 1))"
    if r: "add_register (instruction_number d0) r 64 64 d2 = Inr d3" "has_value regs (table_value regs base) r" for r
  proof -
    have "scaled_value regs mul ix + table_value regs base = sib_value regs rx c (here c d0 + 1)"
      using 1(4-7) by (simp add: sib_value_def scaled_value_def Let_def push_bit_of_1 add.commute)
    then show ?thesis using add_register_holds [OF 1(1) r] by simp
  qed
qed

lemma sib_address:
  assumes h: "tmp_holds regs d0 1 d 0" "instruction_number d = instruction_number d0"
  shows "sib_mod0 c (instruction_number d0) 64 rx d = Inr e \<Longrightarrow> and (code_byte c (here c d0 + 1)) 7 \<noteq> 5 \<Longrightarrow>
      drop_bit 6 (code_byte c (here c d0 + 1)) = 0 \<Longrightarrow> \<exists>n. tmp_has regs d0 n e (sib_value regs rx c (here c d0 + 1))"
    "sib_mod1 c (instruction_number d0) 64 rx d = Inr e \<Longrightarrow>
      \<exists>n. tmp_has regs d0 n e (sib_value regs rx c (here c d0 + 1) + disp_value c 1 (here c d0 + 2))"
    "sib_mod2 c (instruction_number d0) 64 rx d = Inr e \<Longrightarrow> code_dword c (here c d0 + 2) \<noteq> 0x80000000 \<Longrightarrow>
      \<exists>n. tmp_has regs d0 n e (sib_value regs rx c (here c d0 + 1) + disp_value c 2 (here c d0 + 2))"
proof -
  let ?s = "code_byte c (here c d0 + 1)"
  {
    assume run: "sib_mod0 c (instruction_number d0) 64 rx d = Inr e" and s5: "and ?s 7 \<noteq> 5" and s0: "drop_bit 6 ?s = 0"
    obtain s d1 where b: "next_byte c d = Inr (s, d1)" using run by (auto simp: sib_mod0_def bindE_Inr_iff)
    obtain mul ix base where split: "split_SIB s rx = (mul, ix, base)" by (cases "split_SIB s rx")
    obtain d2 where s: "next_byte c d = Inr (s, d1)" "split_SIB s rx = (mul, ix, base)"
      "scaled_index mul ix 64 Inr d1 = Inr d2" and e: "(if base = 5 then add_disp32 c (instruction_number d0) 64 64 d2
       else add_register (instruction_number d0) (whole_reg base) 64 64 d2) = Inr e"
      using run b split by (auto simp: sib_mod0_def bindE_Inr_iff)
    note 1 = sib_base_value [OF h disjI2 [OF s0] s]
    have "base \<noteq> 5" using s5 1(2,3) by (simp add: extended_low)
    then have "add_register (instruction_number d0) (whole_reg base) 64 64 d2 = Inr e" using e by simp
    then show "\<exists>n. tmp_has regs d0 n e (sib_value regs rx c (here c d0 + 1))" using 1(4) value_fills(3) [OF 1(1)] by blast
  next
    assume run: "sib_mod1 c (instruction_number d0) 64 rx d = Inr e"
    obtain s d1 where nb: "next_byte c d = Inr (s, d1)" using run by (auto simp: sib_mod1_def bindE_Inr_iff)
    obtain mul ix base where split: "split_SIB s rx = (mul, ix, base)" by (cases "split_SIB s rx")
    obtain d2 d3 where s: "next_byte c d = Inr (s, d1)" "split_SIB s rx = (mul, ix, base)"
      "scaled_index mul ix 64 (reg64 REG_TMP1) d1 = Inr d2" and b: "sib_base (instruction_number d0) 64 base d2 = Inr d3"
      and e: "add_disp8 c (instruction_number d0) d3 = Inr e"
      using run nb split by (auto simp: sib_mod1_def bindE_Inr_iff)
    note 1 = sib_base_value [OF h disjI1 [OF tmp_reads(1)] s]
    have "tmp_has regs d0 2 d3 (sib_value regs rx c (here c d0 + 1))"
      by (rule 1(4) [OF b [unfolded sib_base_def]]) (use bp_value value_fills(3) [OF 1(1)] in \<open>simp split: if_split\<close>)
    from disp8_after [OF this e] show "\<exists>n. tmp_has regs d0 n e (sib_value regs rx c (here c d0 + 1) + disp_value c 1 (here c d0 + 2))"
      by auto
  next
    assume run: "sib_mod2 c (instruction_number d0) 64 rx d = Inr e" and low: "code_dword c (here c d0 + 2) \<noteq> 0x80000000"
    obtain s d1 where nb: "next_byte c d = Inr (s, d1)" using run by (auto simp: sib_mod2_def bindE_Inr_iff)
    obtain mul ix base where split: "split_SIB s rx = (mul, ix, base)" by (cases "split_SIB s rx")
    obtain d2 d3 where s: "next_byte c d = Inr (s, d1)" "split_SIB s rx = (mul, ix, base)"
      "scaled_index mul ix 64 (reg64 REG_TMP1) d1 = Inr d2" and b: "sib_base (instruction_number d0) 64 base d2 = Inr d3"
      and e: "add_disp32 c (instruction_number d0) 64 64 d3 = Inr e"
      using run nb split by (auto simp: sib_mod2_def bindE_Inr_iff)
    note 1 = sib_base_value [OF h disjI1 [OF tmp_reads(1)] s]
    have "tmp_has regs d0 2 d3 (sib_value regs rx c (here c d0 + 1))"
      by (rule 1(4) [OF b [unfolded sib_base_def]]) (use bp_value value_fills(3) [OF 1(1)] in \<open>simp split: if_split\<close>)
    from disp32_after [OF this e] low show "\<exists>n. tmp_has regs d0 n e (sib_value regs rx c (here c d0 + 1) + disp_value c 2 (here c d0 + 2))"
      by auto
  }
qed

lemma reg_address:
  assumes h: "tmp_holds regs d0 1 d 0" and less: "unat r < 16"
  shows "reg_mod0 (instruction_number d0) 64 r d = Inr e \<Longrightarrow> \<exists>n. tmp_has regs d0 n e (table_value regs r)"
    "reg_mod1 c (instruction_number d0) r d = Inr e \<Longrightarrow> \<exists>n. tmp_has regs d0 n e (table_value regs r + disp_value c 1 (here c d0 + 1))"
    "reg_mod2 c (instruction_number d0) 64 r d = Inr e \<Longrightarrow> code_dword c (here c d0 + 1) \<noteq> 0x80000000 \<Longrightarrow>
      \<exists>n. tmp_has regs d0 n e (table_value regs r + disp_value c 2 (here c d0 + 1))"
proof -
  have base: "tmp_has regs d0 1 d1 (table_value regs r)"
    if "add_register (instruction_number d0) (table_reg r 64 64) 64 64 d = Inr d1" for d1
    using add_register_holds [OF h that value_fills(4) [OF less]] by simp
  show "reg_mod0 (instruction_number d0) 64 r d = Inr e \<Longrightarrow> \<exists>n. tmp_has regs d0 n e (table_value regs r)"
    using base by (auto simp: reg_mod0_def)
  show "reg_mod1 c (instruction_number d0) r d = Inr e \<Longrightarrow> \<exists>n. tmp_has regs d0 n e (table_value regs r + disp_value c 1 (here c d0 + 1))"
    using disp8_after [OF base] by (fastforce simp: reg_mod1_def bindE_Inr_iff)
  show "reg_mod2 c (instruction_number d0) 64 r d = Inr e \<Longrightarrow> code_dword c (here c d0 + 1) \<noteq> 0x80000000 \<Longrightarrow>
      \<exists>n. tmp_has regs d0 n e (table_value regs r + disp_value c 2 (here c d0 + 1))"
    using disp32_after [OF base] by (fastforce simp: reg_mod2_def bindE_Inr_iff)
qed

text \<open>
  C27. What rmb fills in for an operand in memory computes the effective address of the
  architecture in the temporary register and changes no other register: for 64 bit addresses
  with a base register (operand_form), with or without SIB byte, scaled index and signed
  displacement. OP_SUB is read the way the decoder writes it, the first source taken from
  the second.
\<close>
theorem rmb_address:
  assumes run: "rmb c 64 rx d = Inr ((reg, half), e)" and form: "operand_form rx c (here c d)" and d: "in_array d"
  shows "\<not> half \<and> amd64_run regs d e = regs(REG_TMP1 := intel_address regs rx c (here c d))"
proof -
  define m where "m = code_byte c (here c d)"
  define rm where "rm = and m 7"
  obtain b d1 where b: "next_byte c d = Inr (b, d1)" using run by (auto simp: rmb_def bindE_Inr_iff Let_def)
  have bm: "b = m" and d1: "d1 = skip 1 d" using next_byte_code [OF b] by (simp_all add: m_def)
  obtain r reg_mem mode where split: "split_ModRM m rx = (r, reg_mem, mode)" by (cases "split_ModRM m rx")
  have mode: "mode = drop_bit 6 m" and rmem: "reg_mem = extended (and rx 3 = 1) rm"
    using split by (auto simp: split_ModRM_def extended_def rm_def Let_def)
  note f = form [unfolded operand_form_def Let_def, folded m_def, folded rm_def mode]
  have x: "and rx 2 = 0" if "rm \<noteq> 4" using f that by simp
  have sib: "has_sib rx reg_mem \<longleftrightarrow> rm = 4"
  proof (cases "rm = 4")
    case True
    then show ?thesis by (simp add: has_sib_def rmem extended_def)
  next
    case False
    then show ?thesis using x by (simp add: has_sib_def rmem rm_def extended_low)
  qed
  have rbit: "reg_mem = extended (and rx 1 \<noteq> 0) rm" if "rm \<noteq> 4" using rex_bits [OF x [OF that]] by (simp add: rmem)
  have five: "reg_mem = 5 \<Longrightarrow> rm = 5" by (auto simp: rmem rm_def extended_low)
  have less: "unat reg_mem < 16" using split_ModRM_less [OF split] by simp
  have start: "tmp_holds regs d 1 d1 0" "instruction_number d1 = instruction_number d"
    using holds_start [OF d, of regs 1] by (simp_all add: d1 skip_def)
  let ?n0 = "instruction_number d"
  have h: "(if mode = 0 then
          if rm = 4 then sib_mod0 c ?n0 64 rx d1
          else if reg_mem = 5 then disp_mod0 c ?n0 64 d1
          else reg_mod0 ?n0 64 reg_mem d1
        else if mode = 1 then if rm = 4 then sib_mod1 c ?n0 64 rx d1 else reg_mod1 c ?n0 reg_mem d1
        else if mode = 2 then if rm = 4 then sib_mod2 c ?n0 64 rx d1 else reg_mod2 c ?n0 64 reg_mem d1
        else reg_mod3 64 reg_mem d1) = Inr e" "half \<longleftrightarrow> mode = 3"
    using run b unfolding rmb_def bm by (auto simp: split bindE_Inr_iff sib Let_def cong: if_cong)
  have some: "\<exists>n. tmp_has regs d n e (intel_address regs rx c (here c d))"
  proof (cases "rm = 4")
    case True
    have a: "intel_address regs rx c (here c d) = sib_value regs rx c (here c d + 1) + disp_value c mode (here c d + 2)"
      using True by (simp add: intel_address_def sib_value_def Let_def rm_def mode m_def)
    show ?thesis using top_bits_less [of m] f True h(1) sib_address [OF start, of c rx e] unfolding a
      by (auto simp: mode disp_value_def)
  next
    case False
    have a: "intel_address regs rx c (here c d) = table_value regs reg_mem + disp_value c mode (here c d + 1)"
      using False rbit by (simp add: intel_address_def Let_def rm_def mode m_def)
    show ?thesis using top_bits_less [of m] f False five h(1) reg_address(1) [OF start(1) less, of e] reg_address(2,3) [OF start(1) less, of c e] unfolding a
      by (auto simp: mode disp_value_def split: if_split_asm)
  qed
  then show ?thesis using f h(2) by (auto simp: tmp_has_def tmp_holds_def)
qed

end
