(* ===== verification/Amd64Execute.thy ===== *)
theory Amd64Execute
  imports Amd64Address Alu
begin

text \<open>
  The decoder and the executor together: what a decoded \<open>PUSH\<close> does to the stack pointer, and
  how the two forms of a conditional jump number the same condition.
\<close>

declare One_nat_def [simp del]

section \<open>Instructions in the executor\<close>

text \<open>The two instructions of a push: the first is filled in at the end of the array so far.\<close>

lemma emit_at:
  assumes "emit opc fl fa fb fd d = Inr e"
  obtains x y z where "fa (srcA (dis_instruction d ! instruction_number d)) = Inr x"
    "fb (srcB (dis_instruction d ! instruction_number d)) = Inr y" "fd (dstA (dis_instruction d ! instruction_number d)) = Inr z"
    "instruction_number d < length (dis_instruction d)" "instruction_number e = Suc (instruction_number d)"
    "dis_instruction e = (dis_instruction d)[instruction_number d := (dis_instruction d ! instruction_number d)
       \<lparr>opcode := opc, flags := fl, srcA := x, srcB := y, dstA := z\<rparr>]"
  using assms that by (auto simp: emit_def bindE_Inr_iff at_Inr_iff)

lemma emit_keeps:
  assumes "emit opc fl fa fb fd d = Inr e" "j < instruction_number d"
  shows "dis_instruction e ! j = dis_instruction d ! j"
  using assms(1) by (rule emit_at) (use assms(2) in simp)

text \<open>
  C28. PUSH does not move the stack pointer the way it means to once it is executed: the
  decoder writes SUB with the number 8 as first source and the stack pointer as second, and
  the executor takes the initial value of the second from the first. A stack pointer with
  the initial value x and any offset becomes 8 - x; without an offset SP becomes 8 - SP, not
  SP - 8.
\<close>
theorem push_moves_stack_pointer:
  assumes push: "push_reg rx byte d = Inr (r, e)"
    and inst: "instruction inst = dis_instruction e ! instruction_number d"
    and state: "wf_state ps" "has_room ps 4"
  shows "\<exists>ps' inst'. execute_instruction self ps inst = Inr (0, ps', inst') \<and>
    reg_abs ps' = (reg_abs ps)(REG_SP := 8 - fst (reg_pair ps REG_SP)) \<and>
    (snd (reg_pair ps REG_SP) = 0 \<longrightarrow> reg_abs ps' REG_SP = 8 - reg_abs ps REG_SP)"
proof -
  obtain f where f: "emit OP_SUB 0 (imm 8 64) (reg64 REG_SP) (reg64 REG_SP) d = Inr f"
    and e: "emit OP_MOV 0 (table_reg (stack_reg rx byte) 64 64) (stack_operand 64) (stack_operand 64) f = Inr e"
    using push by (auto simp: push_reg_def decoded_def bindE_Inr_iff)
  obtain x y z where xyz: "imm 8 64 (srcA (dis_instruction d ! instruction_number d)) = Inr x"
      "reg64 REG_SP (srcB (dis_instruction d ! instruction_number d)) = Inr y"
      "reg64 REG_SP (dstA (dis_instruction d ! instruction_number d)) = Inr z"
    and d: "instruction_number d < length (dis_instruction d)" and n: "instruction_number f = Suc (instruction_number d)"
    and f': "dis_instruction f = (dis_instruction d)[instruction_number d := (dis_instruction d ! instruction_number d)
       \<lparr>opcode := OP_SUB, flags := 0, srcA := x, srcB := y, dstA := z\<rparr>]"
    using emit_at [OF f] .
  have i: "instruction inst = (dis_instruction d ! instruction_number d)\<lparr>opcode := OP_SUB, flags := 0, srcA := x, srcB := y, dstA := z\<rparr>"
    using inst emit_keeps [OF e, of "instruction_number d"] n d by (simp add: f')
  have ops: "store x = STORE_DIRECT" "indirect x = IND_DIRECT" "index x = 8" "value_size x = 64"
    "store y = STORE_REG" "indirect y = IND_DIRECT" "index y = REG_SP" "value_size y = 64"
    "store z = STORE_REG" "indirect z = IND_DIRECT" "index z = REG_SP" "value_size z = 64"
    using xyz by (auto simp: imm_def reg64_def fixed_def set_operand_def)
  have form: "register_form (instruction inst)" by (simp add: i register_form_def direct_def ops)
  have scope: "scope_of ps 0 (srcA (instruction inst)) \<noteq> 0" by (simp add: i scope_of_def ops)
  have sub: "alu_op (opcode (instruction inst)) = Some (\<lambda>a b. a - b)" by (simp add: i)
  obtain q j where "execute_instruction self ps inst = Inr (0, q, j)"
    "reg_abs q = (reg_abs ps)(index (dstA (instruction inst)) := alu_value ps (instruction inst) (\<lambda>a b. a - b))"
    using writes_absE [OF execute_alu_writes [OF state form scope sub, of self]] by blast
  then show ?thesis by (simp add: i alu_value_def operand_abs_def operand_init_def pair_of_def ops reg_abs_def [of ps])
qed

text \<open>
  The two encodings of a conditional jump disagree: from the same condition in the
  opcode byte the short form numbers it as the byte does, the near form one higher, which is
  how opcodes.h and the printer number the conditions.
\<close>
theorem jcc_short_below_near:
  assumes "jcc_short c b d = Inr (r, e)" "jcc_near c' b' d' = Inr (r', e')" "and b 15 = and b' 15"
  shows "index (srcA (dis_instruction e ! instruction_number d)) = ucast (and b 15) \<and>
    index (srcA (dis_instruction e' ! instruction_number d')) = ucast (and b 15) + 1"
proof -
  have at: "index (srcA (dis_instruction f ! instruction_number g)) = cond" if "emit_if cond target g = Inr f" for cond target f g
    using that unfolding emit_if_def by (rule emit_at) (auto simp: imm_def fixed_def set_operand_def)
  obtain v :: u32 where "emit_if (ucast (and b 15)) (relative 8 (ucast v)) (skip 1 d) = Inr e"
    using assms(1) by (auto simp: jcc_short_def decoded_def bindE_Inr_iff)
  moreover obtain w :: u32 where "emit_if (ucast (and b 15) + 1) (relative 32 (ucast w)) (skip 4 d') = Inr e'"
    using assms(2) unfolding jcc_near_def assms(3) by (auto simp: decoded_def bindE_Inr_iff)
  ultimately show ?thesis using at [of _ _ "skip 1 d" e] at [of _ _ "skip 4 d'" e'] by (simp add: skip_def)
qed

end
