(* ===== verification/Amd64Examples.thy ===== *)
theory Amd64Examples
  imports Amd64Execute RtlExamples
begin

text \<open>
  The decoder of AMD64 code on concrete bytes: \<open>mov\<close>, \<open>push\<close>, a conditional jump, an operand
  with \<open>SIB\<close> byte, and a prefix that leads out of the operation table.
\<close>

declare One_nat_def [simp]

section \<open>Machine code\<close>

definition ex_code :: "u8 list \<Rightarrow> code_s" where
  "ex_code bytes = \<lparr>code_bytes = bytes @ replicate 24 0, code_relocs = [], code_offset = 0\<rparr>"

definition ex_decode :: "u8 list \<Rightarrow> dis_instructions_s" where
  "ex_decode bytes = snd (projr (disassemble_amd64 (ex_code bytes) ex_array))"

lemma ex_code_enough: "length bytes < 8 \<Longrightarrow> enough_code (ex_code bytes)"
  by (simp add: enough_code_def ex_code_def)

text \<open>\<open>mov -8(%rbp), %eax\<close> becomes an address of two instructions and a move.\<close>

lemma disassemble_amd64_fits_witness:
  "instruction_number (ex_decode [0x8b, 0x45, 0xf8]) = 3 \<and> 0 \<le> bytes_used (ex_decode [0x8b, 0x45, 0xf8])"
proof -
  let ?c = "ex_code [0x8b, 0x45, 0xf8]"
  have c: "enough_code ?c" by (rule ex_code_enough) simp
  have pre: "length (dis_instruction ex_array) = 10" "instruction_number ex_array = 0"
      "bytes_used ex_array = 0" "\<not> table_overrun ?c ex_array"
    and n: "instruction_number (ex_decode [0x8b, 0x45, 0xf8]) = 3" by code_simp+
  from disassemble_amd64_fits [OF c pre] n show ?thesis by (auto simp: ex_decode_def)
qed

text \<open>\<open>add $1, %r8d\<close>, with the register field extended by mistake: \<open>44 83 c0 01\<close>.\<close>

lemma rex_r_overruns_witness: "disassemble_amd64 (ex_code [0x44, 0x83, 0xc0, 1]) ex_array = Inl OutOfBounds"
proof -
  let ?c = "ex_code [0x44, 0x83, 0xc0, 1]"
  let ?p = "\<lparr>has_repnz = False, has_repz = False, op_width = 32, op_rex = 4, op_byte = 0x83\<rparr>"
  have c: "enough_code ?c" by (rule ex_code_enough) simp
  have pre: "length (dis_instruction ex_array) = 10" "instruction_number ex_array = 0" "bytes_used ex_array = 0" by code_simp+
  have p: "read_prefixes ?c ex_array = Inr (?p, skip 2 ex_array)" by code_simp
  show ?thesis by (rule rex_r_overruns [OF c pre p]; code_simp)
qed

text \<open>\<open>-8(%rbx,%rcx,4)\<close>, where \<open>bx\<close> holds \<open>0x1000\<close> and \<open>cx\<close> 3.\<close>

definition ex_operand_code :: code_s where
  "ex_operand_code = ex_code [0x44, 0x8b, 0xf8]"

definition ex_rmb :: dis_instructions_s where
  "ex_rmb = snd (projr (rmb ex_operand_code 64 8 ex_array))"

lemma rmb_address_witness: "amd64_run ex_regs ex_array ex_rmb REG_TMP1 = 0x1004"
proof -
  have run: "rmb ex_operand_code 64 8 ex_array = Inr ((0, False), ex_rmb)"
    "operand_form 8 ex_operand_code (here ex_operand_code ex_array)" "in_array ex_array"
    "intel_address ex_regs 8 ex_operand_code (here ex_operand_code ex_array) = 0x1004" by code_simp+
  from rmb_address [OF run(1-3), of ex_regs] run(4) show ?thesis by simp
qed

text \<open>\<open>push %rbp\<close> in a state where the stack pointer holds \<open>0x10000\<close>.\<close>

lemma push_moves_stack_pointer_witness:
  "\<exists>ps' inst'. execute_instruction ex_self ex_state (ex_entry (dis_instruction (ex_decode [0x55]) ! 0)) = Inr (0, ps', inst') \<and>
    reg_abs ps' REG_SP = 8 - 0x10000"
proof -
  let ?d = "skip 1 (projr (prepare OP_NOP 0 Inr Inr Inr ex_array))"
  have run: "push_reg 0 0x55 ?d = Inr (1, ex_decode [0x55])" "instruction_number ?d = 0" "fst (reg_pair ex_state REG_SP) = 0x10000" by code_simp+
  have inst: "instruction (ex_entry (dis_instruction (ex_decode [0x55]) ! 0)) = dis_instruction (ex_decode [0x55]) ! instruction_number ?d"
    by (simp add: run(2) ex_entry_def)
  from push_moves_stack_pointer [OF run(1) inst ex_state_wf(1,2), of ex_self] show ?thesis by (auto simp: run(3))
qed

text \<open>\<open>je\<close>, in the short and in the near form.\<close>

lemma jcc_short_below_near_witness:
  "index (srcA (dis_instruction (ex_decode [0x74, 0]) ! 0)) = 4 \<and> index (srcA (dis_instruction (ex_decode [0x0f, 0x84, 0, 0, 0, 0]) ! 0)) = 5"
proof -
  let ?a = "projr (prepare OP_NOP 0 Inr Inr Inr ex_array)"
  have "jcc_short (ex_code [0x74, 0]) 0x74 (skip 1 ?a) = Inr (1, ex_decode [0x74, 0])"
    "jcc_near (ex_code [0x0f, 0x84, 0, 0, 0, 0]) 0x84 (skip 2 ?a) = Inr (1, ex_decode [0x0f, 0x84, 0, 0, 0, 0])"
    "and (0x74 :: u8) 15 = and 0x84 15"
    "instruction_number (skip 1 ?a) = 0" "instruction_number (skip 2 ?a) = 0" "(ucast (and (0x74 :: u8) 15) :: u64) = 4" by code_simp+
  from jcc_short_below_near [OF this(1-3)] this(4-6) show ?thesis by simp
qed

end
