(* ===== verification/OutputC.thy ===== *)
theory OutputC
  imports Labels "HOL-Library.Sublist"
begin

text \<open>
  \<open>src/output/cfg/output_label.c\<close>: the C text of a function. \<open>output_inst_in_c\<close> writes one
  instruction, with a label before it where the flow may come from elsewhere and a \<open>goto\<close> after it
  where it goes on elsewhere; \<open>output_function_body\<close> writes the instructions of a function in the order
  of the log. \<open>label_to_string\<close>, from the same file, is in PrintInst. The process state the
  functions pass on is not used by any of them.
\<close>

section \<open>What is written\<close>

text \<open>
  \<open>written\<close> is what \<open>dprintf\<close> has put into the file. \<open>buffer\<close> is the array label names are made
  in; it holds nothing until the first one is. The flag of an \<open>out\<close> is \<open>True\<close> when the function
  returns with an error.
\<close>

record out_s =
  written :: string
  buffer :: "string option"

type_synonym out = "out_s \<Rightarrow> (bool \<times> out_s) c"

definition say :: "string \<Rightarrow> out" where
  "say t s = Inr (False, s\<lparr>written := written s @ t\<rparr>)"

definition give_up :: out where
  "give_up s = Inr (True, s)"

definition need :: "bool \<Rightarrow> out" where
  "need b s = (if b then Inr (False, s) else Inl (Exit 1))"

definition refuse :: "bool \<Rightarrow> out" where
  "refuse b s = Inr (b, s)"

fun in_turn :: "out list \<Rightarrow> out" where
  "in_turn [] s = Inr (False, s)"
| "in_turn (f # fs) s = bindE (f s) (\<lambda>(failed, s). if failed then Inr (True, s) else in_turn fs s)"

text \<open>What a computation delivers is used; what a call returns decides on what comes next.\<close>

definition given :: "'a c \<Rightarrow> ('a \<Rightarrow> out) \<Rightarrow> out" where
  "given m f s = bindE m (\<lambda>x. f x s)"

definition after :: "out \<Rightarrow> (bool \<Rightarrow> out) \<Rightarrow> out" where
  "after f g s = bindE (f s) (\<lambda>(failed, s). g failed s)"

text \<open>A call whose result is not looked at, and one with a buffer of its own.\<close>

definition ignoring :: "out \<Rightarrow> out" where
  "ignoring f s = bindE (f s) (\<lambda>(_, s). Inr (False, s))"

definition own_buffer :: "out \<Rightarrow> out" where
  "own_buffer f s = bindE (f (s\<lparr>buffer := None\<rparr>)) (\<lambda>(failed, t). Inr (failed, t\<lparr>buffer := buffer s\<rparr>))"

text \<open>The parameters of a call, with commas in between.\<close>

fun separated :: "out list \<Rightarrow> out list" where
  "separated [] = []"
| "separated [f] = [f]"
| "separated (f # fs) = f # say '', '' # separated fs"

definition tab :: string where "tab = [CHR 0x09]"
definition newline :: string where "newline = [CHR 0x0A]"

text \<open>
  The arguments the functions share. \<open>extensions\<close> are the pointers \<open>extension\<close> of the log
  entries, of which the calls of functions have one.
\<close>

record extension_call_s =
  params_reg :: "int list"
  params_stack :: "u64 list"

record c_args =
  arg_self :: self_s
  extensions :: "int \<Rightarrow> extension_call_s option"
  redirects :: "label_redirect_s list"
  arg_labels :: "label_s list"
  line_end :: string

section \<open>Labels and variables\<close>

text \<open>A label whose type its scope does not have leaves the buffer as it was, and that is printed.\<close>

definition say_name :: "label_s \<Rightarrow> out" where
  "say_name l s =
     (if label_text l = None \<and> buffer s = None then Inl Uninit
      else let b = snd (label_to_string l (case buffer s of None \<Rightarrow> '''' | Some b \<Rightarrow> b) 1023) in
        Inr (False, s\<lparr>written := written s @ b, buffer := Some b\<rparr>))"

definition say_redirected :: "c_args \<Rightarrow> label_redirect_s c \<Rightarrow> out" where
  "say_redirected a m = given m (\<lambda>r. given (at_int (arg_labels a) (to_int (redirect r))) say_name)"

definition say_label :: "c_args \<Rightarrow> u64 \<Rightarrow> out" where
  "say_label a ident = say_redirected a (at (redirects a) (unat ident))"

text \<open>\<open>LOAD\<close> and \<open>STORE\<close> insist on a label.\<close>

definition say_set_label :: "c_args \<Rightarrow> u64 \<Rightarrow> out" where
  "say_set_label a ident =
     given (at (redirects a) (unat ident)) (\<lambda>r. in_turn [need (to_int (redirect r) \<noteq> 0), say_label a ident])"

definition output_label_redirect :: "c_args \<Rightarrow> int \<Rightarrow> out" where
  "output_label_redirect a offset =
     given (at_int (redirects a) offset) (\<lambda>r. given (at_int (arg_labels a) (to_int (redirect r))) (\<lambda>l.
       let (failed, b) = label_to_string l '''' 1023 in if failed \<noteq> 0 then give_up else say b))"

definition variable_text :: "store_kind \<Rightarrow> indirect_kind \<Rightarrow> u64 \<Rightarrow> u64 \<Rightarrow> u64 \<Rightarrow> u64 \<Rightarrow> u64 \<Rightarrow> string" where
  "variable_text st ind ix rel sc ident off =
     (case st of
        STORE_DIRECT \<Rightarrow>
          (if ind = IND_MEM then ''data'' @ hex64_04 ix
           else if rel \<noteq> 0 then ''&data'' @ hex64_04 ix
           else ''0x'' @ hex64 ix)
      | STORE_REG \<Rightarrow>
          (if sc = 1 then
             (if ind = IND_STACK then ''param_stack'' @ hex64_04 ix @ '','' @ hex64_04 off @ '',0002''
              else if ind = IND_DIRECT then ''param_reg'' @ hex64_04 ix else '''')
           else if sc = 2 then
             (if ind = IND_STACK then ''local_stack'' @ hex64_04 ident
              else if ind = IND_DIRECT then ''local_reg'' @ hex64_04 ident else '''')
           else if sc = 3 then ''xxxlocal_mem'' @ hex64_04 ident
           else ''unknown'' @ hex64_04 sc)
      | STORE_PTR \<Rightarrow> '''')"

definition output_variable :: "store_kind \<Rightarrow> indirect_kind \<Rightarrow> u64 \<Rightarrow> u64 \<Rightarrow> u64 \<Rightarrow> u64 \<Rightarrow> u64 \<Rightarrow> out" where
  "output_variable st ind ix rel sc ident off = say (variable_text st ind ix rel sc ident off)"

definition output_function_name :: "external_entry_point_s \<Rightarrow> out" where
  "output_function_name ep = say (eep_name ep @ ''('')"

definition label_no :: "int \<Rightarrow> string" where
  "label_no n = pad 4 (hex_int n)"

section \<open>Conditions\<close>

text \<open>The conditions of \<open>opcodes.h\<close>, in the order of their numbers from 1.\<close>

definition comparison :: "int \<Rightarrow> string option" where
  "comparison cond =
     (if cond \<in> {15, 7} then Some '' <= '' else if cond \<in> {14, 4} then Some '' >= ''
      else if cond \<in> {16, 8} then Some '' > '' else if cond \<in> {3, 13} then Some '' < ''
      else if cond = 6 then Some '' != '' else if cond = 5 then Some '' == '' else None)"

definition comparison_with_zero :: "opcode \<Rightarrow> int \<Rightarrow> string option" where
  "comparison_with_zero oc cond =
     (if cond = 5 then Some '' == 0'' else if cond = 6 then Some '' != 0''
      else if cond = 15 \<and> oc = OP_TEST then Some '' <= 0'' else None)"

definition star :: "indirect_kind set \<Rightarrow> operand_s \<Rightarrow> out" where
  "star kinds x = say (if indirect x \<in> kinds then ''*'' else '''')"

definition compare_text :: "c_args \<Rightarrow> inst_log_entry_s \<Rightarrow> string \<Rightarrow> out" where
  "compare_text a e cond =
     (let ins = instruction e; direct = store (srcB ins) = STORE_DIRECT; number = say (''0x'' @ hex64 (index (srcB ins))) in
      in_turn [say ''('', star {IND_MEM, IND_IO} (srcB ins),
        if direct then number else own_buffer (say_label a (value_id (value2 e))),
        say cond, star {IND_MEM, IND_IO} (srcA ins),
        if direct then number else say_label a (value_id (value1 e)),
        say '') ''])"

definition if_expression :: "c_args \<Rightarrow> int \<Rightarrow> inst_log_entry_s \<Rightarrow> out" where
  "if_expression a cond e = own_buffer
     (let ins = instruction e;
          simple = plain (srcA ins) \<and> plain (dstA ins) \<and> offset_value (value3 e) = 0 in
      if opcode ins \<in> {OP_CMP, OP_ICMP} then
        (case comparison cond of None \<Rightarrow> give_up | Some c \<Rightarrow> compare_text a e c)
      else if opcode ins \<in> {OP_SUB, OP_ADD} then
        (case comparison_with_zero (opcode ins) cond of
           Some c \<Rightarrow> (if simple then in_turn [say ''(('', say_label a (value_id (value2 e)), say (c @ '') '')] else give_up)
         | None \<Rightarrow> give_up)
      else if opcode ins \<in> {OP_TEST, OP_AND} then
        (case comparison_with_zero (opcode ins) cond of
           Some c \<Rightarrow> (if simple then in_turn [say ''(('', say_label a (value_id (value2 e)), say '' AND '',
               say_label a (value_id (value1 e)), say ('')'' @ c @ '') '')] else give_up)
         | None \<Rightarrow> give_up)
      else give_up)"

section \<open>One instruction\<close>

definition check_print :: "c_args \<Rightarrow> inst_log_entry_s \<Rightarrow> int \<Rightarrow> out" where
  "check_print a e n =
     given (print_inst (arg_self a) (instruction e) n (Some (arg_labels a))) (\<lambda>(r, _). refuse (r \<noteq> 0))"

definition all_direct :: "instruction_s \<Rightarrow> bool" where
  "all_direct ins \<longleftrightarrow> plain (srcA ins) \<and> plain (srcB ins) \<and> plain (dstA ins)"

definition output_3_labels :: "c_args \<Rightarrow> inst_log_entry_s \<Rightarrow> int \<Rightarrow> string \<Rightarrow> out" where
  "output_3_labels a e n symbol = in_turn
     [need (all_direct (instruction e)), check_print a e n, say tab, say_label a (value_id (value3 e)), say '' = '',
      say_label a (value_id (value1 e)), say ('' '' @ symbol @ '' ''), say_label a (value_id (value2 e)), say ('';'' @ line_end a)]"

definition output_load :: "c_args \<Rightarrow> inst_log_entry_s \<Rightarrow> int \<Rightarrow> out" where
  "output_load a e n = in_turn
     [check_print a e n, say tab, star {IND_MEM, IND_IO} (dstA (instruction e)), say_set_label a (value_id (value3 e)), say '' = '',
      star {IND_MEM} (srcA (instruction e)), say_set_label a (value_id (value1 e)), say ('';'' @ line_end a)]"

text \<open>The pointer of a \<open>STORE\<close> to memory is in the second value.\<close>

definition output_store :: "c_args \<Rightarrow> inst_log_entry_s \<Rightarrow> int \<Rightarrow> out" where
  "output_store a e n = in_turn
     [check_print a e n, say tab, star {IND_MEM, IND_IO} (dstA (instruction e)),
      say_set_label a (value_id (if indirect (dstA (instruction e)) = IND_MEM then value2 e else value3 e)), say '' = '',
      star {IND_MEM} (srcA (instruction e)), say_set_label a (value_id (value1 e)), say ('';'' @ line_end a)]"

definition output_2_labels :: "c_args \<Rightarrow> inst_log_entry_s \<Rightarrow> int \<Rightarrow> string \<Rightarrow> out" where
  "output_2_labels a e n symbol = in_turn
     [need (plain (srcA (instruction e)) \<and> plain (dstA (instruction e))), check_print a e n, say tab,
      say_label a (value_id (value3 e)), say symbol, say_label a (value_id (value1 e)), say ('';'' @ line_end a)]"

definition output_mul :: "c_args \<Rightarrow> inst_log_entry_s \<Rightarrow> int \<Rightarrow> out" where
  "output_mul a e n = in_turn
     [need (all_direct (instruction e)), check_print a e n, say tab, say_label a (value_id (value3 e)), say '' = '',
      say_label a (value_id (value1 e)), say '' * '', say_label a (value_id (value2 e)), say ('';'' @ line_end a)]"

text \<open>The displacement of \<open>GEP1\<close> is the value of a label, taken as a signed number.\<close>

definition say_displacement :: "c_args \<Rightarrow> u64 \<Rightarrow> out" where
  "say_displacement a ident =
     given (label_of (redirects a) (arg_labels a) ident) (\<lambda>(_, l).
       say (if label_value l > 0x7fffffffffffffff then '' - 0x'' @ hex64 (- label_value l) else '' + 0x'' @ hex64 (label_value l)))"

definition output_gep :: "c_args \<Rightarrow> inst_log_entry_s \<Rightarrow> int \<Rightarrow> out" where
  "output_gep a e n = in_turn
     [need (all_direct (instruction e)), check_print a e n, say tab, say_label a (value_id (value3 e)), say '' = '',
      say_label a (value_id (value1 e)), say_displacement a (value_id (value2 e)), say ('';'' @ line_end a)]"

definition output_not :: "c_args \<Rightarrow> inst_log_entry_s \<Rightarrow> int \<Rightarrow> out" where
  "output_not a e n = in_turn
     [check_print a e n, say tab, refuse (indirect (dstA (instruction e)) = IND_MEM), say_label a (value_id (value3 e)), say '' = !'',
      refuse (indirect (srcA (instruction e)) = IND_MEM), say_label a (value_id (value1 e)), say ('';'' @ line_end a)]"

text \<open>A jump to the entry link \<open>k\<close> leads to.\<close>

definition say_goto :: "string \<Rightarrow> inst_log_entry_s \<Rightarrow> nat \<Rightarrow> string \<Rightarrow> out" where
  "say_goto t e k stop = given (at (next_inst e) k) (\<lambda>m. say (t @ ''label'' @ label_no m @ '';'' @ stop))"

definition output_jmp :: "c_args \<Rightarrow> inst_log_entry_s \<Rightarrow> int \<Rightarrow> out" where
  "output_jmp a e n = in_turn [check_print a e n, say tab, say_goto ''JMP2 goto '' e 0 (line_end a)]"

definition output_jmpt :: "c_args \<Rightarrow> inst_log_entry_s \<Rightarrow> int \<Rightarrow> out" where
  "output_jmpt a e n = in_turn
     [check_print a e n, say tab, refuse (indirect (dstA (instruction e)) = IND_MEM), say_label a (value_id (value3 e)), say '' = '',
      refuse (indirect (srcA (instruction e)) = IND_MEM), say_label a (value_id (value1 e)), say ('';'' @ line_end a)]"

section \<open>Calls\<close>

text \<open>The offset of a parameter on the stack is padded with spaces, \<open>%4\<close> and not \<open>%04\<close>.\<close>

definition stack_param :: "u64 \<Rightarrow> u64 \<Rightarrow> string" where
  "stack_param base offset =
     (if base \<le> offset then (let t = hex64 (base - offset) in ''param_stack'' @ replicate (4 - length t) CHR '' '' @ t)
      else ''local_stack_EIP'')"

definition call_params :: "c_args \<Rightarrow> inst_log_entry_s \<Rightarrow> extension_call_s \<Rightarrow> out" where
  "call_params a e call = in_turn (separated
     (map (\<lambda>i. say_redirected a (at_int (redirects a) i)) (params_reg call) @
      map (\<lambda>off. say (stack_param (offset_value (value2 e)) off)) (params_stack call)))"

definition callee :: "c_args \<Rightarrow> operand_s \<Rightarrow> out" where
  "callee a x =
     (case store x of
        STORE_DIRECT \<Rightarrow> given (at (external_entry_points (arg_self a)) (unat (index x))) (\<lambda>ep. say (eep_name ep @ ''(''))
      | STORE_REG \<Rightarrow> say (''register 0x'' @ hex64 (index x) @ ''('')
      | STORE_PTR \<Rightarrow> need False)"

definition output_call :: "c_args \<Rightarrow> inst_log_entry_s \<Rightarrow> int \<Rightarrow> out" where
  "output_call a e n =
     after (check_print a e n) (\<lambda>failed.
       let x = srcA (instruction e) in
       if failed then in_turn [say (''exiting1'' @ newline), give_up]
       else in_turn
         [say tab, say_label a (value_id (value3 e)), say '' = '',
          if plain x then
            (case extensions a n of
               None \<Rightarrow> need False
             | Some call \<Rightarrow>
                 if relocated x = 1 then in_turn [callee a x, call_params a e call, say ('');'' @ line_end a)]
                 else say (''CALL1()'' @ line_end a))
          else in_turn [say ''(*'', say_label a (value_id (value1 e)), say ('') ()'' @ line_end a)]])"

section \<open>Comparisons and branches\<close>

definition output_cmp :: "c_args \<Rightarrow> inst_log_entry_s \<Rightarrow> int \<Rightarrow> out" where
  "output_cmp a e n = in_turn
     [check_print a e n, say (''//'' @ tab @ ''cmp ''), refuse (indirect (srcB (instruction e)) = IND_MEM),
      say_label a (value_id (value2 e)), say '' - '', refuse (indirect (srcA (instruction e)) = IND_MEM),
      say_label a (value_id (value1 e)), say ('';'' @ line_end a)]"

definition output_test :: "c_args \<Rightarrow> inst_log_entry_s \<Rightarrow> int \<Rightarrow> out" where
  "output_test a e n = in_turn
     [check_print a e n, say (''//'' @ tab @ ''test ''), refuse (indirect (dstA (instruction e)) = IND_MEM),
      say_label a (value_id (value2 e)), say '' , '', refuse (indirect (srcA (instruction e)) = IND_MEM),
      say_label a (value_id (value1 e)), say ('';'' @ line_end a)]"

text \<open>
  The names of the conditions are only printed for debugging, but the table has 16 of them and
  the conditions go up to 16.
\<close>

definition condition_table :: "string list" where
  "condition_table =
     [''OVERFLOW_0'', ''NOT_OVERFLOW_1'', ''BELOW_2'', ''NOT_BELOW_3'', ''EQUAL_4'', ''NOT_EQUAL_5'', ''BELOW_EQUAL_6'',
      ''ABOVE_7'', ''SIGNED_8'', ''NO_SIGNED_9'', ''PARITY_10'', ''NOT_PARITY_11'', ''LESS_12'', ''GREATER_EQUAL_13'',
      ''LESS_EQUAL_14'', ''GREATER_15'']"

definition condition_name :: "int \<Rightarrow> out" where
  "condition_name cond = given (at_int condition_table cond) (\<lambda>_. refuse False)"

definition output_icmp :: "c_args \<Rightarrow> inst_log_entry_s \<Rightarrow> int \<Rightarrow> out" where
  "output_icmp a e n = in_turn
     [check_print a e n, say tab, refuse (indirect (dstA (instruction e)) = IND_MEM), say_label a (value_id (value3 e)), say '' = '',
      ignoring (if_expression a (predicate (instruction e)) e), condition_name (predicate (instruction e)), say ('';'' @ line_end a)]"

text \<open>The instruction before a branch that sets the flags, along the first predecessors.\<close>

fun find_flags :: "nat \<Rightarrow> inst_log_entry_s list \<Rightarrow> int \<Rightarrow> inst_log_entry_s option c" where
  "find_flags 0 log l = Inr None"
| "find_flags (Suc k) log l =
     bindE (at_int log l) (\<lambda>e.
       if flags (instruction e) = 1 then Inr (Some e)
       else let l = (case prev e of [] \<Rightarrow> 0 | p # _ \<Rightarrow> p) in if l = 0 then Inr None else find_flags k log l)"

definition output_if :: "c_args \<Rightarrow> inst_log_entry_s \<Rightarrow> int \<Rightarrow> out" where
  "output_if a e n = in_turn
     [check_print a e n, say tab, say ''if1 '',
      given (at (prev e) 0) (\<lambda>l. given (find_flags 30 (inst_log_entry (arg_self a)) l) (\<lambda>found.
        case found of
          None \<Rightarrow> give_up
        | Some f \<Rightarrow> after (if_expression a (to_int (index (srcA (instruction e)))) f) (\<lambda>failed.
            in_turn [condition_name (sint (index (srcA (instruction e)))), refuse failed]))),
      say_goto ''IF goto '' e 1 (line_end a), say_goto (tab @ ''else goto '') e 0 (line_end a)]"

definition output_bc :: "c_args \<Rightarrow> inst_log_entry_s \<Rightarrow> int \<Rightarrow> out" where
  "output_bc a e n = in_turn
     [check_print a e n, say tab, say ''if ('', refuse (indirect (srcA (instruction e)) = IND_MEM),
      say_label a (value_id (value1 e)), say '')'',
      say_goto '' goto '' e 1 (line_end a), say_goto (tab @ ''else goto '') e 0 (line_end a)]"

definition output_ret :: "c_args \<Rightarrow> inst_log_entry_s \<Rightarrow> int \<Rightarrow> out" where
  "output_ret a e n = in_turn
     [check_print a e n, say tab, say ''return '', say_label a (value_id (value1 e)), say ('';'' @ line_end a)]"

section \<open>The function\<close>

definition output_opcode :: "c_args \<Rightarrow> inst_log_entry_s \<Rightarrow> int \<Rightarrow> out" where
  "output_opcode a e n =
     (let binary = (\<lambda>symbol. ignoring (output_3_labels a e n symbol)) in
      case opcode (instruction e) of
        OP_LOAD \<Rightarrow> output_load a e n
      | OP_STORE \<Rightarrow> output_store a e n
      | OP_MOV \<Rightarrow> output_2_labels a e n '' = ''
      | OP_SEX \<Rightarrow> output_2_labels a e n '' = ''
      | OP_ZEXT \<Rightarrow> output_2_labels a e n '' = ''
      | OP_TRUNC \<Rightarrow> output_2_labels a e n '' = ''
      | OP_NEG \<Rightarrow> output_2_labels a e n '' = 0 -''
      | OP_ADD \<Rightarrow> binary ''+''
      | OP_GEP1 \<Rightarrow> output_gep a e n
      | OP_MUL \<Rightarrow> output_mul a e n
      | OP_IMUL \<Rightarrow> output_mul a e n
      | OP_SUB \<Rightarrow> binary ''-''
      | OP_SBB \<Rightarrow> binary ''-''
      | OP_AND \<Rightarrow> binary ''&''
      | OP_OR \<Rightarrow> binary ''|''
      | OP_XOR \<Rightarrow> binary ''^''
      | OP_NOT \<Rightarrow> output_not a e n
      | OP_SHL \<Rightarrow> binary ''<<''
      | OP_SHR \<Rightarrow> binary ''>>''
      | OP_SAL \<Rightarrow> binary ''<<''
      | OP_SAR \<Rightarrow> binary ''>>''
      | OP_JMP \<Rightarrow> output_jmp a e n
      | OP_JMPT \<Rightarrow> output_jmpt a e n
      | OP_CALL \<Rightarrow> output_call a e n
      | OP_CMP \<Rightarrow> output_cmp a e n
      | OP_ICMP \<Rightarrow> output_icmp a e n
      | OP_TEST \<Rightarrow> output_test a e n
      | OP_IF \<Rightarrow> output_if a e n
      | OP_BC \<Rightarrow> output_bc a e n
      | OP_NOP \<Rightarrow> check_print a e n
      | OP_RET \<Rightarrow> output_ret a e n
      | _ \<Rightarrow> in_turn [say (''//Unhandled output instruction'' @ [CHR 0x5C] @ ''l''), check_print a e n, give_up])"

text \<open>
  An entry gets a label where the flow joins, and where it comes from anywhere but the entry
  before; entry 0 stands for the caller.
\<close>

definition label_line :: "string \<Rightarrow> int \<Rightarrow> inst_log_entry_s \<Rightarrow> string" where
  "label_line cr n e =
     (case prev e of
        [] \<Rightarrow> ''''
      | [p] \<Rightarrow> (if p \<noteq> n - 1 \<and> p \<noteq> 0 then ''label'' @ label_no n @ '':'' @ cr else '''')
      | _ \<Rightarrow> ''label'' @ label_no n @ '':'' @ cr)"

definition goto_next :: "c_args \<Rightarrow> inst_log_entry_s \<Rightarrow> int \<Rightarrow> out" where
  "goto_next a e n =
     (case next_inst e of
        [] \<Rightarrow> say ''''
      | m # _ \<Rightarrow> if m = n + 1 then say '''' else say_goto (tab @ ''TMP3 goto '') e 0 (line_end a))"

definition output_inst_in_c :: "c_args \<Rightarrow> int \<Rightarrow> out" where
  "output_inst_in_c a n = own_buffer (
     given (at_int (inst_log_entry (arg_self a)) n) (\<lambda>e.
     given (write_inst (arg_self a) \<lparr>chars = '''', str_max = 1023\<rparr> (instruction e) n (Some (arg_labels a))) (\<lambda>(_, inst).
     in_turn
       ([say (chars inst), say (line_end a), say (label_line (line_end a) n e)] @
        (if value_type (value3 e) \<in> {0..6} then [output_opcode a e n, goto_next a e n] else [])))))"

definition output_function_body :: "c_args \<Rightarrow> int \<Rightarrow> int \<Rightarrow> out" where
  "output_function_body a start final =
     (if start = 0 \<or> final = 0 then give_up
      else in_turn (map (\<lambda>n. ignoring (output_inst_in_c (a\<lparr>line_end := newline\<rparr>) n)) [start .. final] @
        [say (''}'' @ newline @ newline)]))"

end
