(* ===== verification/Ast.thy ===== *)
theory Ast
  imports Loops
begin

text \<open>
  \<open>src/analyse/ast.c\<close>: the control flow graph becomes a syntax tree. \<open>cfg_to_ast\<close> keeps a list of
  entries, each of which follows the nodes of one container: a plain node becomes an object of
  the container, a branch and a loop become an object of their own with containers for their
  ways, and these get entries of their own.
\<close>

section \<open>The tables\<close>

datatype ast_type = AST_TYPE_EMPTY | AST_TYPE_NODE | AST_TYPE_CONTAINER | AST_TYPE_IF_THEN_ELSE
  | AST_TYPE_IF_THEN_GOTO | AST_TYPE_LOOP | AST_TYPE_LOOP_THEN_ELSE | AST_TYPE_LOOP_CONTAINER

definition AST_SIZE :: nat where "AST_SIZE = 300"

text \<open>
  The fields \<open>index\<close> are \<open>uint64_t\<close> in C, but only ever hold an \<open>int\<close>, which comes back unchanged.
\<close>

record ast_type_index_s =
  obj_type :: ast_type
  obj_index :: int

record ast_type_parent_s =
  par_type :: ast_type
  par_index :: int
  par_offset :: int

record ast_container_s =
  con_parent :: ast_type_parent_s
  con_start_node :: int
  con_sub_type :: int
  con_object :: "ast_type_index_s list"

record ast_if_then_else_s =
  ite_parent :: ast_type_parent_s
  expression_node :: ast_type_index_s
  if_then :: ast_type_index_s
  if_else :: ast_type_index_s

record ast_if_then_goto_s =
  itg_parent :: ast_type_parent_s
  itg_expression_node :: ast_type_index_s
  if_then_goto :: ast_type_index_s

record ast_loop_s =
  first_node :: ast_type_index_s
  body :: ast_type_index_s

record ast_entry_s =
  ent_type :: ast_type
  ent_sub_type :: int
  ent_index :: int
  ent_sub_index :: int
  ent_node :: int
  ent_node_end :: int

text \<open>
  The tables \<open>ast_loop_then_else\<close> and \<open>ast_loop_container\<close> are left out: nothing is ever put into
  them.
\<close>

record ast_s =
  ast_container :: "ast_container_s list"
  ast_if_then_else :: "ast_if_then_else_s list"
  ast_if_then_goto :: "ast_if_then_goto_s list"
  ast_loop :: "ast_loop_s list"
  ast_entry :: "ast_entry_s list"
  container_size :: nat
  if_then_else_size :: nat
  if_then_goto_size :: nat
  loop_size :: nat

text \<open>
  The state of the walk has one variable more, \<open>tmp_entry\<close>. The counters are local variables
  in C, which are written back in the end, on every way out.
\<close>

record ast_walk_s = ast_s +
  tmp_entry :: nat

section \<open>Entries, containers and objects\<close>

definition first_entry :: "(ast_entry_s \<Rightarrow> bool) \<Rightarrow> nat \<Rightarrow> ast_entry_s list \<Rightarrow> nat option c" where
  "first_entry P n es =
     (case index_of P (take n es) of
        Some k \<Rightarrow> Inr (Some k)
      | None \<Rightarrow> if n \<le> length es then Inr None else Inl OutOfBounds)"

text \<open>The search for a free entry looks at 100 of the 300.\<close>

definition find_empty_ast_entry :: "ast_entry_s list \<Rightarrow> nat option c" where
  "find_empty_ast_entry = first_entry (\<lambda>e. ent_type e = AST_TYPE_EMPTY) 100"

definition is_member_of_loop :: "control_flow_node_s list \<Rightarrow> int \<Rightarrow> int \<Rightarrow> bool c" where
  "is_member_of_loop nodes loop_node test_node =
     bindE (at_int nodes test_node) (\<lambda>n. Inr (loop_node \<in> set (member_of_loop n)))"

definition change_entry :: "nat \<Rightarrow> (ast_entry_s \<Rightarrow> ast_entry_s) \<Rightarrow> ast_walk_s \<Rightarrow> ast_walk_s c" where
  "change_entry e f w =
     bindE (at (ast_entry w) e) (\<lambda>x. Inr (w\<lparr>ast_entry := (ast_entry w)[e := f x]\<rparr>))"

definition change_container :: "int \<Rightarrow> (ast_container_s \<Rightarrow> ast_container_s) \<Rightarrow> ast_walk_s \<Rightarrow> ast_walk_s c" where
  "change_container k f w =
     bindE (at_int (ast_container w) k) (\<lambda>x. Inr (w\<lparr>ast_container := (ast_container w)[nat k := f x]\<rparr>))"

definition change_if_then_else :: "(ast_if_then_else_s \<Rightarrow> ast_if_then_else_s) \<Rightarrow> ast_walk_s \<Rightarrow> ast_walk_s c" where
  "change_if_then_else f w =
     bindE (at (ast_if_then_else w) (if_then_else_size w)) (\<lambda>x.
       Inr (w\<lparr>ast_if_then_else := (ast_if_then_else w)[if_then_else_size w := f x]\<rparr>))"

definition change_if_then_goto :: "(ast_if_then_goto_s \<Rightarrow> ast_if_then_goto_s) \<Rightarrow> ast_walk_s \<Rightarrow> ast_walk_s c" where
  "change_if_then_goto f w =
     bindE (at (ast_if_then_goto w) (if_then_goto_size w)) (\<lambda>x.
       Inr (w\<lparr>ast_if_then_goto := (ast_if_then_goto w)[if_then_goto_size w := f x]\<rparr>))"

definition change_loop :: "(ast_loop_s \<Rightarrow> ast_loop_s) \<Rightarrow> ast_walk_s \<Rightarrow> ast_walk_s c" where
  "change_loop f w =
     bindE (at (ast_loop w) (loop_size w)) (\<lambda>x. Inr (w\<lparr>ast_loop := (ast_loop w)[loop_size w := f x]\<rparr>))"

definition ref :: "ast_type \<Rightarrow> int \<Rightarrow> ast_type_index_s" where
  "ref t k = \<lparr>obj_type = t, obj_index = k\<rparr>"

definition parent_at :: "int \<Rightarrow> nat \<Rightarrow> ast_type_parent_s" where
  "parent_at k offset = \<lparr>par_type = AST_TYPE_CONTAINER, par_index = k, par_offset = int offset\<rparr>"

text \<open>An entry for a new container. When there is no free entry the last one is taken again.\<close>

definition container_entry :: "int \<Rightarrow> int \<Rightarrow> int \<Rightarrow> ast_entry_s" where
  "container_entry k node stop = \<lparr>ent_type = AST_TYPE_CONTAINER, ent_sub_type = 0, ent_index = k,
     ent_sub_index = 0, ent_node = node, ent_node_end = stop\<rparr>"

definition add_container_entry :: "int \<Rightarrow> int \<Rightarrow> ast_walk_s \<Rightarrow> ast_walk_s c" where
  "add_container_entry node stop w =
     bindE (find_empty_ast_entry (ast_entry w)) (\<lambda>found.
     let w = (case found of None \<Rightarrow> w | Some k \<Rightarrow> w\<lparr>tmp_entry := k\<rparr>) in
       change_entry (tmp_entry w) (\<lambda>_. container_entry (int (container_size w)) node stop) w)"

text \<open>
  The way out at a full table: the flag is \<open>True\<close> when the rest is skipped and 1 returned.
\<close>

type_synonym step = "(bool \<times> ast_walk_s) c"

definition go_on :: "step \<Rightarrow> (ast_walk_s \<Rightarrow> step) \<Rightarrow> step" where
  "go_on m f = bindE m (\<lambda>(full, w). if full then Inr (True, w) else f w)"

definition count_container :: "ast_walk_s \<Rightarrow> step" where
  "count_container w =
     (let w = w\<lparr>container_size := Suc (container_size w)\<rparr> in Inr (AST_SIZE \<le> container_size w, w))"

text \<open>The container an entry works on, and one more object in it.\<close>

definition entry_container :: "nat \<Rightarrow> ast_walk_s \<Rightarrow> int c" where
  "entry_container e w =
     bindE (at (ast_entry w) e) (\<lambda>x.
       if ent_type x \<noteq> AST_TYPE_CONTAINER then Inl (Exit 1) else Inr (ent_index x))"

definition add_object :: "int \<Rightarrow> ast_type_index_s \<Rightarrow> ast_walk_s \<Rightarrow> ast_walk_s c" where
  "add_object k x = change_container k (\<lambda>c. c\<lparr>con_object := con_object c @ [x]\<rparr>)"

definition objects :: "int \<Rightarrow> ast_walk_s \<Rightarrow> nat c" where
  "objects k w = bindE (at_int (ast_container w) k) (\<lambda>c. Inr (length (con_object c)))"

section \<open>Nodes with two ways\<close>

text \<open>
  The way along link \<open>k\<close>: nothing when it leads to the tail (or, with \<open>no_edge\<close>, back to the
  head of a loop), otherwise a new container with an entry of its own. \<open>put\<close> changes the field for the way.
\<close>

definition new_branch :: "((ast_type_index_s \<Rightarrow> ast_type_index_s) \<Rightarrow> ast_walk_s \<Rightarrow> ast_walk_s c) \<Rightarrow> int \<Rightarrow> int \<Rightarrow> ast_walk_s \<Rightarrow> step" where
  "new_branch put node stop w =
     bindE (put (\<lambda>_. ref AST_TYPE_CONTAINER (int (container_size w))) w) (\<lambda>w.
     bindE (add_container_entry node stop w) count_container)"

definition branch :: "bool \<Rightarrow> ((ast_type_index_s \<Rightarrow> ast_type_index_s) \<Rightarrow> ast_walk_s \<Rightarrow> ast_walk_s c) \<Rightarrow>
    control_flow_node_s \<Rightarrow> nat \<Rightarrow> ast_walk_s \<Rightarrow> step" where
  "branch no_edge put nd k w =
     (let empty = bindE (put (\<lambda>x. x\<lparr>obj_type := AST_TYPE_EMPTY\<rparr>) w) (\<lambda>w. Inr (False, w)) in
      if link_next nd = [] then empty
      else bindE (at (link_next nd) k) (\<lambda>l.
        if link_node l = if_tail nd then empty
        else if no_edge \<and> is_loop_edge l \<noteq> 0 then empty
        else new_branch put (link_node l) (if_tail nd) w))"

definition put_then :: "(ast_type_index_s \<Rightarrow> ast_type_index_s) \<Rightarrow> ast_walk_s \<Rightarrow> ast_walk_s c" where
  "put_then f = change_if_then_else (\<lambda>i. i\<lparr>if_then := f (if_then i)\<rparr>)"

definition put_else :: "(ast_type_index_s \<Rightarrow> ast_type_index_s) \<Rightarrow> ast_walk_s \<Rightarrow> ast_walk_s c" where
  "put_else f = change_if_then_else (\<lambda>i. i\<lparr>if_else := f (if_else i)\<rparr>)"

definition put_goto :: "(ast_type_index_s \<Rightarrow> ast_type_index_s) \<Rightarrow> ast_walk_s \<Rightarrow> ast_walk_s c" where
  "put_goto f = change_if_then_goto (\<lambda>i. i\<lparr>if_then_goto := f (if_then_goto i)\<rparr>)"

definition both_ways :: "control_flow_node_s \<Rightarrow> ast_walk_s \<Rightarrow> step" where
  "both_ways nd w = go_on (branch True put_then nd 0 w) (branch True put_else nd 1)"

definition count_if_then_else :: "ast_walk_s \<Rightarrow> step" where
  "count_if_then_else w =
     (let w = w\<lparr>if_then_else_size := Suc (if_then_else_size w)\<rparr> in Inr (AST_SIZE \<le> if_then_else_size w, w))"

definition step_if_then_else :: "nat \<Rightarrow> int \<Rightarrow> control_flow_node_s \<Rightarrow> ast_walk_s \<Rightarrow> step" where
  "step_if_then_else e node nd w =
     bindE (entry_container e w) (\<lambda>k.
     bindE (add_object k (ref AST_TYPE_IF_THEN_ELSE (int (if_then_else_size w))) w) (\<lambda>w.
     bindE (change_if_then_else (\<lambda>i. i\<lparr>expression_node := ref AST_TYPE_NODE node\<rparr>) w) (\<lambda>w.
     go_on (both_ways nd w) (\<lambda>w.
     bindE (objects k w) (\<lambda>len.
     bindE (change_entry e (\<lambda>x. if if_tail nd = ent_node_end x then x\<lparr>ent_type := AST_TYPE_EMPTY\<rparr>
         else x\<lparr>ent_sub_index := int len, ent_node := if_tail nd\<rparr>) w) count_if_then_else)))))"

text \<open>A way out of a loop: the other link goes on, also out of the container of the loop.\<close>

definition exit_links :: "control_flow_node_s \<Rightarrow> (nat \<times> nat) c" where
  "exit_links nd =
     bindE (at (link_next nd) 0) (\<lambda>l.
       if is_loop_exit l \<noteq> 0 then Inr (0, 1)
       else bindE (at (link_next nd) 1) (\<lambda>m. if is_loop_exit m \<noteq> 0 then Inr (1, 0) else Inl (Exit 1)))"

definition leave_loop :: "int \<Rightarrow> ast_container_s \<Rightarrow> ast_entry_s \<Rightarrow> ast_entry_s" where
  "leave_loop node con x = x\<lparr>ent_type := par_type (con_parent con), ent_sub_type := con_sub_type con,
     ent_index := par_index (con_parent con), ent_sub_index := par_offset (con_parent con),
     ent_node := node, ent_node_end := int (length (con_object con))\<rparr>"

definition follow_normal :: "control_flow_node_s list \<Rightarrow> nat \<Rightarrow> int \<Rightarrow> int \<Rightarrow> ast_walk_s \<Rightarrow> ast_walk_s c" where
  "follow_normal nodes e node goto_node w =
     bindE (at (ast_entry w) e) (\<lambda>x.
       if ent_sub_type x = 1 then
         bindE (is_member_of_loop nodes node (ent_node x)) (\<lambda>member.
           if member then Inr w
           else bindE (at_int (ast_container w) (ent_index x)) (\<lambda>con. change_entry e (leave_loop goto_node con) w))
       else if ent_node x = ent_node_end x then change_entry e (\<lambda>x. x\<lparr>ent_type := AST_TYPE_EMPTY\<rparr>) w
       else Inr w)"

definition count_if_then_goto :: "ast_walk_s \<Rightarrow> step" where
  "count_if_then_goto w =
     (let w = w\<lparr>if_then_goto_size := Suc (if_then_goto_size w)\<rparr> in Inr (AST_SIZE \<le> if_then_goto_size w, w))"

definition step_if_then_goto :: "control_flow_node_s list \<Rightarrow> nat \<Rightarrow> int \<Rightarrow> control_flow_node_s \<Rightarrow> ast_walk_s \<Rightarrow> step" where
  "step_if_then_goto nodes e node nd w =
     bindE (entry_container e w) (\<lambda>k.
     bindE (objects k w) (\<lambda>len.
     bindE (add_object k (ref AST_TYPE_IF_THEN_GOTO (int (if_then_goto_size w))) w) (\<lambda>w.
     bindE (change_if_then_goto (\<lambda>i. i\<lparr>itg_parent := parent_at k len, itg_expression_node := ref AST_TYPE_NODE node\<rparr>) w) (\<lambda>w.
     bindE (exit_links nd) (\<lambda>(link_goto, link_norm).
     go_on (branch False put_goto nd link_goto w) (\<lambda>w.
     bindE (objects k w) (\<lambda>len.
     bindE (at (link_next nd) link_norm) (\<lambda>l.
     bindE (at (link_next nd) link_goto) (\<lambda>m.
     bindE (change_entry e (\<lambda>x. x\<lparr>ent_sub_index := int len, ent_node := link_node l\<rparr>) w) (\<lambda>w.
     bindE (follow_normal nodes e node (link_node m) w) count_if_then_goto))))))))))"

section \<open>Plain nodes and loops\<close>

definition advance :: "control_flow_node_s \<Rightarrow> nat \<Rightarrow> ast_entry_s \<Rightarrow> ast_entry_s" where
  "advance nd len x =
     (case link_next nd of
        [] \<Rightarrow> x\<lparr>ent_type := AST_TYPE_EMPTY\<rparr>
      | l # _ \<Rightarrow> let x = x\<lparr>ent_sub_index := int len, ent_node := link_node l\<rparr> in
          if ent_node x = ent_node_end x then x\<lparr>ent_type := AST_TYPE_EMPTY\<rparr> else x)"

definition step_node :: "nat \<Rightarrow> int \<Rightarrow> control_flow_node_s \<Rightarrow> ast_walk_s \<Rightarrow> step" where
  "step_node e node nd w =
     bindE (entry_container e w) (\<lambda>k.
     bindE (add_object k (ref AST_TYPE_NODE node) w) (\<lambda>w.
     bindE (objects k w) (\<lambda>len.
     bindE (change_entry e (advance nd len) w) (\<lambda>w. Inr (False, w)))))"

text \<open>The body of a loop, up to its head. Each of the two links that is normal makes one; the second replaces the first.\<close>

definition put_body :: "(ast_type_index_s \<Rightarrow> ast_type_index_s) \<Rightarrow> ast_walk_s \<Rightarrow> ast_walk_s c" where
  "put_body f = change_loop (\<lambda>i. i\<lparr>body := f (body i)\<rparr>)"

definition loop_body :: "int \<Rightarrow> control_flow_node_s \<Rightarrow> nat \<Rightarrow> ast_walk_s \<Rightarrow> step" where
  "loop_body node nd k w =
     bindE (at (link_next nd) k) (\<lambda>l.
       if is_normal l \<noteq> 0 then new_branch put_body (link_node l) node w else Inr (False, w))"

definition count_loop :: "ast_walk_s \<Rightarrow> step" where
  "count_loop w = (let w = w\<lparr>loop_size := Suc (loop_size w)\<rparr> in Inr (AST_SIZE \<le> loop_size w, w))"

definition step_loop :: "nat \<Rightarrow> int \<Rightarrow> control_flow_node_s \<Rightarrow> ast_walk_s \<Rightarrow> step" where
  "step_loop e node nd w =
     bindE (entry_container e w) (\<lambda>k.
     bindE (change_loop (\<lambda>i. i\<lparr>first_node := ref AST_TYPE_NODE node\<rparr>) w) (\<lambda>w.
     bindE (add_object k (ref AST_TYPE_LOOP (int (loop_size w))) w) (\<lambda>w.
     bindE (put_body (\<lambda>_. ref AST_TYPE_EMPTY 0) w) (\<lambda>w.
     go_on (loop_body node nd 0 w) (\<lambda>w.
     go_on (loop_body node nd 1 w) (\<lambda>w.
     bindE (objects k w) (\<lambda>len.
     bindE (change_entry e (\<lambda>x. x\<lparr>ent_sub_index := int len, ent_node := if_tail nd\<rparr>) w) count_loop)))))))"

text \<open>
  A loop that starts with a branch. The object refers to the container \<open>container_size\<close>, but the
  branch is put into the container after the one the entry works on.
\<close>

definition loop_container :: "int \<Rightarrow> nat \<Rightarrow> int \<Rightarrow> nat \<Rightarrow> ast_container_s \<Rightarrow> ast_container_s" where
  "loop_container k len node i c =
     \<lparr>con_parent = parent_at k len, con_start_node = node, con_sub_type = 1,
      con_object = [ref AST_TYPE_IF_THEN_ELSE (int i)]\<rparr>"

definition step_loop_then_else :: "control_flow_node_s list \<Rightarrow> nat \<Rightarrow> int \<Rightarrow> control_flow_node_s \<Rightarrow> ast_walk_s \<Rightarrow> step" where
  "step_loop_then_else nodes e node nd w =
     bindE (entry_container e w) (\<lambda>k.
     bindE (objects k w) (\<lambda>len.
     bindE (add_object k (ref AST_TYPE_CONTAINER (int (container_size w))) w) (\<lambda>w.
     bindE (change_container (k + 1) (loop_container k len node (if_then_else_size w)) w) (\<lambda>w.
     go_on (count_container w) (\<lambda>w.
     bindE (change_if_then_else (\<lambda>i. i\<lparr>ite_parent := parent_at (k + 1) 0, expression_node := ref AST_TYPE_NODE node\<rparr>) w) (\<lambda>w.
     go_on (both_ways nd w) (\<lambda>w.
     bindE (is_member_of_loop nodes node (if_tail nd)) (\<lambda>member.
     bindE (objects (k + 1) w) (\<lambda>len.
     bindE (change_entry e (\<lambda>x. if \<not> member then x\<lparr>ent_type := AST_TYPE_EMPTY\<rparr>
         else \<lparr>ent_type = AST_TYPE_CONTAINER, ent_sub_type = 1, ent_index = k + 1, ent_sub_index = int len,
           ent_node = if_tail nd, ent_node_end = 0\<rparr>) w) count_if_then_else)))))))))"

section \<open>The walk\<close>

definition type_of_entry :: "control_flow_node_s \<Rightarrow> ast_type" where
  "type_of_entry nd =
     (if node_type nd = NODE_TYPE_IF_THEN_ELSE then AST_TYPE_IF_THEN_ELSE
      else if node_type nd = NODE_TYPE_IF_THEN_GOTO then AST_TYPE_IF_THEN_GOTO
      else if node_type nd = NODE_TYPE_LOOP then AST_TYPE_LOOP
      else if node_type nd = NODE_TYPE_LOOP_THEN_ELSE then AST_TYPE_LOOP_THEN_ELSE
      else AST_TYPE_NODE)"

definition step_entry :: "control_flow_node_s list \<Rightarrow> nat \<Rightarrow> ast_walk_s \<Rightarrow> step" where
  "step_entry nodes e w =
     bindE (at (ast_entry w) e) (\<lambda>x. let node = ent_node x in
     bindE (at_int nodes node) (\<lambda>nd.
       case type_of_entry nd of
         AST_TYPE_IF_THEN_ELSE \<Rightarrow> step_if_then_else e node nd w
       | AST_TYPE_IF_THEN_GOTO \<Rightarrow> step_if_then_goto nodes e node nd w
       | AST_TYPE_LOOP \<Rightarrow> step_loop e node nd w
       | AST_TYPE_LOOP_THEN_ELSE \<Rightarrow> step_loop_then_else nodes e node nd w
       | _ \<Rightarrow> step_node e node nd w))"

text \<open>The first entry in use, until there is none. The fuel bounds the turns.\<close>

fun walk_entries :: "nat \<Rightarrow> control_flow_node_s list \<Rightarrow> ast_walk_s \<Rightarrow> step" where
  "walk_entries 0 nodes w = Inl Diverge"
| "walk_entries (Suc fuel) nodes w =
     bindE (first_entry (\<lambda>e. ent_type e \<noteq> AST_TYPE_EMPTY) AST_SIZE (ast_entry w)) (\<lambda>found.
       case found of
         None \<Rightarrow> Inr (False, w)
       | Some e \<Rightarrow> go_on (step_entry nodes e w) (walk_entries fuel nodes))"

definition start_walk :: "int \<Rightarrow> ast_walk_s \<Rightarrow> step" where
  "start_walk start_node w =
     bindE (change_entry 0 (\<lambda>_. container_entry (int (container_size w)) start_node 0) w) (\<lambda>w.
       if AST_SIZE \<le> container_size w then Inr (True, w)
       else bindE (change_container (int (container_size w)) (\<lambda>c. c\<lparr>con_start_node := start_node\<rparr>) w) count_container)"

definition cfg_to_ast :: "nat \<Rightarrow> control_flow_node_s list \<Rightarrow> ast_s \<Rightarrow> int \<Rightarrow> (int \<times> ast_s) c" where
  "cfg_to_ast fuel nodes ast start_node =
     bindE (go_on (start_walk start_node (ast_s.extend ast \<lparr>tmp_entry = 0\<rparr>)) (walk_entries fuel nodes)) (\<lambda>(full, w).
       Inr (if full then 1 else 0, ast_s.truncate w))"


end
