(* ===== verification/OutputDot.thy ===== *)
theory OutputDot
  imports OutputC Ast
begin

text \<open>
  \<open>src/output/cfg/output_cfg_dot.c\<close> and \<open>src/output/ast/output_ast.c\<close>: the control flow graph and the
  syntax tree as text for dot. The functions deliver their return code and the text they hand to
  \<open>dprintf\<close>; opening the file is outside, and what \<open>open\<close> has returned is an argument.
\<close>

section \<open>Pieces of a graph\<close>

text \<open>Quotes, and the mark dot uses for the end of a line that is aligned to the left.\<close>

definition quoted :: "string \<Rightarrow> string" where
  "quoted t = [CHR 0x22] @ t @ [CHR 0x22]"

definition dot_line :: string where "dot_line = [CHR 0x5C] @ ''l''"

definition hex8 :: "int \<Rightarrow> string" where
  "hex8 i = pad 8 (hex_int i)"

definition dot_header :: string where
  "dot_header = ''digraph code {'' @ newline @ tab @ ''graph [bgcolor=white];'' @ newline @
     tab @ ''node [color=lightgray, style=filled shape=box fontname='' @ quoted ''graph.font'' @ '' fontsize='' @ quoted ''8'' @ ''];'' @ newline"

text \<open>The start of the line for an object: up to its name.\<close>

definition dot_object :: "string \<Rightarrow> int \<Rightarrow> string \<Rightarrow> string" where
  "dot_object kind n name =
     (let ident = kind @ '':0x'' @ hex8 n in
      '' '' @ quoted ident @ '' [URL='' @ quoted ident @ '' color='' @ quoted ''lightgray'' @ '', label='' @ [CHR 0x22] @ ident @ '':'' @ name)"

definition dot_edge :: "string \<Rightarrow> int \<Rightarrow> string \<Rightarrow> int \<Rightarrow> string \<Rightarrow> string" where
  "dot_edge kind n kind' m color =
     quoted (kind @ '':0x'' @ hex8 n) @ '' -> '' @ quoted (kind' @ '':0x'' @ hex8 m) @ '' [color='' @ quoted color @ ''];'' @ newline"

section \<open>The links of a node\<close>

text \<open>
  The colour is a variable of the whole function: for a node with more than two links it is not
  set, and the last one is taken again.
\<close>

definition link_color :: "nat \<Rightarrow> nat \<Rightarrow> node_link_s \<Rightarrow> string option \<Rightarrow> string option" where
  "link_color links k l color =
     (if links < 2 then Some (if is_loop_edge l = 1 then ''gold'' else ''blue'')
      else if links = 2 then Some (if is_loop_edge l = 1 then ''gold'' else if k = 0 then ''red'' else ''green'')
      else color)"

definition link_label :: "nat \<Rightarrow> nat \<Rightarrow> string" where
  "link_label links k =
     (if links < 2 then ''''
      else '' label='' @ quoted (if links = 2 then (if k = 0 then ''false'' else ''true'') else ''0x'' @ hex_int (int k)))"

definition link_line :: "int \<Rightarrow> nat \<Rightarrow> nat \<Rightarrow> node_link_s \<Rightarrow> string \<Rightarrow> string" where
  "link_line node links k l color =
     quoted (''Node:0x'' @ hex8 node) @ '' -> '' @ quoted (''Node:0x'' @ hex8 (link_node l)) @
       '' [color='' @ quoted color @ link_label links k @ ''];'' @ newline"

fun dot_links :: "int \<Rightarrow> nat \<Rightarrow> nat \<Rightarrow> node_link_s list \<Rightarrow> string option \<Rightarrow> (string \<times> string option) c" where
  "dot_links node links k [] color = Inr ('''', color)"
| "dot_links node links k (l # ls) color =
     (case link_color links k l color of
        None \<Rightarrow> Inl Uninit
      | Some x \<Rightarrow> bindE (dot_links node links (Suc k) ls (Some x)) (\<lambda>(t, color). Inr (link_line node links k l x @ t, color)))"

text \<open>The nodes from 1 on; those that are not valid are passed over.\<close>

fun dot_nodes :: "(int \<Rightarrow> control_flow_node_s \<Rightarrow> string c) \<Rightarrow> int \<Rightarrow> control_flow_node_s list \<Rightarrow> string option \<Rightarrow> string c" where
  "dot_nodes draw n [] color = Inr ''''"
| "dot_nodes draw n (nd # nds) color =
     (if node_valid nd = 0 then dot_nodes draw (n + 1) nds color
      else bindE (draw n nd) (\<lambda>t.
        bindE (dot_links n (length (link_next nd)) 0 (link_next nd) color) (\<lambda>(u, color).
        bindE (dot_nodes draw (n + 1) nds color) (\<lambda>v. Inr (t @ u @ v)))))"

definition dot_type :: "control_flow_node_s \<Rightarrow> string" where
  "dot_type nd = ''type = 0x'' @ hex_int (node_type nd) @ dot_line @
     (if if_tail nd \<noteq> 0 then ''if_tail = 0x'' @ hex_int (if_tail nd) @ dot_line else '''')"

definition dot_close :: string where
  "dot_close = [CHR 0x22] @ ''];'' @ newline"

section \<open>The plain graphs\<close>

text \<open>
  \<open>fd\<close> is what \<open>open\<close> has returned, and the result is the return code with the text \<open>dprintf\<close> is given.
  A file that could not be opened is not noticed by the plain graphs: \<open>open\<close> returns -1 then, and
  the test is for 0. \<open>start_nodes\<close> are the fields \<open>start_node\<close> of the entry points.
\<close>

definition dot_basic_node :: "external_entry_point_s list \<Rightarrow> int list \<Rightarrow> int \<Rightarrow> control_flow_node_s \<Rightarrow> string c" where
  "dot_basic_node eps start_nodes n nd =
     bindE (at_int start_nodes (entry_point_of nd - 1)) (\<lambda>start.
     bindE (if n = start then bindE (at_int eps (entry_point_of nd - 1)) (\<lambda>ep. Inr (eep_name ep)) else Inr '''') (\<lambda>name.
       Inr (dot_object ''Node'' n name @ dot_line @ dot_type nd @ dot_close)))"

definition output_cfg_dot_basic :: "external_entry_point_s list \<Rightarrow> int list \<Rightarrow> int \<Rightarrow> control_flow_node_s list \<Rightarrow> (int \<times> string) c" where
  "output_cfg_dot_basic eps start_nodes fd nodes =
     (if fd = 0 then Inr (1, '''')
      else bindE (dot_nodes (dot_basic_node eps start_nodes) 1 (drop 1 nodes) None) (\<lambda>t. Inr (0, dot_header @ t @ ''}'' @ newline)))"

definition dot_basic2_node :: "string \<Rightarrow> int \<Rightarrow> control_flow_node_s \<Rightarrow> string c" where
  "dot_basic2_node name n nd =
     Inr (dot_object ''Node'' n (if n = 1 then name else '''') @ dot_line @ dot_type nd @ dot_close)"

definition output_cfg_dot_basic2 :: "external_entry_point_s \<Rightarrow> int \<Rightarrow> (int \<times> string) c" where
  "output_cfg_dot_basic2 ep fd =
     (if fd = 0 then Inr (1, '''')
      else bindE (dot_nodes (dot_basic2_node (eep_name ep)) 1 (drop 1 (eep_nodes ep)) None) (\<lambda>t. Inr (0, dot_header @ t @ ''}'' @ newline)))"

section \<open>The graph with the instructions\<close>

text \<open>The text of a piece of C output, with a buffer of its own.\<close>

definition text_of :: "out \<Rightarrow> string c" where
  "text_of f = bindE (f \<lparr>written = '''', buffer = None\<rparr>) (\<lambda>(_, t). Inr (written t))"

definition dot_params :: "label_s list \<Rightarrow> int list \<Rightarrow> string c" where
  "dot_params labs ps =
     (if ps = [] then Inr ''''
      else text_of (in_turn ([say ''(''] @ separated (map (\<lambda>i. given (at_int labs i) say_name) ps) @ [say '')''])))"

record phi_node_s =
  first_prev_node :: int
  phi_src_node :: int
  phi_src_value :: int

record phi_s =
  phi_reg :: int
  phi_value_id :: int
  phi_node :: "phi_node_s list"

definition dot_phi :: "nat \<Rightarrow> phi_s \<Rightarrow> string" where
  "dot_phi k p = ''phi['' @ dec_int (int k) @ ''] = REG0x'' @ hex_int (phi_reg p) @ '':0x'' @ hex_int (phi_value_id p) @ '' '' @
     concat (map (\<lambda>q. ''FPN:0x'' @ hex_int (first_prev_node q) @ '':SN:0x'' @ hex_int (phi_src_node q) @
       '':L:0x'' @ hex_int (phi_src_value q) @ '', '') (phi_node p)) @ dot_line"

definition dot_phis :: "phi_s list \<Rightarrow> string" where
  "dot_phis ps = concat (map (\<lambda>k. dot_phi k (ps ! k)) [0 ..< length ps])"

text \<open>The instructions of a node, along the first links of the log. The fuel bounds the steps.\<close>

fun dot_insts :: "nat \<Rightarrow> c_args \<Rightarrow> int \<Rightarrow> string c" where
  "dot_insts 0 a n = Inl Diverge"
| "dot_insts (Suc k) a n =
     bindE (at_int (inst_log_entry (arg_self a)) n) (\<lambda>e.
     bindE (text_of (output_inst_in_c a n)) (\<lambda>t.
       case next_inst e of
         [] \<Rightarrow> Inr t
       | m # _ \<Rightarrow> if node_end e \<noteq> 0 then Inr t else bindE (dot_insts k a m) (\<lambda>u. Inr (t @ u))))"

text \<open>\<open>phis\<close> are the fields \<open>phi\<close> of the nodes.\<close>

definition dot_node :: "c_args \<Rightarrow> external_entry_point_s \<Rightarrow> (int \<Rightarrow> phi_s list) \<Rightarrow> int \<Rightarrow> control_flow_node_s \<Rightarrow> string c" where
  "dot_node a ep phis n nd =
     bindE (dot_params (labels ep) (params ep)) (\<lambda>ps.
     bindE (dot_insts (length (inst_log_entry (arg_self a))) (a\<lparr>line_end := dot_line\<rparr>) (inst_start nd)) (\<lambda>insts.
       Inr (dot_object ''Node'' n (if n = 1 then eep_name ep else '''') @ ps @ dot_line @ dot_type nd @ dot_phis (phis n) @ insts @ dot_close)))"

definition output_cfg_dot :: "c_args \<Rightarrow> (int \<Rightarrow> phi_s list) \<Rightarrow> int \<Rightarrow> int \<Rightarrow> (int \<times> string) c" where
  "output_cfg_dot a phis entry fd =
     bindE (at_int (external_entry_points (arg_self a)) entry) (\<lambda>ep.
       if eep_nodes ep = [] \<or> fd < 0 then Inr (1, '''')
       else bindE (dot_nodes (dot_node a ep phis) 1 (drop 1 (eep_nodes ep)) None) (\<lambda>t. Inr (0, dot_header @ t @ ''}'' @ newline)))"

section \<open>The graph of the syntax tree\<close>

text \<open>
  The loops over the tables \<open>ast_loop_container\<close> and \<open>ast_loop_then_else\<close> are left out: nothing is
  ever put into these. A container is named after the function its first node starts, if any:
  \<open>entry_point_of\<close> is the number of the entry point, from 1.
\<close>

definition ast_kind :: "ast_type \<Rightarrow> string option" where
  "ast_kind t =
     (case t of
        AST_TYPE_NODE \<Rightarrow> Some ''Node''
      | AST_TYPE_CONTAINER \<Rightarrow> Some ''Container''
      | AST_TYPE_LOOP_CONTAINER \<Rightarrow> Some ''Loop_Container''
      | AST_TYPE_IF_THEN_ELSE \<Rightarrow> Some ''if_then_else''
      | AST_TYPE_IF_THEN_GOTO \<Rightarrow> Some ''if_then_goto''
      | AST_TYPE_LOOP \<Rightarrow> Some ''loop''
      | AST_TYPE_LOOP_THEN_ELSE \<Rightarrow> Some ''loop_then_else''
      | AST_TYPE_EMPTY \<Rightarrow> None)"

definition ast_line :: "string \<Rightarrow> int \<Rightarrow> string \<Rightarrow> string" where
  "ast_line kind n name = dot_object kind n name @ dot_line @ [CHR 0x22] @ '']'' @ newline"

text \<open>An edge to an object of one of the kinds that are drawn.\<close>

definition ast_edge :: "string \<Rightarrow> int \<Rightarrow> ast_type set \<Rightarrow> ast_type_index_s \<Rightarrow> string \<Rightarrow> string" where
  "ast_edge kind n drawn x color =
     (case ast_kind (obj_type x) of
        Some kind' \<Rightarrow> if obj_type x \<in> drawn then dot_edge kind n kind' (obj_index x) color else ''''
      | None \<Rightarrow> '''')"

definition dot_container_object :: "int \<Rightarrow> ast_type_index_s \<Rightarrow> string" where
  "dot_container_object n x =
     (if obj_type x = AST_TYPE_NODE then ast_line ''Node'' (obj_index x) '''' else '''') @
     ast_edge ''Container'' n UNIV x (if obj_type x = AST_TYPE_NODE then ''red'' else ''blue'')"

definition container_name :: "external_entry_point_s list \<Rightarrow> control_flow_node_s list \<Rightarrow> ast_container_s \<Rightarrow> string c" where
  "container_name eps nodes con =
     (if con_start_node con = 0 then Inr ''''
      else bindE (at_int nodes (con_start_node con)) (\<lambda>nd.
        if entry_point_of nd = 0 then Inr ''''
        else bindE (at_int eps (entry_point_of nd - 1)) (\<lambda>ep. Inr (eep_name ep))))"

definition dot_container :: "external_entry_point_s list \<Rightarrow> control_flow_node_s list \<Rightarrow> int \<Rightarrow> ast_container_s \<Rightarrow> string c" where
  "dot_container eps nodes n con =
     bindE (container_name eps nodes con) (\<lambda>name.
       Inr (ast_line ''Container'' n name @ concat (map (dot_container_object n) (con_object con))))"

definition dot_if_then_else :: "int \<Rightarrow> ast_if_then_else_s \<Rightarrow> string c" where
  "dot_if_then_else n i =
     (let edge = ast_edge ''if_then_else'' n {AST_TYPE_NODE, AST_TYPE_CONTAINER} in
      Inr (ast_line ''if_then_else'' n '''' @ edge (expression_node i) ''gold'' @ edge (if_then i) ''green'' @ edge (if_else i) ''red''))"

definition dot_if_then_goto :: "int \<Rightarrow> ast_if_then_goto_s \<Rightarrow> string c" where
  "dot_if_then_goto n i =
     (let edge = ast_edge ''if_then_goto'' n {AST_TYPE_NODE, AST_TYPE_CONTAINER} in
      Inr (ast_line ''if_then_goto'' n '''' @ edge (itg_expression_node i) ''gold'' @ edge (if_then_goto i) ''green''))"

definition dot_loop :: "int \<Rightarrow> ast_loop_s \<Rightarrow> string c" where
  "dot_loop n i =
     Inr (ast_line ''loop'' n '''' @ ast_line ''Node'' (obj_index (first_node i)) '''' @
       dot_edge ''loop'' n ''Node'' (obj_index (first_node i)) ''gold'' @
       ast_edge ''loop'' n {AST_TYPE_NODE, AST_TYPE_CONTAINER, AST_TYPE_IF_THEN_ELSE, AST_TYPE_LOOP} (body i)
         (if obj_type (body i) \<in> {AST_TYPE_NODE, AST_TYPE_CONTAINER} then ''red'' else ''blue''))"

text \<open>The entries in use of a table, and at most \<open>AST_SIZE\<close>.\<close>

fun dot_entries :: "(int \<Rightarrow> 'a \<Rightarrow> string c) \<Rightarrow> nat \<Rightarrow> nat \<Rightarrow> 'a list \<Rightarrow> string c" where
  "dot_entries f n 0 xs = Inr ''''"
| "dot_entries f n (Suc k) xs =
     bindE (at xs n) (\<lambda>x. bindE (f (int n) x) (\<lambda>t. bindE (dot_entries f (Suc n) k xs) (\<lambda>u. Inr (t @ u))))"

definition dot_table :: "(int \<Rightarrow> 'a \<Rightarrow> string c) \<Rightarrow> nat \<Rightarrow> 'a list \<Rightarrow> string c" where
  "dot_table f used_size xs = dot_entries f 0 (min used_size AST_SIZE) xs"

definition output_ast_dot :: "external_entry_point_s list \<Rightarrow> ast_s \<Rightarrow> control_flow_node_s list \<Rightarrow> int \<Rightarrow> (int \<times> string) c" where
  "output_ast_dot eps ast nodes fd =
     (if fd < 0 then Inr (1, '''')
      else bindE (dot_table (dot_container eps nodes) (container_size ast) (ast_container ast)) (\<lambda>cons.
        bindE (dot_table dot_if_then_else (if_then_else_size ast) (ast_if_then_else ast)) (\<lambda>ites.
        bindE (dot_table dot_if_then_goto (if_then_goto_size ast) (ast_if_then_goto ast)) (\<lambda>itgs.
        bindE (dot_table dot_loop (loop_size ast) (ast_loop ast)) (\<lambda>loops.
          Inr (0, dot_header @ cons @ ites @ itgs @ loops @ ''}'' @ newline))))))"

end
