(* ===== verification/OutputText.thy ===== *)
theory OutputText
  imports OutputC
begin

text \<open>
  What the C text of a function contains: the labels its jumps lead to, the lines of single
  instructions, and that a function whose values have labels comes out as a whole.
\<close>

section \<open>Text only grows\<close>

definition appends :: "out \<Rightarrow> bool" where
  "appends f \<longleftrightarrow> (\<forall>s. yields (f s) (\<lambda>(_, t). prefix (written s) (written t)))"

named_theorems appends_intros \<open>functions that only append\<close>

lemma appendsI: "(\<And>s. yields (f s) (\<lambda>(_, t). prefix (written s) (written t))) \<Longrightarrow> appends f"
  by (simp add: appends_def)

lemma appendsD: "appends f \<Longrightarrow> f s = Inr (r, t) \<Longrightarrow> prefix (written s) (written t)"
  unfolding appends_def yields_def by fastforce

lemma basic_appends [appends_intros]: "appends (say t)" "appends give_up" "appends (need b)" "appends (refuse b)"
  by (auto simp: appends_def say_def give_up_def need_def refuse_def)

lemma in_turn_appends [appends_intros]: "list_all appends fs \<Longrightarrow> appends (in_turn fs)"
proof (induction fs)
  case Nil
  show ?case by (simp add: appends_def)
next
  case (Cons f fs)
  then have "appends f" "appends (in_turn fs)" by auto
  then show ?case unfolding appends_def in_turn.simps
    by (auto simp: yields_def bindE_Inr_iff split: if_splits) (metis prefix_order.order_trans case_prodD)+
qed

lemma list_appends [appends_intros]: "list_all appends []" "appends f \<Longrightarrow> list_all appends fs \<Longrightarrow> list_all appends (f # fs)"
  by simp_all

lemma ignoring_appends [appends_intros]: "appends f \<Longrightarrow> appends (ignoring f)"
  by (auto simp: appends_def ignoring_def yields_def bindE_Inr_iff)

lemma own_buffer_appends [appends_intros]: "appends f \<Longrightarrow> appends (own_buffer f)"
  unfolding appends_def own_buffer_def yields_def bindE_Inr_iff by (fastforce dest: spec [of _ "_\<lparr>buffer := None\<rparr>"])

lemma given_appends [appends_intros]: "(\<And>x. appends (f x)) \<Longrightarrow> appends (given m f)"
  by (auto simp: appends_def given_def intro!: bind_yields)

lemma after_appends [appends_intros]: "appends f \<Longrightarrow> (\<And>r. appends (g r)) \<Longrightarrow> appends (after f g)"
  by (auto simp: appends_def after_def yields_def bindE_Inr_iff) (metis case_prodD prefix_order.order_trans)

lemma separated_appends: "list_all appends fs \<Longrightarrow> list_all appends (separated fs)"
  by (induction fs rule: separated.induct) (auto intro: appends_intros)

lemma say_label_appends [appends_intros]:
  "appends (say_name l)" "appends (say_redirected a m)" "appends (say_label a ident)" "appends (say_set_label a ident)"
proof -
  show name: "appends (say_name l)" for l by (rule appendsI) (simp add: say_name_def Let_def)
  show redirected: "appends (say_redirected a m)" for m by (simp add: say_redirected_def appends_intros name)
  then show "appends (say_label a ident)" by (simp add: say_label_def)
  with redirected show "appends (say_set_label a ident)" by (auto simp: say_set_label_def intro!: appends_intros)
qed

lemma more_appends [appends_intros]:
  "appends (say_displacement a ident)" "appends (say_goto t e k stop)" "appends (condition_name cond)" "appends (check_print a e n)"
  "appends (callee a x)" "appends (star kinds x)"
  unfolding say_displacement_def say_goto_def condition_name_def check_print_def callee_def star_def
  by (auto intro!: appends_intros split: store_kind.split)

lemma if_expression_appends [appends_intros]: "appends (if_expression a cond e)"
  unfolding if_expression_def compare_text_def Let_def by (auto split: option.split intro!: appends_intros)

lemma call_params_appends [appends_intros]: "appends (call_params a e call)"
  unfolding call_params_def by (intro appends_intros separated_appends) (auto simp: list_all_iff intro!: appends_intros)

lemma direct_cases_append [appends_intros]:
  "appends (output_3_labels a e n symbol)" "appends (output_2_labels a e n symbol)" "appends (output_load a e n)" "appends (output_store a e n)"
  "appends (output_gep a e n)" "appends (output_mul a e n)" "appends (output_not a e n)" "appends (output_jmp a e n)" "appends (output_jmpt a e n)"
  "appends (output_cmp a e n)" "appends (output_icmp a e n)" "appends (output_test a e n)" "appends (output_bc a e n)" "appends (output_ret a e n)"
  unfolding output_load_def output_store_def output_2_labels_def output_3_labels_def output_gep_def output_mul_def output_not_def output_jmp_def
    output_jmpt_def output_cmp_def output_icmp_def output_test_def output_bc_def output_ret_def
  by (intro appends_intros)+

lemma output_if_appends [appends_intros]: "appends (output_if a e n)"
  unfolding output_if_def
  by (intro appends_intros) (auto split: option.split intro!: appends_intros)

lemma output_call_appends [appends_intros]: "appends (output_call a e n)"
  unfolding output_call_def Let_def by (rule after_appends) (auto split: option.split intro!: appends_intros)

lemma output_opcode_appends [appends_intros]: "appends (output_opcode a e n)"
  by (cases "opcode (instruction e)") (simp_all add: output_opcode_def appends_intros)

lemma goto_next_appends [appends_intros]: "appends (goto_next a e n)"
  unfolding goto_next_def by (auto split: list.split intro!: appends_intros)

section \<open>Labels and the jumps to them\<close>

lemma in_turn_append: "in_turn (fs @ gs) s = bindE (in_turn fs s) (\<lambda>(failed, s). if failed then Inr (True, s) else in_turn gs s)"
  by (induction fs arbitrary: s) (auto simp: bindE_assoc intro!: bindE_cong)

text \<open>\<open>puts x f\<close>: what \<open>f\<close> writes contains \<open>x\<close>.\<close>

definition puts :: "string \<Rightarrow> out \<Rightarrow> bool" where
  "puts x f \<longleftrightarrow> (\<forall>s r t. f s = Inr (r, t) \<longrightarrow> (\<exists>p q. written t = written s @ p @ x @ q))"

lemma putsI: "(\<And>s r t. f s = Inr (r, t) \<Longrightarrow> \<exists>p q. written t = written s @ p @ x @ q) \<Longrightarrow> puts x f"
  by (simp add: puts_def)

lemma putsD: "puts x f \<Longrightarrow> f s = Inr (r, t) \<Longrightarrow> sublist x (written t)"
  unfolding puts_def sublist_def by (metis append.assoc)

lemma puts_say: "puts x (say x)"
  unfolding puts_def say_def by (auto intro: exI [of _ "[]"])

lemma puts_given: "(\<And>y. m = Inr y \<Longrightarrow> puts x (f y)) \<Longrightarrow> puts x (given m f)"
  by (auto simp: puts_def given_def bindE_Inr_iff)

lemma puts_own_buffer: "puts x f \<Longrightarrow> puts x (own_buffer f)"
  by (rule putsI) (auto simp: own_buffer_def bindE_Inr_iff puts_def, metis out_s.select_convs(1) out_s.surjective out_s.update_convs(2))

lemma puts_ignoring: "puts x f \<Longrightarrow> puts x (ignoring f)"
  by (auto simp: puts_def ignoring_def bindE_Inr_iff)

lemma puts_first:
  assumes "puts x f" "list_all appends fs"
  shows "puts x (in_turn (f # fs))"
proof (rule putsI)
  fix s r t assume "in_turn (f # fs) s = Inr (r, t)"
  then obtain r1 s1 where f: "f s = Inr (r1, s1)" and "s1 = t \<or> in_turn fs s1 = Inr (r, t)"
    by (auto simp: bindE_Inr_iff split: if_splits)
  then have "prefix (written s1) (written t)" using assms(2) by (auto dest: appendsD [OF in_turn_appends])
  then show "\<exists>p q. written t = written s @ p @ x @ q" using assms(1) f by (fastforce simp: puts_def prefix_def)
qed

lemma puts_later:
  assumes "\<And>s r t. f s = Inr (r, t) \<Longrightarrow> \<not> r" "appends f" "puts x (in_turn fs)"
  shows "puts x (in_turn (f # fs))"
proof (rule putsI)
  fix s r t assume "in_turn (f # fs) s = Inr (r, t)"
  then obtain s1 where f: "f s = Inr (False, s1)" and fs: "in_turn fs s1 = Inr (r, t)"
    by (auto simp: bindE_Inr_iff dest: assms(1) split: if_splits)
  obtain u where "written s1 = written s @ u" using appendsD [OF assms(2) f] by (auto simp: prefix_def)
  moreover obtain p q where "written t = written s1 @ p @ x @ q" using assms(3) fs unfolding puts_def by blast
  ultimately show "\<exists>p q. written t = written s @ p @ x @ q" by (metis append.assoc)
qed

lemma puts_one_of:
  assumes "k \<in> set ks" "puts x (f k)" "\<And>k. appends (f k)" "list_all appends gs"
  shows "puts x (in_turn (map (\<lambda>k. ignoring (f k)) ks @ gs))"
  using assms(1)
proof (induction ks)
  case (Cons j ks)
  have all: "list_all appends (map (\<lambda>k. ignoring (f k)) ks @ gs)"
    using assms(3,4) by (auto simp: list_all_iff intro!: appends_intros)
  have "puts x (in_turn (ignoring (f k) # map (\<lambda>k. ignoring (f k)) ks @ gs))"
    by (rule puts_first [OF puts_ignoring [OF assms(2)] all])
  moreover have "puts x (in_turn (ignoring (f j) # map (\<lambda>k. ignoring (f k)) ks @ gs))" if "k \<in> set ks"
    by (rule puts_later [OF _ _ Cons.IH [OF that]]) (use assms(3) in \<open>auto simp: ignoring_def bindE_Inr_iff intro!: appends_intros\<close>)
  ultimately show ?case using Cons.prems by (auto simp del: in_turn.simps)
qed simp

lemma output_inst_appends [appends_intros]: "appends (output_inst_in_c a n)"
  unfolding output_inst_in_c_def by (auto split: prod.split intro!: appends_intros)

lemma output_inst_label:
  assumes "\<And>e. at_int (inst_log_entry (arg_self a)) n = Inr e \<Longrightarrow> label_line (line_end a) n e = x"
  shows "puts x (output_inst_in_c a n)"
proof -
  have "puts x (in_turn ([say u, say v, say x] @ fs))" if "list_all appends fs" for u v fs
    unfolding append.simps
    by (intro puts_later puts_first that basic_appends puts_say) (auto simp: say_def)
  moreover have "list_all appends (if b then [output_opcode a e n, goto_next a e n] else [])" for b e
    by (simp add: appends_intros)
  ultimately show ?thesis using assms
    unfolding output_inst_in_c_def by (auto intro!: puts_own_buffer puts_given)
qed

lemma label_line_target:
  assumes "n \<in> set (prev e)" "n \<noteq> 0" "n \<noteq> m - 1"
  shows "label_line cr m e = ''label'' @ label_no m @ '':'' @ cr"
proof (cases "prev e")
  case (Cons p ps)
  then show ?thesis using assms by (cases ps) (auto simp: label_line_def)
qed (use assms in simp)

text \<open>
  C34. In the C text of a function every jump that leaves the order of the log has its
  label: when an entry of a log with mutual links, as process_block leaves it, leads to an
  entry of the function other than the next, the text holds the line of the label of that
  entry, whatever the instructions and labels are.
\<close>
theorem output_function_body_labels:
  assumes "output_function_body a start final s = Inr (r, t)"
    and "linked (inst_log_entry (arg_self a))"
    and "0 < start" "n < length (inst_log_entry (arg_self a))" "n \<noteq> 0"
    and "m \<in> set (next_inst (inst_log_entry (arg_self a) ! n))" "m \<in> {start..final}" "m \<noteq> int n + 1"
  shows "sublist (''label'' @ label_no m @ '':'' @ newline) (written t)"
proof -
  let ?log = "inst_log_entry (arg_self a)" and ?a = "a\<lparr>line_end := newline\<rparr>"
  have "final \<noteq> 0" using assms(3,7) by auto
  have "label_line newline m e = ''label'' @ label_no m @ '':'' @ newline" if e: "at_int ?log m = Inr e" for e
  proof (rule label_line_target)
    have "nat m < length ?log" "e = ?log ! nat m" "int (nat m) = m" using e by (auto simp: at_int_Inr_iff)
    then show "int n \<in> set (prev e)" using linkedD [OF assms(2) assms(4), of "nat m"] assms(6) by simp
  qed (use assms(5,8) in auto)
  then have "puts (''label'' @ label_no m @ '':'' @ newline) (output_inst_in_c ?a m)"
    by (intro output_inst_label) simp
  then have "puts (''label'' @ label_no m @ '':'' @ newline)
      (in_turn (map (\<lambda>n. ignoring (output_inst_in_c ?a n)) [start .. final] @ [say (''}'' @ newline @ newline)]))"
    by (intro puts_one_of [where k = m]) (use assms(7) in \<open>auto intro!: appends_intros\<close>)
  then show ?thesis
    using assms(1,3) \<open>final \<noteq> 0\<close> by (auto simp: output_function_body_def dest: putsD)
qed

section \<open>What single instructions print\<close>

lemma in_turn_snoc:
  assumes "in_turn (fs @ [g]) s = Inr (False, t)"
  obtains u where "in_turn fs s = Inr (False, u)" "g u = Inr (False, t)"
  using assms by (auto simp: in_turn_append bindE_Inr_iff split: if_splits prod.splits)

lemma output_branch_ends:
  assumes "opcode (instruction e) \<in> {OP_IF, OP_BC}" "next_inst e = [m, k]" "output_opcode a e n s = Inr (False, t)"
  shows "suffix (tab @ ''else goto label'' @ label_no m @ '';'' @ line_end a) (written t)"
proof -
  obtain fs where "output_opcode a e n = in_turn (fs @ [say_goto (tab @ ''else goto '') e 0 (line_end a)])"
    using assms(1) unfolding output_opcode_def output_if_def output_bc_def Let_def
    by (elim insertE emptyE) (simp_all only: opcode.case, (metis append.simps)+)
  with assms(3) obtain u where "say_goto (tab @ ''else goto '') e 0 (line_end a) u = Inr (False, t)"
    by (metis in_turn_snoc)
  then show ?thesis using assms(2) by (auto simp: say_goto_def given_def say_def suffix_def)
qed


text \<open>
  C37. The text of a branch ends with a goto to the instruction behind it, but when that one
  has no other predecessor its text has no label: the C text refers to a label it does not
  have.
\<close>
theorem else_goto_unlabelled:
  assumes "output_inst_in_c a n s = Inr (False, t)" "at_int (inst_log_entry (arg_self a)) n = Inr e"
    and "opcode (instruction e) \<in> {OP_IF, OP_BC}" "value_type (value3 e) \<in> {0..6}"
    and "next_inst e = [n + 1, k]" "prev e' = [n]"
  shows "suffix (tab @ ''else goto label'' @ label_no (n + 1) @ '';'' @ line_end a) (written t) \<and>
    label_line (line_end a) (n + 1) e' = ''''"
proof
  from assms(1,2,4) obtain ins rest s1 t1 where
    run: "in_turn ([say ins, say (line_end a), say (label_line (line_end a) n e), output_opcode a e n, goto_next a e n]) s1 = Inr (False, t1)"
    and t: "written t = written t1"
    by (auto simp: output_inst_in_c_def own_buffer_def given_def bindE_Inr_iff split: prod.splits simp del: in_turn.simps)
  from run have "in_turn ([say ins, say (line_end a), say (label_line (line_end a) n e), output_opcode a e n] @ [goto_next a e n]) s1 = Inr (False, t1)"
    by simp
  then obtain u where u: "in_turn ([say ins, say (line_end a), say (label_line (line_end a) n e)] @ [output_opcode a e n]) s1 = Inr (False, u)"
    and "goto_next a e n u = Inr (False, t1)"
    by (elim in_turn_snoc) simp
  with assms(5) have "t1 = u" by (simp add: goto_next_def say_def)
  from u obtain v where "output_opcode a e n v = Inr (False, u)" by (elim in_turn_snoc)
  from output_branch_ends [OF assms(3,5) this] show "suffix (tab @ ''else goto label'' @ label_no (n + 1) @ '';'' @ line_end a) (written t)"
    using t \<open>t1 = u\<close> by simp
qed (use assms(6) in \<open>simp add: label_line_def\<close>)

text \<open>
  C38. A comparison whose second source is a number is printed with that number on both
  sides, whatever its first source is: a first source in memory or behind a port only puts a
  star before its side.
\<close>
theorem if_expression_immediate:
  assumes "opcode (instruction e) \<in> {OP_CMP, OP_ICMP}" "comparison cond = Some c"
    and "store (srcB (instruction e)) = STORE_DIRECT"
  shows "if_expression a cond e s =
    (let number = ''0x'' @ hex64 (index (srcB (instruction e)));
         through = (\<lambda>x. if indirect x \<in> {IND_MEM, IND_IO} then ''*'' else '''') in
     Inr (False, s\<lparr>written := written s @ ''('' @ through (srcB (instruction e)) @ number @ c @
       through (srcA (instruction e)) @ number @ '') ''\<rparr>))"
  using assms unfolding if_expression_def compare_text_def
  by (auto simp: Let_def own_buffer_def say_def star_def)

section \<open>The line of a binary operation\<close>

definition value_label :: "c_args \<Rightarrow> memory_s \<Rightarrow> label_s c" where
  "value_label a v = bindE (label_of (redirects a) (arg_labels a) (value_id v)) (\<lambda>(_, l). Inr l)"

text \<open>The values of an entry have these labels, and these have names.\<close>

definition line_labels :: "c_args \<Rightarrow> inst_log_entry_s \<Rightarrow> label_s \<Rightarrow> label_s \<Rightarrow> label_s \<Rightarrow> bool" where
  "line_labels a e l3 l1 l2 \<longleftrightarrow> value_label a (value3 e) = Inr l3 \<and> value_label a (value1 e) = Inr l1 \<and> value_label a (value2 e) = Inr l2 \<and>
     proper_label l3 \<and> proper_label l1 \<and> proper_label l2"

definition same_label :: "label_s \<Rightarrow> label_s \<Rightarrow> bool" where
  "same_label l k \<longleftrightarrow> scope l = scope k \<and> label_value l = label_value k \<and> (scope l \<in> {1, 2, 3} \<longrightarrow> label_type l = label_type k)"

definition label_name :: "label_s \<Rightarrow> string" where
  "label_name l = the (label_text l)"

lemma digits_of_length: "2 \<le> b \<Longrightarrow> n < b ^ Suc k \<Longrightarrow> length (digits_of b n) \<le> Suc k"
proof (induction k arbitrary: n)
  case (Suc k)
  have "n div b < b ^ Suc k" using Suc.prems by (simp add: div_less_iff_less_mult mult.commute)
  then have "length (digits_of b (n div b)) \<le> Suc k" using Suc by simp
  then show ?case by (subst digits_of.simps) auto
qed (subst digits_of.simps, auto)

lemma hex64_length: "length (hex64 x) \<le> 16" "length (hex64_04 x) \<le> 16"
proof -
  have "unat x < 16 ^ Suc 15" using unsigned_less [of x] by simp
  then show "length (hex64 x) \<le> 16" using digits_of_length [of 16 "unat x" 15] by (simp add: hex64_def)
  then show "length (hex64_04 x) \<le> 16" by (simp add: hex64_04_def pad_def)
qed

lemma proper_label_name:
  assumes "proper_label l"
  shows "label_text l = Some (label_name l)" "length (label_name l) < 1022" "CHR '' '' \<notin> set (label_name l)"
proof -
  obtain p c e where start: "label_start l = (p, c, e)" by (metis prod_cases3)
  let ?d = "if scope l = 3 \<and> label_type l = 3 then hex64 (label_value l) else hex64_04 (label_value l)"
  have name: "label_text l = Some (p @ c # e @ ?d)" by (rule label_text_start [OF assms start])
  then show "label_text l = Some (label_name l)" by (simp add: label_name_def)
  have short: "length p \<le> 11 \<and> length e \<le> 1 \<and> CHR '' '' \<notin> set (p @ c # e)"
    using start by (auto simp: label_start_def split: if_splits)
  then show "length (label_name l) < 1022"
    using name hex64_length [of "label_value l"] by (auto simp: label_name_def)
  have "set ?d \<subseteq> hex_chars" using hex64_chars hex64_04_chars by auto
  moreover have "CHR '' '' \<notin> hex_chars" by (simp add: hex_chars_def)
  ultimately show "CHR '' '' \<notin> set (label_name l)" using name short by (auto simp: label_name_def)
qed

lemma say_label_text:
  assumes "value_label a v = Inr l" "proper_label l" "say_label a (value_id v) s = Inr (r, t)"
  shows "written t = written s @ label_name l"
  using assms proper_label_name [OF assms(2)]
  by (auto simp: value_label_def label_of_def say_label_def say_redirected_def given_def bindE_Inr_iff say_name_def
      label_to_string_def snprintf_def Let_def)

definition binary_line :: "string \<Rightarrow> label_s \<Rightarrow> label_s \<Rightarrow> string \<Rightarrow> label_s \<Rightarrow> string" where
  "binary_line cr l3 l1 symbol l2 =
     tab @ label_name l3 @ '' = '' @ label_name l1 @ '' '' @ symbol @ '' '' @ label_name l2 @ '';'' @ cr"

lemma output_3_labels_text:
  assumes "output_3_labels a e n symbol s = Inr (False, t)" "line_labels a e l3 l1 l2"
  shows "written t = written s @ binary_line (line_end a) l3 l1 symbol l2"
proof -
  from assms(1) obtain s0 s1 s2 s3 where "written s0 = written s" "say_label a (value_id (value3 e)) (s0\<lparr>written := written s @ tab\<rparr>) = Inr (False, s1)"
    "say_label a (value_id (value1 e)) (s1\<lparr>written := written s1 @ '' = ''\<rparr>) = Inr (False, s2)"
    "say_label a (value_id (value2 e)) (s2\<lparr>written := written s2 @ '' '' @ symbol @ '' ''\<rparr>) = Inr (False, s3)"
    "written t = written s3 @ '';'' @ line_end a"
    by (auto simp: output_3_labels_def need_def check_print_def given_def refuse_def say_def bindE_Inr_iff split: if_splits)
  note run = this
  have l: "value_label a (value3 e) = Inr l3" "value_label a (value1 e) = Inr l1" "value_label a (value2 e) = Inr l2"
    "proper_label l3" "proper_label l1" "proper_label l2" using assms(2) by (simp_all add: line_labels_def)
  show ?thesis
    using say_label_text [OF l(1,4) run(2)] say_label_text [OF l(2,5) run(3)] say_label_text [OF l(3,6) run(4)] run(5)
    by (simp add: binary_line_def)
qed

lemma stop_inject: "c \<notin> set p \<Longrightarrow> c \<notin> set q \<Longrightarrow> p @ c # xs = q @ c # ys \<longleftrightarrow> p = q \<and> xs = ys"
proof (induction p arbitrary: q)
  case Nil
  then show ?case by (cases q) auto
next
  case (Cons d p)
  then show ?case by (cases q) auto
qed

lemma label_name_inject: "proper_label l \<Longrightarrow> proper_label k \<Longrightarrow> label_name l = label_name k \<Longrightarrow> same_label l k"
  using label_text_injective [of l k] by (simp add: proper_label_name same_label_def)

text \<open>
  C36. The C line of a binary operation identifies what it stands for: two operations that
  are printed as the same line have the same operator and the same labels, up to what the
  names of labels show, for the result and both operands.
\<close>
theorem output_3_labels_injective:
  assumes "output_3_labels a e n symbol s = Inr (False, t)" "line_labels a e l3 l1 l2" "CHR '' '' \<notin> set symbol"
    and "output_3_labels a e' n' symbol' s = Inr (False, t')" "line_labels a e' k3 k1 k2" "CHR '' '' \<notin> set symbol'"
    and "written t = written t'"
  shows "symbol = symbol' \<and> same_label l3 k3 \<and> same_label l1 k1 \<and> same_label l2 k2"
proof -
  have no: "CHR '' '' \<notin> set (label_name l)" if "l \<in> {l3, l1, l2, k3, k1, k2}" for l
    using that assms(2,5) proper_label_name(3) by (auto simp: line_labels_def)
  have "binary_line (line_end a) l3 l1 symbol l2 = binary_line (line_end a) k3 k1 symbol' k2"
    using output_3_labels_text [OF assms(1,2)] output_3_labels_text [OF assms(4,5)] assms(7) by simp
  then have "label_name l3 = label_name k3 \<and> label_name l1 = label_name k1 \<and> symbol = symbol' \<and> label_name l2 = label_name k2"
    using no assms(3,6) by (simp add: binary_line_def stop_inject)
  with assms(2,5) show ?thesis by (simp add: line_labels_def label_name_inject)
qed

section \<open>A whole function\<close>

text \<open>\<open>comes_out f\<close>: \<open>f\<close> returns, with or without an error, whatever was written before.\<close>

definition comes_out :: "out \<Rightarrow> bool" where
  "comes_out f \<longleftrightarrow> (\<forall>s. \<exists>r t. f s = Inr (r, t))"

named_theorems comes_out_intros \<open>functions that return\<close>

lemma basic_comes_out [comes_out_intros]: "comes_out (say t)" "comes_out give_up" "comes_out (refuse b)" "comes_out (star kinds x)" "b \<Longrightarrow> comes_out (need b)"
  unfolding comes_out_def say_def give_up_def need_def refuse_def star_def by auto

lemma given_comes_out [comes_out_intros]: "m = Inr x \<Longrightarrow> comes_out (f x) \<Longrightarrow> comes_out (given m f)"
  by (simp add: comes_out_def given_def)

lemma in_turn_comes_out [comes_out_intros]: "list_all comes_out fs \<Longrightarrow> comes_out (in_turn fs)"
proof (induction fs)
  case (Cons f fs)
  then have "comes_out f" "comes_out (in_turn fs)" by auto
  show ?case unfolding comes_out_def
  proof
    fix s
    obtain r t where "f s = Inr (r, t)" using \<open>comes_out f\<close> unfolding comes_out_def by blast
    moreover obtain r' t' where "in_turn fs t = Inr (r', t')" using \<open>comes_out (in_turn fs)\<close> unfolding comes_out_def by blast
    ultimately show "\<exists>r t. in_turn (f # fs) s = Inr (r, t)" by auto
  qed
qed (auto simp: comes_out_def)

lemma call_comes_out [comes_out_intros]: "comes_out f \<Longrightarrow> comes_out (ignoring f)" "comes_out f \<Longrightarrow> comes_out (own_buffer f)"
  "comes_out f \<Longrightarrow> (\<And>r. comes_out (g r)) \<Longrightarrow> comes_out (after f g)"
proof -
  show "comes_out f \<Longrightarrow> comes_out (ignoring f)" unfolding comes_out_def ignoring_def by (metis (no_types, lifting) bindE.simps(2) case_prod_conv)
  show "comes_out f \<Longrightarrow> comes_out (own_buffer f)" unfolding comes_out_def own_buffer_def by (metis (no_types, lifting) bindE.simps(2) case_prod_conv)
  show "comes_out f \<Longrightarrow> (\<And>r. comes_out (g r)) \<Longrightarrow> comes_out (after f g)"
    unfolding comes_out_def after_def by (metis (no_types, lifting) bindE.simps(2) case_prod_conv)
qed

lemma list_comes_out [comes_out_intros]: "list_all comes_out []" "comes_out f \<Longrightarrow> list_all comes_out fs \<Longrightarrow> list_all comes_out (f # fs)"
  by simp_all

lemma separated_comes_out: "list_all comes_out fs \<Longrightarrow> list_all comes_out (separated fs)"
  by (induction fs rule: separated.induct) (auto intro: comes_out_intros)

text \<open>A place of the redirections that leads to a label with a name, but not to label 0.\<close>

definition named :: "c_args \<Rightarrow> label_redirect_s c \<Rightarrow> bool" where
  "named a m = (case m of Inl e \<Rightarrow> False
     | Inr r \<Rightarrow> to_int (redirect r) \<noteq> 0 \<and> (case at_int (arg_labels a) (to_int (redirect r)) of Inl e \<Rightarrow> False | Inr l \<Rightarrow> proper_label l))"

definition value_named :: "c_args \<Rightarrow> memory_s \<Rightarrow> bool" where
  "value_named a v = named a (at (redirects a) (unat (value_id v)))"

definition call_ready :: "c_args \<Rightarrow> operand_s \<Rightarrow> extension_call_s option \<Rightarrow> bool" where
  "call_ready a x ext \<longleftrightarrow> (plain x \<longrightarrow>
     (case ext of None \<Rightarrow> False
      | Some call \<Rightarrow> relocated x = 1 \<longrightarrow> store x \<noteq> STORE_PTR \<and>
          (store x = STORE_DIRECT \<longrightarrow> unat (index x) < length (external_entry_points (arg_self a))) \<and>
          list_all (\<lambda>i. named a (at_int (redirects a) i)) (params_reg call)))"

text \<open>
  An instruction as it is when the output starts: it is one \<open>print_inst\<close> accepts, its values have
  labels, and the branches on flags have been replaced.
\<close>

definition c_ready :: "c_args \<Rightarrow> int \<Rightarrow> bool" where
  "c_ready a n = (case at_int (inst_log_entry (arg_self a)) n of Inl e \<Rightarrow> False | Inr e \<Rightarrow>
     (case print_inst (arg_self a) (instruction e) n (Some (arg_labels a)) of Inl e \<Rightarrow> False | Inr (r, _) \<Rightarrow> r = 0) \<and>
     value_named a (value1 e) \<and> value_named a (value2 e) \<and> value_named a (value3 e) \<and>
     opcode (instruction e) \<noteq> OP_IF \<and> (opcode (instruction e) = OP_JMP \<longrightarrow> next_inst e \<noteq> []) \<and>
     (opcode (instruction e) = OP_BC \<longrightarrow> 2 \<le> length (next_inst e)) \<and>
     (opcode (instruction e) = OP_ICMP \<longrightarrow> predicate (instruction e) \<in> {0..15}) \<and>
     (opcode (instruction e) = OP_CALL \<longrightarrow> call_ready a (srcA (instruction e)) (extensions a n)))"

lemma say_name_comes_out: "proper_label l \<Longrightarrow> comes_out (say_name l)"
  using proper_label_name(1) by (auto simp: comes_out_def say_name_def Let_def)

lemma say_redirected_comes_out: "named a m \<Longrightarrow> comes_out (say_redirected a m)"
  by (auto simp: named_def say_redirected_def split: sum.splits intro!: given_comes_out say_name_comes_out)

lemma say_label_comes_out: "value_named a v \<Longrightarrow> comes_out (say_label a (value_id v))"
  by (simp add: value_named_def say_label_def say_redirected_comes_out)

lemma say_set_label_comes_out: "value_named a v \<Longrightarrow> comes_out (say_set_label a (value_id v))"
  using say_label_comes_out [of a v]
  by (auto simp: value_named_def named_def say_set_label_def split: sum.splits intro!: comes_out_intros)

lemma say_displacement_comes_out: "value_named a v \<Longrightarrow> comes_out (say_displacement a (value_id v))"
  by (auto simp: value_named_def named_def say_displacement_def label_of_def split: sum.splits intro!: comes_out_intros)

lemma say_goto_comes_out: "k < length (next_inst e) \<Longrightarrow> comes_out (say_goto t e k stop)"
  by (auto simp: say_goto_def intro!: comes_out_intros)

lemma check_print_comes_out:
  "print_inst (arg_self a) (instruction e) n (Some (arg_labels a)) = Inr (r, u) \<Longrightarrow> comes_out (check_print a e n)"
  by (auto simp: check_print_def intro!: comes_out_intros)

lemmas named_comes_out = say_redirected_comes_out say_label_comes_out say_set_label_comes_out say_displacement_comes_out
  say_goto_comes_out check_print_comes_out

lemma if_expression_comes_out: "value_named a (value1 e) \<Longrightarrow> value_named a (value2 e) \<Longrightarrow> comes_out (if_expression a cond e)"
  unfolding if_expression_def compare_text_def Let_def
  by (auto split: option.split intro!: comes_out_intros named_comes_out)

lemma condition_name_comes_out: "cond \<in> {0..15} \<Longrightarrow> comes_out (condition_name cond)"
  by (auto simp: condition_name_def condition_table_def at_int_def intro!: comes_out_intros)

lemma output_call_comes_out:
  assumes "call_ready a (srcA (instruction e)) (extensions a n)" "value_named a (value1 e)" "value_named a (value3 e)"
    and "print_inst (arg_self a) (instruction e) n (Some (arg_labels a)) = Inr (r, u)"
  shows "comes_out (output_call a e n)"
proof -
  have params: "comes_out (call_params a e call)" if "list_all (\<lambda>i. named a (at_int (redirects a) i)) (params_reg call)" for call
    unfolding call_params_def using that
    by (intro comes_out_intros separated_comes_out) (auto simp: list_all_iff intro!: comes_out_intros named_comes_out)
  have "comes_out (callee a x)" if "store x \<noteq> STORE_PTR" "store x = STORE_DIRECT \<longrightarrow> unat (index x) < length (external_entry_points (arg_self a))" for x
    using that by (cases "store x") (auto simp: callee_def intro!: comes_out_intros)
  then show ?thesis
    using assms unfolding output_call_def Let_def call_ready_def
    by (intro comes_out_intros check_print_comes_out)
      (auto split: option.splits intro!: comes_out_intros named_comes_out params)
qed

lemma output_opcode_comes_out:
  assumes "c_ready a n" "at_int (inst_log_entry (arg_self a)) n = Inr e"
  shows "comes_out (output_opcode a e n)"
proof -
  from assms obtain u where print: "print_inst (arg_self a) (instruction e) n (Some (arg_labels a)) = Inr (0, u)"
    and val: "value_named a (value1 e)" "value_named a (value2 e)" "value_named a (value3 e)"
    by (auto simp: c_ready_def split: sum.splits)
  note rules = comes_out_intros named_comes_out val check_print_comes_out [OF print]
  have bc: "next_inst e \<noteq> [] \<and> Suc 0 < length (next_inst e)" if "opcode (instruction e) = OP_BC"
    using assms that by (auto simp: c_ready_def)
  have "printable (instruction e)" using print_inst_accepts [OF print] by (simp split: if_splits)
  then show ?thesis using assms
    by (cases "opcode (instruction e)")
      (simp_all add: output_opcode_def printable_def all_direct_def plain_def rules if_expression_comes_out condition_name_comes_out
        output_call_comes_out [OF _ val(1,3) print] c_ready_def output_load_def output_store_def output_2_labels_def output_3_labels_def
        output_gep_def output_mul_def output_not_def output_jmp_def output_jmpt_def output_cmp_def output_icmp_def output_test_def output_bc_def output_ret_def bc)
qed

lemma output_inst_comes_out:
  assumes "c_ready a n"
  shows "comes_out (output_inst_in_c a n)"
proof -
  from assms obtain e where e: "at_int (inst_log_entry (arg_self a)) n = Inr e" by (auto simp: c_ready_def split: sum.splits)
  from assms e obtain r ins where "write_inst (arg_self a) \<lparr>chars = '''', str_max = 1023\<rparr> (instruction e) n (Some (arg_labels a)) = Inr (r, ins)"
    by (auto simp: c_ready_def print_inst_def bindE_Inr_iff split: sum.splits)
  moreover have "comes_out (goto_next a e n)"
    unfolding goto_next_def by (auto split: list.split intro!: comes_out_intros say_goto_comes_out)
  ultimately show ?thesis using e output_opcode_comes_out [OF assms e]
    unfolding output_inst_in_c_def by (auto intro!: comes_out_intros)
qed

lemma c_ready_line: "c_ready (a\<lparr>line_end := cr\<rparr>) n = c_ready a n"
proof -
  have "named (a\<lparr>line_end := cr\<rparr>) m = named a m" for m by (simp add: named_def cong: sum.case_cong)
  then have "call_ready (a\<lparr>line_end := cr\<rparr>) x ext = call_ready a x ext" "value_named (a\<lparr>line_end := cr\<rparr>) v = value_named a v" for x ext v
    by (simp_all add: call_ready_def value_named_def cong: option.case_cong)
  then show ?thesis by (simp add: c_ready_def cong: sum.case_cong)
qed

lemma in_turn_ignoring: "in_turn (map (\<lambda>n. ignoring (f n)) ns) s = Inr (r, t) \<Longrightarrow> \<not> r"
  by (induction ns arbitrary: s) (auto simp: ignoring_def bindE_Inr_iff)

lemma output_insts_come_out:
  assumes "list_all (c_ready a) ns"
  shows "comes_out (in_turn (map (\<lambda>n. ignoring (output_inst_in_c (a\<lparr>line_end := newline\<rparr>) n)) ns))"
  using assms by (auto simp: list_all_iff c_ready_line intro!: comes_out_intros output_inst_comes_out)

lemma output_body_comes_out:
  assumes "list_all (c_ready a) [start .. final]"
  shows "comes_out (output_function_body a start final)"
proof -
  let ?body = "map (\<lambda>n. ignoring (output_inst_in_c (a\<lparr>line_end := newline\<rparr>) n)) [start .. final]"
  have "\<exists>r t. output_function_body a start final s = Inr (r, t)" for s
  proof -
    obtain r t where "in_turn ?body s = Inr (r, t)" using output_insts_come_out [OF assms] unfolding comes_out_def by blast
    then show ?thesis by (cases r) (auto simp: output_function_body_def in_turn_append give_up_def say_def)
  qed
  then show ?thesis by (simp add: comes_out_def)
qed


end
