(* ===== verification/AstTree.thy ===== *)
theory AstTree
  imports Ast
begin

text \<open>
  \<open>cfg_to_ast\<close> keeps the tables well formed and comes to an end. A step changes the tables one after
  the other; \<open>good\<close> is the state in between and \<open>since\<close> how far the step has come. A step that makes no new object but
  follows a plain node makes the weight of the entries smaller.
\<close>

section \<open>Well-formed tables\<close>

text \<open>
  \<open>returns m Q\<close>: there is a result, and it satisfies \<open>Q\<close>.
\<close>

definition returns :: "'a c \<Rightarrow> ('a \<Rightarrow> bool) \<Rightarrow> bool" where
  "returns m Q \<longleftrightarrow> (\<exists>x. m = Inr x \<and> Q x)"

lemma returns_simps [simp]: "returns (Inr x) Q \<longleftrightarrow> Q x" "\<not> returns (Inl e) Q"
  by (simp_all add: returns_def)

lemma returns_step: "returns m P \<Longrightarrow> (\<And>x. P x \<Longrightarrow> returns (f x) Q) \<Longrightarrow> returns (bindE m f) Q"
  by (auto simp: returns_def)

lemma returns_mono: "returns m P \<Longrightarrow> (\<And>x. P x \<Longrightarrow> Q x) \<Longrightarrow> returns m Q"
  by (auto simp: returns_def)

text \<open>
  How many entries each table may be referred to, with one more for the tables of \<open>S\<close>: there an
  entry is being filled that is not counted yet.
\<close>

definition limit :: "ast_type set \<Rightarrow> nat \<Rightarrow> 'a ast_s_scheme \<Rightarrow> ast_type \<Rightarrow> nat" where
  "limit S N a t = (if t \<in> S then 1 else 0) +
     (case t of AST_TYPE_NODE \<Rightarrow> N | AST_TYPE_CONTAINER \<Rightarrow> container_size a | AST_TYPE_IF_THEN_ELSE \<Rightarrow> if_then_else_size a
      | AST_TYPE_IF_THEN_GOTO \<Rightarrow> if_then_goto_size a | AST_TYPE_LOOP \<Rightarrow> loop_size a | _ \<Rightarrow> 0)"

definition below :: "nat \<Rightarrow> int \<Rightarrow> bool" where
  "below n k \<longleftrightarrow> 0 \<le> k \<and> k < int n"

definition ref_in :: "(ast_type \<Rightarrow> nat) \<Rightarrow> ast_type_index_s \<Rightarrow> bool" where
  "ref_in L x \<longleftrightarrow> obj_type x = AST_TYPE_EMPTY \<or> below (L (obj_type x)) (obj_index x)"

definition parent_in :: "(ast_type \<Rightarrow> nat) \<Rightarrow> ast_type_parent_s \<Rightarrow> bool" where
  "parent_in L p \<longleftrightarrow> par_type p = AST_TYPE_EMPTY \<or> par_type p = AST_TYPE_CONTAINER \<and> below (L AST_TYPE_CONTAINER) (par_index p)"

definition container_in :: "(ast_type \<Rightarrow> nat) \<Rightarrow> ast_container_s \<Rightarrow> bool" where
  "container_in L c \<longleftrightarrow> parent_in L (con_parent c) \<and> list_all (ref_in L) (con_object c)"

definition if_then_else_in :: "(ast_type \<Rightarrow> nat) \<Rightarrow> ast_if_then_else_s \<Rightarrow> bool" where
  "if_then_else_in L i \<longleftrightarrow> parent_in L (ite_parent i) \<and> ref_in L (expression_node i) \<and> ref_in L (if_then i) \<and> ref_in L (if_else i)"

definition if_then_goto_in :: "(ast_type \<Rightarrow> nat) \<Rightarrow> ast_if_then_goto_s \<Rightarrow> bool" where
  "if_then_goto_in L i \<longleftrightarrow> parent_in L (itg_parent i) \<and> ref_in L (itg_expression_node i) \<and> ref_in L (if_then_goto i)"

definition loop_in :: "(ast_type \<Rightarrow> nat) \<Rightarrow> ast_loop_s \<Rightarrow> bool" where
  "loop_in L i \<longleftrightarrow> ref_in L (first_node i) \<and> ref_in L (body i)"

definition entry_in :: "(ast_type \<Rightarrow> nat) \<Rightarrow> ast_entry_s \<Rightarrow> bool" where
  "entry_in L x \<longleftrightarrow> ent_type x = AST_TYPE_EMPTY \<or>
     ent_type x = AST_TYPE_CONTAINER \<and> below (L AST_TYPE_CONTAINER) (ent_index x) \<and> below (L AST_TYPE_NODE) (ent_node x)"

lemmas in_defs = ref_in_def parent_in_def container_in_def if_then_else_in_def if_then_goto_in_def loop_in_def entry_in_def

definition table_in :: "('a \<Rightarrow> bool) \<Rightarrow> 'a list \<Rightarrow> bool" where
  "table_in P xs \<longleftrightarrow> length xs = AST_SIZE \<and> list_all P xs"

definition tables_in :: "(ast_type \<Rightarrow> nat) \<Rightarrow> 'a ast_s_scheme \<Rightarrow> bool" where
  "tables_in L a \<longleftrightarrow> table_in (container_in L) (ast_container a) \<and> table_in (if_then_else_in L) (ast_if_then_else a) \<and>
     table_in (if_then_goto_in L) (ast_if_then_goto a) \<and> table_in (loop_in L) (ast_loop a) \<and> table_in (entry_in L) (ast_entry a)"

text \<open>
  A well-formed tree: everything refers to something that is there. It can be built on while no
  table but that of the containers is full.
\<close>

definition wf_ast :: "nat \<Rightarrow> 'a ast_s_scheme \<Rightarrow> bool" where
  "wf_ast N a \<longleftrightarrow> tables_in (limit {} N a) a \<and> container_size a \<le> AST_SIZE \<and>
     if_then_else_size a < AST_SIZE \<and> if_then_goto_size a < AST_SIZE \<and> loop_size a < AST_SIZE"

text \<open>The graphs the walk is made for: the links a node has according to its type.\<close>

definition ast_node :: "nat \<Rightarrow> control_flow_node_s \<Rightarrow> bool" where
  "ast_node N nd \<longleftrightarrow> below N (if_tail nd) \<and> list_all (\<lambda>l. below N (link_node l)) (link_next nd) \<and>
     (case type_of_entry nd of
        AST_TYPE_IF_THEN_ELSE \<Rightarrow> length (link_next nd) \<noteq> 1
      | AST_TYPE_IF_THEN_GOTO \<Rightarrow> 2 \<le> length (link_next nd) \<and>
          (is_loop_exit (link_next nd ! 0) \<noteq> 0 \<or> is_loop_exit (link_next nd ! 1) \<noteq> 0)
      | AST_TYPE_LOOP \<Rightarrow> 2 \<le> length (link_next nd)
      | AST_TYPE_LOOP_THEN_ELSE \<Rightarrow> length (link_next nd) \<noteq> 1
      | _ \<Rightarrow> True)"

definition ast_graph :: "control_flow_node_s list \<Rightarrow> bool" where
  "ast_graph nodes \<longleftrightarrow> list_all (ast_node (length nodes)) nodes"

text \<open>
  Plain nodes follow one another to the end: their rank goes down. With the ranks the entries in use
  have a weight.
\<close>

definition plain_ranks :: "(int \<Rightarrow> nat) \<Rightarrow> control_flow_node_s list \<Rightarrow> bool" where
  "plain_ranks rk nodes \<longleftrightarrow> (\<forall>n. rk n \<le> length nodes) \<and>
     (\<forall>n < length nodes. type_of_entry (nodes ! n) = AST_TYPE_NODE \<longrightarrow> link_next (nodes ! n) \<noteq> [] \<longrightarrow> rk (link_node (hd (link_next (nodes ! n)))) < rk (int n))"

definition entry_weight :: "(int \<Rightarrow> nat) \<Rightarrow> nat \<Rightarrow> ast_entry_s \<Rightarrow> nat" where
  "entry_weight rk N x = (if ent_type x = AST_TYPE_EMPTY then 0 else Suc (min N (rk (ent_node x))))"

definition weight :: "(int \<Rightarrow> nat) \<Rightarrow> nat \<Rightarrow> 'a ast_s_scheme \<Rightarrow> nat" where
  "weight rk N a = sum_list (map (entry_weight rk N) (ast_entry a))"

definition counted :: "'a ast_s_scheme \<Rightarrow> nat" where
  "counted a = container_size a + if_then_else_size a + if_then_goto_size a + loop_size a"

text \<open>The state between two steps, and how far a step has come from \<open>w0\<close>: with \<open>j\<close> entries changed.\<close>

definition good :: "ast_type set \<Rightarrow> nat \<Rightarrow> ast_walk_s \<Rightarrow> bool" where
  "good S N w \<longleftrightarrow> tables_in (limit S N w) w \<and> tmp_entry w < AST_SIZE \<and> container_size w < AST_SIZE \<and>
     if_then_else_size w < AST_SIZE \<and> if_then_goto_size w < AST_SIZE \<and> loop_size w < AST_SIZE"

text \<open>
  One table is full. When it is that of the containers, the branch or the loop that needed the
  container may be referred to but is not counted yet; otherwise every reference is to an object
  that is counted.
\<close>

definition full_tables :: "nat \<Rightarrow> 'a ast_s_scheme \<Rightarrow> bool" where
  "full_tables N a \<longleftrightarrow>
     (if container_size a = AST_SIZE
      then if_then_else_size a < AST_SIZE \<and> if_then_goto_size a < AST_SIZE \<and> loop_size a < AST_SIZE \<and>
        (\<exists>t \<in> {AST_TYPE_IF_THEN_ELSE, AST_TYPE_IF_THEN_GOTO, AST_TYPE_LOOP}. tables_in (limit {t} N a) a)
      else container_size a < AST_SIZE \<and> tables_in (limit {} N a) a \<and>
        (if_then_else_size a = AST_SIZE \<and> if_then_goto_size a < AST_SIZE \<and> loop_size a < AST_SIZE \<or>
         if_then_goto_size a = AST_SIZE \<and> if_then_else_size a < AST_SIZE \<and> loop_size a < AST_SIZE \<or>
         loop_size a = AST_SIZE \<and> if_then_else_size a < AST_SIZE \<and> if_then_goto_size a < AST_SIZE))"

text \<open>The objects that are being filled: one at most.\<close>

definition filling :: "ast_type set \<Rightarrow> bool" where
  "filling S \<longleftrightarrow> (\<exists>t \<in> {AST_TYPE_IF_THEN_ELSE, AST_TYPE_IF_THEN_GOTO, AST_TYPE_LOOP}. S \<subseteq> {t})"

lemma filling_simps [simp]: "filling {}" "filling {AST_TYPE_IF_THEN_ELSE}" "filling {AST_TYPE_IF_THEN_GOTO}" "filling {AST_TYPE_LOOP}"
  by (auto simp: filling_def)

lemma filling_node: "filling S \<Longrightarrow> AST_TYPE_NODE \<notin> S"
  by (auto simp: filling_def)

definition since :: "(int \<Rightarrow> nat) \<Rightarrow> nat \<Rightarrow> nat \<Rightarrow> ast_walk_s \<Rightarrow> ast_walk_s \<Rightarrow> bool" where
  "since rk N j w0 w \<longleftrightarrow> weight rk N w \<le> weight rk N w0 + j * Suc N \<and> container_size w0 \<le> container_size w \<and> counted w0 \<le> counted w"

definition outcome :: "(int \<Rightarrow> nat) \<Rightarrow> ast_type set \<Rightarrow> nat \<Rightarrow> nat \<Rightarrow> ast_walk_s \<Rightarrow> (ast_walk_s \<Rightarrow> bool) \<Rightarrow> bool \<times> ast_walk_s \<Rightarrow> bool" where
  "outcome rk S N j w0 P r \<longleftrightarrow>
     (case r of (full, w) \<Rightarrow> since rk N j w0 w \<and> (if full then full_tables N w else good S N w \<and> P w))"

definition active :: "nat \<Rightarrow> ast_walk_s \<Rightarrow> bool" where
  "active e w \<longleftrightarrow> e < AST_SIZE \<and> ent_type (ast_entry w ! e) \<noteq> AST_TYPE_EMPTY"

section \<open>One change\<close>

lemma below_mono: "below n k \<Longrightarrow> n \<le> m \<Longrightarrow> below m k"
  by (simp add: below_def)

lemma in_mono:
  assumes "\<And>t. L t \<le> L' t"
  shows "ref_in L x \<Longrightarrow> ref_in L' x" "parent_in L p \<Longrightarrow> parent_in L' p" "container_in L c \<Longrightarrow> container_in L' c"
    "if_then_else_in L i \<Longrightarrow> if_then_else_in L' i" "if_then_goto_in L g \<Longrightarrow> if_then_goto_in L' g"
    "loop_in L l \<Longrightarrow> loop_in L' l" "entry_in L e \<Longrightarrow> entry_in L' e"
proof -
  show r: "ref_in L x \<Longrightarrow> ref_in L' x" for x using below_mono assms unfolding ref_in_def by blast
  show p: "parent_in L p \<Longrightarrow> parent_in L' p" for p using below_mono assms unfolding parent_in_def by blast
  show "container_in L c \<Longrightarrow> container_in L' c" unfolding container_in_def using r p by (auto simp: list_all_iff)
  show "if_then_else_in L i \<Longrightarrow> if_then_else_in L' i" unfolding if_then_else_in_def using r p by blast
  show "if_then_goto_in L g \<Longrightarrow> if_then_goto_in L' g" unfolding if_then_goto_in_def using r p by blast
  show "loop_in L l \<Longrightarrow> loop_in L' l" unfolding loop_in_def using r by blast
  show "entry_in L e \<Longrightarrow> entry_in L' e" using below_mono assms unfolding entry_in_def by blast
qed

lemma table_in_mono: "table_in P xs \<Longrightarrow> (\<And>x. P x \<Longrightarrow> Q x) \<Longrightarrow> table_in Q xs"
  by (auto simp: table_in_def list_all_iff)

lemma tables_in_mono: "tables_in L a \<Longrightarrow> (\<And>t. L t \<le> L' t) \<Longrightarrow> tables_in L' a"
  unfolding tables_in_def using table_in_mono in_mono(3-7) by (metis (no_types, lifting))

lemma table_in_update: "table_in P xs \<Longrightarrow> (n < length xs \<Longrightarrow> P (xs ! n) \<Longrightarrow> P x) \<Longrightarrow> table_in P (xs[n := x])"
  by (cases "n < length xs") (auto simp: table_in_def list_all_length nth_list_update)

lemma good_more: "good S N w \<Longrightarrow> S \<subseteq> S' \<Longrightarrow> good S' N w"
  unfolding good_def by (auto elim!: tables_in_mono simp: limit_def)

lemma entry_weight_le: "entry_weight rk N x \<le> Suc N"
  by (simp add: entry_weight_def)

lemma weight_update:
  assumes "n < length (ast_entry w)"
  shows "weight rk N (w\<lparr>ast_entry := (ast_entry w)[n := x]\<rparr>) + entry_weight rk N (ast_entry w ! n) = weight rk N w + entry_weight rk N x"
proof -
  have "entry_weight rk N (ast_entry w ! n) \<le> sum_list (map (entry_weight rk N) (ast_entry w))"
    using assms by (auto intro!: member_le_sum_list)
  then show ?thesis using assms by (simp add: weight_def map_update sum_list_update)
qed

lemma since_refl: "since rk N 0 w w"
  by (simp add: since_def)

text \<open>
  The steps of the walk, each with the room it leaves: \<open>steady\<close> for one that changes a table but no
  entry and no counter.
\<close>

definition steady :: "ast_walk_s \<Rightarrow> ast_walk_s \<Rightarrow> bool" where
  "steady w v \<longleftrightarrow> ast_entry v = ast_entry w \<and> tmp_entry v = tmp_entry w \<and> container_size v = container_size w \<and>
     if_then_else_size v = if_then_else_size w \<and> if_then_goto_size v = if_then_goto_size w \<and> loop_size v = loop_size w"

lemma steady_good:
  assumes "steady w v" "good S N w" "tables_in (limit S N w) v"
  shows "good S N v"
proof -
  have "limit S N v = limit S N w" using assms(1) by (auto simp: steady_def limit_def fun_eq_iff split: ast_type.split)
  then show ?thesis using assms by (simp add: good_def steady_def)
qed

lemma steady_since: "steady w v \<Longrightarrow> since rk N j w0 w \<Longrightarrow> since rk N j w0 v"
  by (simp add: since_def steady_def weight_def counted_def)

lemma change_container_good:
  assumes "good S N w" "since rk N j w0 w" "below AST_SIZE k" "\<And>c. container_in (limit S N w) c \<Longrightarrow> container_in (limit S N w) (f c)"
  shows "returns (change_container k f w) (\<lambda>v. good S N v \<and> since rk N j w0 v \<and> steady w v)"
proof -
  have t: "tables_in (limit S N w) w" using assms(1) by (simp add: good_def)
  have k: "0 \<le> k" "k < int (length (ast_container w))" using assms(3) t by (auto simp: below_def tables_in_def table_in_def)
  let ?v = "w\<lparr>ast_container := (ast_container w)[nat k := f (ast_container w ! nat k)]\<rparr>"
  have v: "steady w ?v" by (simp add: steady_def)
  moreover have "tables_in (limit S N w) ?v" using t assms(4) by (auto simp: tables_in_def intro!: table_in_update)
  ultimately show ?thesis using k steady_good [OF v assms(1)] steady_since [OF v assms(2)] by (simp add: change_container_def at_int_def)
qed

lemma change_if_then_else_good:
  assumes "good S N w" "since rk N j w0 w" "\<And>i. if_then_else_in (limit S N w) i \<Longrightarrow> if_then_else_in (limit S N w) (f i)"
  shows "returns (change_if_then_else f w) (\<lambda>v. good S N v \<and> since rk N j w0 v \<and> steady w v)"
proof -
  have t: "tables_in (limit S N w) w" "if_then_else_size w < length (ast_if_then_else w)"
    using assms(1) by (simp_all add: good_def tables_in_def table_in_def)
  let ?v = "w\<lparr>ast_if_then_else := (ast_if_then_else w)[if_then_else_size w := f (ast_if_then_else w ! if_then_else_size w)]\<rparr>"
  have v: "steady w ?v" by (simp add: steady_def)
  moreover have "tables_in (limit S N w) ?v" using t(1) assms(3) by (auto simp: tables_in_def intro!: table_in_update)
  ultimately show ?thesis using t(2) steady_good [OF v assms(1)] steady_since [OF v assms(2)] by (simp add: change_if_then_else_def)
qed

lemma change_if_then_goto_good:
  assumes "good S N w" "since rk N j w0 w" "\<And>i. if_then_goto_in (limit S N w) i \<Longrightarrow> if_then_goto_in (limit S N w) (f i)"
  shows "returns (change_if_then_goto f w) (\<lambda>v. good S N v \<and> since rk N j w0 v \<and> steady w v)"
proof -
  have t: "tables_in (limit S N w) w" "if_then_goto_size w < length (ast_if_then_goto w)"
    using assms(1) by (simp_all add: good_def tables_in_def table_in_def)
  let ?v = "w\<lparr>ast_if_then_goto := (ast_if_then_goto w)[if_then_goto_size w := f (ast_if_then_goto w ! if_then_goto_size w)]\<rparr>"
  have v: "steady w ?v" by (simp add: steady_def)
  moreover have "tables_in (limit S N w) ?v" using t(1) assms(3) by (auto simp: tables_in_def intro!: table_in_update)
  ultimately show ?thesis using t(2) steady_good [OF v assms(1)] steady_since [OF v assms(2)] by (simp add: change_if_then_goto_def)
qed

lemma change_loop_good:
  assumes "good S N w" "since rk N j w0 w" "\<And>i. loop_in (limit S N w) i \<Longrightarrow> loop_in (limit S N w) (f i)"
  shows "returns (change_loop f w) (\<lambda>v. good S N v \<and> since rk N j w0 v \<and> steady w v)"
proof -
  have t: "tables_in (limit S N w) w" "loop_size w < length (ast_loop w)"
    using assms(1) by (simp_all add: good_def tables_in_def table_in_def)
  let ?v = "w\<lparr>ast_loop := (ast_loop w)[loop_size w := f (ast_loop w ! loop_size w)]\<rparr>"
  have v: "steady w ?v" by (simp add: steady_def)
  moreover have "tables_in (limit S N w) ?v" using t(1) assms(3) by (auto simp: tables_in_def intro!: table_in_update)
  ultimately show ?thesis using t(2) steady_good [OF v assms(1)] steady_since [OF v assms(2)] by (simp add: change_loop_def)
qed

lemma change_entry_good:
  assumes "good S N w" "since rk N j w0 w" "e < AST_SIZE"
    "entry_in (limit S N w) (ast_entry w ! e) \<Longrightarrow> entry_in (limit S N w) (f (ast_entry w ! e))"
  shows "returns (change_entry e f w) (\<lambda>v. good S N v \<and> since rk N (Suc j) w0 v \<and>
    v = w\<lparr>ast_entry := (ast_entry w)[e := f (ast_entry w ! e)]\<rparr>)"
proof -
  have t: "tables_in (limit S N w) w" using assms(1) by (simp add: good_def)
  have e: "e < length (ast_entry w)" using assms(3) t by (simp add: tables_in_def table_in_def)
  let ?v = "w\<lparr>ast_entry := (ast_entry w)[e := f (ast_entry w ! e)]\<rparr>"
  have "limit S N ?v = limit S N w" by (auto simp: limit_def fun_eq_iff split: ast_type.split)
  moreover have "tables_in (limit S N w) ?v" using t assms(4) by (auto simp: tables_in_def intro!: table_in_update)
  ultimately have "good S N ?v" using assms(1) by (simp add: good_def)
  moreover have "since rk N (Suc j) w0 ?v"
    using assms(2) weight_update [OF e, of rk N "f (ast_entry w ! e)"] entry_weight_le [of rk N "f (ast_entry w ! e)"]
    by (simp add: since_def counted_def)
  ultimately show ?thesis using e by (simp add: change_entry_def)
qed

lemma first_entry_returns:
  assumes "n \<le> length es"
  shows "returns (first_entry P n es) (\<lambda>r. case r of None \<Rightarrow> \<forall>k < n. \<not> P (es ! k) | Some k \<Rightarrow> k < n \<and> P (es ! k))"
proof (cases "index_of P (take n es)")
  case None
  then have "\<forall>k < n. \<not> P (es ! k)" using assms by (auto simp: index_of_None set_conv_nth)
  then show ?thesis using None assms by (simp add: first_entry_def)
next
  case (Some k)
  moreover have "k < n" "P (es ! k)" using index_of_Some [OF Some] assms by auto
  ultimately show ?thesis by (simp add: first_entry_def)
qed

lemma add_container_entry_good:
  assumes "good S N w" "since rk N j w0 w" "AST_TYPE_CONTAINER \<in> S" "below N node"
  shows "returns (add_container_entry node stop w) (\<lambda>v. good S N v \<and> since rk N (Suc j) w0 v \<and>
    container_size v = container_size w \<and> (\<forall>e. active e w \<longrightarrow> active e v))"
proof -
  have t: "tables_in (limit S N w) w" "length (ast_entry w) = AST_SIZE" using assms(1) by (simp_all add: good_def tables_in_def table_in_def)
  show ?thesis unfolding add_container_entry_def find_empty_ast_entry_def
  proof (rule returns_step [OF first_entry_returns])
    fix found assume found: "case found of None \<Rightarrow> \<forall>k < 100. ent_type (ast_entry w ! k) \<noteq> AST_TYPE_EMPTY | Some k \<Rightarrow> k < 100 \<and> ent_type (ast_entry w ! k) = AST_TYPE_EMPTY"
    let ?w = "case found of None \<Rightarrow> w | Some k \<Rightarrow> w\<lparr>tmp_entry := k\<rparr>"
    have lim: "limit S N ?w = limit S N w" by (auto simp: limit_def fun_eq_iff split: ast_type.split option.split)
    have tab: "tables_in L ?w \<longleftrightarrow> tables_in L w" for L by (simp add: tables_in_def split: option.split)
    have good: "good S N ?w" using assms(1) found unfolding good_def lim tab by (auto simp: AST_SIZE_def split: option.split_asm)
    have since: "since rk N j w0 ?w" using assms(2) by (simp add: since_def weight_def counted_def split: option.split)
    have tmp: "tmp_entry ?w < AST_SIZE" using good by (simp add: good_def)
    have ent: "entry_in (limit S N ?w) (container_entry (int (container_size ?w)) node stop)"
      using assms(3,4) by (simp add: entry_in_def container_entry_def below_def limit_def)
    have same: "ast_entry ?w = ast_entry w" "container_size ?w = container_size w" by (simp_all split: option.split)
    have "returns (change_entry (tmp_entry ?w) (\<lambda>_. container_entry (int (container_size ?w)) node stop) ?w) (\<lambda>v. good S N v \<and> since rk N (Suc j) w0 v \<and>
       v = ?w\<lparr>ast_entry := (ast_entry ?w)[tmp_entry ?w := container_entry (int (container_size ?w)) node stop]\<rparr>)"
      by (rule change_entry_good [OF good since tmp]) (rule ent)
    then show "returns (let w = ?w in change_entry (tmp_entry w) (\<lambda>_. container_entry (int (container_size w)) node stop) w)
        (\<lambda>v. good S N v \<and> since rk N (Suc j) w0 v \<and> container_size v = container_size w \<and> (\<forall>e. active e w \<longrightarrow> active e v))"
      unfolding Let_def using t(2) tmp
      by (elim returns_mono) (auto simp: active_def nth_list_update container_entry_def same split: if_splits)
  qed (use t(2) in \<open>simp add: AST_SIZE_def\<close>)
qed

lemma since_mono: "since rk N j w0 w \<Longrightarrow> j \<le> i \<Longrightarrow> since rk N i w0 w"
  unfolding since_def using mult_le_mono1 [of j i "Suc N"] by linarith

lemma go_on_step:
  assumes "returns m (outcome rk S N j w0 P)" "j \<le> i"
    and "\<And>w. good S N w \<Longrightarrow> since rk N j w0 w \<Longrightarrow> P w \<Longrightarrow> returns (f w) (outcome rk S' N i w0 Q)"
  shows "returns (go_on m f) (outcome rk S' N i w0 Q)"
proof -
  obtain full w where m: "m = Inr (full, w)" "since rk N j w0 w" "full \<Longrightarrow> full_tables N w" "\<not> full \<Longrightarrow> good S N w \<and> P w"
    using assms(1) by (auto simp: returns_def outcome_def split: if_split_asm)
  show ?thesis
  proof (cases full)
    case True
    then show ?thesis using m since_mono [OF m(2) assms(2)] by (simp add: go_on_def outcome_def)
  next
    case False
    then show ?thesis using m assms(3) by (simp add: go_on_def)
  qed
qed

lemma count_container_outcome:
  assumes "good S N w" "since rk N j w0 w" "P (w\<lparr>container_size := Suc (container_size w)\<rparr>)" "filling S'"
    "S \<subseteq> insert AST_TYPE_CONTAINER S'" "S' \<subseteq> S"
  shows "returns (count_container w) (outcome rk S' N j w0 P)"
proof -
  let ?w = "w\<lparr>container_size := Suc (container_size w)\<rparr>"
  have le: "limit S N w t \<le> limit S' N ?w t" for t using assms(5) by (cases t) (auto simp: limit_def)
  have "tables_in (limit S N w) ?w" using assms(1) by (simp add: good_def tables_in_def)
  then have t: "tables_in (limit S' N ?w) ?w" using tables_in_mono le by blast
  have s: "since rk N j w0 ?w" using assms(2) by (simp add: since_def weight_def counted_def)
  show ?thesis
  proof (cases "AST_SIZE \<le> container_size ?w")
    case True
    then have full: "container_size ?w = AST_SIZE" using assms(1) by (simp add: good_def)
    obtain t where k: "t \<in> {AST_TYPE_IF_THEN_ELSE, AST_TYPE_IF_THEN_GOTO, AST_TYPE_LOOP}" "S' \<subseteq> {t}"
      using assms(4) by (auto simp: filling_def)
    have "limit S' N ?w u \<le> limit {t} N ?w u" for u using k(2) by (auto simp: limit_def)
    with \<open>tables_in (limit S' N ?w) ?w\<close> have "tables_in (limit {t} N ?w) ?w" by (rule tables_in_mono)
    then have "full_tables N ?w" using k(1) full assms(1) unfolding full_tables_def by (auto simp: good_def)
    then show ?thesis using True s by (simp add: count_container_def outcome_def)
  next
    case False
    then have "good S' N ?w" using t assms(1) by (simp add: good_def)
    then show ?thesis using False s assms(3) by (simp add: count_container_def outcome_def)
  qed
qed
section \<open>One way of a branch\<close>

definition put_good :: "((ast_type_index_s \<Rightarrow> ast_type_index_s) \<Rightarrow> ast_walk_s \<Rightarrow> ast_walk_s c) \<Rightarrow> bool" where
  "put_good put \<longleftrightarrow> (\<forall>rk S N j w0 w f. good S N w \<longrightarrow> since rk N j w0 w \<longrightarrow>
     (\<forall>x. ref_in (limit S N w) x \<longrightarrow> ref_in (limit S N w) (f x)) \<longrightarrow>
     returns (put f w) (\<lambda>v. good S N v \<and> since rk N j w0 v \<and> steady w v))"

lemma puts_good: "put_good put_then" "put_good put_else" "put_good put_goto" "put_good put_body"
  unfolding put_good_def put_then_def put_else_def put_goto_def put_body_def
  by (intro allI impI change_if_then_else_good change_if_then_goto_good change_loop_good; simp add: if_then_else_in_def if_then_goto_in_def loop_in_def)+

lemma put_goodD:
  assumes "put_good put" "good S N w" "since rk N j w0 w" "\<And>x. ref_in (limit S N w) x \<Longrightarrow> ref_in (limit S N w) (f x)"
  shows "returns (put f w) (\<lambda>v. good S N v \<and> since rk N j w0 v \<and> steady w v)"
  using assms unfolding put_good_def by blast

lemma active_steady: "steady w v \<Longrightarrow> active e v \<longleftrightarrow> active e w"
  by (simp add: active_def steady_def)

lemma ref_in_ref: "t \<in> {AST_TYPE_CONTAINER, AST_TYPE_IF_THEN_ELSE, AST_TYPE_IF_THEN_GOTO, AST_TYPE_LOOP} \<Longrightarrow> t \<in> S \<Longrightarrow>
    ref_in (limit S N w) (ref t (int (case t of AST_TYPE_CONTAINER \<Rightarrow> container_size w | AST_TYPE_IF_THEN_ELSE \<Rightarrow> if_then_else_size w
      | AST_TYPE_IF_THEN_GOTO \<Rightarrow> if_then_goto_size w | _ \<Rightarrow> loop_size w)))"
  by (auto simp: ref_in_def ref_def below_def limit_def)

lemma new_branch_outcome:
  assumes put: "put_good put" and w: "good S N w" "since rk N j w0 w" "active e w" and node: "below N node" and S: "filling S"
  shows "returns (new_branch put node stop w) (outcome rk S N (Suc j) w0 (active e))"
proof -
  let ?S = "insert AST_TYPE_CONTAINER S"
  have g: "good ?S N w" by (rule good_more [OF w(1)]) auto
  have r: "ref_in (limit ?S N w) (ref AST_TYPE_CONTAINER (int (container_size w)))"
    using ref_in_ref [of AST_TYPE_CONTAINER ?S N w] by simp
  show ?thesis unfolding new_branch_def
  proof (rule returns_step [OF put_goodD [OF put g w(2)]])
    fix v assume v: "good ?S N v \<and> since rk N j w0 v \<and> steady w v"
    show "returns (bindE (add_container_entry node stop v) count_container) (outcome rk S N (Suc j) w0 (active e))"
    proof (rule returns_step [OF add_container_entry_good [where j = j and rk = rk and ?w0.0 = w0]])
      fix u assume u: "good ?S N u \<and> since rk N (Suc j) w0 u \<and> container_size u = container_size v \<and> (\<forall>e. active e v \<longrightarrow> active e u)"
      have "active e u" using u v w(3) active_steady by blast
      then have "active e (u\<lparr>container_size := Suc (container_size u)\<rparr>)" by (simp add: active_def)
      then show "returns (count_container u) (outcome rk S N (Suc j) w0 (active e))"
        using u S by (intro count_container_outcome [of ?S N u]) auto
    qed (use v node filling_node [OF S] in auto)
  qed (use r in simp)
qed

lemma put_outcome:
  assumes "put_good put" "good S N w" "since rk N j w0 w" "active e w" "\<And>x. ref_in (limit S N w) x \<Longrightarrow> ref_in (limit S N w) (f x)"
  shows "returns (bindE (put f w) (\<lambda>w. Inr (False, w))) (outcome rk S N (Suc j) w0 (active e))"
  by (rule returns_step [OF put_goodD [OF assms(1-3,5)]])
    (use assms(4) in \<open>auto simp: outcome_def active_steady elim: since_mono\<close>)

lemma branch_outcome:
  assumes put: "put_good put" and w: "good S N w" "since rk N j w0 w" "active e w" and S: "filling S"
    and nd: "list_all (\<lambda>l. below N (link_node l)) (link_next nd)" "k < length (link_next nd) \<or> link_next nd = []"
  shows "returns (branch no_edge put nd k w) (outcome rk S N (Suc j) w0 (active e))"
proof -
  have empty: "returns (bindE (put (\<lambda>x. x\<lparr>obj_type := AST_TYPE_EMPTY\<rparr>) w) (\<lambda>w. Inr (False, w))) (outcome rk S N (Suc j) w0 (active e))"
    by (rule put_outcome [OF put w]) (simp add: ref_in_def)
  have new: "returns (new_branch put (link_node (link_next nd ! k)) (if_tail nd) w) (outcome rk S N (Suc j) w0 (active e))" if "link_next nd \<noteq> []"
    by (rule new_branch_outcome [OF put w _ S]) (use nd that in \<open>simp add: list_all_length\<close>)
  show ?thesis using empty new nd(2) by (auto simp: branch_def Let_def)
qed

lemma both_ways_outcome:
  assumes w: "good S N w" "since rk N j w0 w" "active e w" and S: "filling S"
    and nd: "list_all (\<lambda>l. below N (link_node l)) (link_next nd)" "length (link_next nd) \<noteq> 1"
  shows "returns (both_ways nd w) (outcome rk S N (Suc (Suc j)) w0 (active e))"
proof -
  have k: "0 < length (link_next nd) \<or> link_next nd = []" "1 < length (link_next nd) \<or> link_next nd = []"
    using nd(2) by (cases "link_next nd"; auto)+
  show ?thesis unfolding both_ways_def
    by (rule go_on_step [OF branch_outcome [OF puts_good(1) w S nd(1) k(1)]]) (auto intro: branch_outcome [OF puts_good(2) _ _ _ S nd(1) k(2)])
qed

section \<open>The parts the steps share\<close>

lemma returnsE: "returns m Q \<Longrightarrow> (\<And>x. m = Inr x \<Longrightarrow> Q x \<Longrightarrow> thesis) \<Longrightarrow> thesis"
  by (auto simp: returns_def)

lemma good_entry: "good S N w \<Longrightarrow> e < AST_SIZE \<Longrightarrow> e < length (ast_entry w) \<and> entry_in (limit S N w) (ast_entry w ! e)"
  by (simp add: good_def tables_in_def table_in_def list_all_length)

lemma limit_simps [simp]: "limit {} N w AST_TYPE_CONTAINER = container_size w" "AST_TYPE_NODE \<notin> S \<Longrightarrow> limit S N w AST_TYPE_NODE = N"
  by (simp_all add: limit_def)

lemma active_entry:
  assumes "good {} N w" "active e w"
  shows "e < length (ast_entry w)" "ent_type (ast_entry w ! e) = AST_TYPE_CONTAINER"
    "below (container_size w) (ent_index (ast_entry w ! e))" "below N (ent_node (ast_entry w ! e))"
  using assms good_entry [OF assms(1), of e] by (auto simp: active_def entry_in_def)

lemma entry_container_returns:
  assumes "good {} N w" "active e w"
  obtains k where "entry_container e w = Inr k" "below (container_size w) k" "k = ent_index (ast_entry w ! e)"
  using active_entry [OF assms] by (simp add: entry_container_def)

lemma good_below: "good S N w \<Longrightarrow> below (container_size w) k \<Longrightarrow> below AST_SIZE k"
  by (auto simp: good_def below_def)

lemma objects_returns:
  assumes "good S N w" "below AST_SIZE k"
  obtains len where "objects k w = Inr len"
  using assms by (auto simp: objects_def at_int_def good_def tables_in_def table_in_def below_def)

lemma add_object_returns:
  assumes "good S N w" "since rk N j w0 w" "below AST_SIZE k" "ref_in (limit S N w) x"
  obtains v where "add_object k x w = Inr v" "good S N v" "since rk N j w0 v" "steady w v"
proof -
  have "returns (add_object k x w) (\<lambda>v. good S N v \<and> since rk N j w0 v \<and> steady w v)"
    unfolding add_object_def by (rule change_container_good [OF assms(1-3)]) (use assms(4) in \<open>simp add: container_in_def\<close>)
  then show thesis using that by (elim returnsE) blast
qed

text \<open>The new object of the container an entry works on, which refers to the next free place of a table.\<close>

lemma count_outcome:
  assumes "good S N w" "since rk N j w0 w" "AST_TYPE_NODE \<notin> S"
  shows "S \<subseteq> {AST_TYPE_IF_THEN_ELSE} \<Longrightarrow> returns (count_if_then_else w) (outcome rk {} N j w0 (\<lambda>v. counted w0 < counted v))"
    "S \<subseteq> {AST_TYPE_IF_THEN_GOTO} \<Longrightarrow> returns (count_if_then_goto w) (outcome rk {} N j w0 (\<lambda>v. counted w0 < counted v))"
    "S \<subseteq> {AST_TYPE_LOOP} \<Longrightarrow> returns (count_loop w) (outcome rk {} N j w0 (\<lambda>v. counted w0 < counted v))"
proof -
  have all: "returns (Inr (AST_SIZE \<le> m, v)) (outcome rk {} N j w0 (\<lambda>v. counted w0 < counted v))"
    if v: "\<And>L. tables_in L v \<longleftrightarrow> tables_in L w" "\<And>t. limit S N w t \<le> limit {} N v t" "counted v = Suc (counted w)"
      "ast_entry v = ast_entry w" "tmp_entry v = tmp_entry w" "container_size v = container_size w"
      and m: "m = if_then_else_size v \<and> if_then_goto_size v < AST_SIZE \<and> loop_size v < AST_SIZE \<or>
        m = if_then_goto_size v \<and> if_then_else_size v < AST_SIZE \<and> loop_size v < AST_SIZE \<or>
        m = loop_size v \<and> if_then_else_size v < AST_SIZE \<and> if_then_goto_size v < AST_SIZE" "m \<le> AST_SIZE" for m and v :: ast_walk_s
  proof -
    have "tables_in (limit S N w) v" using assms(1) v(1) by (simp add: good_def)
    then have t: "tables_in (limit {} N v) v" using v(2) by (rule tables_in_mono)
    have "since rk N j w0 v" "counted w0 < counted v" using assms(2) v by (simp_all add: since_def weight_def)
    moreover have "full_tables N v" if "AST_SIZE \<le> m" using that m t assms(1) v(6) by (auto simp: full_tables_def good_def)
    moreover have "good {} N v" if "\<not> AST_SIZE \<le> m" using that m t assms(1) v by (auto simp: good_def)
    ultimately show ?thesis by (simp add: outcome_def)
  qed
  show "S \<subseteq> {AST_TYPE_IF_THEN_ELSE} \<Longrightarrow> returns (count_if_then_else w) (outcome rk {} N j w0 (\<lambda>v. counted w0 < counted v))"
    unfolding count_if_then_else_def Let_def
    by (rule all) (use assms(1) in \<open>auto simp: tables_in_def counted_def limit_def good_def split: ast_type.split\<close>)
  show "S \<subseteq> {AST_TYPE_IF_THEN_GOTO} \<Longrightarrow> returns (count_if_then_goto w) (outcome rk {} N j w0 (\<lambda>v. counted w0 < counted v))"
    unfolding count_if_then_goto_def Let_def
    by (rule all) (use assms(1) in \<open>auto simp: tables_in_def counted_def limit_def good_def split: ast_type.split\<close>)
  show "S \<subseteq> {AST_TYPE_LOOP} \<Longrightarrow> returns (count_loop w) (outcome rk {} N j w0 (\<lambda>v. counted w0 < counted v))"
    unfolding count_loop_def Let_def
    by (rule all) (use assms(1) in \<open>auto simp: tables_in_def counted_def limit_def good_def split: ast_type.split\<close>)
qed

lemma limit_node: "AST_TYPE_NODE \<notin> S \<Longrightarrow> below N node \<Longrightarrow> ref_in (limit S N w) (ref AST_TYPE_NODE node)"
  by (simp add: ref_in_def ref_def limit_def)

lemma below_since: "since rk N j w0 w \<Longrightarrow> below (container_size w0) k \<Longrightarrow> below (container_size w) k"
  by (auto simp: since_def below_def)

lemma activeD: "active e w \<Longrightarrow> e < AST_SIZE"
  by (simp add: active_def)

lemma go_on_bind: "go_on (bindE m f) g = bindE m (\<lambda>x. go_on (f x) g)"
  by (cases m) (simp_all add: go_on_def)

lemma steady_sizes: "steady w v \<Longrightarrow> container_size v = container_size w" "steady w v \<Longrightarrow> if_then_else_size v = if_then_else_size w"
  by (simp_all add: steady_def)

section \<open>The steps\<close>

lemma step_if_then_else_outcome:
  assumes w: "good {} N w" "active e w" and node: "below N node" and nd: "ast_node N nd" "length (link_next nd) \<noteq> 1"
  shows "returns (step_if_then_else e node nd w) (outcome rk {} N 3 w (\<lambda>v. counted w < counted v))"
proof -
  let ?S = "{AST_TYPE_IF_THEN_ELSE}"
  have tail: "below N (if_tail nd)" and links: "list_all (\<lambda>l. below N (link_node l)) (link_next nd)" using nd(1) by (simp_all add: ast_node_def)
  have g: "good ?S N w" "since rk N 0 w w" using good_more [OF w(1)] since_refl by simp_all
  obtain k where k: "entry_container e w = Inr k" "below (container_size w) k" using entry_container_returns [OF w] by blast
  obtain v where v: "add_object k (ref AST_TYPE_IF_THEN_ELSE (int (if_then_else_size w))) w = Inr v" "good ?S N v" "since rk N 0 w v" "steady w v"
    by (rule add_object_returns [OF g good_below [OF w(1) k(2)]]) (use ref_in_ref [of AST_TYPE_IF_THEN_ELSE ?S N w] in auto)
  have "returns (change_if_then_else (\<lambda>i. i\<lparr>expression_node := ref AST_TYPE_NODE node\<rparr>) v) (\<lambda>u. good ?S N u \<and> since rk N 0 w u \<and> steady v u)"
    by (rule change_if_then_else_good [OF v(2,3)]) (simp add: if_then_else_in_def limit_node [OF _ node])
  then obtain u where u: "change_if_then_else (\<lambda>i. i\<lparr>expression_node := ref AST_TYPE_NODE node\<rparr>) v = Inr u" "good ?S N u" "since rk N 0 w u" "active e u"
    using w(2) active_steady v(4) by (elim returnsE) blast
  have "returns (go_on (both_ways nd u) (\<lambda>x. bindE (objects k x) (\<lambda>len.
     bindE (change_entry e (\<lambda>x. if if_tail nd = ent_node_end x then x\<lparr>ent_type := AST_TYPE_EMPTY\<rparr>
         else x\<lparr>ent_sub_index := int len, ent_node := if_tail nd\<rparr>) x) count_if_then_else))) (outcome rk {} N 3 w (\<lambda>v. counted w < counted v))"
  proof (rule go_on_step [OF both_ways_outcome [OF u(2-4) _ links nd(2)]])
    fix x assume x: "good ?S N x" "since rk N (Suc (Suc 0)) w x" "active e x"
    obtain len where len: "objects k x = Inr len" using objects_returns [OF x(1)] good_below [OF w(1) k(2)] by blast
    have "returns (bindE (change_entry e (\<lambda>x. if if_tail nd = ent_node_end x then x\<lparr>ent_type := AST_TYPE_EMPTY\<rparr>
         else x\<lparr>ent_sub_index := int len, ent_node := if_tail nd\<rparr>) x) count_if_then_else) (outcome rk {} N 3 w (\<lambda>v. counted w < counted v))"
      by (rule returns_step [OF change_entry_good [OF x(1,2) activeD [OF x(3)]]])
        (use tail in \<open>auto simp: entry_in_def numeral_3_eq_3 intro: count_outcome(1)\<close>)
    then show "returns (bindE (objects k x) (\<lambda>len. bindE (change_entry e (\<lambda>x. if if_tail nd = ent_node_end x then x\<lparr>ent_type := AST_TYPE_EMPTY\<rparr>
         else x\<lparr>ent_sub_index := int len, ent_node := if_tail nd\<rparr>) x) count_if_then_else)) (outcome rk {} N 3 w (\<lambda>v. counted w < counted v))"
      by (simp add: len)
  qed auto
  then show ?thesis by (simp add: step_if_then_else_def k(1) v(1) u(1))
qed

lemma step_loop_then_else_outcome:
  assumes w: "good {} N w" "active e w" and node: "below N node" and nd: "ast_node N nd" "length (link_next nd) \<noteq> 1" and N: "N = length nodes"
  shows "returns (step_loop_then_else nodes e node nd w) (outcome rk {} N 3 w (\<lambda>v. counted w < counted v))"
proof -
  let ?I = "{AST_TYPE_IF_THEN_ELSE}" and ?S = "{AST_TYPE_CONTAINER, AST_TYPE_IF_THEN_ELSE}"
  have tail: "below N (if_tail nd)" and links: "list_all (\<lambda>l. below N (link_node l)) (link_next nd)" using nd(1) by (simp_all add: ast_node_def)
  have g: "good ?S N w" "since rk N 0 w w" using good_more [OF w(1)] since_refl by simp_all
  obtain k where k: "entry_container e w = Inr k" "below (container_size w) k" using entry_container_returns [OF w] by blast
  have kb: "below AST_SIZE k" "below AST_SIZE (k + 1)" using k(2) w(1) by (auto simp: good_def below_def)
  obtain len where len: "objects k w = Inr len" using objects_returns [OF w(1) kb(1)] by blast
  obtain v where v: "add_object k (ref AST_TYPE_CONTAINER (int (container_size w))) w = Inr v" "good ?S N v" "since rk N 0 w v" "steady w v"
    by (rule add_object_returns [OF g kb(1)]) (use ref_in_ref [of AST_TYPE_CONTAINER ?S N w] in auto)
  have con: "container_in (limit ?S N v) (loop_container k len node (if_then_else_size v) c)" for c
    using k(2) below_since [OF v(3) k(2)]
    by (auto simp: container_in_def loop_container_def parent_in_def parent_at_def ref_in_def ref_def below_def limit_def)
  have "returns (change_container (k + 1) (loop_container k len node (if_then_else_size v)) v) (\<lambda>u. good ?S N u \<and> since rk N 0 w u \<and> steady v u)"
    by (rule change_container_good [OF v(2,3) kb(2)]) (rule con)
  then obtain u where u: "change_container (k + 1) (loop_container k len node (if_then_else_size v)) v = Inr u" "good ?S N u" "since rk N 0 w u" "steady v u"
    by (elim returnsE) blast
  have act: "active e u" "container_size u = container_size w" using w(2) active_steady [OF v(4)] active_steady [OF u(4)] steady_sizes(1) [OF v(4)] steady_sizes(1) [OF u(4)] by simp_all
  let ?first = "\<lambda>w. bindE (change_if_then_else (\<lambda>i. i\<lparr>ite_parent := parent_at (k + 1) 0, expression_node := ref AST_TYPE_NODE node\<rparr>) w) (both_ways nd)"
  let ?rest = "\<lambda>w. bindE (is_member_of_loop nodes node (if_tail nd)) (\<lambda>member. bindE (objects (k + 1) w) (\<lambda>len.
     bindE (change_entry e (\<lambda>x. if \<not> member then x\<lparr>ent_type := AST_TYPE_EMPTY\<rparr>
         else \<lparr>ent_type = AST_TYPE_CONTAINER, ent_sub_type = 1, ent_index = k + 1, ent_sub_index = int len,
           ent_node = if_tail nd, ent_node_end = 0\<rparr>) w) count_if_then_else))"
  have count: "returns (count_container u) (outcome rk ?I N 0 w (\<lambda>v. active e v \<and> Suc (container_size w) \<le> container_size v))"
    using u(2,3) act by (intro count_container_outcome [of ?S N u]) (auto simp: active_def)
  have first: "returns (?first x) (outcome rk ?I N 2 w (\<lambda>v. active e v \<and> below (container_size v) (k + 1)))"
    if x: "good ?I N x" "since rk N 0 w x" "active e x \<and> Suc (container_size w) \<le> container_size x" for x
  proof -
    have "parent_in (limit ?I N x) (parent_at (k + 1) 0)" using k(2) x(3) by (auto simp: parent_in_def parent_at_def below_def limit_def)
    then have "returns (change_if_then_else (\<lambda>i. i\<lparr>ite_parent := parent_at (k + 1) 0, expression_node := ref AST_TYPE_NODE node\<rparr>) x)
        (\<lambda>y. good ?I N y \<and> since rk N 0 w y \<and> steady x y)"
      by (intro change_if_then_else_good [OF x(1,2)]) (simp add: if_then_else_in_def limit_node [OF _ node])
    then show ?thesis
    proof (rule returns_step)
      fix y assume y: "good ?I N y \<and> since rk N 0 w y \<and> steady x y"
      then have "steady x y" by simp
      then have y': "active e y" "below (container_size y) (k + 1)" using x(3) k(2) active_steady [of x y e] by (auto simp: steady_def below_def)
      have "returns (both_ways nd y) (outcome rk ?I N (Suc (Suc 0)) y (active e))"
        using both_ways_outcome [OF _ since_refl y'(1) _ links nd(2), of ?I] y by auto
      then show "returns (both_ways nd y) (outcome rk ?I N 2 w (\<lambda>v. active e v \<and> below (container_size v) (k + 1)))"
        using y y'(2) by (elim returns_mono) (auto simp: outcome_def since_def below_def split: if_splits)
    qed
  qed
  have rest: "returns (?rest x) (outcome rk {} N 3 w (\<lambda>v. counted w < counted v))"
    if x: "good ?I N x" "since rk N 2 w x" "active e x \<and> below (container_size x) (k + 1)" for x
  proof -
    obtain member where member: "is_member_of_loop nodes node (if_tail nd) = Inr member"
      using tail N by (auto simp: is_member_of_loop_def at_int_def below_def)
    obtain len where len: "objects (k + 1) x = Inr len" using objects_returns [OF x(1) kb(2)] by blast
    have "returns (bindE (change_entry e (\<lambda>x. if \<not> member then x\<lparr>ent_type := AST_TYPE_EMPTY\<rparr>
         else \<lparr>ent_type = AST_TYPE_CONTAINER, ent_sub_type = 1, ent_index = k + 1, ent_sub_index = int len,
           ent_node = if_tail nd, ent_node_end = 0\<rparr>) x) count_if_then_else) (outcome rk {} N 3 w (\<lambda>v. counted w < counted v))"
      by (rule returns_step [OF change_entry_good [OF x(1,2) activeD]])
        (use tail x(3) in \<open>auto simp: entry_in_def numeral_2_eq_2 numeral_3_eq_3 limit_def intro: count_outcome(1)\<close>)
    then show ?thesis by (simp add: member len)
  qed
  have "returns (go_on (count_container u) (\<lambda>w. go_on (?first w) ?rest)) (outcome rk {} N 3 w (\<lambda>v. counted w < counted v))"
    by (rule go_on_step [OF count]) (auto intro!: go_on_step [OF first] rest)
  then show ?thesis by (simp add: step_loop_then_else_def go_on_bind k(1) len v(1) u(1))
qed

lemma exit_links_returns:
  assumes "2 \<le> length (link_next nd)" "is_loop_exit (link_next nd ! 0) \<noteq> 0 \<or> is_loop_exit (link_next nd ! 1) \<noteq> 0"
  obtains g m where "exit_links nd = Inr (g, m)" "g < length (link_next nd)" "m < length (link_next nd)"
proof -
  have len: "0 < length (link_next nd)" "1 < length (link_next nd)" using assms(1) by linarith+
  show thesis
  proof (cases "is_loop_exit (link_next nd ! 0) = 0")
    case True
    then have "exit_links nd = Inr (1, 0)" using assms(2) len by (simp add: exit_links_def)
    then show ?thesis using that len by blast
  next
    case False
    then have "exit_links nd = Inr (0, 1)" using len by (simp add: exit_links_def)
    then show ?thesis using that len by blast
  qed
qed

lemma follow_normal_returns:
  assumes w: "good S N w" "since rk N j w0 w" "active e w" and N: "N = length nodes" "below N goto_node" and S: "AST_TYPE_NODE \<notin> S" "AST_TYPE_CONTAINER \<notin> S"
  shows "returns (follow_normal nodes e node goto_node w) (\<lambda>v. good S N v \<and> since rk N (Suc j) w0 v)"
proof -
  let ?x = "ast_entry w ! e"
  have c: "limit S N w AST_TYPE_CONTAINER = container_size w" using S(2) by (simp add: limit_def)
  have e: "e < length (ast_entry w)" "entry_in (limit S N w) ?x" using good_entry [OF w(1) activeD [OF w(3)]] by simp_all
  then have x: "below (container_size w) (ent_index ?x)" "below N (ent_node ?x)" using w(3) S by (auto simp: entry_in_def active_def c)
  have keep: "good S N w \<and> since rk N (Suc j) w0 w" using w since_mono [OF w(2)] by simp
  have changed: "returns (change_entry e f w) (\<lambda>v. good S N v \<and> since rk N (Suc j) w0 v)" if "entry_in (limit S N w) (f ?x)" for f
    using change_entry_good [where f = f, OF w(1,2) activeD [OF w(3)] that] by (elim returns_mono) simp
  show ?thesis
  proof (cases "ent_sub_type ?x = 1")
    case True
    have k: "below AST_SIZE (ent_index ?x)" using good_below [OF w(1) x(1)] .
    have t: "table_in (container_in (limit S N w)) (ast_container w)" using w(1) by (simp add: good_def tables_in_def)
    let ?con = "ast_container w ! nat (ent_index ?x)"
    have at: "at_int (ast_container w) (ent_index ?x) = Inr ?con" "container_in (limit S N w) ?con"
      using k t by (auto simp: at_int_def below_def table_in_def list_all_length)
    then have "parent_in (limit S N w) (con_parent ?con)" by (simp add: container_in_def)
    then have "entry_in (limit S N w) (leave_loop goto_node ?con ?x)"
      using N(2) S by (auto simp: parent_in_def entry_in_def leave_loop_def)
    then show ?thesis using True e keep changed x(2) N(1) at by (simp add: follow_normal_def is_member_of_loop_def at_int_def below_def)
  next
    case False
    have "entry_in (limit S N w) (?x\<lparr>ent_type := AST_TYPE_EMPTY\<rparr>)" by (simp add: entry_in_def)
    then show ?thesis using False e keep changed by (simp add: follow_normal_def)
  qed
qed

lemma step_if_then_goto_outcome:
  assumes w: "good {} N w" "active e w" and node: "below N node" and nd: "ast_node N nd" and N: "N = length nodes"
    and exits: "2 \<le> length (link_next nd)" "is_loop_exit (link_next nd ! 0) \<noteq> 0 \<or> is_loop_exit (link_next nd ! 1) \<noteq> 0"
  shows "returns (step_if_then_goto nodes e node nd w) (outcome rk {} N 3 w (\<lambda>v. counted w < counted v))"
proof -
  let ?S = "{AST_TYPE_IF_THEN_GOTO}"
  have links: "list_all (\<lambda>l. below N (link_node l)) (link_next nd)" using nd by (simp add: ast_node_def)
  have g: "good ?S N w" "since rk N 0 w w" using good_more [OF w(1)] since_refl by simp_all
  obtain k where k: "entry_container e w = Inr k" "below (container_size w) k" using entry_container_returns [OF w] by blast
  have kb: "below AST_SIZE k" using good_below [OF w(1) k(2)] .
  obtain len where len: "objects k w = Inr len" using objects_returns [OF w(1) kb] by blast
  obtain v where v: "add_object k (ref AST_TYPE_IF_THEN_GOTO (int (if_then_goto_size w))) w = Inr v" "good ?S N v" "since rk N 0 w v" "steady w v"
    by (rule add_object_returns [OF g kb]) (use ref_in_ref [of AST_TYPE_IF_THEN_GOTO ?S N w] in auto)
  let ?f = "\<lambda>i. i\<lparr>itg_parent := parent_at k len, itg_expression_node := ref AST_TYPE_NODE node\<rparr>"
  have "parent_in (limit ?S N v) (parent_at k len)" using below_since [OF v(3) k(2)] by (auto simp: parent_in_def parent_at_def limit_def)
  then have "returns (change_if_then_goto ?f v) (\<lambda>u. good ?S N u \<and> since rk N 0 w u \<and> steady v u)"
    by (intro change_if_then_goto_good [OF v(2,3)]) (simp add: if_then_goto_in_def limit_node [OF _ node])
  then obtain u where u: "change_if_then_goto ?f v = Inr u" "good ?S N u" "since rk N 0 w u" "active e u"
    using w(2) active_steady [OF v(4), of e] by (elim returnsE) (auto simp: active_steady [where w = v])
  obtain gt nm where exit: "exit_links nd = Inr (gt, nm)" "gt < length (link_next nd)" "nm < length (link_next nd)" using exit_links_returns [OF exits] .
  have to: "below N (link_node (link_next nd ! gt))" "below N (link_node (link_next nd ! nm))" using links exit(2,3) by (simp_all add: list_all_length)
  let ?change = "\<lambda>len. change_entry e (\<lambda>x. x\<lparr>ent_sub_index := int len, ent_node := link_node (link_next nd ! nm)\<rparr>)"
  let ?follow = "follow_normal nodes e node (link_node (link_next nd ! gt))"
  have "returns (go_on (branch False put_goto nd gt u) (\<lambda>x. bindE (objects k x) (\<lambda>len. bindE (?change len x) (\<lambda>x. bindE (?follow x) count_if_then_goto))))
      (outcome rk {} N 3 w (\<lambda>v. counted w < counted v))"
  proof (rule go_on_step [OF branch_outcome [OF puts_good(3) u(2-4) _ links]])
    fix x assume x: "good ?S N x" "since rk N (Suc 0) w x" "active e x"
    obtain len where len: "objects k x = Inr len" using objects_returns [OF x(1) kb] by blast
    have "returns (bindE (?change len x) (\<lambda>x. bindE (?follow x) count_if_then_goto)) (outcome rk {} N 3 w (\<lambda>v. counted w < counted v))"
    proof (rule returns_step [OF change_entry_good [OF x(1,2) activeD [OF x(3)]]])
      show "entry_in (limit ?S N x) ((ast_entry x ! e)\<lparr>ent_sub_index := int len, ent_node := link_node (link_next nd ! nm)\<rparr>)"
        if "entry_in (limit ?S N x) (ast_entry x ! e)" using that to(2) by (auto simp: entry_in_def)
      fix y assume y: "good ?S N y \<and> since rk N (Suc (Suc 0)) w y \<and> y = x\<lparr>ast_entry := (ast_entry x)[e := (ast_entry x ! e)
          \<lparr>ent_sub_index := int len, ent_node := link_node (link_next nd ! nm)\<rparr>]\<rparr>"
      have "e < length (ast_entry x)" using good_entry [OF x(1) activeD [OF x(3)]] by simp
      then have "active e y" using x(3) y by (simp add: active_def)
      then show "returns (bindE (?follow y) count_if_then_goto) (outcome rk {} N 3 w (\<lambda>v. counted w < counted v))"
        using y by (intro returns_step [OF follow_normal_returns [of ?S N y rk 2 w, OF _ _ _ N to(1)]])
          (auto simp: numeral_2_eq_2 numeral_3_eq_3 intro: count_outcome(2))
    qed
    then show "returns (bindE (objects k x) (\<lambda>len. bindE (?change len x) (\<lambda>x. bindE (?follow x) count_if_then_goto)))
      (outcome rk {} N 3 w (\<lambda>v. counted w < counted v))" by (simp add: len)
  qed (use exit in auto)
  then show ?thesis using exit by (simp add: step_if_then_goto_def k(1) len v(1) u(1))
qed

lemma loop_body_outcome:
  assumes w: "good S N w" "since rk N j w0 w" "active e w" and S: "filling S"
    and nd: "list_all (\<lambda>l. below N (link_node l)) (link_next nd)" "k < length (link_next nd)"
  shows "returns (loop_body node nd k w) (outcome rk S N (Suc j) w0 (active e))"
proof -
  have "below N (link_node (link_next nd ! k))" using nd by (simp add: list_all_length)
  from new_branch_outcome [OF puts_good(4) w this S] show ?thesis
    using w since_mono [OF w(2)] nd(2) by (simp add: loop_body_def outcome_def)
qed

lemma step_loop_outcome:
  assumes w: "good {} N w" "active e w" and node: "below N node" and nd: "ast_node N nd" "2 \<le> length (link_next nd)"
  shows "returns (step_loop e node nd w) (outcome rk {} N 3 w (\<lambda>v. counted w < counted v))"
proof -
  let ?S = "{AST_TYPE_LOOP}"
  have tail: "below N (if_tail nd)" and links: "list_all (\<lambda>l. below N (link_node l)) (link_next nd)" using nd(1) by (simp_all add: ast_node_def)
  have two: "0 < length (link_next nd)" "1 < length (link_next nd)" using nd(2) by linarith+
  have g: "good ?S N w" "since rk N 0 w w" using good_more [OF w(1)] since_refl by simp_all
  obtain k where k: "entry_container e w = Inr k" "below (container_size w) k" using entry_container_returns [OF w] by blast
  have kb: "below AST_SIZE k" using good_below [OF w(1) k(2)] .
  let ?f = "\<lambda>i. i\<lparr>first_node := ref AST_TYPE_NODE node\<rparr>"
  have "returns (change_loop ?f w) (\<lambda>u. good ?S N u \<and> since rk N 0 w u \<and> steady w u)"
    by (rule change_loop_good [OF g]) (simp add: loop_in_def limit_node [OF _ node])
  then obtain u where u: "change_loop ?f w = Inr u" "good ?S N u" "since rk N 0 w u" "steady w u" by (elim returnsE) blast
  obtain v where v: "add_object k (ref AST_TYPE_LOOP (int (loop_size u))) u = Inr v" "good ?S N v" "since rk N 0 w v" "steady u v"
    by (rule add_object_returns [OF u(2,3) kb]) (use ref_in_ref [of AST_TYPE_LOOP ?S N u] in auto)
  have "returns (put_body (\<lambda>_. ref AST_TYPE_EMPTY 0) v) (\<lambda>t. good ?S N t \<and> since rk N 0 w t \<and> steady v t)"
    by (rule put_goodD [OF puts_good(4) v(2,3)]) (simp add: ref_in_def ref_def)
  then obtain t where t: "put_body (\<lambda>_. ref AST_TYPE_EMPTY 0) v = Inr t" "good ?S N t" "since rk N 0 w t" "steady v t" by (elim returnsE) blast
  have act: "active e t" using w(2) active_steady [OF u(4), of e] active_steady [OF v(4), of e] active_steady [OF t(4), of e] by simp
  let ?rest = "\<lambda>x. bindE (objects k x) (\<lambda>len. bindE (change_entry e (\<lambda>x. x\<lparr>ent_sub_index := int len, ent_node := if_tail nd\<rparr>) x) count_loop)"
  have rest: "returns (?rest x) (outcome rk {} N 3 w (\<lambda>v. counted w < counted v))"
    if x: "good ?S N x" "since rk N (Suc (Suc 0)) w x" "active e x" for x
  proof -
    obtain len where len: "objects k x = Inr len" using objects_returns [OF x(1) kb] by blast
    have "returns (bindE (change_entry e (\<lambda>x. x\<lparr>ent_sub_index := int len, ent_node := if_tail nd\<rparr>) x) count_loop)
       (outcome rk {} N 3 w (\<lambda>v. counted w < counted v))"
      by (rule returns_step [OF change_entry_good [OF x(1,2) activeD [OF x(3)]]])
        (use tail in \<open>auto simp: entry_in_def numeral_3_eq_3 intro: count_outcome(3)\<close>)
    then show ?thesis by (simp add: len)
  qed
  have "returns (go_on (loop_body node nd 0 t) (\<lambda>x. go_on (loop_body node nd 1 x) ?rest)) (outcome rk {} N 3 w (\<lambda>v. counted w < counted v))"
  proof (rule go_on_step [OF loop_body_outcome [OF t(2,3) act _ links two(1)]])
    fix x assume x: "good ?S N x" "since rk N (Suc 0) w x" "active e x"
    show "returns (go_on (loop_body node nd 1 x) ?rest) (outcome rk {} N 3 w (\<lambda>v. counted w < counted v))"
      by (rule go_on_step [OF loop_body_outcome [OF x _ links two(2)]]) (use rest in auto)
  qed auto
  moreover have "loop_size u = loop_size w" using u(4) by (simp add: steady_def)
  ultimately show ?thesis using v(1) by (simp add: step_loop_def k(1) u(1) t(1))
qed

text \<open>A plain node is added, and the entry goes on to its successor.\<close>

definition with_node :: "int \<Rightarrow> ast_container_s \<Rightarrow> ast_container_s" where
  "with_node node c = c\<lparr>con_object := con_object c @ [ref AST_TYPE_NODE node]\<rparr>"

lemma step_node_exact:
  assumes w: "good {} N w" "active e w" and node: "below N node" and nd: "ast_node N nd"
  obtains v len where "step_node e node nd w = Inr (False, v)" "good {} N v"
    "v = w\<lparr>ast_container := (ast_container w)[nat (ent_index (ast_entry w ! e)) :=
           with_node node (ast_container w ! nat (ent_index (ast_entry w ! e)))],
         ast_entry := (ast_entry w)[e := advance nd len (ast_entry w ! e)]\<rparr>"
proof -
  have links: "list_all (\<lambda>l. below N (link_node l)) (link_next nd)" using nd by (simp add: ast_node_def)
  obtain k where k: "entry_container e w = Inr k" "below (container_size w) k" "k = ent_index (ast_entry w ! e)" using entry_container_returns [OF w] by blast
  have kb: "below AST_SIZE k" using good_below [OF w(1) k(2)] .
  obtain v where v: "add_object k (ref AST_TYPE_NODE node) w = Inr v" "good {} N v" "since (\<lambda>_. 0) N 0 w v" "steady w v"
    by (rule add_object_returns [OF w(1) since_refl kb]) (use limit_node [of "{}", OF _ node] in auto)
  have v': "v = w\<lparr>ast_container := (ast_container w)[nat k := with_node node (ast_container w ! nat k)]\<rparr>"
    using v(1) by (auto simp: add_object_def change_container_def bindE_Inr_iff at_int_Inr_iff with_node_def)
  obtain len where len: "objects k v = Inr len" using objects_returns [OF v(2) kb] by blast
  have e: "e < AST_SIZE" "ast_entry v = ast_entry w" using w(2) v(4) by (simp_all add: active_def steady_def)
  have "entry_in (limit {} N v) (ast_entry v ! e)" using good_entry [OF v(2) e(1)] by simp
  then have "entry_in (limit {} N v) (advance nd len (ast_entry v ! e))"
    using links by (auto simp: entry_in_def advance_def Let_def split: list.split)
  then have "returns (change_entry e (advance nd len) v) (\<lambda>u. good {} N u \<and>
      u = v\<lparr>ast_entry := (ast_entry v)[e := advance nd len (ast_entry v ! e)]\<rparr>)"
    by (intro returns_mono [OF change_entry_good [OF v(2,3) e(1)]]) auto
  then obtain u where u: "change_entry e (advance nd len) v = Inr u" "good {} N u" "u = v\<lparr>ast_entry := (ast_entry v)[e := advance nd len (ast_entry v ! e)]\<rparr>"
    by (elim returnsE) blast
  have "step_node e node nd w = Inr (False, u)" by (simp add: step_node_def k(1) v(1) len u(1))
  then show thesis using that u(2,3) unfolding v' k(3) by simp
qed

text \<open>When the rank of the successor is lower, the weight goes down.\<close>

lemma advance_weight:
  assumes "ent_type x \<noteq> AST_TYPE_EMPTY" "link_next nd \<noteq> [] \<Longrightarrow> min N (rk (link_node (hd (link_next nd)))) < min N (rk (ent_node x))"
  shows "entry_weight rk N (advance nd len x) < entry_weight rk N x"
  using assms by (auto simp: entry_weight_def advance_def Let_def split: list.split)
section \<open>The walk\<close>

definition further :: "(int \<Rightarrow> nat) \<Rightarrow> nat \<Rightarrow> ast_walk_s \<Rightarrow> ast_walk_s \<Rightarrow> bool" where
  "further rk N w v \<longleftrightarrow> counted w < counted v \<and> weight rk N v \<le> weight rk N w + 3 * Suc N \<or>
     counted v = counted w \<and> weight rk N v < weight rk N w"

definition stepped :: "(int \<Rightarrow> nat) \<Rightarrow> nat \<Rightarrow> bool \<Rightarrow> ast_walk_s \<Rightarrow> bool \<times> ast_walk_s \<Rightarrow> bool" where
  "stepped rk N ranked w r \<longleftrightarrow> (case r of (full, v) \<Rightarrow>
     if full then full_tables N v else good {} N v \<and> (ranked \<longrightarrow> further rk N w v))"

lemma outcome_stepped: "returns m (outcome rk {} N 3 w (\<lambda>v. counted w < counted v)) \<Longrightarrow> returns m (stepped rk N ranked w)"
  by (elim returns_mono) (auto simp: outcome_def stepped_def further_def since_def split: if_splits)

lemma plain_ranksD:
  assumes "plain_ranks rk nodes" "below (length nodes) n" "type_of_entry (nodes ! nat n) = AST_TYPE_NODE" "link_next (nodes ! nat n) \<noteq> []"
  shows "rk (link_node (hd (link_next (nodes ! nat n)))) < rk n \<and> rk n \<le> length nodes \<and> rk (link_node (hd (link_next (nodes ! nat n)))) \<le> length nodes"
proof -
  have "nat n < length nodes" "int (nat n) = n" using assms(2) by (auto simp: below_def)
  then show ?thesis using assms(1,3,4) unfolding plain_ranks_def by metis
qed

lemma step_entry_stepped:
  assumes w: "good {} N w" "active e w" and g: "ast_graph nodes" "N = length nodes" and ranked: "ranked \<longrightarrow> plain_ranks rk nodes"
  shows "returns (step_entry nodes e w) (stepped rk N ranked w)"
proof -
  let ?node = "ent_node (ast_entry w ! e)"
  let ?nd = "nodes ! nat ?node"
  have e: "e < length (ast_entry w)" and node: "below N ?node" using active_entry [OF w] by simp_all
  then have at: "at_int nodes ?node = Inr ?nd" and nd: "ast_node N ?nd"
    using g by (auto simp: below_def at_int_def ast_graph_def list_all_length)
  have run: "step_entry nodes e w = (case type_of_entry ?nd of
      AST_TYPE_IF_THEN_ELSE \<Rightarrow> step_if_then_else e ?node ?nd w
    | AST_TYPE_IF_THEN_GOTO \<Rightarrow> step_if_then_goto nodes e ?node ?nd w
    | AST_TYPE_LOOP \<Rightarrow> step_loop e ?node ?nd w
    | AST_TYPE_LOOP_THEN_ELSE \<Rightarrow> step_loop_then_else nodes e ?node ?nd w
    | _ \<Rightarrow> step_node e ?node ?nd w)" using e at by (simp add: step_entry_def Let_def)
  have plain: "returns (step_node e ?node ?nd w) (stepped rk N ranked w)" if t: "type_of_entry ?nd = AST_TYPE_NODE"
  proof -
    obtain v len where v: "step_node e ?node ?nd w = Inr (False, v)" "good {} N v"
      "v = w\<lparr>ast_container := (ast_container w)[nat (ent_index (ast_entry w ! e)) := with_node ?node (ast_container w ! nat (ent_index (ast_entry w ! e)))],
         ast_entry := (ast_entry w)[e := advance ?nd len (ast_entry w ! e)]\<rparr>"
      using step_node_exact [OF w node nd] .
    have "further rk N w v" if ranked
    proof -
      have "min N (rk (link_node (hd (link_next ?nd)))) < min N (rk ?node)" if "link_next ?nd \<noteq> []"
        using plain_ranksD [OF _ _ t that] ranked \<open>ranked\<close> node g(2) by (simp add: min_absorb2)
      then have "entry_weight rk N (advance ?nd len (ast_entry w ! e)) < entry_weight rk N (ast_entry w ! e)"
        using w(2) by (intro advance_weight) (simp_all add: active_def)
      moreover have "weight rk N v = weight rk N (w\<lparr>ast_entry := (ast_entry w)[e := advance ?nd len (ast_entry w ! e)]\<rparr>)" by (simp add: v(3) weight_def)
      ultimately have "weight rk N v < weight rk N w" using weight_update [OF e, of rk N "advance ?nd len (ast_entry w ! e)"] by linarith
      then show ?thesis by (simp add: further_def v(3) counted_def)
    qed
    then show ?thesis using v(1,2) by (simp add: stepped_def)
  qed
  show ?thesis
  proof (cases "type_of_entry ?nd")
    case AST_TYPE_IF_THEN_ELSE
    then show ?thesis unfolding run using nd by (auto simp: ast_node_def intro!: outcome_stepped step_if_then_else_outcome [OF w node nd])
  next
    case AST_TYPE_IF_THEN_GOTO
    then show ?thesis unfolding run using nd by (auto simp: ast_node_def intro!: outcome_stepped step_if_then_goto_outcome [OF w node nd g(2)])
  next
    case AST_TYPE_LOOP
    then show ?thesis unfolding run using nd by (auto simp: ast_node_def intro!: outcome_stepped step_loop_outcome [OF w node nd])
  next
    case AST_TYPE_LOOP_THEN_ELSE
    then show ?thesis unfolding run using nd by (auto simp: ast_node_def intro!: outcome_stepped step_loop_then_else_outcome [OF w node nd _ g(2)])
  qed (use plain run in \<open>auto simp: type_of_entry_def split: if_splits\<close>)
qed

text \<open>At the end either a table is full or there is no entry left.\<close>

definition ast_walked :: "nat \<Rightarrow> bool \<times> ast_walk_s \<Rightarrow> bool" where
  "ast_walked N r \<longleftrightarrow> (case r of (full, v) \<Rightarrow>
     if full then full_tables N v else good {} N v \<and> list_all (\<lambda>x. ent_type x = AST_TYPE_EMPTY) (ast_entry v))"

definition turns_left :: "(int \<Rightarrow> nat) \<Rightarrow> nat \<Rightarrow> ast_walk_s \<Rightarrow> nat" where
  "turns_left rk N w = (4 * AST_SIZE - counted w) * Suc (3 * Suc N) + weight rk N w"

lemma further_turns:
  assumes "further rk N w v" "good {} N v"
  shows "turns_left rk N v < turns_left rk N w"
proof (cases "counted w < counted v")
  case True
  have "counted v < 4 * AST_SIZE" using assms(2) by (simp add: good_def counted_def)
  then have "Suc (4 * AST_SIZE - counted v) \<le> 4 * AST_SIZE - counted w" using True by linarith
  then have "Suc (4 * AST_SIZE - counted v) * Suc (3 * Suc N) \<le> (4 * AST_SIZE - counted w) * Suc (3 * Suc N)" by (rule mult_le_mono1)
  moreover have "weight rk N v \<le> weight rk N w + 3 * Suc N" using assms(1) True by (auto simp: further_def)
  ultimately show ?thesis by (simp add: turns_left_def)
next
  case False
  then show ?thesis using assms(1) by (simp add: further_def turns_left_def)
qed

lemma walk_entries_ends:
  assumes "good {} N w" "ast_graph nodes" "N = length nodes" "ranked \<longrightarrow> plain_ranks rk nodes"
  shows "returns (walk_entries fuel nodes w) (ast_walked N) \<or> walk_entries fuel nodes w = Inl Diverge \<and> \<not> (ranked \<and> turns_left rk N w < fuel)"
  using assms(1)
proof (induction fuel arbitrary: w)
  case (Suc fuel)
  have len: "length (ast_entry w) = AST_SIZE" using Suc.prems by (simp add: good_def tables_in_def table_in_def)
  obtain found where found: "first_entry (\<lambda>e. ent_type e \<noteq> AST_TYPE_EMPTY) AST_SIZE (ast_entry w) = Inr found"
    "case found of None \<Rightarrow> \<forall>k < AST_SIZE. ent_type (ast_entry w ! k) = AST_TYPE_EMPTY | Some k \<Rightarrow> k < AST_SIZE \<and> ent_type (ast_entry w ! k) \<noteq> AST_TYPE_EMPTY"
    by (rule returnsE [OF first_entry_returns [of AST_SIZE "ast_entry w" "\<lambda>e. ent_type e \<noteq> AST_TYPE_EMPTY"]]) (use len in \<open>auto split: option.split_asm\<close>)
  show ?case
  proof (cases found)
    case None
    then have "list_all (\<lambda>x. ent_type x = AST_TYPE_EMPTY) (ast_entry w)" using found(2) len by (simp add: list_all_length)
    then show ?thesis using None found(1) Suc.prems by (simp add: ast_walked_def)
  next
    case (Some e)
    then have act: "active e w" using found(2) by (simp add: active_def)
    obtain r where r: "step_entry nodes e w = Inr r" "stepped rk N ranked w r"
      by (rule returnsE [OF step_entry_stepped [OF Suc.prems act assms(2,3,4)]])
    obtain full v where "r = (full, v)" by (cases r)
    note v = r [unfolded this]
    show ?thesis
    proof (cases full)
      case True
      then show ?thesis using v Some found(1) by (simp add: go_on_def stepped_def ast_walked_def)
    next
      case False
      then have v': "good {} N v" "ranked \<Longrightarrow> turns_left rk N v < turns_left rk N w" using v(2) further_turns by (auto simp: stepped_def)
      from Suc.IH [OF v'(1)] v'(2) show ?thesis using v(1) False Some found(1) by (auto simp: go_on_def)
    qed
  qed
qed simp
section \<open>The whole conversion\<close>

lemma extend_truncate [simp]: "ast_s.truncate (ast_s.extend a \<lparr>tmp_entry = n\<rparr>) = a"
  by (simp add: ast_s.defs)

lemma truncate_fields [simp]:
  "ast_container (ast_s.truncate w) = ast_container w" "ast_if_then_else (ast_s.truncate w) = ast_if_then_else w"
  "ast_if_then_goto (ast_s.truncate w) = ast_if_then_goto w" "ast_loop (ast_s.truncate w) = ast_loop w"
  "ast_entry (ast_s.truncate w) = ast_entry w" "container_size (ast_s.truncate w) = container_size w"
  "if_then_else_size (ast_s.truncate w) = if_then_else_size w" "if_then_goto_size (ast_s.truncate w) = if_then_goto_size w"
  "loop_size (ast_s.truncate w) = loop_size w"
  by (simp_all add: ast_s.defs)

lemma extend_fields [simp]:
  "ast_container (ast_s.extend a m) = ast_container a" "ast_if_then_else (ast_s.extend a m) = ast_if_then_else a"
  "ast_if_then_goto (ast_s.extend a m) = ast_if_then_goto a" "ast_loop (ast_s.extend a m) = ast_loop a"
  "ast_entry (ast_s.extend a m) = ast_entry a" "container_size (ast_s.extend a m) = container_size a"
  "if_then_else_size (ast_s.extend a m) = if_then_else_size a" "if_then_goto_size (ast_s.extend a m) = if_then_goto_size a"
  "loop_size (ast_s.extend a m) = loop_size a"
  by (simp_all add: ast_s.defs)

lemma limit_copy [simp]: "limit S N (ast_s.truncate w) = limit S N w" "limit S N (ast_s.extend a m) = limit S N a"
  by (rule ext, simp add: limit_def split: ast_type.split)+

lemma copy_in [simp]:
  "tables_in L (ast_s.truncate w) = tables_in L w" "tables_in L (ast_s.extend a m) = tables_in L a"
  "full_tables N (ast_s.truncate w) = full_tables N w" "wf_ast N (ast_s.truncate w) = wf_ast N w"
  by (simp_all add: tables_in_def full_tables_def wf_ast_def)

lemma good_wf: "good {} N w \<Longrightarrow> wf_ast N w"
  by (simp add: good_def wf_ast_def)

lemma wf_good:
  assumes "wf_ast N a" "container_size a < AST_SIZE"
  shows "good {} N (ast_s.extend a \<lparr>tmp_entry = 0\<rparr>)"
proof -
  have "tmp_entry (ast_s.extend a \<lparr>tmp_entry = 0\<rparr>) = 0" by (simp add: ast_s.defs)
  then show ?thesis using assms unfolding good_def by (simp add: wf_ast_def AST_SIZE_def)
qed

lemma start_walk_outcome:
  assumes "wf_ast N a" "below N start_node"
  shows "returns (start_walk start_node (ast_s.extend a \<lparr>tmp_entry = 0\<rparr>)) (\<lambda>(full, v). if full then
      (if container_size a = AST_SIZE
       then ast_s.truncate v = a\<lparr>ast_entry := (ast_entry a)[0 := container_entry (int AST_SIZE) start_node 0]\<rparr>
       else full_tables N v) else good {} N v)"
proof -
  let ?w = "ast_s.extend a \<lparr>tmp_entry = 0\<rparr>" and ?S = "{AST_TYPE_CONTAINER}"
  have size: "container_size ?w = container_size a" by (simp add: ast_s.defs)
  have in_S: "entry_in (limit ?S N ?w) (container_entry (int (container_size ?w)) start_node 0)"
    using assms(2) by (simp add: entry_in_def container_entry_def below_def limit_def size)
  have zero: "(0::nat) < AST_SIZE" by (simp add: AST_SIZE_def)
  show ?thesis
  proof (cases "container_size a < AST_SIZE")
    case True
    have g: "good ?S N ?w" "since (\<lambda>_. 0) N 0 ?w ?w" using good_more [OF wf_good [OF assms(1) True]] since_refl by simp_all
    show ?thesis unfolding start_walk_def
    proof (rule returns_step [OF change_entry_good [OF g zero]])
      fix v assume v: "good ?S N v \<and> since (\<lambda>_. 0) N (Suc 0) ?w v \<and>
        v = ?w\<lparr>ast_entry := (ast_entry ?w)[0 := container_entry (int (container_size ?w)) start_node 0]\<rparr>"
      have k: "below AST_SIZE (int (container_size v))" using v True by (simp add: below_def size)
      have "returns (bindE (change_container (int (container_size v)) (\<lambda>c. c\<lparr>con_start_node := start_node\<rparr>) v) count_container)
          (outcome (\<lambda>_. 0) {} N (Suc 0) ?w (\<lambda>_. True))"
      proof (rule returns_step [OF change_container_good [OF _ _ k]])
        fix u assume "good ?S N u \<and> since (\<lambda>_. 0) N (Suc 0) ?w u \<and> steady v u"
        then show "returns (count_container u) (outcome (\<lambda>_. 0) {} N (Suc 0) ?w (\<lambda>_. True))"
          by (intro count_container_outcome [of ?S N u]) auto
      qed (use v in \<open>auto simp: container_in_def\<close>)
      moreover have "\<not> AST_SIZE \<le> container_size v" using v True by (simp add: size)
      ultimately show "returns (if AST_SIZE \<le> container_size v then Inr (True, v)
          else bindE (change_container (int (container_size v)) (\<lambda>c. c\<lparr>con_start_node := start_node\<rparr>) v) count_container)
          (\<lambda>(full, v). if full then
            (if container_size a = AST_SIZE
             then ast_s.truncate v = a\<lparr>ast_entry := (ast_entry a)[0 := container_entry (int AST_SIZE) start_node 0]\<rparr>
             else full_tables N v) else good {} N v)"
        using True by (auto elim!: returns_mono simp: outcome_def split: if_splits)
    qed (use in_S in simp)
  next
    case False
    then have full: "container_size a = AST_SIZE" using assms(1) by (simp add: wf_ast_def)
    have "tables_in (limit {} N a) ?w" using assms(1) by (simp add: wf_ast_def)
    then have "0 < length (ast_entry ?w)" using zero by (simp add: tables_in_def table_in_def)
    then show ?thesis using full by (simp add: start_walk_def change_entry_def size ast_s.defs)
  qed
qed

definition ast_fuel :: "nat \<Rightarrow> nat" where
  "ast_fuel N = 4 * AST_SIZE * Suc (3 * Suc N) + AST_SIZE * Suc N"

lemma turns_left_le: "good {} N w \<Longrightarrow> turns_left rk N w \<le> ast_fuel N"
proof -
  assume "good {} N w"
  then have len: "length (ast_entry w) = AST_SIZE" by (simp add: good_def tables_in_def table_in_def)
  have "sum_list (map (entry_weight rk N) xs) \<le> length xs * Suc N" for xs :: "ast_entry_s list"
  proof (induction xs)
    case (Cons x xs)
    then show ?case using entry_weight_le [of rk N x] by simp
  qed simp
  then have "weight rk N w \<le> AST_SIZE * Suc N" using len by (metis weight_def)
  moreover have "(4 * AST_SIZE - counted w) * Suc (3 * Suc N) \<le> 4 * AST_SIZE * Suc (3 * Suc N)" by (rule mult_le_mono1) simp
  ultimately show ?thesis unfolding turns_left_def ast_fuel_def by linarith
qed

text \<open>
  How the conversion of \<open>ast\<close> ends: with a well-formed tree and no entry left, or, at a full
  table, with the tables as \<open>full_tables\<close> says. When the table of containers is full from the
  start, nothing is done but that the first entry refers to a container past its end.
\<close>

definition ast_result :: "nat \<Rightarrow> ast_s \<Rightarrow> int \<Rightarrow> int \<times> ast_s \<Rightarrow> bool" where
  "ast_result N ast start_node res \<longleftrightarrow>
     (case res of (r, ast') \<Rightarrow>
        if container_size ast = AST_SIZE
        then r = 1 \<and> ast' = ast\<lparr>ast_entry := (ast_entry ast)[0 := container_entry (int AST_SIZE) start_node 0]\<rparr>
        else if r = 0 then wf_ast N ast' \<and> container_size ast' < AST_SIZE \<and>
          list_all (\<lambda>x. ent_type x = AST_TYPE_EMPTY) (ast_entry ast')
        else r = 1 \<and> full_tables N ast')"

lemma cfg_to_ast_cases:
  assumes "ast_graph nodes" "wf_ast (length nodes) ast" "below (length nodes) start_node" "ranked \<longrightarrow> plain_ranks rk nodes"
  shows "returns (cfg_to_ast fuel nodes ast start_node) (ast_result (length nodes) ast start_node) \<or>
     cfg_to_ast fuel nodes ast start_node = Inl Diverge \<and> \<not> (ranked \<and> ast_fuel (length nodes) < fuel)"
proof -
  let ?N = "length nodes"
  obtain full v where v: "start_walk start_node (ast_s.extend ast \<lparr>tmp_entry = 0\<rparr>) = Inr (full, v)"
    "if full then (if container_size ast = AST_SIZE
       then ast_s.truncate v = ast\<lparr>ast_entry := (ast_entry ast)[0 := container_entry (int AST_SIZE) start_node 0]\<rparr>
       else full_tables ?N v) else good {} ?N v"
    using start_walk_outcome [OF assms(2,3)] by (auto simp: returns_def)
  show ?thesis
  proof (cases full)
    case True
    then show ?thesis using v by (auto simp: cfg_to_ast_def go_on_def ast_result_def split: if_splits)
  next
    case False
    then have g: "good {} ?N v" using v(2) by simp
    have room: "container_size ast \<noteq> AST_SIZE"
    proof
      assume "container_size ast = AST_SIZE"
      then show False using v(1) False by (auto simp: start_walk_def change_entry_def bindE_Inr_iff split: if_splits)
    qed
    from walk_entries_ends [OF g assms(1) refl assms(4)] show ?thesis
    proof
      assume "returns (walk_entries fuel nodes v) (ast_walked ?N)"
      then obtain r u where u: "walk_entries fuel nodes v = Inr (r, u)" "ast_walked ?N (r, u)" by (auto simp: returns_def)
      show ?thesis
      proof (cases r)
        case True
        then show ?thesis using u v(1) False room by (simp add: cfg_to_ast_def go_on_def ast_walked_def ast_result_def)
      next
        case not_full: False
        then have "good {} ?N u" using u(2) by (simp add: ast_walked_def)
        moreover from this have "container_size u < AST_SIZE" by (simp add: good_def)
        ultimately show ?thesis using u v(1) False not_full good_wf room
          by (simp add: cfg_to_ast_def go_on_def ast_walked_def ast_result_def)
      qed
    next
      assume "walk_entries fuel nodes v = Inl Diverge \<and> \<not> (ranked \<and> turns_left rk ?N v < fuel)"
      then show ?thesis using v(1) False turns_left_le [OF g, of rk] by (auto simp: cfg_to_ast_def go_on_def)
    qed
  qed
qed

text \<open>
  C29. On a graph whose links, tails and loop exits are in order cfg_to_ast keeps the syntax
  tree well formed, has no fault and returns 0 or 1, or does not end. It returns 0 with no
  table full, no entry left and every reference to an object in use, and 1 with exactly one
  table full. When that is the table of containers, one branch or loop that is referred to
  may be unfinished and not be counted; otherwise every reference is to an object in use
  here too. On a table of containers that is full from the start it returns 1 and only sets
  the first entry.
\<close>
theorem cfg_to_ast_wf:
  assumes "ast_graph nodes" "wf_ast (length nodes) ast" "below (length nodes) start_node"
  shows "cfg_to_ast fuel nodes ast start_node = Inl Diverge \<or>
    (\<exists>res. cfg_to_ast fuel nodes ast start_node = Inr res \<and> ast_result (length nodes) ast start_node res)"
  using cfg_to_ast_cases [OF assms, of False "\<lambda>_. 0" fuel] unfolding returns_def by blast

text \<open>
  C30. cfg_to_ast ends when following the first links of plain nodes goes down in some rank,
  whatever the branches and loops are: every other turn fills a place in one of the tables.
\<close>
theorem cfg_to_ast_ends:
  assumes "ast_graph nodes" "wf_ast (length nodes) ast" "below (length nodes) start_node" "plain_ranks rk nodes"
    and "ast_fuel (length nodes) < fuel"
  shows "\<exists>r ast'. cfg_to_ast fuel nodes ast start_node = Inr (r, ast')"
  using cfg_to_ast_cases [OF assms(1-3), of True rk fuel] assms(4,5) unfolding returns_def by fastforce

end
