(* ===== verification/OutputGraph.thy ===== *)
theory OutputGraph
  imports OutputDot OutputText AstTree
begin

text \<open>
  The graphs for dot show what they are made from: every object of a syntax tree is drawn and
  declared, every link of a control flow graph is drawn, those back into a loop in gold.
\<close>

section \<open>The lines of a table\<close>

lemma sublist_mid: "sublist u t \<Longrightarrow> sublist u (p @ t @ q)"
  by (metis sublist_append_leftI sublist_append_rightI sublist_order.order_trans)

lemma dot_entries_returns:
  assumes "n + k \<le> length xs" "\<And>m. n \<le> m \<Longrightarrow> m < n + k \<Longrightarrow> \<exists>u. f (int m) (xs ! m) = Inr u"
  shows "\<exists>t. dot_entries f n k xs = Inr t \<and> (\<forall>m u. n \<le> m \<longrightarrow> m < n + k \<longrightarrow> f (int m) (xs ! m) = Inr u \<longrightarrow> sublist u t)"
  using assms
proof (induction k arbitrary: n)
  case (Suc k)
  obtain u where u: "f (int n) (xs ! n) = Inr u" using Suc.prems(2) [of n] by auto
  obtain t where t: "dot_entries f (Suc n) k xs = Inr t"
    "\<And>m v. Suc n \<le> m \<Longrightarrow> m < Suc n + k \<Longrightarrow> f (int m) (xs ! m) = Inr v \<Longrightarrow> sublist v t"
    using Suc.IH [of "Suc n"] Suc.prems by fastforce
  have "sublist v (u @ t)" if "n \<le> m" "m < n + Suc k" "f (int m) (xs ! m) = Inr v" for m v
  proof (cases "m = n")
    case True
    then show ?thesis using that(3) u by simp
  next
    case False
    then show ?thesis using t(2) [of m v] that sublist_mid [of v t u "[]"] by simp
  qed
  then show ?case using u t(1) Suc.prems(1) by simp
qed simp

lemma dot_table_returns:
  assumes "size' \<le> AST_SIZE" "length xs = AST_SIZE" "\<And>m. m < size' \<Longrightarrow> \<exists>u. f (int m) (xs ! m) = Inr u"
  shows "\<exists>t. dot_table f size' xs = Inr t \<and> (\<forall>m u. m < size' \<longrightarrow> f (int m) (xs ! m) = Inr u \<longrightarrow> sublist u t)"
  using dot_entries_returns [of 0 "min size' AST_SIZE" xs f] assms by (auto simp: dot_table_def)

section \<open>The graph of the syntax tree\<close>

text \<open>The start of every container in use is a node, and its entry point is there.\<close>

definition starts_named :: "external_entry_point_s list \<Rightarrow> control_flow_node_s list \<Rightarrow> ast_s \<Rightarrow> bool" where
  "starts_named eps nodes ast = list_all (\<lambda>con. below (length nodes) (con_start_node con) \<and>
     entry_point_of (nodes ! nat (con_start_node con)) \<in> {0 .. int (length eps)}) (take (container_size ast) (ast_container ast))"

lemma dot_container_returns:
  assumes "below (length nodes) (con_start_node con)" "entry_point_of (nodes ! nat (con_start_node con)) \<in> {0 .. int (length eps)}"
  shows "\<exists>name. dot_container eps nodes n con = Inr (ast_line ''Container'' n name @ concat (map (dot_container_object n) (con_object con)))"
  using assms by (auto simp: dot_container_def container_name_def at_int_def below_def)

text \<open>The text of a tree: the objects of every table in use are in it.\<close>

lemma output_ast_dot_text:
  assumes "wf_ast N ast" "starts_named eps nodes ast" "0 \<le> fd"
  shows "\<exists>t. output_ast_dot eps ast nodes fd = Inr (0, t) \<and>
    (\<forall>m < container_size ast. \<exists>name. sublist (ast_line ''Container'' (int m) name @
       concat (map (dot_container_object (int m)) (con_object (ast_container ast ! m)))) t) \<and>
    (\<forall>m u. m < if_then_else_size ast \<longrightarrow> dot_if_then_else (int m) (ast_if_then_else ast ! m) = Inr u \<longrightarrow> sublist u t) \<and>
    (\<forall>m u. m < if_then_goto_size ast \<longrightarrow> dot_if_then_goto (int m) (ast_if_then_goto ast ! m) = Inr u \<longrightarrow> sublist u t) \<and>
    (\<forall>m u. m < loop_size ast \<longrightarrow> dot_loop (int m) (ast_loop ast ! m) = Inr u \<longrightarrow> sublist u t)"
proof -
  have lens: "length (ast_container ast) = AST_SIZE" "length (ast_if_then_else ast) = AST_SIZE" "length (ast_if_then_goto ast) = AST_SIZE"
    "length (ast_loop ast) = AST_SIZE" "container_size ast \<le> AST_SIZE" "if_then_else_size ast \<le> AST_SIZE"
    "if_then_goto_size ast \<le> AST_SIZE" "loop_size ast \<le> AST_SIZE"
    using assms(1) by (simp_all add: wf_ast_def tables_in_def table_in_def)
  have con: "\<exists>name. dot_container eps nodes (int m) (ast_container ast ! m) =
      Inr (ast_line ''Container'' (int m) name @ concat (map (dot_container_object (int m)) (con_object (ast_container ast ! m))))"
    if "m < container_size ast" for m
    by (rule dot_container_returns) (use assms(2) that lens in \<open>simp_all add: starts_named_def list_all_length\<close>)
  obtain c where c: "dot_table (dot_container eps nodes) (container_size ast) (ast_container ast) = Inr c"
    "\<And>m u. m < container_size ast \<Longrightarrow> dot_container eps nodes (int m) (ast_container ast ! m) = Inr u \<Longrightarrow> sublist u c"
    using dot_table_returns [OF lens(5,1), of "dot_container eps nodes"] con by blast
  obtain i where i: "dot_table dot_if_then_else (if_then_else_size ast) (ast_if_then_else ast) = Inr i"
    "\<And>m u. m < if_then_else_size ast \<Longrightarrow> dot_if_then_else (int m) (ast_if_then_else ast ! m) = Inr u \<Longrightarrow> sublist u i"
    using dot_table_returns [OF lens(6,2), of dot_if_then_else] by (auto simp: dot_if_then_else_def Let_def)
  obtain g where g: "dot_table dot_if_then_goto (if_then_goto_size ast) (ast_if_then_goto ast) = Inr g"
    "\<And>m u. m < if_then_goto_size ast \<Longrightarrow> dot_if_then_goto (int m) (ast_if_then_goto ast ! m) = Inr u \<Longrightarrow> sublist u g"
    using dot_table_returns [OF lens(7,3), of dot_if_then_goto] by (auto simp: dot_if_then_goto_def Let_def)
  obtain l where l: "dot_table dot_loop (loop_size ast) (ast_loop ast) = Inr l"
    "\<And>m u. m < loop_size ast \<Longrightarrow> dot_loop (int m) (ast_loop ast ! m) = Inr u \<Longrightarrow> sublist u l"
    using dot_table_returns [OF lens(8,4), of dot_loop] by (auto simp: dot_loop_def)
  let ?t = "dot_header @ c @ i @ g @ l @ ''}'' @ newline"
  have run: "output_ast_dot eps ast nodes fd = Inr (0, ?t)" using assms(3) c(1) i(1) g(1) l(1) by (simp add: output_ast_dot_def)
  have parts: "sublist u c \<Longrightarrow> sublist u ?t" "sublist u i \<Longrightarrow> sublist u ?t" "sublist u g \<Longrightarrow> sublist u ?t" "sublist u l \<Longrightarrow> sublist u ?t" for u
    using sublist_mid [of u c dot_header "i @ g @ l @ ''}'' @ newline"] sublist_mid [of u i "dot_header @ c" "g @ l @ ''}'' @ newline"]
      sublist_mid [of u g "dot_header @ c @ i" "l @ ''}'' @ newline"] sublist_mid [of u l "dot_header @ c @ i @ g" "''}'' @ newline"] by simp_all
  have "\<exists>name. sublist (ast_line ''Container'' (int m) name @
      concat (map (dot_container_object (int m)) (con_object (ast_container ast ! m)))) ?t" if "m < container_size ast" for m
    using con [OF that] c(2) [OF that] parts(1) by blast
  then show ?thesis using run i(2) g(2) l(2) parts(2-4) by blast
qed

lemma sublist_start: "sublist (u @ v) t \<Longrightarrow> sublist u t"
  by (metis sublist_append_rightI sublist_order.order_trans)

lemma sublist_end: "sublist (u @ v) t \<Longrightarrow> sublist v t"
  by (metis sublist_append_leftI sublist_order.order_trans)

lemma sublist_concat: "u \<in> set us \<Longrightarrow> sublist u (concat us)"
  by (induction us) (auto intro: sublist_order.order_trans)

text \<open>
  C39. The picture of a well-formed syntax tree comes out, and it is complete for the
  containers: every object of a container in use is drawn as an edge, and what the edge
  leads to has a line of its own.
\<close>
theorem output_ast_dot_declares:
  assumes "wf_ast N ast" "starts_named eps nodes ast" "0 \<le> fd"
  shows "\<exists>t. output_ast_dot eps ast nodes fd = Inr (0, t) \<and>
    (\<forall>n < container_size ast. \<forall>x \<in> set (con_object (ast_container ast ! n)). obj_type x \<noteq> AST_TYPE_EMPTY \<longrightarrow>
      (\<exists>kind color name. ast_kind (obj_type x) = Some kind \<and>
        sublist (dot_edge ''Container'' (int n) kind (obj_index x) color) t \<and> sublist (ast_line kind (obj_index x) name) t))"
proof -
  obtain t where t: "output_ast_dot eps ast nodes fd = Inr (0, t)"
    "\<And>m. m < container_size ast \<Longrightarrow> \<exists>name. sublist (ast_line ''Container'' (int m) name @
       concat (map (dot_container_object (int m)) (con_object (ast_container ast ! m)))) t"
    "\<And>m u. m < if_then_else_size ast \<Longrightarrow> dot_if_then_else (int m) (ast_if_then_else ast ! m) = Inr u \<Longrightarrow> sublist u t"
    "\<And>m u. m < if_then_goto_size ast \<Longrightarrow> dot_if_then_goto (int m) (ast_if_then_goto ast ! m) = Inr u \<Longrightarrow> sublist u t"
    "\<And>m u. m < loop_size ast \<Longrightarrow> dot_loop (int m) (ast_loop ast ! m) = Inr u \<Longrightarrow> sublist u t"
    using output_ast_dot_text [OF assms] by blast
  have kinds: "\<exists>name. sublist (ast_line ''Container'' (int m) name) t" if "m < container_size ast" for m
    using t(2) [OF that] sublist_start by blast
  have ite: "sublist (ast_line ''if_then_else'' (int m) '''') t" if "m < if_then_else_size ast" for m
    using t(3) [OF that] sublist_start by (auto simp: dot_if_then_else_def Let_def)
  have itg: "sublist (ast_line ''if_then_goto'' (int m) '''') t" if "m < if_then_goto_size ast" for m
    using t(4) [OF that] sublist_start by (auto simp: dot_if_then_goto_def Let_def)
  have loop: "sublist (ast_line ''loop'' (int m) '''') t" if "m < loop_size ast" for m
    using t(5) [OF that] sublist_start by (auto simp: dot_loop_def)
  have "\<exists>kind color name. ast_kind (obj_type x) = Some kind \<and>
      sublist (dot_edge ''Container'' (int n) kind (obj_index x) color) t \<and> sublist (ast_line kind (obj_index x) name) t"
    if n: "n < container_size ast" and x: "x \<in> set (con_object (ast_container ast ! n))" "obj_type x \<noteq> AST_TYPE_EMPTY" for n x
  proof -
    let ?o = "dot_container_object (int n)"
    have "sublist (?o x) (concat (map ?o (con_object (ast_container ast ! n))))" using x(1) by (simp add: sublist_concat)
    then have object: "sublist (?o x) t" using t(2) [OF n] by (meson sublist_append_leftI sublist_order.order_trans)
    have "list_all (container_in (limit {} N ast)) (ast_container ast)" "n < length (ast_container ast)"
      using assms(1) n by (simp_all add: wf_ast_def tables_in_def table_in_def)
    then have "container_in (limit {} N ast) (ast_container ast ! n)" by (simp add: list_all_length)
    then have "ref_in (limit {} N ast) x" using x(1) by (simp add: container_in_def list_all_iff)
    then have range: "below (limit {} N ast (obj_type x)) (obj_index x)" using x(2) by (simp add: ref_in_def)
    have idx: "int (nat (obj_index x)) = obj_index x" using range by (simp add: below_def)
    show ?thesis
      using object range x(2) kinds [of "nat (obj_index x)"] ite [of "nat (obj_index x)"] itg [of "nat (obj_index x)"] loop [of "nat (obj_index x)"] idx
      by (cases "obj_type x")
        (auto simp: dot_container_object_def ast_edge_def ast_kind_def limit_def below_def dest: sublist_start sublist_end)
  qed
  then show ?thesis using t(1) by blast
qed

section \<open>The graph of the nodes\<close>

lemma link_color_two: "links \<le> 2 \<Longrightarrow> \<exists>c. link_color links k l color = Some c \<and> (c = ''gold'' \<longleftrightarrow> is_loop_edge l = 1)"
  by (cases "links = 2"; cases "is_loop_edge l = 1"; cases "k = 0") (simp_all add: link_color_def)

lemma dot_links_text:
  assumes "k + length ls = links" "links \<le> 2"
  shows "\<exists>t color'. dot_links node links k ls color = Inr (t, color') \<and>
    (\<forall>j < length ls. \<exists>c. sublist (link_line node links (k + j) (ls ! j) c) t \<and> (c = ''gold'' \<longleftrightarrow> is_loop_edge (ls ! j) = 1))"
  using assms
proof (induction ls arbitrary: k color)
  case (Cons l ls)
  obtain c where c: "link_color links k l color = Some c" "c = ''gold'' \<longleftrightarrow> is_loop_edge l = 1"
    using link_color_two [OF Cons.prems(2)] by blast
  obtain t color' where t: "dot_links node links (Suc k) ls (Some c) = Inr (t, color')"
    "\<And>j. j < length ls \<Longrightarrow> \<exists>c. sublist (link_line node links (Suc k + j) (ls ! j) c) t \<and> (c = ''gold'' \<longleftrightarrow> is_loop_edge (ls ! j) = 1)"
    using Cons.IH [of "Suc k" "Some c"] Cons.prems by fastforce
  have "\<exists>d. sublist (link_line node links (k + j) ((l # ls) ! j) d) (link_line node links k l c @ t) \<and> (d = ''gold'' \<longleftrightarrow> is_loop_edge ((l # ls) ! j) = 1)"
    if "j < length (l # ls)" for j
  proof (cases j)
    case 0
    then show ?thesis using c(2) by auto
  next
    case (Suc i)
    then show ?thesis using t(2) [of i] that sublist_mid [of _ t "link_line node links k l c" "[]"] by auto
  qed
  then show ?case using c(1) t(1) by auto
qed simp

lemma dot_nodes_text:
  assumes "list_all (\<lambda>nd. node_valid nd \<noteq> 0 \<longrightarrow> length (link_next nd) \<le> 2) nds"
    and "\<And>m. m < length nds \<Longrightarrow> node_valid (nds ! m) \<noteq> 0 \<Longrightarrow> \<exists>t. draw (n + int m) (nds ! m) = Inr t"
  shows "\<exists>t. dot_nodes draw n nds color = Inr t \<and>
    (\<forall>m < length nds. node_valid (nds ! m) \<noteq> 0 \<longrightarrow> (\<forall>j < length (link_next (nds ! m)). \<exists>c.
       sublist (link_line (n + int m) (length (link_next (nds ! m))) j (link_next (nds ! m) ! j) c) t \<and>
       (c = ''gold'' \<longleftrightarrow> is_loop_edge (link_next (nds ! m) ! j) = 1)))"
    (is "\<exists>t. _ \<and> ?all n nds t")
  using assms
proof (induction nds arbitrary: n color)
  case (Cons nd nds)
  have tail: "\<exists>t. draw (n + 1 + int m) (nds ! m) = Inr t" if "m < length nds" "node_valid (nds ! m) \<noteq> 0" for m
    using Cons.prems(2) [of "Suc m"] that by (simp add: algebra_simps)
  have rest: "\<exists>t. dot_nodes draw (n + 1) nds color = Inr t \<and> ?all (n + 1) nds t" for color
    by (rule Cons.IH) (use Cons.prems(1) tail in auto)
  have shift: "?all n (nd # nds) t" if "?all (n + 1) nds t"
    "node_valid nd \<noteq> 0 \<Longrightarrow> \<forall>j < length (link_next nd). \<exists>c. sublist (link_line n (length (link_next nd)) j (link_next nd ! j) c) t \<and>
       (c = ''gold'' \<longleftrightarrow> is_loop_edge (link_next nd ! j) = 1)" for t
    using that by (auto simp: less_Suc_eq_0_disj algebra_simps)
  show ?case
  proof (cases "node_valid nd = 0")
    case True
    then show ?thesis using rest [of color] shift by auto
  next
    case False
    obtain t where t: "draw n nd = Inr t" using Cons.prems(2) [of 0] False by auto
    obtain u color' where u: "dot_links n (length (link_next nd)) 0 (link_next nd) color = Inr (u, color')"
      "\<forall>j < length (link_next nd). \<exists>c. sublist (link_line n (length (link_next nd)) j (link_next nd ! j) c) u \<and>
         (c = ''gold'' \<longleftrightarrow> is_loop_edge (link_next nd ! j) = 1)"
      using dot_links_text [of 0 "link_next nd" "length (link_next nd)" n color] Cons.prems(1) False by auto
    obtain v where v: "dot_nodes draw (n + 1) nds color' = Inr v" "?all (n + 1) nds v" using rest by blast
    have "?all n (nd # nds) (t @ u @ v)"
    proof (rule shift)
      show "?all (n + 1) nds (t @ u @ v)" using v(2) sublist_mid [of _ v "t @ u" "[]"] by simp meson
      show "\<forall>j < length (link_next nd). \<exists>c. sublist (link_line n (length (link_next nd)) j (link_next nd ! j) c) (t @ u @ v) \<and>
         (c = ''gold'' \<longleftrightarrow> is_loop_edge (link_next nd ! j) = 1)" using u(2) sublist_mid [of _ u t v] by meson
    qed
    then show ?thesis using False t u(1) v(1) by auto
  qed
qed simp

text \<open>
  C40. The picture of a function whose nodes have at most two links comes out, and every
  link of a valid node is drawn in it, in gold exactly when it is a loop edge.
\<close>
theorem output_cfg_dot_basic2_edges:
  assumes "list_all (\<lambda>nd. node_valid nd \<noteq> 0 \<longrightarrow> length (link_next nd) \<le> 2) (drop 1 (eep_nodes ep))" "fd \<noteq> 0"
  shows "\<exists>t. output_cfg_dot_basic2 ep fd = Inr (0, t) \<and>
    (\<forall>n < length (eep_nodes ep). 0 < n \<longrightarrow> node_valid (eep_nodes ep ! n) \<noteq> 0 \<longrightarrow> (\<forall>j < length (link_next (eep_nodes ep ! n)). \<exists>c.
       sublist (link_line (int n) (length (link_next (eep_nodes ep ! n))) j (link_next (eep_nodes ep ! n) ! j) c) t \<and>
       (c = ''gold'' \<longleftrightarrow> is_loop_edge (link_next (eep_nodes ep ! n) ! j) = 1)))"
proof -
  let ?nds = "drop 1 (eep_nodes ep)"
  obtain t where t: "dot_nodes (dot_basic2_node (eep_name ep)) 1 ?nds None = Inr t"
    "\<And>m j. m < length ?nds \<Longrightarrow> node_valid (?nds ! m) \<noteq> 0 \<Longrightarrow> j < length (link_next (?nds ! m)) \<Longrightarrow> \<exists>c.
       sublist (link_line (1 + int m) (length (link_next (?nds ! m))) j (link_next (?nds ! m) ! j) c) t \<and>
       (c = ''gold'' \<longleftrightarrow> is_loop_edge (link_next (?nds ! m) ! j) = 1)"
    using dot_nodes_text [OF assms(1), of "dot_basic2_node (eep_name ep)" 1 None] by (auto simp: dot_basic2_node_def)
  have "\<exists>c. sublist (link_line (int n) (length (link_next (eep_nodes ep ! n))) j (link_next (eep_nodes ep ! n) ! j) c) (dot_header @ t @ ''}'' @ newline) \<and>
      (c = ''gold'' \<longleftrightarrow> is_loop_edge (link_next (eep_nodes ep ! n) ! j) = 1)"
    if "n < length (eep_nodes ep)" "0 < n" "node_valid (eep_nodes ep ! n) \<noteq> 0" "j < length (link_next (eep_nodes ep ! n))" for n j
  proof -
    have "n - 1 < length ?nds" using that(1,2) by simp
    then show ?thesis
      using t(2) [of "n - 1" j] that sublist_mid [of _ t dot_header "''}'' @ newline"] by (auto simp: of_nat_diff)
  qed
  then show ?thesis using assms(2) t(1) by (auto simp: output_cfg_dot_basic2_def)
qed

text \<open>
  When the first node that is drawn has more than two links, the colour of the lines was never set.
\<close>
theorem dot_color_unset:
  assumes "0 < fd" "eep_nodes ep = n0 # nd # nds" "node_valid nd \<noteq> 0" "2 < length (link_next nd)"
  shows "output_cfg_dot_basic2 ep fd = Inl Uninit"
  using assms by (cases "link_next nd") (auto simp: output_cfg_dot_basic2_def dot_basic2_node_def link_color_def One_nat_def)

end
