(* ===== verification/OutputExamples.thy ===== *)
theory OutputExamples
  imports OutputText LabelExamples
begin

text \<open>
  The C text of a small function with a branch, and the lines of some of its instructions.
\<close>

declare One_nat_def [simp del]

section \<open>A function with a branch\<close>

text \<open>
  Entry 2 branches to 3 and 4, which both go on at 5. The values 1, 2 and 3 are a parameter, a
  local and a constant.
\<close>

definition ex_entry_at :: "inst_log_entry_s \<Rightarrow> int list \<Rightarrow> int list \<Rightarrow> inst_log_entry_s" where
  "ex_entry_at e ps ns = e\<lparr>value1 := ex_value 1, value2 := ex_value 3, value3 := ex_value 2, prev := ps, next_inst := ns\<rparr>"

definition ex_c_log :: "inst_log_entry_s list" where
  "ex_c_log = [ex_step [] [1], ex_entry_at (ex_alu OP_ADD) [0] [2], ex_entry_at (ex_alu OP_BC) [1] [3, 4],
     ex_entry_at (ex_alu OP_SUB) [2] [5], ex_entry_at (ex_alu OP_ADD) [2] [5], ex_entry_at (ex_alu OP_RET) [3, 4] []]"

definition ex_c_args :: c_args where
  "ex_c_args = \<lparr>arg_self = ex_self\<lparr>inst_log_entry := ex_c_log\<rparr>, extensions = (\<lambda>_. None),
     redirects = [\<lparr>redirect = 0\<rparr>, \<lparr>redirect = 1\<rparr>, \<lparr>redirect = 2\<rparr>, \<lparr>redirect = 3\<rparr>], arg_labels = ex_labels, line_end = newline\<rparr>"

definition ex_out :: out_s where
  "ex_out = \<lparr>written = '''', buffer = None\<rparr>"

lemma ex_c_ready: "list_all (c_ready ex_c_args) [1 .. 5]" by code_simp


lemma output_function_body_labels_witness:
  "\<exists>r t. output_function_body ex_c_args 1 5 ex_out = Inr (r, t) \<and> sublist (''label0005:'' @ newline) (written t)"
proof -
  obtain r t where run: "output_function_body ex_c_args 1 5 ex_out = Inr (r, t)"
    using output_body_comes_out [OF ex_c_ready] unfolding comes_out_def by blast
  have "linked (inst_log_entry (arg_self ex_c_args))" "3 < length (inst_log_entry (arg_self ex_c_args))"
    "5 \<in> set (next_inst (inst_log_entry (arg_self ex_c_args) ! 3))" "''label'' @ label_no 5 @ '':'' @ newline = ''label0005:'' @ newline" by code_simp+
  then show ?thesis using output_function_body_labels [OF run, of 3 5] run by simp
qed

lemma else_goto_unlabelled_witness:
  "suffix (tab @ ''else goto label0003;'' @ newline) (written (snd (projr (output_inst_in_c ex_c_args 2 ex_out)))) \<and>
    label_line newline 3 (ex_c_log ! 3) = ''''"
proof -
  have run: "output_inst_in_c ex_c_args 2 ex_out = Inr (False, snd (projr (output_inst_in_c ex_c_args 2 ex_out)))"
    "at_int (inst_log_entry (arg_self ex_c_args)) 2 = Inr (ex_c_log ! 2)" "opcode (instruction (ex_c_log ! 2)) = OP_BC"
    "value_type (value3 (ex_c_log ! 2)) \<in> {0..6}" "next_inst (ex_c_log ! 2) = [2 + 1, 4]" "prev (ex_c_log ! 3) = [2]"
    "line_end ex_c_args = newline" "''else goto label'' @ label_no (2 + 1) @ '';'' @ newline = ''else goto label0003;'' @ newline" by code_simp+
  show ?thesis using else_goto_unlabelled [OF run(1,2) _ run(4,5,6)] run(3,7,8) by simp
qed

text \<open>A comparison with the number 5.\<close>

lemma if_expression_immediate_witness:
  "if_expression ex_c_args 5 (ex_entry (ex_inst OP_CMP (ex_reg 0x10) (ex_number 5) (ex_reg 0x10))) ex_out =
    Inr (False, ex_out\<lparr>written := ''(0x5 == 0x5) ''\<rparr>)"
proof -
  have c: "comparison 5 = Some '' == ''" by (simp add: comparison_def)
  have "''0x'' @ hex64 (index (ex_number 5)) = ''0x5''" "written ex_out = ''''" by code_simp+
  then show ?thesis
    using if_expression_immediate [OF _ c, of "ex_entry (ex_inst OP_CMP (ex_reg 0x10) (ex_number 5) (ex_reg 0x10))" ex_c_args ex_out]
    by (simp add: ex_entry_def ex_inst_def ex_number_def ex_reg_def plain_def)
qed

text \<open>Two lines of the function that differ in the operator.\<close>

lemma output_3_labels_injective_witness:
  "written (snd (projr (output_3_labels ex_c_args (ex_c_log ! 1) 1 ''+'' ex_out))) \<noteq>
    written (snd (projr (output_3_labels ex_c_args (ex_c_log ! 3) 3 ''-'' ex_out)))"
proof -
  have run: "output_3_labels ex_c_args (ex_c_log ! 1) 1 ''+'' ex_out = Inr (False, snd (projr (output_3_labels ex_c_args (ex_c_log ! 1) 1 ''+'' ex_out)))"
    "output_3_labels ex_c_args (ex_c_log ! 3) 3 ''-'' ex_out = Inr (False, snd (projr (output_3_labels ex_c_args (ex_c_log ! 3) 3 ''-'' ex_out)))"
    "line_labels ex_c_args (ex_c_log ! 1) (ex_labels ! 2) (ex_labels ! 1) (ex_labels ! 3)"
    "line_labels ex_c_args (ex_c_log ! 3) (ex_labels ! 2) (ex_labels ! 1) (ex_labels ! 3)" by code_simp+
  show ?thesis using output_3_labels_injective [OF run(1,3) _ run(2,4)] by auto
qed

end
