(* ===== verification/AstWalk.thy ===== *)
theory AstWalk
  imports AstTree
begin

text \<open>
  What \<open>cfg_to_ast\<close> makes of plain nodes in a row and in a circle, and where it goes wrong: a loop
  that starts with a branch, and the head of a loop with one link.
\<close>

section \<open>Plain nodes in a row\<close>

text \<open>While the first entry is in use it is the one that goes on.\<close>

lemma first_entry_zero: "active 0 w \<Longrightarrow> good S N w \<Longrightarrow> first_entry (\<lambda>e. ent_type e \<noteq> AST_TYPE_EMPTY) AST_SIZE (ast_entry w) = Inr (Some 0)"
  by (cases "ast_entry w") (auto simp: first_entry_def active_def good_def tables_in_def table_in_def AST_SIZE_def)

lemma plain_turn:
  assumes w: "good {} N w" "active 0 w" and g: "ast_graph nodes" "N = length nodes"
    and nd: "nd = nodes ! nat (ent_node (ast_entry w ! 0))" "type_of_entry nd = AST_TYPE_NODE"
  obtains v len where "\<And>fuel. walk_entries (Suc fuel) nodes w = walk_entries fuel nodes v" "good {} N v"
    "v = w\<lparr>ast_container := (ast_container w)[nat (ent_index (ast_entry w ! 0)) :=
           with_node (ent_node (ast_entry w ! 0)) (ast_container w ! nat (ent_index (ast_entry w ! 0)))],
         ast_entry := (ast_entry w)[0 := advance nd len (ast_entry w ! 0)]\<rparr>"
proof -
  let ?node = "ent_node (ast_entry w ! 0)"
  have e: "0 < length (ast_entry w)" and node: "below N ?node" using active_entry [OF w] by simp_all
  then have at: "at_int nodes ?node = Inr nd" and nd': "ast_node N nd"
    using g nd(1) by (auto simp: below_def at_int_def ast_graph_def list_all_length)
  obtain v len where v: "step_node 0 ?node nd w = Inr (False, v)" "good {} N v"
    "v = w\<lparr>ast_container := (ast_container w)[nat (ent_index (ast_entry w ! 0)) := with_node ?node (ast_container w ! nat (ent_index (ast_entry w ! 0)))],
       ast_entry := (ast_entry w)[0 := advance nd len (ast_entry w ! 0)]\<rparr>"
    using step_node_exact [OF w node nd'] .
  have "step_entry nodes 0 w = Inr (False, v)" using e at v(1) nd(2) by (simp add: step_entry_def Let_def)
  then have "walk_entries (Suc fuel) nodes w = walk_entries fuel nodes v" for fuel
    using first_entry_zero [OF w(2,1)] by (simp add: go_on_def)
  then show thesis using that v(2,3) by blast
qed

text \<open>A chain of plain nodes, up to one without successors or one that leads to node 0.\<close>

definition next_plain :: "control_flow_node_s list \<Rightarrow> int \<Rightarrow> int \<Rightarrow> bool" where
  "next_plain nodes n m \<longleftrightarrow> below (length nodes) n \<and> type_of_entry (nodes ! nat n) = AST_TYPE_NODE \<and>
     (case link_next (nodes ! nat n) of [] \<Rightarrow> m = 0 | l # _ \<Rightarrow> link_node l = m)"

fun plain_chain :: "control_flow_node_s list \<Rightarrow> int list \<Rightarrow> bool" where
  "plain_chain nodes [] \<longleftrightarrow> False"
| "plain_chain nodes [n] \<longleftrightarrow> next_plain nodes n 0"
| "plain_chain nodes (n # m # ns) \<longleftrightarrow> next_plain nodes n m \<and> m \<noteq> 0 \<and> plain_chain nodes (m # ns)"

lemma advance_to:
  assumes "next_plain nodes n m" "ent_type x = AST_TYPE_CONTAINER" "ent_node_end x = 0"
  shows "m = 0 \<Longrightarrow> ent_type (advance (nodes ! nat n) len x) = AST_TYPE_EMPTY"
    "m \<noteq> 0 \<Longrightarrow> ent_type (advance (nodes ! nat n) len x) = AST_TYPE_CONTAINER \<and> ent_index (advance (nodes ! nat n) len x) = ent_index x \<and>
      ent_node (advance (nodes ! nat n) len x) = m \<and> ent_node_end (advance (nodes ! nat n) len x) = 0"
  using assms by (auto simp: next_plain_def advance_def Let_def split: list.split_asm)

lemma active_zero: "good S N w \<Longrightarrow> active 0 w \<longleftrightarrow> ent_type (ast_entry w ! 0) \<noteq> AST_TYPE_EMPTY"
  by (simp add: active_def AST_SIZE_def)

lemma walk_chain:
  assumes "plain_chain nodes (n # ns)" "good {} N w" "ast_graph nodes" "N = length nodes"
    and "ent_type (ast_entry w ! 0) = AST_TYPE_CONTAINER" "ent_index (ast_entry w ! 0) = k" "ent_node (ast_entry w ! 0) = n"
      "ent_node_end (ast_entry w ! 0) = 0" "list_all (\<lambda>x. ent_type x = AST_TYPE_EMPTY) (tl (ast_entry w))"
    and "length ns + 1 < fuel"
  shows "\<exists>v. walk_entries fuel nodes w = Inr (False, v) \<and> container_size v = container_size w \<and> ast_container v = (ast_container w)[nat k :=
     (ast_container w ! nat k)\<lparr>con_object := con_object (ast_container w ! nat k) @ map (ref AST_TYPE_NODE) (n # ns)\<rparr>]"
  using assms
proof (induction ns arbitrary: n w fuel)
  case Nil
  obtain f where f: "fuel = Suc (Suc f)" using Nil.prems(10) by (metis One_nat_def add_0 list.size(3) not_less_zero less_Suc_eq_0_disj nat.exhaust)
  have act: "active 0 w" using Nil.prems(5) active_zero [OF Nil.prems(2)] by simp
  have np: "next_plain nodes n 0" using Nil.prems(1) by simp
  then have t: "type_of_entry (nodes ! nat n) = AST_TYPE_NODE" by (simp add: next_plain_def)
  obtain v len where v: "\<And>fuel. walk_entries (Suc fuel) nodes w = walk_entries fuel nodes v" "good {} N v"
    "v = w\<lparr>ast_container := (ast_container w)[nat k := with_node n (ast_container w ! nat k)],
         ast_entry := (ast_entry w)[0 := advance (nodes ! nat n) len (ast_entry w ! 0)]\<rparr>"
    using plain_turn [OF Nil.prems(2) act Nil.prems(3,4), of "nodes ! nat n"] t Nil.prems(6,7) by auto
  have none: "list_all (\<lambda>x. ent_type x = AST_TYPE_EMPTY) (ast_entry v)"
    using advance_to(1) [OF np Nil.prems(5,8)] Nil.prems(9) by (cases "ast_entry w") (auto simp: v(3))
  have len: "length (ast_entry v) = AST_SIZE" using v(2) by (simp add: good_def tables_in_def table_in_def)
  then have "index_of (\<lambda>e. ent_type e \<noteq> AST_TYPE_EMPTY) (take AST_SIZE (ast_entry v)) = None"
    using none by (simp add: index_of_None list_all_iff)
  then have "walk_entries (Suc f) nodes v = Inr (False, v)" using len by (simp add: first_entry_def)
  then show ?case using v(1) f by (simp add: v(3) with_node_def)
next
  case (Cons m ns)
  obtain f where f: "fuel = Suc f" "length ns + 1 < f" using Cons.prems(10) by (cases fuel) auto
  have act: "active 0 w" using Cons.prems(5) active_zero [OF Cons.prems(2)] by simp
  have np: "next_plain nodes n m" "m \<noteq> 0" "plain_chain nodes (m # ns)" using Cons.prems(1) by simp_all
  then have t: "type_of_entry (nodes ! nat n) = AST_TYPE_NODE" by (simp add: next_plain_def)
  obtain v len where v: "\<And>fuel. walk_entries (Suc fuel) nodes w = walk_entries fuel nodes v" "good {} N v"
    "v = w\<lparr>ast_container := (ast_container w)[nat k := with_node n (ast_container w ! nat k)],
         ast_entry := (ast_entry w)[0 := advance (nodes ! nat n) len (ast_entry w ! 0)]\<rparr>"
    using plain_turn [OF Cons.prems(2) act Cons.prems(3,4), of "nodes ! nat n"] t Cons.prems(6,7) by auto
  have zero: "0 < length (ast_entry w)" using active_entry(1) [OF Cons.prems(2) act] .
  have entry: "ast_entry v ! 0 = advance (nodes ! nat n) len (ast_entry w ! 0)" using zero by (simp add: v(3))
  note to = advance_to(2) [OF np(1) Cons.prems(5,8) np(2), of len, folded entry]
  have rest: "list_all (\<lambda>x. ent_type x = AST_TYPE_EMPTY) (tl (ast_entry v))"
    using Cons.prems(9) by (cases "ast_entry w") (auto simp: v(3))
  have k: "nat k < length (ast_container w)"
    using active_entry(3) [OF Cons.prems(2) act] Cons.prems(2,6) by (auto simp: good_def tables_in_def table_in_def below_def)
  obtain u where u: "walk_entries f nodes v = Inr (False, u)" "container_size u = container_size v" "ast_container u = (ast_container v)[nat k :=
     (ast_container v ! nat k)\<lparr>con_object := con_object (ast_container v ! nat k) @ map (ref AST_TYPE_NODE) (m # ns)\<rparr>]"
    using Cons.IH [OF np(3) v(2) Cons.prems(3,4) _ _ _ _ rest f(2)] to Cons.prems(6) by auto
  have "walk_entries fuel nodes w = Inr (False, u)" using v(1) u(1) f(1) by simp
  moreover have "container_size u = container_size w" using u(2) by (simp add: v(3))
  moreover have "ast_container u = (ast_container w)[nat k :=
     (ast_container w ! nat k)\<lparr>con_object := con_object (ast_container w ! nat k) @ map (ref AST_TYPE_NODE) (n # m # ns)\<rparr>]"
    using u(3) k by (simp add: v(3) with_node_def)
  ultimately show ?case by blast
qed

text \<open>The walk on an empty list of entries starts with a new container.\<close>

lemma start_walk_empty:
  assumes "wf_ast N a" "below N start_node" "Suc (container_size a) < AST_SIZE"
  obtains v where "start_walk start_node (ast_s.extend a \<lparr>tmp_entry = 0\<rparr>) = Inr (False, v)" "good {} N v"
    "ast_entry v = (ast_entry a)[0 := container_entry (int (container_size a)) start_node 0]"
    "ast_container v = (ast_container a)[container_size a := (ast_container a ! container_size a)\<lparr>con_start_node := start_node\<rparr>]"
    "container_size v = Suc (container_size a)"
proof -
  have len: "length (ast_entry a) = AST_SIZE" "length (ast_container a) = AST_SIZE" using assms(1) by (simp_all add: wf_ast_def tables_in_def table_in_def)
  obtain full v where v: "start_walk start_node (ast_s.extend a \<lparr>tmp_entry = 0\<rparr>) = Inr (full, v)" "\<not> full \<longrightarrow> good {} N v"
    using start_walk_outcome [OF assms(1,2)] by (auto simp: returns_def)
  have "0 < AST_SIZE" by (simp add: AST_SIZE_def)
  then have "\<not> full" "ast_entry v = (ast_entry a)[0 := container_entry (int (container_size a)) start_node 0]"
    "ast_container v = (ast_container a)[container_size a := (ast_container a ! container_size a)\<lparr>con_start_node := start_node\<rparr>]"
    "container_size v = Suc (container_size a)"
    using v(1) assms(3) len by (auto simp: start_walk_def change_entry_def change_container_def count_container_def Let_def at_int_def)
  then show thesis using that v by simp
qed

text \<open>
  C31. Plain nodes in a row, up to one without links or one that leads to node 0, become the
  objects of one container in their order; the other containers stay as they are.
\<close>
theorem cfg_to_ast_chain:
  assumes "ast_graph nodes" "wf_ast (length nodes) ast" "Suc (container_size ast) < AST_SIZE"
    and "list_all (\<lambda>x. ent_type x = AST_TYPE_EMPTY) (ast_entry ast)"
    and "plain_chain nodes (start_node # ns)" "length ns + 1 < fuel"
  shows "\<exists>ast'. cfg_to_ast fuel nodes ast start_node = Inr (0, ast') \<and> container_size ast' = Suc (container_size ast) \<and>
    ast_container ast' = (ast_container ast)[container_size ast := (ast_container ast ! container_size ast)
      \<lparr>con_start_node := start_node,
       con_object := con_object (ast_container ast ! container_size ast) @ map (ref AST_TYPE_NODE) (start_node # ns)\<rparr>]"
proof -
  let ?c = "container_size ast"
  have start: "below (length nodes) start_node" using assms(5) by (cases ns) (simp_all add: next_plain_def)
  have len: "length (ast_entry ast) = AST_SIZE" "length (ast_container ast) = AST_SIZE" using assms(2) by (simp_all add: wf_ast_def tables_in_def table_in_def)
  obtain v where v: "start_walk start_node (ast_s.extend ast \<lparr>tmp_entry = 0\<rparr>) = Inr (False, v)" "good {} (length nodes) v"
    "ast_entry v = (ast_entry ast)[0 := container_entry (int ?c) start_node 0]"
    "ast_container v = (ast_container ast)[?c := (ast_container ast ! ?c)\<lparr>con_start_node := start_node\<rparr>]" "container_size v = Suc ?c"
    using start_walk_empty [OF assms(2) start assms(3)] .
  have zero: "ast_entry v ! 0 = container_entry (int ?c) start_node 0" using v(3) len by (simp add: AST_SIZE_def)
  have rest: "list_all (\<lambda>x. ent_type x = AST_TYPE_EMPTY) (tl (ast_entry v))" using assms(4) v(3) by (cases "ast_entry ast") auto
  obtain u where u: "walk_entries fuel nodes v = Inr (False, u)" "container_size u = container_size v" "ast_container u = (ast_container v)[?c :=
     (ast_container v ! ?c)\<lparr>con_object := con_object (ast_container v ! ?c) @ map (ref AST_TYPE_NODE) (start_node # ns)\<rparr>]"
    using walk_chain [OF assms(5) v(2) assms(1) refl _ _ _ _ rest assms(6), of "int ?c"] zero by (auto simp: container_entry_def)
  then show ?thesis using v(1,4,5) assms(3) len by (simp add: cfg_to_ast_def go_on_def)
qed

text \<open>
  C32. cfg_to_ast never ends on plain nodes that lead round in a circle without node 0: the
  objects of the container grow for ever, as only the end node of the entry stops it.
\<close>
theorem cfg_to_ast_diverges:
  assumes "ast_graph nodes" "wf_ast (length nodes) ast" "Suc (container_size ast) < AST_SIZE"
    and "start_node \<in> S" "0 \<notin> S" "\<And>n. n \<in> S \<Longrightarrow> \<exists>m \<in> S. next_plain nodes n m"
  shows "cfg_to_ast fuel nodes ast start_node = Inl Diverge"
proof -
  let ?N = "length nodes"
  have walk: "walk_entries fuel nodes w = Inl Diverge"
    if "good {} ?N w" "ent_type (ast_entry w ! 0) = AST_TYPE_CONTAINER" "ent_node (ast_entry w ! 0) \<in> S" "ent_node_end (ast_entry w ! 0) = 0" for w
    using that
  proof (induction fuel arbitrary: w)
    case (Suc fuel)
    let ?n = "ent_node (ast_entry w ! 0)"
    have act: "active 0 w" using Suc.prems(2) active_zero [OF Suc.prems(1)] by simp
    obtain m where m: "m \<in> S" "next_plain nodes ?n m" using assms(6) [OF Suc.prems(3)] by blast
    have m0: "m \<noteq> 0" using m(1) assms(5) by blast
    have t: "type_of_entry (nodes ! nat ?n) = AST_TYPE_NODE" using m(2) by (simp add: next_plain_def)
    obtain v len where v: "\<And>fuel. walk_entries (Suc fuel) nodes w = walk_entries fuel nodes v" "good {} ?N v"
      "v = w\<lparr>ast_container := (ast_container w)[nat (ent_index (ast_entry w ! 0)) :=
           with_node ?n (ast_container w ! nat (ent_index (ast_entry w ! 0)))],
         ast_entry := (ast_entry w)[0 := advance (nodes ! nat ?n) len (ast_entry w ! 0)]\<rparr>"
      using plain_turn [OF Suc.prems(1) act assms(1) refl refl t] by blast
    have "0 < length (ast_entry w)" using active_entry(1) [OF Suc.prems(1) act] .
    then have entry: "ast_entry v ! 0 = advance (nodes ! nat ?n) len (ast_entry w ! 0)" by (simp add: v(3))
    show ?case unfolding v(1)
      by (rule Suc.IH [OF v(2)]) (use advance_to(2) [OF m(2) Suc.prems(2,4) m0] m(1) entry in simp_all)
  qed simp
  have start: "below ?N start_node" using assms(6) [OF assms(4)] by (auto simp: next_plain_def)
  have "length (ast_entry ast) = AST_SIZE" using assms(2) by (simp add: wf_ast_def tables_in_def table_in_def)
  then have zero: "((ast_entry ast)[0 := x]) ! 0 = x" for x by (simp add: AST_SIZE_def)
  obtain v where v: "start_walk start_node (ast_s.extend ast \<lparr>tmp_entry = 0\<rparr>) = Inr (False, v)" "good {} ?N v"
    "ast_entry v = (ast_entry ast)[0 := container_entry (int (container_size ast)) start_node 0]"
    using start_walk_empty [OF assms(2) start assms(3)] by blast
  have "walk_entries fuel nodes v = Inl Diverge" by (rule walk [OF v(2)]) (use assms(4) in \<open>simp_all add: v(3) zero container_entry_def\<close>)
  then show ?thesis using v(1) by (simp add: cfg_to_ast_def go_on_def)
qed

section \<open>Where the walk goes wrong\<close>

text \<open>The ways of a branch leave the containers alone.\<close>

lemma branch_keeps:
  assumes "branch no_edge put nd k w = Inr (full, v)" "\<And>f w v. put f w = Inr v \<Longrightarrow> ast_container v = ast_container w"
  shows "ast_container v = ast_container w"
  using assms(1) by (auto simp: branch_def new_branch_def add_container_entry_def change_entry_def count_container_def bindE_Inr_iff Let_def
    dest!: assms(2) split: if_split_asm option.split_asm)

lemma puts_keep: "put_then f w = Inr v \<Longrightarrow> ast_container v = ast_container w" "put_else f w = Inr v \<Longrightarrow> ast_container v = ast_container w"
  by (auto simp: put_then_def put_else_def change_if_then_else_def bindE_Inr_iff)

lemma both_ways_keep:
  assumes "both_ways nd w = Inr (False, v)" shows "ast_container v = ast_container w"
proof -
  obtain u where u: "branch True put_then nd 0 w = Inr (False, u)" "branch True put_else nd 1 u = Inr (False, v)"
    using assms by (auto simp: both_ways_def go_on_def bindE_Inr_iff split: if_split_asm)
  show ?thesis using branch_keeps [OF u(1) puts_keep(1)] branch_keeps [OF u(2) puts_keep(2)] by simp
qed

text \<open>
  C33. For a loop that starts with a branch the step adds an object that refers to the next
  free container but puts the branch into the container after the one it works on, whatever
  that held; it changes no other container.
\<close>
theorem loop_container_misplaced:
  assumes "step_loop_then_else nodes e node nd w = Inr (False, v)"
    and "k = ent_index (ast_entry w ! e)" "0 \<le> k"
  shows "ast_container v = (ast_container w)
    [nat k := (ast_container w ! nat k)\<lparr>con_object := con_object (ast_container w ! nat k) @ [ref AST_TYPE_CONTAINER (int (container_size w))]\<rparr>,
     nat (k + 1) := loop_container k (length (con_object (ast_container w ! nat k))) node (if_then_else_size w) (ast_container w ! nat (k + 1))]"
proof -
  obtain len w1 w2 where w12: "entry_container e w = Inr k" "objects k w = Inr len"
    "add_object k (ref AST_TYPE_CONTAINER (int (container_size w))) w = Inr w1"
    "change_container (k + 1) (loop_container k len node (if_then_else_size w1)) w1 = Inr w2"
    and rest: "go_on (count_container w2) (\<lambda>w.
     bindE (change_if_then_else (\<lambda>i. i\<lparr>ite_parent := parent_at (k + 1) 0, expression_node := ref AST_TYPE_NODE node\<rparr>) w) (\<lambda>w.
     go_on (both_ways nd w) (\<lambda>w.
     bindE (is_member_of_loop nodes node (if_tail nd)) (\<lambda>member.
     bindE (objects (k + 1) w) (\<lambda>len.
     bindE (change_entry e (\<lambda>x. if \<not> member then x\<lparr>ent_type := AST_TYPE_EMPTY\<rparr>
         else \<lparr>ent_type = AST_TYPE_CONTAINER, ent_sub_type = 1, ent_index = k + 1, ent_sub_index = int len,
           ent_node = if_tail nd, ent_node_end = 0\<rparr>) w) count_if_then_else))))) = Inr (False, v)"
    using assms(1,2) unfolding step_loop_then_else_def bindE_Inr_iff
    by (auto simp: entry_container_def bindE_Inr_iff at_Inr_iff split: if_split_asm)
  obtain w3 where w3: "count_container w2 = Inr (False, w3)" using rest by (auto simp: go_on_def bindE_Inr_iff split: if_split_asm)
  obtain w4 w5 where w45: "change_if_then_else (\<lambda>i. i\<lparr>ite_parent := parent_at (k + 1) 0, expression_node := ref AST_TYPE_NODE node\<rparr>) w3 = Inr w4"
    "both_ways nd w4 = Inr (False, w5)" using rest w3 by (auto simp: go_on_def bindE_Inr_iff split: if_split_asm)
  have "ast_container v = ast_container w5"
    using rest w3 w45 by (auto simp: go_on_def bindE_Inr_iff change_entry_def count_if_then_else_def Let_def)
  also have "\<dots> = ast_container w4" using both_ways_keep [OF w45(2)] .
  also have "\<dots> = ast_container w3" using w45(1) by (auto simp: change_if_then_else_def bindE_Inr_iff)
  also have "\<dots> = ast_container w2" using w3 by (auto simp: count_container_def Let_def)
  finally show ?thesis using w12(2-4) assms(3)
    by (auto simp: add_object_def change_container_def objects_def bindE_Inr_iff at_int_Inr_iff nat_add_distrib)
qed

text \<open>
  The head of a loop with a single link is read past its links.
\<close>
theorem loop_head_overruns:
  assumes "wf_ast (length nodes) ast" "container_size ast + 2 < AST_SIZE" "below (length nodes) start_node"
    and "type_of_entry (nodes ! nat start_node) = AST_TYPE_LOOP" "link_next (nodes ! nat start_node) = [l]" "below (length nodes) (link_node l)"
  shows "cfg_to_ast (Suc fuel) nodes ast start_node = Inl OutOfBounds"
proof -
  let ?N = "length nodes" and ?nd = "nodes ! nat start_node" and ?S = "{AST_TYPE_LOOP}"
  have "length (ast_entry ast) = AST_SIZE" using assms(1) by (simp add: wf_ast_def tables_in_def table_in_def)
  then have zero: "((ast_entry ast)[0 := x]) ! 0 = x" for x by (simp add: AST_SIZE_def)
  obtain w where w: "start_walk start_node (ast_s.extend ast \<lparr>tmp_entry = 0\<rparr>) = Inr (False, w)" "good {} ?N w"
    "ast_entry w = (ast_entry ast)[0 := container_entry (int (container_size ast)) start_node 0]" "container_size w = Suc (container_size ast)"
    using start_walk_empty [OF assms(1,3)] assms(2) by (metis Suc_lessD add_2_eq_Suc')
  have entry: "ast_entry w ! 0 = container_entry (int (container_size ast)) start_node 0" by (simp add: w(3) zero)
  have act: "active 0 w" using active_zero [OF w(2)] entry by (simp add: container_entry_def)
  have node: "below ?N start_node" by (rule assms(3))
  have g: "good ?S ?N w" "since (\<lambda>_. 0) ?N 0 w w" using good_more [OF w(2)] since_refl by simp_all
  obtain k where k: "entry_container 0 w = Inr k" "below (container_size w) k" using entry_container_returns [OF w(2) act] by blast
  have kb: "below AST_SIZE k" using good_below [OF w(2) k(2)] .
  let ?f = "\<lambda>i. i\<lparr>first_node := ref AST_TYPE_NODE start_node\<rparr>"
  have "returns (change_loop ?f w) (\<lambda>u. good ?S ?N u \<and> since (\<lambda>_. 0) ?N 0 w u \<and> steady w u)"
    by (rule change_loop_good [OF g]) (simp add: loop_in_def limit_node [OF _ node])
  then obtain u where u: "change_loop ?f w = Inr u" "good ?S ?N u" "since (\<lambda>_. 0) ?N 0 w u" "steady w u" by (elim returnsE) blast
  obtain v where v: "add_object k (ref AST_TYPE_LOOP (int (loop_size u))) u = Inr v" "good ?S ?N v" "since (\<lambda>_. 0) ?N 0 w v" "steady u v"
    by (rule add_object_returns [OF u(2,3) kb]) (use ref_in_ref [of AST_TYPE_LOOP ?S ?N u] in auto)
  have "returns (put_body (\<lambda>_. ref AST_TYPE_EMPTY 0) v) (\<lambda>t. good ?S ?N t \<and> since (\<lambda>_. 0) ?N 0 w t \<and> steady v t)"
    by (rule put_goodD [OF puts_good(4) v(2,3)]) (simp add: ref_in_def ref_def)
  then obtain t where t: "put_body (\<lambda>_. ref AST_TYPE_EMPTY 0) v = Inr t" "good ?S ?N t" "since (\<lambda>_. 0) ?N 0 w t" "steady v t" by (elim returnsE) blast
  have sizes: "container_size t = Suc (container_size ast)" "loop_size u = loop_size w" "active 0 t"
    using u(4) v(4) t(4) w(4) act by (simp_all add: steady_def active_def)
  obtain full x where x: "loop_body start_node ?nd 0 t = Inr (full, x)"
    using loop_body_outcome [OF t(2,3) sizes(3), of ?nd 0 start_node] assms(5,6) by (auto simp: returns_def)
  have "\<not> full" using x sizes(1) assms(2,5)
    by (auto simp: loop_body_def new_branch_def put_body_def change_loop_def add_container_entry_def change_entry_def count_container_def bindE_Inr_iff Let_def
      split: if_split_asm option.split_asm)
  then have "step_loop 0 start_node ?nd w = Inl OutOfBounds"
    using x k(1) u(1) v(1) t(1) sizes(2) assms(5) by (simp add: step_loop_def go_on_def loop_body_def)
  moreover have "0 < length (ast_entry w)" "at_int nodes start_node = Inr ?nd" using active_entry(1) [OF w(2) act] node by (simp_all add: at_int_def below_def)
  ultimately have "step_entry nodes 0 w = Inl OutOfBounds" using entry assms(4) by (simp add: step_entry_def container_entry_def Let_def)
  then show ?thesis using w(1) first_entry_zero [OF act w(2)] by (simp add: cfg_to_ast_def go_on_def)
qed

end
