(* ===== verification/AstExamples.thy ===== *)
theory AstExamples
  imports AstWalk GraphExamples
begin

text \<open>
  The syntax tree of small graphs: a branch whose ways meet again, nodes in a row and in a circle,
  a loop whose head has one link, and a loop that starts with a branch.
\<close>

declare One_nat_def [simp del]

section \<open>A graph and empty tables\<close>

definition ex_branch :: "int \<Rightarrow> int list \<Rightarrow> int \<Rightarrow> control_flow_node_s" where
  "ex_branch t next tail = (ex_node [] next)\<lparr>node_type := t, if_tail := tail\<rparr>"

definition ex_ast :: ast_s where
  "ex_ast = (let none = \<lparr>obj_type = AST_TYPE_EMPTY, obj_index = 0\<rparr>;
       top = \<lparr>par_type = AST_TYPE_EMPTY, par_index = 0, par_offset = 0\<rparr> in
     \<lparr>ast_container = replicate AST_SIZE \<lparr>con_parent = top, con_start_node = 0, con_sub_type = 0, con_object = []\<rparr>,
      ast_if_then_else = replicate AST_SIZE \<lparr>ite_parent = top, expression_node = none, if_then = none, if_else = none\<rparr>,
      ast_if_then_goto = replicate AST_SIZE \<lparr>itg_parent = top, itg_expression_node = none, if_then_goto = none\<rparr>,
      ast_loop = replicate AST_SIZE \<lparr>first_node = none, body = none\<rparr>,
      ast_entry = replicate AST_SIZE \<lparr>ent_type = AST_TYPE_EMPTY, ent_sub_type = 0, ent_index = 0, ent_sub_index = 0, ent_node = 0, ent_node_end = 0\<rparr>,
      container_size = 0, if_then_else_size = 0, if_then_goto_size = 0, loop_size = 0\<rparr>)"

lemma ex_ast_wf: "wf_ast N ex_ast"
  by (simp add: ex_ast_def wf_ast_def tables_in_def table_in_def in_defs Let_def AST_SIZE_def list_all_length)

lemma ex_ast_simps [simp]: "container_size ex_ast = 0" "list_all (\<lambda>x. ent_type x = AST_TYPE_EMPTY) (ast_entry ex_ast)"
  by (simp_all add: ex_ast_def Let_def list_all_length)

text \<open>Node 1 branches to 2 and 3, which meet at 4; node 4 leads to 5, the end.\<close>

definition ex_structured :: "control_flow_node_s list" where
  "ex_structured = [ex_node [] [], ex_branch NODE_TYPE_IF_THEN_ELSE [2, 3] 4, ex_branch 0 [4] 0, ex_branch 0 [4] 0, ex_branch 0 [5] 0, ex_branch 0 [] 0]"

lemma ex_structured_graph: "ast_graph ex_structured" "length ex_structured = 6"
  by code_simp+

lemma cfg_to_ast_wf_witness:
  "cfg_to_ast 100 ex_structured ex_ast 1 = Inl Diverge \<or>
    (\<exists>res. cfg_to_ast 100 ex_structured ex_ast 1 = Inr res \<and> ast_result 6 ex_ast 1 res)"
proof -
  have "below (length ex_structured) 1" by code_simp
  from cfg_to_ast_wf [OF ex_structured_graph(1) ex_ast_wf this, of 100] show ?thesis unfolding ex_structured_graph(2) .
qed

lemma cfg_to_ast_ends_witness: "\<exists>r ast'. cfg_to_ast 50000 ex_structured ex_ast 1 = Inr (r, ast')"
proof -
  let ?rk = "\<lambda>n :: int. if n = 2 \<or> n = 3 then 2 else if n = 4 then 1 else 0 :: nat"
  have "list_all (\<lambda>n. type_of_entry (ex_structured ! n) = AST_TYPE_NODE \<longrightarrow> link_next (ex_structured ! n) \<noteq> [] \<longrightarrow>
      ?rk (link_node (hd (link_next (ex_structured ! n)))) < ?rk (int n)) [0 ..< 6]" by code_simp
  then have "plain_ranks ?rk ex_structured"
    unfolding plain_ranks_def ex_structured_graph(2) list_all_iff set_upt by simp
  from cfg_to_ast_ends [OF ex_structured_graph(1) ex_ast_wf _ this, of 1 50000] show ?thesis
    by (simp add: ex_structured_graph(2) below_def ast_fuel_def AST_SIZE_def)
qed

text \<open>Nodes 4 and 5 in a row make one container.\<close>

lemma cfg_to_ast_chain_witness:
  "\<exists>ast'. cfg_to_ast 5 ex_structured ex_ast 4 = Inr (0, ast') \<and> con_object (ast_container ast' ! 0) = [ref AST_TYPE_NODE 4, ref AST_TYPE_NODE 5]"
proof -
  have "plain_chain ex_structured [4, 5]" by code_simp
  from cfg_to_ast_chain [OF ex_structured_graph(1) ex_ast_wf _ _ this, of 5] show ?thesis
    by (auto simp: AST_SIZE_def) (auto simp: ex_ast_def Let_def AST_SIZE_def)
qed

text \<open>A node that leads to itself and is not marked as a loop.\<close>

definition ex_circle :: "control_flow_node_s list" where
  "ex_circle = [ex_node [] [], ex_branch 0 [1] 0]"

lemma cfg_to_ast_diverges_witness: "cfg_to_ast 1000 ex_circle ex_ast 1 = Inl Diverge"
proof -
  have g: "ast_graph ex_circle" "next_plain ex_circle 1 1" by code_simp+
  show ?thesis by (rule cfg_to_ast_diverges [OF g(1) ex_ast_wf, of 1 "{1}"]) (use g(2) in \<open>auto simp: AST_SIZE_def\<close>)
qed

text \<open>The head of a loop with one link.\<close>

lemma loop_head_overruns_witness: "cfg_to_ast 1 [ex_node [] [], ex_branch NODE_TYPE_LOOP [1] 0] ex_ast 1 = Inl OutOfBounds"
proof -
  let ?nodes = "[ex_node [] [], ex_branch NODE_TYPE_LOOP [1] 0]"
  have g: "type_of_entry (?nodes ! nat 1) = AST_TYPE_LOOP" "link_next (?nodes ! nat 1) = [link_next (?nodes ! 1) ! 0]"
    "below (length ?nodes) (link_node (link_next (?nodes ! 1) ! 0))" "below (length ?nodes) 1" by code_simp+
  from loop_head_overruns [OF ex_ast_wf _ g(4,1,2,3), of 0] show ?thesis by (simp add: AST_SIZE_def One_nat_def)
qed

text \<open>A loop that starts with a branch: the branch comes into the container after that of the entry.\<close>

definition ex_looped :: control_flow_node_s where
  "ex_looped = ex_branch NODE_TYPE_LOOP_THEN_ELSE [2, 3] 4"

definition ex_ast_walk :: ast_walk_s where
  "ex_ast_walk = snd (projr (start_walk 1 (ast_s.extend ex_ast \<lparr>tmp_entry = 0\<rparr>)))"

lemma loop_container_misplaced_witness:
  "\<exists>v. step_loop_then_else ex_structured 0 1 ex_looped ex_ast_walk = Inr (False, v) \<and>
    con_object (ast_container v ! 0) = [ref AST_TYPE_CONTAINER 1] \<and> con_object (ast_container v ! 1) = [ref AST_TYPE_IF_THEN_ELSE 0]"
proof -
  define v where "v = snd (projr (step_loop_then_else ex_structured 0 1 ex_looped ex_ast_walk))"
  have "step_loop_then_else ex_structured 0 1 ex_looped ex_ast_walk = Inr (False, v)" unfolding v_def by code_simp
  moreover have "ent_index (ast_entry ex_ast_walk ! 0) = 0" "ast_container ex_ast_walk ! 0 = ast_container ex_ast_walk ! 0"
    "con_object (ast_container ex_ast_walk ! 0) = []" "container_size ex_ast_walk = 1" "if_then_else_size ex_ast_walk = 0" "length (ast_container ex_ast_walk) = 300" by code_simp+
  ultimately show ?thesis using loop_container_misplaced [of ex_structured 0 1 ex_looped ex_ast_walk v 0] by (auto simp: loop_container_def One_nat_def)
qed

end
