(* ===== verification/DotExamples.thy ===== *)
theory DotExamples
  imports OutputGraph OutputExamples AstExamples
begin

text \<open>
  A syntax tree and small control flow graphs as text for dot.
\<close>

declare One_nat_def [simp del]

section \<open>A tree with one container\<close>

definition ex_drawn :: ast_s where
  "ex_drawn = ex_ast\<lparr>container_size := 1,
     ast_container := (ast_container ex_ast)[0 := (ast_container ex_ast ! 0)\<lparr>con_object := [ref AST_TYPE_NODE 4]\<rparr>]\<rparr>"

lemma output_ast_dot_declares_witness:
  "\<exists>t. output_ast_dot [] ex_drawn ex_structured 3 = Inr (0, t) \<and>
    (\<exists>color. sublist (dot_edge ''Container'' 0 ''Node'' 4 color) t) \<and> (\<exists>name. sublist (ast_line ''Node'' 4 name) t)"
proof -
  have wf: "wf_ast 6 ex_drawn"
    by (simp add: ex_drawn_def ex_ast_def wf_ast_def tables_in_def table_in_def in_defs Let_def AST_SIZE_def list_all_length nth_list_update
        ref_in_def ref_def limit_def below_def)
  have named: "starts_named [] ex_structured ex_drawn" by code_simp
  have obj: "container_size ex_drawn = 1" "con_object (ast_container ex_drawn ! 0) = [ref AST_TYPE_NODE 4]"
    by (simp_all add: ex_drawn_def ex_ast_def Let_def AST_SIZE_def)
  show ?thesis
    using output_ast_dot_declares [OF wf named, of 3] obj by (auto simp: ref_def ast_kind_def)
qed

section \<open>Nodes with one and with three links\<close>

definition ex_ep :: "control_flow_node_s list \<Rightarrow> external_entry_point_s" where
  "ex_ep nodes = (ex_callee 0)\<lparr>eep_nodes := nodes\<rparr>"

lemma output_cfg_dot_basic2_edges_witness:
  "\<exists>t. output_cfg_dot_basic2 (ex_ep ex_structured) 3 = Inr (0, t) \<and> (\<exists>c. sublist (link_line 4 1 0 (link_next (ex_structured ! 4) ! 0) c) t \<and> c \<noteq> ''gold'')"
proof -
  have nodes: "list_all (\<lambda>nd. node_valid nd \<noteq> 0 \<longrightarrow> length (link_next nd) \<le> 2) (drop 1 (eep_nodes (ex_ep ex_structured)))"
    "eep_nodes (ex_ep ex_structured) = ex_structured" "node_valid (ex_structured ! 4) \<noteq> 0" "length (link_next (ex_structured ! 4)) = 1"
    "is_loop_edge (link_next (ex_structured ! 4) ! 0) \<noteq> 1" "length ex_structured = 6" by code_simp+
  have "\<exists>t. output_cfg_dot_basic2 (ex_ep ex_structured) 3 = Inr (0, t) \<and>
    (\<forall>n < length ex_structured. 0 < n \<longrightarrow> node_valid (ex_structured ! n) \<noteq> 0 \<longrightarrow> (\<forall>j < length (link_next (ex_structured ! n)). \<exists>c.
       sublist (link_line (int n) (length (link_next (ex_structured ! n))) j (link_next (ex_structured ! n) ! j) c) t \<and>
       (c = ''gold'' \<longleftrightarrow> is_loop_edge (link_next (ex_structured ! n) ! j) = 1)))"
    using output_cfg_dot_basic2_edges [OF nodes(1), of 3] unfolding nodes(2) by simp
  then obtain t where t: "output_cfg_dot_basic2 (ex_ep ex_structured) 3 = Inr (0, t)" and
    "\<And>n j. n < length ex_structured \<Longrightarrow> 0 < n \<Longrightarrow> node_valid (ex_structured ! n) \<noteq> 0 \<Longrightarrow> j < length (link_next (ex_structured ! n)) \<Longrightarrow> \<exists>c.
       sublist (link_line (int n) (length (link_next (ex_structured ! n))) j (link_next (ex_structured ! n) ! j) c) t \<and>
       (c = ''gold'' \<longleftrightarrow> is_loop_edge (link_next (ex_structured ! n) ! j) = 1)" by blast
  from this(2) [of 4 0] nodes(3-6) t show ?thesis by auto
qed

lemma dot_color_unset_witness: "output_cfg_dot_basic2 (ex_ep [ex_node [] [], ex_branch 0 [1, 1, 1] 0]) 3 = Inl Uninit"
proof -
  have "eep_nodes (ex_ep [ex_node [] [], ex_branch 0 [1, 1, 1] 0]) = [ex_node [] [], ex_branch 0 [1, 1, 1] 0]"
    "node_valid (ex_branch 0 [1, 1, 1] 0) \<noteq> 0" "2 < length (link_next (ex_branch 0 [1, 1, 1] 0))" by code_simp+
  from dot_color_unset [OF _ this, of 3] show ?thesis by simp
qed

end
